(* ===== verification/Prelude.thy ===== *)
theory Prelude
  imports Main "HOL-Library.State_Monad" "HOL-Library.Word"
begin

text \<open>
  Shared vocabulary of the development.

  \<^item> Three collections of facts: \<open>run_simps\<close> (what a monadic operation returns and which state it
    leaves), \<open>keeps_rules\<close> (which operations keep a state predicate) and \<open>pure_run\<close> (what an
    operation does when every call to the environment succeeds).
  \<^item> The calculus of \<open>keeps\<close> and \<open>valid\<close> for programs of the state monad: \<open>valid P m Q\<close> says
    that from a state with \<open>P\<close> the program \<open>m\<close> returns a value and a state related by \<open>Q\<close>,
    \<open>keeps I m\<close> that it leaves \<open>I\<close> true.  One rule per construct of the model, so that an
    invariant proof is one application of the rules followed by the facts about its parts.
  \<^item> Loops over intrusive lists (\<open>for_each\<close>, \<open>for_each_ok\<close>) with their rules.
  \<^item> Generic lemmas on lists that several components use.
\<close>

named_theorems run_simps "results and final states of monadic operations"
named_theorems keeps_rules "operations that keep a state predicate"
named_theorems valid_rules "programs whose first part keeps the precondition"
named_theorems pure_run "operations when the environment never fails"

subsection \<open>Programs of the state monad\<close>

definition valid :: "('s \<Rightarrow> bool) \<Rightarrow> ('s, 'a) state \<Rightarrow> ('a \<Rightarrow> 's \<Rightarrow> bool) \<Rightarrow> bool" where
  "valid P m Q \<longleftrightarrow> (\<forall>s. P s \<longrightarrow> Q (fst (run_state m s)) (snd (run_state m s)))"

definition keeps :: "('s \<Rightarrow> bool) \<Rightarrow> ('s, 'a) state \<Rightarrow> bool" where
  "keeps I m \<longleftrightarrow> (\<forall>s. I s \<longrightarrow> I (snd (run_state m s)))"

lemma validI:
  "(\<And>s r s'. P s \<Longrightarrow> run_state m s = (r, s') \<Longrightarrow> Q r s') \<Longrightarrow> valid P m Q"
  by (simp add: valid_def)

lemma validD: "valid P m Q \<Longrightarrow> P s \<Longrightarrow> run_state m s = (r, s') \<Longrightarrow> Q r s'"
  by (fastforce simp: valid_def)

lemma keepsI: "(\<And>s r s'. I s \<Longrightarrow> run_state m s = (r, s') \<Longrightarrow> I s') \<Longrightarrow> keeps I m"
  by (metis keeps_def prod.collapse)

lemma keepsD: "keeps I m \<Longrightarrow> I s \<Longrightarrow> run_state m s = (r, s') \<Longrightarrow> I s'"
  by (fastforce simp: keeps_def)

lemma keeps_valid: "keeps I m \<longleftrightarrow> valid I m (\<lambda>_. I)"
  by (simp add: keeps_def valid_def)

lemma valid_weaken: "valid P' m Q' \<Longrightarrow> (\<And>s. P s \<Longrightarrow> P' s) \<Longrightarrow> (\<And>r s. Q' r s \<Longrightarrow> Q r s) \<Longrightarrow> valid P m Q"
  by (simp add: valid_def)

lemma valid_pre: "valid P' m Q \<Longrightarrow> (\<And>s. P s \<Longrightarrow> P' s) \<Longrightarrow> valid P m Q"
  by (simp add: valid_def)

lemma valid_post: "valid P m Q' \<Longrightarrow> (\<And>r s. Q' r s \<Longrightarrow> Q r s) \<Longrightarrow> valid P m Q"
  by (simp add: valid_def)

lemma valid_conj: "valid P m Q \<Longrightarrow> valid P m R \<Longrightarrow> valid P m (\<lambda>r s. Q r s \<and> R r s)"
  by (simp add: valid_def)

lemma valid_return: "(\<And>s. P s \<Longrightarrow> Q x s) \<Longrightarrow> valid P (State_Monad.return x) Q"
  by (simp add: valid_def)

lemma valid_bind:
  "valid P m R \<Longrightarrow> (\<And>x. valid (R x) (f x) Q) \<Longrightarrow> valid P (State_Monad.bind m f) Q"
  by (fastforce simp: valid_def split: prod.splits)

lemma keeps_return [keeps_rules, simp]: "keeps I (State_Monad.return x)"
  by (simp add: keeps_def)

lemma keeps_bind [keeps_rules]:
  "keeps I m \<Longrightarrow> (\<And>x. keeps I (f x)) \<Longrightarrow> keeps I (State_Monad.bind m f)"
  by (fastforce simp: keeps_def split: prod.splits)

lemma keeps_get [keeps_rules, simp]: "keeps I State_Monad.get"
  by (simp add: keeps_def)

lemma keeps_if [keeps_rules]: "(b \<Longrightarrow> keeps I m) \<Longrightarrow> (\<not> b \<Longrightarrow> keeps I n) \<Longrightarrow> keeps I (if b then m else n)"
  by simp

lemma keeps_case_option [keeps_rules]:
  "(x = None \<Longrightarrow> keeps I m) \<Longrightarrow> (\<And>y. x = Some y \<Longrightarrow> keeps I (f y)) \<Longrightarrow>
   keeps I (case x of None \<Rightarrow> m | Some y \<Rightarrow> f y)"
  by (cases x) auto

lemma keeps_case_sum [keeps_rules]:
  "(\<And>y. x = Inl y \<Longrightarrow> keeps I (f y)) \<Longrightarrow> (\<And>y. x = Inr y \<Longrightarrow> keeps I (g y)) \<Longrightarrow>
   keeps I (case x of Inl y \<Rightarrow> f y | Inr y \<Rightarrow> g y)"
  by (cases x) auto

lemma keeps_case_prod [keeps_rules]:
  "(\<And>a b. x = (a, b) \<Longrightarrow> keeps I (f a b)) \<Longrightarrow> keeps I (case x of (a, b) \<Rightarrow> f a b)"
  by (cases x) auto

lemma keeps_case_list [keeps_rules]:
  "(x = [] \<Longrightarrow> keeps I m) \<Longrightarrow> (\<And>y ys. x = y # ys \<Longrightarrow> keeps I (f y ys)) \<Longrightarrow>
   keeps I (case x of [] \<Rightarrow> m | y # ys \<Rightarrow> f y ys)"
  by (cases x) auto

lemma keeps_let [keeps_rules]: "(\<And>y. y = x \<Longrightarrow> keeps I (f y)) \<Longrightarrow> keeps I (let y = x in f y)"
  by simp

text \<open>The rules for \<open>valid\<close> when the first part only keeps the precondition.\<close>

lemma valid_keeps_bind [valid_rules]:
  "keeps I m \<Longrightarrow> (\<And>x. valid I (f x) Q) \<Longrightarrow> valid I (State_Monad.bind m f) Q"
  by (rule valid_bind) (simp_all add: keeps_valid)

lemma valid_if [valid_rules]:
  "(b \<Longrightarrow> valid P m Q) \<Longrightarrow> (\<not> b \<Longrightarrow> valid P n Q) \<Longrightarrow> valid P (if b then m else n) Q"
  by simp

lemma valid_case_option [valid_rules]:
  "(x = None \<Longrightarrow> valid P m Q) \<Longrightarrow> (\<And>y. x = Some y \<Longrightarrow> valid P (f y) Q) \<Longrightarrow>
   valid P (case x of None \<Rightarrow> m | Some y \<Rightarrow> f y) Q"
  by (cases x) auto

lemma valid_case_sum [valid_rules]:
  "(\<And>y. x = Inl y \<Longrightarrow> valid P (f y) Q) \<Longrightarrow> (\<And>y. x = Inr y \<Longrightarrow> valid P (g y) Q) \<Longrightarrow>
   valid P (case x of Inl y \<Rightarrow> f y | Inr y \<Rightarrow> g y) Q"
  by (cases x) auto

lemma valid_case_prod [valid_rules]:
  "(\<And>a b. x = (a, b) \<Longrightarrow> valid P (f a b) Q) \<Longrightarrow> valid P (case x of (a, b) \<Rightarrow> f a b) Q"
  by (cases x) auto

subsection \<open>Loops over lists\<close>

text \<open>
  \<open>for_each\<close> is a \<open>list_for_each_safe\<close> loop whose body always runs to the next item;
  \<open>for_each_ok\<close> is one whose body returns an error code and leaves the function on the first
  error, so that the loop's own result is the conjunction of the bodies' results.
\<close>

primrec for_each :: "('a \<Rightarrow> ('s, unit) state) \<Rightarrow> 'a list \<Rightarrow> ('s, unit) state" where
  "for_each f [] = State_Monad.return ()"
| "for_each f (x # xs) = State_Monad.bind (f x) (\<lambda>_. for_each f xs)"

primrec for_each_ok :: "('a \<Rightarrow> ('s, bool) state) \<Rightarrow> 'a list \<Rightarrow> ('s, bool) state" where
  "for_each_ok f [] = State_Monad.return True"
| "for_each_ok f (x # xs) =
     State_Monad.bind (f x) (\<lambda>ok. if ok then for_each_ok f xs else State_Monad.return False)"

lemma keeps_for_each [keeps_rules]:
  "(\<And>x. x \<in> set xs \<Longrightarrow> keeps I (f x)) \<Longrightarrow> keeps I (for_each f xs)"
  by (induction xs) (auto intro!: keeps_rules)

lemma keeps_for_each_ok [keeps_rules]:
  "(\<And>x. x \<in> set xs \<Longrightarrow> keeps I (f x)) \<Longrightarrow> keeps I (for_each_ok f xs)"
  by (induction xs) (auto intro!: keeps_rules)

lemma valid_for_each:
  assumes "\<And>x. x \<in> set xs \<Longrightarrow> valid I (f x) (\<lambda>_. I)"
  shows "valid I (for_each f xs) (\<lambda>_. I)"
  using assms keeps_for_each [of xs I f] by (simp add: keeps_valid)

lemma run_for_each_append:
  "run_state (for_each f (xs @ ys)) s = run_state (for_each f ys) (snd (run_state (for_each f xs) s))"
  by (induction xs arbitrary: s) (auto split: prod.splits)

text \<open>
  \<open>fold_each\<close> also carries a value that the body extends, and leaves with \<open>Inl\<close> at the first body
  that fails; \<open>need\<close> leaves a function that reports success when a pointer is NULL.
\<close>

primrec fold_each :: "('a \<Rightarrow> 'b \<Rightarrow> ('s, 'e + 'b) state) \<Rightarrow> 'a list \<Rightarrow> 'b \<Rightarrow> ('s, 'e + 'b) state" where
  "fold_each f [] acc = State_Monad.return (Inr acc)"
| "fold_each f (x # xs) acc =
     State_Monad.bind (f x acc) (\<lambda>r. case r of Inl e \<Rightarrow> State_Monad.return (Inl e) | Inr acc \<Rightarrow> fold_each f xs acc)"

definition need :: "('s, 'a option) state \<Rightarrow> ('a \<Rightarrow> ('s, bool) state) \<Rightarrow> ('s, bool) state" where
  "need m f = State_Monad.bind m (\<lambda>r. case r of None \<Rightarrow> State_Monad.return False | Some x \<Rightarrow> f x)"

lemma keeps_fold_each [keeps_rules]:
  "(\<And>x acc. x \<in> set xs \<Longrightarrow> keeps I (f x acc)) \<Longrightarrow> keeps I (fold_each f xs acc)"
  by (induction xs arbitrary: acc) (auto intro!: keeps_rules)

lemma keeps_need [keeps_rules]: "keeps I m \<Longrightarrow> (\<And>x. keeps I (f x)) \<Longrightarrow> keeps I (need m f)"
  by (auto simp: need_def intro!: keeps_rules)

subsection \<open>Lists\<close>

primrec find_index :: "('a \<Rightarrow> bool) \<Rightarrow> 'a list \<Rightarrow> nat option" where
  "find_index p [] = None"
| "find_index p (x # xs) = (if p x then Some 0 else map_option Suc (find_index p xs))"

lemma find_index_Some:
  "find_index p xs = Some i \<Longrightarrow> i < length xs \<and> p (xs ! i) \<and> (\<forall>j<i. \<not> p (xs ! j))"
  by (induction xs arbitrary: i) (auto split: if_splits simp: nth_Cons' less_Suc_eq_0_disj)

lemma find_index_None: "find_index p xs = None \<longleftrightarrow> (\<forall>x\<in>set xs. \<not> p x)"
  by (induction xs) auto

lemma find_index_append:
  "find_index p (xs @ ys) =
    (case find_index p xs of Some i \<Rightarrow> Some i
     | None \<Rightarrow> map_option (\<lambda>i. length xs + i) (find_index p ys))"
proof (induction xs)
  case Nil
  show ?case by (cases "find_index p ys") auto
next
  case (Cons x xs)
  then show ?case by (cases "find_index p ys") (auto split: option.splits)
qed

lemma count_list_update:
  "i < length xs \<Longrightarrow>
   count_list (xs[i := y]) z + (if xs ! i = z then 1 else 0) = count_list xs z + (if y = z then 1 else 0)"
proof (induction xs arbitrary: i)
  case Nil
  then show ?case by simp
next
  case (Cons x xs)
  then show ?case
  proof (cases i)
    case 0
    then show ?thesis by simp
  next
    case (Suc k)
    with Cons.prems have "k < length xs" by simp
    from Cons.IH [OF this] show ?thesis using Suc by (auto split: if_splits)
  qed
qed

lemma count_list_replicate: "count_list (replicate n x) y = (if x = y then n else 0)"
  by (induction n) auto

lemma set_update_mem: "i < length xs \<Longrightarrow> y \<in> set (xs[i := y])"
  by (simp add: set_update_memI)

end
