(* ===== verification/Hashtable.thy ===== *)
theory Hashtable
  imports Prelude
begin

unbundle bit_operations_syntax

text \<open>
  The string hash table of \<^verbatim>\<open>src/src/hashtable.h\<close> (the macro \<^verbatim>\<open>DECLARE_HASHTABLE_STRING\<close> with one
  value per entry, as \<^verbatim>\<open>table.c\<close> and \<^verbatim>\<open>router.c\<close> instantiate it): hopscotch hashing.

  A table of order \<open>ord\<close> is a list of \<open>2 ^ ord\<close> entries.  Positions are the code's \<^verbatim>\<open>uint32_t\<close>
  values as \<open>nat\<close>, and the mask with \<open>2 ^ ord - 1\<close> is written \<open>mod 2 ^ ord\<close>; a key is the C string a
  key pointer points to, \<open>None\<close> for the pointer \<^verbatim>\<open>HASHTABLE_INVALIDENTRY\<close>; a value is the pointer
  stored in the entry, \<open>None\<close> for the cleared one; the position \<^verbatim>\<open>0xffffffff\<close> is \<open>None\<close>.

  The lemmas show that the code implements a finite map from strings to pointers: \<open>table_inv\<close> is
  the invariant of hopscotch hashing, every operation keeps it, and \<open>hashtable_get\<close> after an
  operation is what a map gives.  This is the interface \<open>string_table\<close>, interpreted here as \<open>ht\<close>.
\<close>

subsection \<open>Entries, hash function\<close>

record 'v entry =
  hop_info :: "32 word"
  key :: "string option"
  val :: "'v option"

type_synonym 'v hashtable = "'v entry list"

datatype ht_status = HASHTABLE_SUCCESS | HASHTABLE_FULL | HASHTABLE_KEYINVAL

definition add_range :: "nat \<Rightarrow> nat" where
  "add_range ord = 2 ^ (ord - 1)"

definition table_size :: "nat \<Rightarrow> nat" where
  "table_size ord = 2 ^ ord"

definition wrap_pos :: "nat \<Rightarrow> nat \<Rightarrow> nat" where
  "wrap_pos ord pos = pos mod table_size ord"

text \<open>
  \<^verbatim>\<open>wrap_pos(a - b)\<close> of the code: the difference is taken modulo \<open>2 ^ 32\<close> and masked, and as the
  table size divides \<open>2 ^ 32\<close> this is the difference modulo the table size.
\<close>

definition sub_pos :: "nat \<Rightarrow> nat \<Rightarrow> nat \<Rightarrow> nat" where
  "sub_pos ord a b = wrap_pos ord (a + (table_size ord - b mod table_size ord))"

definition hop_range :: nat where
  "hop_range = 4 * 8"

definition hs_hash32 :: "32 word \<Rightarrow> nat \<Rightarrow> 32 word" where
  "hs_hash32 key0 ord =
    (let key1 = (key0 XOR 61) XOR drop_bit 16 key0;
         key2 = key1 + push_bit 3 key1;
         key3 = key2 XOR drop_bit 4 key2;
         key4 = key3 * 0x27d4eb2d;
         key5 = key4 XOR drop_bit 15 key4
     in drop_bit (32 - ord) key5)"

text \<open>A \<^verbatim>\<open>char\<close> is signed here (x86-64): bytes from 128 on are sign-extended to 32 bits.\<close>

definition char_to_uint32 :: "char \<Rightarrow> 32 word" where
  "char_to_uint32 c = scast (of_nat (of_char c) :: 8 word)"

fun hash_loop :: "string \<Rightarrow> 32 word \<Rightarrow> 32 word" where
  "hash_loop [] hash = hash"
| "hash_loop (c # cs) hash =
     hash_loop cs (((char_to_uint32 c + push_bit 6 hash) + push_bit 16 hash) - hash)"

definition hash_func :: "nat \<Rightarrow> string \<Rightarrow> nat" where
  "hash_func ord k = unat (hs_hash32 (hash_loop k 0) ord)"

definition is_equal_string :: "string option \<Rightarrow> string \<Rightarrow> bool" where
  "is_equal_string s1 s2 \<longleftrightarrow> s1 = Some s2"

subsection \<open>Creation, lookup, removal\<close>

definition hashtable_create :: "nat \<Rightarrow> 'v hashtable" where
  "hashtable_create ord = replicate (table_size ord) \<lparr>hop_info = 0, key = None, val = None\<rparr>"

lemma unat_drop_bit_less: "w \<noteq> 0 \<Longrightarrow> unat (drop_bit 1 (w :: 32 word)) < unat w"
  by (auto simp: unat_drop_bit_eq drop_bit_eq_div unat_div unat_gt_0)

text \<open>
  The loop that get, put and remove share: walk the hop bits of the hash position, and stop at
  the first position whose bit is set and whose key is equal.
\<close>

function hop_scan :: "nat \<Rightarrow> 'v hashtable \<Rightarrow> string \<Rightarrow> 32 word \<Rightarrow> nat \<Rightarrow> nat option" where
  "hop_scan ord table k hop pos =
    (if hop = 0 then None
     else if hop AND 1 = 1 \<and> is_equal_string (key (table ! pos)) k then Some pos
     else hop_scan ord table k (drop_bit 1 hop) (wrap_pos ord (pos + 1)))"
  by pat_completeness auto
termination
  by (relation "measure (\<lambda>(ord, table, k, hop, pos). unat hop)") (auto dest: unat_drop_bit_less)

declare hop_scan.simps [simp del]

definition hashtable_get :: "nat \<Rightarrow> 'v hashtable \<Rightarrow> string \<Rightarrow> 'v option" where
  "hashtable_get ord table k =
    (let hash_pos = hash_func ord k
     in case hop_scan ord table k (hop_info (table ! hash_pos)) hash_pos of
          Some pos \<Rightarrow> val (table ! pos)
        | None \<Rightarrow> None)"

definition hashtable_remove :: "nat \<Rightarrow> 'v hashtable \<Rightarrow> string \<Rightarrow> 'v option \<times> 'v hashtable" where
  "hashtable_remove ord table k =
    (let hash_pos = hash_func ord k;
         hop = hop_info (table ! hash_pos)
     in case hop_scan ord table k hop hash_pos of
          None \<Rightarrow> (None, table)
        | Some pos \<Rightarrow>
            let value = val (table ! pos);
                table1 = table[pos := (table ! pos)\<lparr>key := None, val := None\<rparr>];
                distance = sub_pos ord pos hash_pos
            in (value, table1[hash_pos := (table1 ! hash_pos)\<lparr>hop_info := hop AND NOT (push_bit distance 1)\<rparr>]))"

subsection \<open>Insertion\<close>

text \<open>
  \<^verbatim>\<open>find_closer_entry\<close>: look, from the farthest position that can still hop here, for an entry
  that may move to the free position, move it, and return the position it left.
\<close>

fun find_closer_from :: "nat \<Rightarrow> 'v hashtable \<Rightarrow> nat \<Rightarrow> nat \<Rightarrow> (nat \<times> 'v hashtable) option" where
  "find_closer_from ord table free_position 0 = None"
| "find_closer_from ord table free_position (Suc d) =
    (let check_distance = Suc d;
         check_position = sub_pos ord free_position check_distance;
         check_hop_info = hop_info (table ! check_position)
     in case find (\<lambda>i. push_bit i 1 AND check_hop_info \<noteq> 0) [0..<check_distance] of
          Some i \<Rightarrow>
            let hop_position = wrap_pos ord (check_position + i);
                table1 = table[free_position := (table ! free_position)
                           \<lparr>key := key (table ! hop_position), val := val (table ! hop_position)\<rparr>];
                new_hop_info = (check_hop_info AND NOT (push_bit i 1)) OR push_bit check_distance 1
            in Some (hop_position,
                 table1[check_position := (table1 ! check_position)\<lparr>hop_info := new_hop_info\<rparr>])
        | None \<Rightarrow> find_closer_from ord table free_position d)"

definition find_closer_entry :: "nat \<Rightarrow> 'v hashtable \<Rightarrow> nat \<Rightarrow> (nat \<times> 'v hashtable) option" where
  "find_closer_entry ord table free_position = find_closer_from ord table free_position (hop_range - 1)"

text \<open>The linear search for an unused entry: at most \<open>add_range\<close> steps from the hash position.\<close>

fun free_scan :: "nat \<Rightarrow> 'v hashtable \<Rightarrow> nat \<Rightarrow> nat \<Rightarrow> nat \<Rightarrow> (nat \<times> nat) option" where
  "free_scan ord table pos free_distance 0 = None"
| "free_scan ord table pos free_distance (Suc fuel) =
    (if key (table ! pos) = None then Some (pos, free_distance)
     else free_scan ord table (wrap_pos ord (pos + 1)) (free_distance + 1) fuel)"

definition insert_at :: "nat \<Rightarrow> 'v hashtable \<Rightarrow> nat \<Rightarrow> nat \<Rightarrow> nat \<Rightarrow> string \<Rightarrow> 'v \<Rightarrow> 'v hashtable" where
  "insert_at ord table hash_pos free_pos free_distance k v =
    (let table1 = table[free_pos := (table ! free_pos)\<lparr>val := Some v, key := Some k\<rparr>];
         hop = hop_info (table1 ! hash_pos)
     in table1[hash_pos := (table1 ! hash_pos)\<lparr>hop_info := hop OR push_bit free_distance 1\<rparr>])"

lemma table_size_pos [simp]: "0 < table_size ord"
  by (simp add: table_size_def)

lemma wrap_pos_less [simp]: "wrap_pos ord p < table_size ord"
  by (simp add: wrap_pos_def)

lemma wrap_pos_id [simp]: "p < table_size ord \<Longrightarrow> wrap_pos ord p = p"
  by (simp add: wrap_pos_def)

lemma sub_pos_less [simp]: "sub_pos ord a b < table_size ord"
  by (simp add: sub_pos_def)

lemma int_sub_pos: "int (sub_pos ord a b) = (int a - int b) mod int (table_size ord)"
proof -
  have le: "b mod table_size ord \<le> table_size ord" by (simp add: less_imp_le)
  have "int (a + (table_size ord - b mod table_size ord)) =
      int a + (int (table_size ord) - int b mod int (table_size ord))"
    unfolding of_nat_add of_nat_diff [OF le] by (simp add: zmod_int)
  then have "int (sub_pos ord a b) =
      (int a + (int (table_size ord) - int b mod int (table_size ord))) mod int (table_size ord)"
    unfolding sub_pos_def wrap_pos_def zmod_int by simp
  also have "\<dots> = (int a - int b + int (table_size ord)) mod int (table_size ord)"
    by (metis (no_types, opaque_lifting) add.commute diff_add_eq mod_add_right_eq mod_diff_right_eq add_diff_eq)
  finally show ?thesis by simp
qed

lemma mod_shift:
  assumes "(f::int) = ((a - s) mod n + i) mod n"
  shows "(f - h) mod n = ((a - h) mod n - (s - i)) mod n"
proof -
  have "(f - h) mod n = (a - s + i - h) mod n"
    using assms by (simp add: mod_diff_left_eq mod_add_left_eq)
  also have "\<dots> = ((a - h) - (s - i)) mod n" by (simp add: algebra_simps)
  finally show ?thesis by (simp only: mod_diff_left_eq)
qed

lemma find_closer_from_distance:
  assumes "find_closer_from ord table fp d = Some (fp', table')"
    and "d < sub_pos ord fp hash_pos"
  shows "sub_pos ord fp' hash_pos < sub_pos ord fp hash_pos"
  using assms
proof (induction ord table fp d rule: find_closer_from.induct)
  case (1 ord table fp)
  then show ?case by simp
next
  case (2 ord table fp d)
  let ?n = "table_size ord" and ?D = "sub_pos ord fp hash_pos"
  show ?case
  proof (cases "find (\<lambda>i. push_bit i 1 AND hop_info (table ! sub_pos ord fp (Suc d)) \<noteq> 0) [0..<Suc d]")
    case None
    then show ?thesis using 2 by (simp add: Let_def del: upt_Suc)
  next
    case (Some i)
    then have i: "i < Suc d" by (auto simp: find_Some_iff simp del: upt_Suc)
    from Some "2.prems" have fp': "fp' = wrap_pos ord (sub_pos ord fp (Suc d) + i)"
      by (simp add: Let_def del: upt_Suc)
    have "int fp' = ((int fp - int (Suc d)) mod int ?n + int i) mod int ?n"
      unfolding fp' wrap_pos_def zmod_int of_nat_add int_sub_pos ..
    then have "int (sub_pos ord fp' hash_pos) =
        ((int fp - int hash_pos) mod int ?n - (int (Suc d) - int i)) mod int ?n"
      unfolding int_sub_pos by (rule mod_shift)
    also have "\<dots> = (int ?D - int (Suc d - i)) mod int ?n"
      unfolding int_sub_pos of_nat_diff [OF less_imp_le [OF i]] ..
    also have "\<dots> = int (?D - (Suc d - i))"
    proof -
      have "Suc d - i \<le> ?D" using "2.prems"(2) by simp
      then have "int ?D - int (Suc d - i) = int (?D - (Suc d - i))" by (simp add: of_nat_diff)
      moreover have "?D - (Suc d - i) < ?n" using sub_pos_less [of ord fp hash_pos] by linarith
      ultimately show ?thesis by (simp only: zmod_int [symmetric] mod_less)
    qed
    finally have "sub_pos ord fp' hash_pos = ?D - (Suc d - i)" by simp
    then show ?thesis using i "2.prems"(2) by simp
  qed
qed

text \<open>The do-while loop of put: insert if the free entry is near enough, else move it closer.\<close>

function put_loop :: "nat \<Rightarrow> 'v hashtable \<Rightarrow> string \<Rightarrow> 'v \<Rightarrow> nat \<Rightarrow> nat \<Rightarrow> nat \<Rightarrow> ht_status \<times> 'v hashtable" where
  "put_loop ord table k v hash_pos free_pos free_distance =
    (if free_distance < hop_range
     then (HASHTABLE_SUCCESS, insert_at ord table hash_pos free_pos free_distance k v)
     else case find_closer_entry ord table free_pos of
            None \<Rightarrow> (HASHTABLE_FULL, table)
          | Some (free_pos', table') \<Rightarrow>
              put_loop ord table' k v hash_pos free_pos' (sub_pos ord free_pos' hash_pos))"
  by pat_completeness auto
termination
proof (relation "measure (\<lambda>(ord, table, k, v, hash_pos, free_pos, free_distance).
    if free_distance = sub_pos ord free_pos hash_pos then free_distance else table_size ord)", goal_cases)
  case 1
  then show ?case by simp
next
  case (2 ord table k v hash_pos free_pos free_distance free_pair free_pos' table')
  then have "hop_range - 1 < free_distance" by (simp add: hop_range_def)
  with 2 find_closer_from_distance [of ord table free_pos "hop_range - 1" free_pos' table' hash_pos]
  show ?case by (auto simp: find_closer_entry_def)
qed

declare put_loop.simps [simp del]

definition hashtable_put ::
    "nat \<Rightarrow> 'v hashtable \<Rightarrow> string option \<Rightarrow> 'v \<Rightarrow> ht_status \<times> 'v option \<times> 'v hashtable" where
  "hashtable_put ord table key_ptr value =
    (case key_ptr of
       None \<Rightarrow> (HASHTABLE_KEYINVAL, None, table)
     | Some k \<Rightarrow>
        let hash_pos = hash_func ord k
        in case hop_scan ord table k (hop_info (table ! hash_pos)) hash_pos of
             Some pos \<Rightarrow>
               (HASHTABLE_SUCCESS, val (table ! pos), table[pos := (table ! pos)\<lparr>val := Some value\<rparr>])
           | None \<Rightarrow>
               (case free_scan ord table hash_pos 0 (add_range ord) of
                  None \<Rightarrow> (HASHTABLE_FULL, None, table)
                | Some (free_pos, free_distance) \<Rightarrow>
                    let (status, table') = put_loop ord table k value hash_pos free_pos free_distance
                    in (status, None, table')))"

subsection \<open>The invariant of hopscotch hashing\<close>

text \<open>
  Bit \<open>d\<close> of the hop word of position \<open>i\<close> says that the entry at \<open>slot ord i d\<close> holds a key that
  hashes to \<open>i\<close>.  No two bits of one hop word lead to equal keys.  An entry no bit refers to is
  free, or holds the stale copy a displacement left behind.
\<close>

definition slot :: "nat \<Rightarrow> nat \<Rightarrow> nat \<Rightarrow> nat" where
  "slot ord i d = wrap_pos ord (i + d)"

definition table_inv :: "nat \<Rightarrow> 'v hashtable \<Rightarrow> bool" where
  "table_inv ord t \<longleftrightarrow> 1 \<le> ord \<and> ord \<le> 31 \<and> length t = table_size ord \<and>
     (\<forall>i<table_size ord. \<forall>d. bit (hop_info (t ! i)) d \<longrightarrow> d < table_size ord \<and>
        (\<exists>k v. key (t ! slot ord i d) = Some k \<and> val (t ! slot ord i d) = Some v \<and> hash_func ord k = i)) \<and>
     (\<forall>i<table_size ord. \<forall>d e. bit (hop_info (t ! i)) d \<longrightarrow> bit (hop_info (t ! i)) e \<longrightarrow>
        key (t ! slot ord i d) = key (t ! slot ord i e) \<longrightarrow> d = e)"

text \<open>\<open>holds ord t k v\<close>: the entry of key \<open>k\<close> is referenced and has value \<open>v\<close>.\<close>

definition holds :: "nat \<Rightarrow> 'v hashtable \<Rightarrow> string \<Rightarrow> 'v \<Rightarrow> bool" where
  "holds ord t k v \<longleftrightarrow> (\<exists>d. bit (hop_info (t ! hash_func ord k)) d \<and>
     key (t ! slot ord (hash_func ord k) d) = Some k \<and> val (t ! slot ord (hash_func ord k) d) = Some v)"

definition unreferenced :: "nat \<Rightarrow> 'v hashtable \<Rightarrow> nat \<Rightarrow> bool" where
  "unreferenced ord t p \<longleftrightarrow> (\<forall>i<table_size ord. \<forall>d. bit (hop_info (t ! i)) d \<longrightarrow> slot ord i d \<noteq> p)"

lemma hash_func_less [simp]: "ord \<le> 31 \<Longrightarrow> hash_func ord k < table_size ord"
proof -
  assume ord: "ord \<le> 31"
  have *: "unat (drop_bit (32 - ord) (w :: 32 word)) < 2 ^ ord" for w
  proof -
    have "unat w < 2 ^ (32 - ord) * 2 ^ ord"
      using ord unsigned_less [of w] by (simp flip: power_add)
    then have "unat w div 2 ^ (32 - ord) < 2 ^ ord"
      by (simp add: less_mult_imp_div_less mult.commute)
    then show ?thesis unfolding unat_drop_bit_eq by (simp add: drop_bit_eq_div)
  qed
  show ?thesis unfolding hash_func_def hs_hash32_def Let_def table_size_def by (rule *)
qed

lemma slot_less [simp]: "slot ord i d < table_size ord"
  by (simp add: slot_def)

lemma slot_eq_iff:
  assumes "d < table_size ord" "e < table_size ord"
  shows "slot ord i d = slot ord i e \<longleftrightarrow> d = e"
proof -
  have *: "d = e" if "d \<le> e" "e < n" "(i + e) mod n = (i + d) mod n" for d e n :: nat
  proof -
    from that have "n dvd i + e - (i + d)" using mod_eq_dvd_iff_nat [of "i + d" "i + e" n] by simp
    with that show ?thesis by (auto dest: dvd_imp_le)
  qed
  show ?thesis
    using assms *[of d e] *[of e d] by (cases "d \<le> e") (auto simp: slot_def wrap_pos_def)
qed

lemma slot_sub_pos: "p < table_size ord \<Longrightarrow> slot ord i (sub_pos ord p i) = p"
proof -
  assume "p < table_size ord"
  have "int (slot ord i (sub_pos ord p i)) = int p mod int (table_size ord)"
    unfolding slot_def wrap_pos_def zmod_int of_nat_add int_sub_pos by (simp add: mod_add_right_eq)
  then show ?thesis using \<open>p < table_size ord\<close> by (simp flip: zmod_int)
qed

lemma sub_pos_slot: "d < table_size ord \<Longrightarrow> sub_pos ord (slot ord i d) i = d"
  using slot_sub_pos [of "slot ord i d" ord i] slot_eq_iff [of "sub_pos ord (slot ord i d) i" ord d i]
  by simp

lemma bit_and_1 [simp]: "(w :: 32 word) AND 1 = 1 \<longleftrightarrow> bit w 0"
  by (metis and_one_eq bit_0 odd_iff_mod_2_eq_one)

lemma bit_mask_test: "i < 32 \<Longrightarrow> 2 ^ i AND (w :: 32 word) \<noteq> 0 \<longleftrightarrow> bit w i"
proof -
  assume i: "i < 32"
  have iff: "bit (2 ^ i AND w) n \<longleftrightarrow> n = i \<and> bit w i" for n
    unfolding push_bit_of_1 [symmetric]
    using i by (auto simp: bit_simps simp del: push_bit_of_1)
  show ?thesis
  proof (cases "bit w i")
    case True
    then have "bit (2 ^ i AND w) i" by (simp only: iff)
    with True show ?thesis by auto
  next
    case False
    then have "2 ^ i AND w = 0" by (intro bit_word_eqI) (simp only: iff, simp)
    with False show ?thesis by simp
  qed
qed

lemma hop_scan_Some:
  "hop_scan ord t k h p = Some q \<Longrightarrow> p < table_size ord \<Longrightarrow>
   \<exists>d. bit h d \<and> q = slot ord p d \<and> key (t ! q) = Some k"
proof (induction ord t k h p rule: hop_scan.induct)
  case (1 ord t k h p)
  show ?case
  proof (cases "h \<noteq> 0 \<and> \<not> (h AND 1 = 1 \<and> is_equal_string (key (t ! p)) k)")
    case True
    with "1.prems" have "hop_scan ord t k (drop_bit 1 h) (wrap_pos ord (p + 1)) = Some q"
      by (subst (asm) hop_scan.simps) auto
    with "1.IH" True obtain d where
      "bit (drop_bit 1 h) d" "q = slot ord (wrap_pos ord (p + 1)) d" "key (t ! q) = Some k"
      by auto
    then have "bit h (Suc d) \<and> q = slot ord p (Suc d) \<and> key (t ! q) = Some k"
      by (simp add: bit_drop_bit_eq slot_def wrap_pos_def mod_simps)
    then show ?thesis by blast
  next
    case False
    with "1.prems" show ?thesis
      by (subst (asm) hop_scan.simps)
        (auto split: if_splits simp: slot_def is_equal_string_def intro!: exI [of _ 0])
  qed
qed

lemma hop_scan_None:
  "hop_scan ord t k h p = None \<Longrightarrow> p < table_size ord \<Longrightarrow> bit h d \<Longrightarrow> key (t ! slot ord p d) \<noteq> Some k"
proof (induction ord t k h p arbitrary: d rule: hop_scan.induct)
  case (1 ord t k h p)
  then have nz: "h \<noteq> 0" by auto
  with "1.prems"(1) have scan: "hop_scan ord t k (drop_bit 1 h) (wrap_pos ord (p + 1)) = None"
    and head: "\<not> (bit h 0 \<and> key (t ! p) = Some k)"
    by (subst (asm) hop_scan.simps, auto simp: is_equal_string_def split: if_splits)+
  show ?case
  proof (cases d)
    case 0
    with head "1.prems" show ?thesis by (simp add: slot_def)
  next
    case (Suc e)
    with "1.prems" have "bit (drop_bit 1 h) e" by (simp add: bit_drop_bit_eq)
    with "1.IH" scan nz head have "key (t ! slot ord (wrap_pos ord (p + 1)) e) \<noteq> Some k"
      by (auto simp: is_equal_string_def)
    with Suc show ?thesis by (simp add: slot_def wrap_pos_def mod_simps)
  qed
qed

subsection \<open>Lookup\<close>

lemma holds_cong:
  "(\<And>d. (bit (hop_info (t' ! hash_func ord k)) d \<and>
     key (t' ! slot ord (hash_func ord k) d) = Some k \<and> val (t' ! slot ord (hash_func ord k) d) = Some v) \<longleftrightarrow>
   (bit (hop_info (t ! hash_func ord k)) d \<and>
     key (t ! slot ord (hash_func ord k) d) = Some k \<and> val (t ! slot ord (hash_func ord k) d) = Some v)) \<Longrightarrow>
   holds ord t' k v \<longleftrightarrow> holds ord t k v"
  by (simp add: holds_def)

lemma table_invD:
  assumes "table_inv ord t"
  shows "1 \<le> ord" "ord \<le> 31" "length t = table_size ord"
    and "i < table_size ord \<Longrightarrow> bit (hop_info (t ! i)) d \<Longrightarrow> d < table_size ord"
    and "i < table_size ord \<Longrightarrow> bit (hop_info (t ! i)) d \<Longrightarrow>
      \<exists>k v. key (t ! slot ord i d) = Some k \<and> val (t ! slot ord i d) = Some v \<and> hash_func ord k = i"
    and "i < table_size ord \<Longrightarrow> bit (hop_info (t ! i)) d \<Longrightarrow> bit (hop_info (t ! i)) e \<Longrightarrow>
      key (t ! slot ord i d) = key (t ! slot ord i e) \<Longrightarrow> d = e"
  using assms unfolding table_inv_def by blast+

lemma table_invI:
  assumes "1 \<le> ord" "ord \<le> 31" "length t = table_size ord"
    and "\<And>i d. i < table_size ord \<Longrightarrow> bit (hop_info (t ! i)) d \<Longrightarrow> d < table_size ord"
    and "\<And>i d. i < table_size ord \<Longrightarrow> bit (hop_info (t ! i)) d \<Longrightarrow>
      \<exists>k v. key (t ! slot ord i d) = Some k \<and> val (t ! slot ord i d) = Some v \<and> hash_func ord k = i"
    and "\<And>i d e. i < table_size ord \<Longrightarrow> bit (hop_info (t ! i)) d \<Longrightarrow> bit (hop_info (t ! i)) e \<Longrightarrow>
      key (t ! slot ord i d) = key (t ! slot ord i e) \<Longrightarrow> d = e"
  shows "table_inv ord t"
  using assms unfolding table_inv_def by blast

lemma hash_func_inv [simp]: "table_inv ord t \<Longrightarrow> hash_func ord k < table_size ord"
  by (simp add: table_invD(2))

text \<open>Two references to one entry are the same reference.\<close>

lemma reference_unique:
  assumes "table_inv ord t" "i < table_size ord" "bit (hop_info (t ! i)) d"
    and "j < table_size ord" "bit (hop_info (t ! j)) e" "slot ord i d = slot ord j e"
  shows "i = j \<and> d = e"
proof -
  have "i = j"
    using table_invD(5) [OF assms(1-3)] table_invD(5) [OF assms(1,4,5)] assms(6) by auto
  then show ?thesis using table_invD(4) [OF assms(1)] assms slot_eq_iff by auto
qed

lemma holds_functional: "table_inv ord t \<Longrightarrow> holds ord t k v \<Longrightarrow> holds ord t k w \<Longrightarrow> v = w"
  unfolding holds_def by (metis (no_types) hash_func_inv option.inject table_invD(6))

lemma hop_scan_holds:
  assumes "table_inv ord t" "hop_scan ord t k (hop_info (t ! hash_func ord k)) (hash_func ord k) = Some p"
  obtains d v where "bit (hop_info (t ! hash_func ord k)) d" "p = slot ord (hash_func ord k) d"
    "key (t ! p) = Some k" "val (t ! p) = Some v" "holds ord t k v"
proof -
  from hop_scan_Some [OF assms(2)] assms(1) obtain d where
    d: "bit (hop_info (t ! hash_func ord k)) d" "p = slot ord (hash_func ord k) d" "key (t ! p) = Some k"
    by auto
  with table_invD(5) [OF assms(1) _ d(1)] assms(1) obtain v where "val (t ! p) = Some v" by auto
  with d that show ?thesis by (auto simp: holds_def)
qed

lemma hop_scan_not_holds:
  assumes "table_inv ord t" "hop_scan ord t k (hop_info (t ! hash_func ord k)) (hash_func ord k) = None"
  shows "\<not> holds ord t k v"
  using hop_scan_None [OF assms(2)] assms(1) by (auto simp: holds_def)

lemma get_eq_Some_iff: "table_inv ord t \<Longrightarrow> hashtable_get ord t k = Some v \<longleftrightarrow> holds ord t k v"
  by (auto simp: hashtable_get_def Let_def split: option.splits
      elim: hop_scan_holds dest: hop_scan_not_holds holds_functional)

lemma get_eq_None_iff: "table_inv ord t \<Longrightarrow> hashtable_get ord t k = None \<longleftrightarrow> (\<forall>v. \<not> holds ord t k v)"
  by (metis get_eq_Some_iff option.exhaust option.simps(3))

lemma get_eqI:
  assumes "table_inv ord t" "table_inv ord t'" "\<And>v. holds ord t' k v \<longleftrightarrow> holds ord t k v"
  shows "hashtable_get ord t' k = hashtable_get ord t k"
  using assms get_eq_Some_iff [OF assms(1)] get_eq_Some_iff [OF assms(2)]
  by (metis option.exhaust)

lemma create_inv [simp]: "1 \<le> ord \<Longrightarrow> ord \<le> 31 \<Longrightarrow> table_inv ord (hashtable_create ord)"
  by (simp add: table_inv_def hashtable_create_def)

lemma get_create [simp]: "1 \<le> ord \<Longrightarrow> ord \<le> 31 \<Longrightarrow> hashtable_get ord (hashtable_create ord) k = None"
  by (simp add: get_eq_None_iff holds_def) (simp add: hashtable_create_def)

subsection \<open>Removal\<close>

lemma bit_clear: "bit ((w :: 32 word) AND NOT (2 ^ d)) e \<longleftrightarrow> bit w e \<and> e \<noteq> d"
  unfolding push_bit_of_1 [symmetric]
  by (cases "e < 32") (auto simp: bit_simps simp del: push_bit_of_1 dest: bit_imp_le_length)

lemma bit_set: "d < 32 \<Longrightarrow> bit ((w :: 32 word) OR 2 ^ d) e \<longleftrightarrow> bit w e \<or> e = d"
  unfolding push_bit_of_1 [symmetric]
  by (auto simp: bit_simps simp del: push_bit_of_1)

lemma remove_spec:
  assumes inv: "table_inv ord t" and rem: "hashtable_remove ord t k = (r, t')"
  shows "table_inv ord t'" and "r = hashtable_get ord t k"
    and "holds ord t' k' v \<longleftrightarrow> k' \<noteq> k \<and> holds ord t k' v"
proof -
  let ?h = "hash_func ord k"
  have "table_inv ord t' \<and> r = hashtable_get ord t k \<and>
      (\<forall>k' v. holds ord t' k' v \<longleftrightarrow> k' \<noteq> k \<and> holds ord t k' v)"
  proof (cases "hop_scan ord t k (hop_info (t ! ?h)) ?h")
    case None
    with rem inv show ?thesis
      by (auto simp: hashtable_remove_def hashtable_get_def Let_def dest: hop_scan_not_holds)
  next
    case (Some p)
    with inv obtain d w where d: "bit (hop_info (t ! ?h)) d" "p = slot ord ?h d" "key (t ! p) = Some k"
      by (auto elim: hop_scan_holds)
    have len: "length t = table_size ord" and h: "?h < table_size ord" and p: "p < table_size ord"
      using inv d by (auto simp: table_invD)
    have dist: "sub_pos ord p ?h = d"
      using d(2) sub_pos_slot [OF table_invD(4) [OF inv h d(1)]] by simp
    have t': "t' = (t[p := (t ! p)\<lparr>key := None, val := None\<rparr>])
        [?h := (t[p := (t ! p)\<lparr>key := None, val := None\<rparr>] ! ?h)
           \<lparr>hop_info := hop_info (t ! ?h) AND NOT (push_bit d 1)\<rparr>]"
      and r: "r = val (t ! p)"
      using rem Some dist by (simp_all add: hashtable_remove_def Let_def)
    have hop: "bit (hop_info (t' ! i)) e \<longleftrightarrow> bit (hop_info (t ! i)) e \<and> \<not> (i = ?h \<and> e = d)"
      if "i < table_size ord" for i e
      using that len h p by (auto simp: t' nth_list_update bit_clear)
    have ent: "key (t' ! j) = (if j = p then None else key (t ! j))"
      "val (t' ! j) = (if j = p then None else val (t ! j))" if "j < table_size ord" for j
      using that len h p by (auto simp: t' nth_list_update)
    have other: "slot ord i e \<noteq> p" if "i < table_size ord" "bit (hop_info (t' ! i)) e" for i e
      using reference_unique [OF inv, of i e ?h d] that d h by (auto simp: hop)
    have inv': "table_inv ord t'"
    proof (rule table_invI)
      show "length t' = table_size ord" using len by (simp add: t')
      show "\<exists>k v. key (t' ! slot ord i d) = Some k \<and> val (t' ! slot ord i d) = Some v \<and> hash_func ord k = i"
        if "i < table_size ord" "bit (hop_info (t' ! i)) d" for i d
        using table_invD(5) [OF inv that(1)] that other by (simp add: hop ent)
      show "d = e" if "i < table_size ord" "bit (hop_info (t' ! i)) d" "bit (hop_info (t' ! i)) e"
        "key (t' ! slot ord i d) = key (t' ! slot ord i e)" for i d e
        using table_invD(6) [OF inv that(1)] that other [OF that(1)] by (simp add: hop ent)
    qed (use table_invD [OF inv] in \<open>simp_all add: hop\<close>)
    moreover have "holds ord t' k' v \<longleftrightarrow> k' \<noteq> k \<and> holds ord t k' v" for k' v
    proof (cases "k' = k")
      case True
      have "e = d" if "bit (hop_info (t ! ?h)) e" "key (t ! slot ord ?h e) = Some k" for e
        using table_invD(6) [OF inv h that(1) d(1)] that d by simp
      with True h show ?thesis by (auto simp: holds_def hop ent)
    next
      case False
      have "slot ord (hash_func ord k') e \<noteq> p" if "key (t ! slot ord (hash_func ord k') e) = Some k'" for e
        using that False d by auto
      with False d h inv have "holds ord t' k' v \<longleftrightarrow> holds ord t k' v"
        by (intro holds_cong) (auto simp: hop ent)
      with False show ?thesis by simp
    qed
    ultimately show ?thesis
      using Some inv by (simp add: r hashtable_get_def)
  qed
  then show "table_inv ord t'" "r = hashtable_get ord t k"
    "holds ord t' k' v \<longleftrightarrow> k' \<noteq> k \<and> holds ord t k' v" by auto
qed

subsection \<open>Insertion\<close>

lemma update_spec:
  assumes inv: "table_inv ord t" and scan: "hop_scan ord t k (hop_info (t ! hash_func ord k)) (hash_func ord k) = Some p"
    and t': "t' = t[p := (t ! p)\<lparr>val := Some v\<rparr>]"
  shows "table_inv ord t'" and "holds ord t' k' w \<longleftrightarrow> (if k' = k then w = v else holds ord t k' w)"
proof -
  let ?h = "hash_func ord k"
  obtain d where d: "bit (hop_info (t ! ?h)) d" "p = slot ord ?h d" "key (t ! p) = Some k"
    by (rule hop_scan_holds [OF inv scan])
  have len: "length t = table_size ord" and h: "?h < table_size ord" and p: "p < table_size ord"
    using inv d by (auto simp: table_invD)
  have eq: "hop_info (t' ! j) = hop_info (t ! j)" "key (t' ! j) = key (t ! j)"
    "val (t' ! j) = (if j = p then Some v else val (t ! j))" if "j < table_size ord" for j
    using that len p by (auto simp: t' nth_list_update)
  show "table_inv ord t'"
  proof (rule table_invI)
    show "length t' = table_size ord" using len by (simp add: t')
    show "\<exists>k v. key (t' ! slot ord i d) = Some k \<and> val (t' ! slot ord i d) = Some v \<and> hash_func ord k = i"
      if "i < table_size ord" "bit (hop_info (t' ! i)) d" for i d
      using table_invD(5) [OF inv that(1)] that by (auto simp: eq)
  qed (use table_invD [OF inv] in \<open>simp_all add: eq\<close>)
  show "holds ord t' k' w \<longleftrightarrow> (if k' = k then w = v else holds ord t k' w)"
  proof (cases "k' = k")
    case True
    have uniq: "e = d" if "bit (hop_info (t ! ?h)) e" "key (t ! slot ord ?h e) = Some k" for e
      using table_invD(6) [OF inv h that(1) d(1)] that d by simp
    have "holds ord t' k w \<longleftrightarrow> w = v"
    proof
      assume "holds ord t' k w"
      then obtain e where e: "bit (hop_info (t' ! ?h)) e" "key (t' ! slot ord ?h e) = Some k"
        "val (t' ! slot ord ?h e) = Some w" by (auto simp: holds_def)
      with h have "e = d" by (intro uniq) (simp_all add: eq)
      with e(3) d(2) show "w = v" by (simp add: eq)
    next
      assume "w = v"
      with h d show "holds ord t' k w" unfolding holds_def by (intro exI [of _ d]) (simp add: eq)
    qed
    with True show ?thesis by simp
  next
    case False
    with inv d have "holds ord t' k' w \<longleftrightarrow> holds ord t k' w"
      by (intro holds_cong) (auto simp: eq)
    with False show ?thesis by simp
  qed
qed

lemma insert_spec:
  assumes inv: "table_inv ord t" and new: "\<And>w. \<not> holds ord t k w"
    and free: "unreferenced ord t fp" and fp: "fp = slot ord (hash_func ord k) fd"
    and fd: "fd < 32" "fd < table_size ord"
    and t': "t' = insert_at ord t (hash_func ord k) fp fd k v"
  shows "table_inv ord t'" and "holds ord t' k' w \<longleftrightarrow> (if k' = k then w = v else holds ord t k' w)"
proof -
  let ?h = "hash_func ord k"
  have len: "length t = table_size ord" and h: "?h < table_size ord" and fpn: "fp < table_size ord"
    using inv fp by (auto simp: table_invD)
  have hop: "bit (hop_info (t' ! i)) e \<longleftrightarrow> bit (hop_info (t ! i)) e \<or> (i = ?h \<and> e = fd)"
    if "i < table_size ord" for i e
    using that len h fpn fd by (auto simp: t' insert_at_def Let_def nth_list_update bit_set)
  have ent: "key (t' ! j) = (if j = fp then Some k else key (t ! j))"
    "val (t' ! j) = (if j = fp then Some v else val (t ! j))" if "j < table_size ord" for j
    using that len h fpn by (auto simp: t' insert_at_def Let_def nth_list_update)
  have other: "slot ord i e \<noteq> fp" if "i < table_size ord" "bit (hop_info (t ! i)) e" for i e
    using free that by (simp add: unreferenced_def)
  have absent: "key (t ! slot ord ?h e) \<noteq> Some k" if "bit (hop_info (t ! ?h)) e" for e
    using table_invD(5) [OF inv h that] new that by (auto simp: holds_def)
  show "table_inv ord t'"
    unfolding table_inv_def
  proof (intro conjI allI impI)
    show "length t' = table_size ord" using len by (simp add: t' insert_at_def Let_def)
  next
    fix i d e
    assume i: "i < table_size ord" and bits: "bit (hop_info (t' ! i)) d" "bit (hop_info (t' ! i)) e"
      and eq: "key (t' ! slot ord i d) = key (t' ! slot ord i e)"
    show "d = e"
      using bits eq i absent other table_invD(6) [OF inv i] fp
      by (auto simp: hop ent split: if_splits)
  qed (use inv other fp fd in \<open>auto simp: hop ent dest: table_invD\<close>)
  show "holds ord t' k' w \<longleftrightarrow> (if k' = k then w = v else holds ord t k' w)"
  proof (cases "k' = k")
    case True
    then show ?thesis using h other fp absent by (auto simp: holds_def hop ent split: if_splits)
  next
    case False
    with hash_func_inv [OF inv, of k'] other fp have "holds ord t' k' w \<longleftrightarrow> holds ord t k' w"
      by (intro holds_cong) (auto simp: hop ent split: if_splits)
    with False show ?thesis by simp
  qed
qed

lemma find_bit_Some:
  "find (\<lambda>i. push_bit i 1 AND (w :: 32 word) \<noteq> 0) [0..<d] = Some i \<Longrightarrow> d \<le> 32 \<Longrightarrow> i < d \<and> bit w i"
  by (auto simp: find_Some_iff bit_mask_test)

lemma move_spec:
  assumes inv: "table_inv ord t" and free: "unreferenced ord t fp" and fp: "fp < table_size ord"
    and cp: "cp = sub_pos ord fp cd" and cd: "cd < 32" "cd < table_size ord"
    and i: "bit (hop_info (t ! cp)) i" "i < cd"
    and hp: "hp = slot ord cp i"
    and t1: "t1 = t[fp := (t ! fp)\<lparr>key := key (t ! hp), val := val (t ! hp)\<rparr>]"
    and t': "t' = t1[cp := (t1 ! cp)\<lparr>hop_info := (hop_info (t ! cp) AND NOT (push_bit i 1)) OR push_bit cd 1\<rparr>]"
  shows "table_inv ord t'" "holds ord t' k w \<longleftrightarrow> holds ord t k w" "unreferenced ord t' hp"
proof -
  have len: "length t = table_size ord" and cpn: "cp < table_size ord" and hpn: "hp < table_size ord"
    using inv cp hp by (auto simp: table_invD)
  have fp_slot: "slot ord cp cd = fp"
  proof -
    have "int (slot ord cp cd) = int fp mod int (table_size ord)"
      unfolding slot_def wrap_pos_def zmod_int of_nat_add cp int_sub_pos by (simp add: mod_add_left_eq)
    with fp show ?thesis by (simp flip: zmod_int)
  qed
  have hop: "bit (hop_info (t' ! j)) e \<longleftrightarrow> bit (hop_info (t ! j)) e \<and> \<not> (j = cp \<and> e = i) \<or> (j = cp \<and> e = cd)"
    if "j < table_size ord" for j e
    using that len cpn fp cd i by (auto simp: t' t1 nth_list_update bit_set bit_clear)
  have ent: "key (t' ! j) = (if j = fp then key (t ! hp) else key (t ! j))"
    "val (t' ! j) = (if j = fp then val (t ! hp) else val (t ! j))" if "j < table_size ord" for j
    using that len cpn fp by (auto simp: t' t1 nth_list_update)
  have other: "slot ord j e \<noteq> fp" if "j < table_size ord" "bit (hop_info (t ! j)) e" for j e
    using free that by (simp add: unreferenced_def)
  from table_invD(5) [OF inv cpn i(1)] hp obtain k0 v0 where
    k0: "key (t ! hp) = Some k0" "val (t ! hp) = Some v0" "hash_func ord k0 = cp" by auto
  have uniq: "e = i" if "bit (hop_info (t ! cp)) e" "key (t ! slot ord cp e) = Some k0" for e
    using table_invD(6) [OF inv cpn that(1) i(1)] that k0 hp by simp
  show "table_inv ord t'"
    unfolding table_inv_def
  proof (intro conjI allI impI)
    show "length t' = table_size ord" using len by (simp add: t' t1)
  next
    fix j d e
    assume j: "j < table_size ord" and bits: "bit (hop_info (t' ! j)) d" "bit (hop_info (t' ! j)) e"
      and eq: "key (t' ! slot ord j d) = key (t' ! slot ord j e)"
    show "d = e"
      using bits eq j uniq other table_invD(6) [OF inv j] fp_slot k0
      by (auto simp: hop ent split: if_splits)
  qed (use inv other fp_slot cd k0 in \<open>auto simp: hop ent dest: table_invD\<close>)
  show "holds ord t' k w \<longleftrightarrow> holds ord t k w"
  proof (cases "k = k0")
    case True
    have "holds ord t k w \<longleftrightarrow> w = v0"
      using True k0 i hp holds_functional [OF inv] by (auto simp: holds_def)
    moreover have "holds ord t' k w \<longleftrightarrow> w = v0"
      using True k0 cpn fp_slot uniq other by (auto simp: holds_def hop ent split: if_splits)
    ultimately show ?thesis by simp
  next
    case False
    then show ?thesis
      using k0 hash_func_inv [OF inv, of k] other fp_slot hp
      by (intro holds_cong) (auto simp: hop ent split: if_splits)
  qed
  show "unreferenced ord t' hp"
    unfolding unreferenced_def
  proof (intro allI impI)
    fix j e assume j: "j < table_size ord" and b: "bit (hop_info (t' ! j)) e"
    show "slot ord j e \<noteq> hp"
      using reference_unique [OF inv j _ cpn i(1), of e] b j other [OF cpn i(1)] fp_slot
      by (auto simp: hop hp)
  qed
qed

lemma find_closer_spec:
  assumes "find_closer_from ord t fp d = Some (hp, t')" "table_inv ord t" "unreferenced ord t fp"
    and "fp < table_size ord" "d < 32" "d < table_size ord"
  shows "table_inv ord t' \<and> (\<forall>k w. holds ord t' k w \<longleftrightarrow> holds ord t k w) \<and>
    unreferenced ord t' hp \<and> hp < table_size ord"
  using assms
proof (induction ord t fp d rule: find_closer_from.induct)
  case (1 ord t fp)
  then show ?case by simp
next
  case (2 ord t fp d)
  let ?cp = "sub_pos ord fp (Suc d)"
  show ?case
  proof (cases "find (\<lambda>i. push_bit i 1 AND hop_info (t ! ?cp) \<noteq> 0) [0..<Suc d]")
    case None
    then show ?thesis using 2 by (simp add: Let_def del: upt_Suc push_bit_of_1)
  next
    case (Some i)
    then have i: "i < Suc d" "bit (hop_info (t ! ?cp)) i"
      using find_bit_Some [OF Some] "2.prems"(5) by simp_all
    from "2.prems"(1) have hp: "hp = slot ord ?cp i"
      and t': "t' = (t[fp := (t ! fp)\<lparr>key := key (t ! hp), val := val (t ! hp)\<rparr>])
        [?cp := (t[fp := (t ! fp)\<lparr>key := key (t ! hp), val := val (t ! hp)\<rparr>] ! ?cp)
          \<lparr>hop_info := (hop_info (t ! ?cp) AND NOT (push_bit i 1)) OR push_bit (Suc d) 1\<rparr>]"
      by (auto simp only: find_closer_from.simps Let_def Some option.case option.inject prod.inject slot_def)
    have hpn: "hp < table_size ord" by (simp add: hp)
    show ?thesis
      using move_spec [OF "2.prems"(2-4) refl "2.prems"(5,6) i(2,1) hp refl t'] hpn by blast
  qed
qed

lemma put_loop_spec:
  assumes "table_inv ord t" "\<And>w. \<not> holds ord t k w" "unreferenced ord t fp" "fp < table_size ord"
    and "fd = sub_pos ord fp (hash_func ord k)"
    and "put_loop ord t k v (hash_func ord k) fp fd = (status, t')"
  shows "table_inv ord t' \<and> status \<noteq> HASHTABLE_KEYINVAL \<and>
    (\<forall>k' w. holds ord t' k' w \<longleftrightarrow>
       (if status = HASHTABLE_SUCCESS \<and> k' = k then w = v else holds ord t k' w))"
  using assms
proof (induction ord t k v "hash_func ord k" fp fd rule: put_loop.induct)
  case (1 ord t k v fp fd)
  have fd: "fd < table_size ord" using "1.prems"(5) by simp
  show ?case
  proof (cases "fd < hop_range")
    case True
    with "1.prems"(6) have st: "status = HASHTABLE_SUCCESS"
      and t': "t' = insert_at ord t (hash_func ord k) fp fd k v"
      by (auto simp: put_loop.simps [of ord t])
    have "fp = slot ord (hash_func ord k) fd" using "1.prems"(4,5) by (simp add: slot_sub_pos)
    note i = insert_spec [OF "1.prems"(1-3) this _ fd t']
    from True show ?thesis using i st by (simp add: hop_range_def)
  next
    case False
    show ?thesis
    proof (cases "find_closer_entry ord t fp")
      case None
      with False "1.prems" show ?thesis by (simp add: put_loop.simps [of ord t])
    next
      case (Some hpt)
      obtain hp t1 where hpt: "hpt = (hp, t1)" by fastforce
      from False fd have "hop_range - 1 < 32" "hop_range - 1 < table_size ord"
        by (simp_all add: hop_range_def)
      with find_closer_spec [of ord t fp "hop_range - 1" hp t1] Some hpt "1.prems"(1,3,4)
      have m: "table_inv ord t1" "\<And>k w. holds ord t1 k w \<longleftrightarrow> holds ord t k w"
        "unreferenced ord t1 hp" "hp < table_size ord"
        by (simp_all add: find_closer_entry_def)
      from False Some hpt "1.prems"(6)
      have "put_loop ord t1 k v (hash_func ord k) hp (sub_pos ord hp (hash_func ord k)) = (status, t')"
        by (simp add: put_loop.simps [of ord t])
      with "1.hyps" [OF False Some hpt [symmetric] m(1) _ m(3,4) refl] m "1.prems"(2) show ?thesis by simp
    qed
  qed
qed

lemma free_scan_Some:
  "free_scan ord t p fd n = Some (p', fd') \<Longrightarrow> p = slot ord h fd \<Longrightarrow>
   p' = slot ord h fd' \<and> fd' < fd + n \<and> key (t ! p') = None"
proof (induction ord t p fd n rule: free_scan.induct)
  case (1 ord t p fd)
  then show ?case by simp
next
  case (2 ord t p fd n)
  have "wrap_pos ord (p + 1) = slot ord h (fd + 1)"
    using "2.prems"(2) by (simp add: slot_def wrap_pos_def mod_simps)
  with 2 show ?case by (fastforce split: if_splits)
qed

lemma add_range_le: "add_range ord \<le> table_size ord"
  by (simp add: add_range_def table_size_def)

lemma unused_unreferenced: "table_inv ord t \<Longrightarrow> key (t ! p) = None \<Longrightarrow> unreferenced ord t p"
  unfolding unreferenced_def using table_invD(5) by fastforce

theorem put_spec:
  assumes inv: "table_inv ord t" and put: "hashtable_put ord t (Some k) v = (status, prev, t')"
  shows "table_inv ord t' \<and> status \<noteq> HASHTABLE_KEYINVAL \<and>
    (\<forall>k' w. holds ord t' k' w \<longleftrightarrow>
       (if status = HASHTABLE_SUCCESS \<and> k' = k then w = v else holds ord t k' w))"
proof (cases "hop_scan ord t k (hop_info (t ! hash_func ord k)) (hash_func ord k)")
  case (Some p)
  with put have "status = HASHTABLE_SUCCESS" "t' = t[p := (t ! p)\<lparr>val := Some v\<rparr>]"
    by (auto simp: hashtable_put_def Let_def)
  with update_spec [OF inv Some] show ?thesis by simp
next
  case None
  have h: "hash_func ord k < table_size ord" using inv by simp
  show ?thesis
  proof (cases "free_scan ord t (hash_func ord k) 0 (add_range ord)")
    case None
    with \<open>hop_scan ord t k _ _ = None\<close> put inv show ?thesis by (simp add: hashtable_put_def)
  next
    case (Some pf)
    obtain fp fd where pf: "pf = (fp, fd)" by fastforce
    from free_scan_Some [of ord t "hash_func ord k" 0 "add_range ord" fp fd "hash_func ord k"] Some pf h
    have fp: "fp = slot ord (hash_func ord k) fd" "fd < table_size ord" "key (t ! fp) = None"
      using add_range_le [of ord] by (auto simp: slot_def)
    have "put_loop ord t k v (hash_func ord k) fp fd = (status, t')"
      using None Some pf put by (auto simp: hashtable_put_def Let_def split: prod.splits)
    with put_loop_spec [OF inv hop_scan_not_holds [OF inv None] unused_unreferenced [OF inv fp(3)]] fp
    show ?thesis by (simp add: sub_pos_slot)
  qed
qed

subsection \<open>The interface: a finite map from strings\<close>

text \<open>
  What \<^verbatim>\<open>table.c\<close> and \<^verbatim>\<open>router.c\<close> rely on.  The order is fixed per table; \<open>invar\<close> holds for tables of
  orders 1 to 31.  A put either stores the pair or leaves the map as it was and says FULL.
\<close>

locale string_table =
  fixes create :: "nat \<Rightarrow> 't"
    and lookup :: "nat \<Rightarrow> 't \<Rightarrow> string \<Rightarrow> 'v option"
    and put :: "nat \<Rightarrow> 't \<Rightarrow> string option \<Rightarrow> 'v \<Rightarrow> ht_status \<times> 'v option \<times> 't"
    and remove :: "nat \<Rightarrow> 't \<Rightarrow> string \<Rightarrow> 'v option \<times> 't"
    and invar :: "nat \<Rightarrow> 't \<Rightarrow> bool"
  assumes invar_create: "1 \<le> ord \<Longrightarrow> ord \<le> 31 \<Longrightarrow> invar ord (create ord)"
    and lookup_create: "1 \<le> ord \<Longrightarrow> ord \<le> 31 \<Longrightarrow> lookup ord (create ord) k = None"
    and invar_put: "invar ord t \<Longrightarrow> put ord t (Some k) v = (s, p, t') \<Longrightarrow> invar ord t'"
    and put_valid_key: "invar ord t \<Longrightarrow> put ord t (Some k) v = (s, p, t') \<Longrightarrow> s \<noteq> HASHTABLE_KEYINVAL"
    and lookup_put_success: "invar ord t \<Longrightarrow> put ord t (Some k) v = (HASHTABLE_SUCCESS, p, t') \<Longrightarrow>
      lookup ord t' k' = (if k' = k then Some v else lookup ord t k')"
    and lookup_put_full: "invar ord t \<Longrightarrow> put ord t (Some k) v = (HASHTABLE_FULL, p, t') \<Longrightarrow>
      lookup ord t' k' = lookup ord t k'"
    and invar_remove: "invar ord t \<Longrightarrow> remove ord t k = (r, t') \<Longrightarrow> invar ord t'"
    and remove_result: "invar ord t \<Longrightarrow> remove ord t k = (r, t') \<Longrightarrow> r = lookup ord t k"
    and lookup_remove: "invar ord t \<Longrightarrow> remove ord t k = (r, t') \<Longrightarrow>
      lookup ord t' k' = (if k' = k then None else lookup ord t k')"
begin

text \<open>A value put under a new key and removed again leaves the map as it was.\<close>

lemma remove_after_put:
  assumes "invar ord t" "put ord t (Some k) v = (HASHTABLE_SUCCESS, p, t1)" "remove ord t1 k = (r, t2)"
  shows "r = Some v" "lookup ord t2 k' = (if k' = k then None else lookup ord t k')"
proof -
  have inv1: "invar ord t1" by (rule invar_put [OF assms(1,2)])
  show "r = Some v" "lookup ord t2 k' = (if k' = k then None else lookup ord t k')"
    using remove_result [OF inv1 assms(3)] lookup_remove [OF inv1 assms(3)]
      lookup_put_success [OF assms(1,2)] by simp_all
qed

lemma lookup_put:
  assumes "invar ord t" "put ord t (Some k) v = (s, p, t')"
  shows "lookup ord t' k' = (if s = HASHTABLE_SUCCESS \<and> k' = k then Some v else lookup ord t k')"
proof (cases s)
  case HASHTABLE_SUCCESS
  with assms(2) lookup_put_success [OF assms(1), of k v p t' k'] show ?thesis by simp
next
  case HASHTABLE_FULL
  with assms(2) lookup_put_full [OF assms(1), of k v p t' k'] show ?thesis by simp
next
  case HASHTABLE_KEYINVAL
  with put_valid_key [OF assms] show ?thesis by simp
qed

end

interpretation ht: string_table hashtable_create hashtable_get hashtable_put hashtable_remove table_inv
proof (unfold_locales, goal_cases)
  case (5 ord t k v p t' k')
  then show ?case
    using put_spec [OF 5] get_eqI [of ord t t' k'] by (auto simp: get_eq_Some_iff)
next
  case (6 ord t k v p t' k')
  then show ?case using put_spec [OF 6] by (intro get_eqI) auto
next
  case (9 ord t k r t' k')
  then show ?case
    using remove_spec [OF 9] get_eqI [of ord t t' k'] by (auto simp: get_eq_None_iff)
qed (use put_spec remove_spec in \<open>fastforce+\<close>)

end
