(* ===== verification/Json.thy ===== *)
theory Json
  imports Prelude Complex_Main
begin

text \<open>
  JSON values as \<^verbatim>\<open>src/src/json/cJSON.c\<close> builds them, and the read accesses the daemon makes to them.

  A \<^verbatim>\<open>cJSON\<close> node is a value of the datatype \<open>json\<close>; the chain of children of an array or object is
  a list in which, for an object, every child carries its name (order and duplicate names matter,
  and lookup by name is first match, ignoring case).  A C string is a list of characters.  A number
  carries both fields of the node: \<^verbatim>\<open>valueint\<close>, the saturated 32-bit integer, and \<^verbatim>\<open>valuedouble\<close>.  A
  double is modelled by the rational it denotes or by an infinity (\<^verbatim>\<open>strtod\<close> gives one on overflow;
  JSON has no NaN); rounding is not modelled.
\<close>

datatype double = Finite rat | Plus_Inf | Minus_Inf

datatype json =
    JFalse
  | JTrue
  | JNull
  | JNumber (valueint: int) (valuedouble: double)
  | JString string
  | JArray "json list"
  | JObject "(string \<times> json) list"

subsection \<open>Strings: the comparisons of the C library that the sources use\<close>

definition tolower :: "char \<Rightarrow> char" where
  "tolower c = (let n = (of_char c :: nat) in if 65 \<le> n \<and> n \<le> 90 then char_of (n + 32) else c)"

fun strcasecmp_eq :: "string \<Rightarrow> string \<Rightarrow> bool" where
  "strcasecmp_eq [] [] = True"
| "strcasecmp_eq (a # as) (b # bs) = (tolower a = tolower b \<and> strcasecmp_eq as bs)"
| "strcasecmp_eq _ _ = False"

fun strncmp_eq :: "(char \<Rightarrow> char) \<Rightarrow> string \<Rightarrow> string \<Rightarrow> nat \<Rightarrow> bool" where
  "strncmp_eq f as bs 0 = True"
| "strncmp_eq f [] [] (Suc n) = True"
| "strncmp_eq f (a # as) (b # bs) (Suc n) = (f a = f b \<and> strncmp_eq f as bs n)"
| "strncmp_eq f _ _ (Suc n) = False"

fun strstr_by :: "(char \<Rightarrow> char) \<Rightarrow> string \<Rightarrow> string \<Rightarrow> bool" where
  "strstr_by f haystack needle =
     (strncmp_eq f needle haystack (length needle) \<or>
      (case haystack of [] \<Rightarrow> False | _ # rest \<Rightarrow> strstr_by f rest needle))"

declare strstr_by.simps [simp del]

lemma strcasecmp_eq_iff: "strcasecmp_eq as bs \<longleftrightarrow> map tolower as = map tolower bs"
  by (induction as bs rule: strcasecmp_eq.induct) auto

lemma strncmp_eq_prefix:
  "strncmp_eq f as bs (length as) \<longleftrightarrow> take (length as) (map f bs) = map f as"
proof (induction as arbitrary: bs)
  case Nil
  then show ?case by simp
next
  case (Cons a as)
  then show ?case by (cases bs) auto
qed

lemma take_length_eq_iff: "take (length xs) ys = xs \<longleftrightarrow> (\<exists>post. ys = xs @ post)"
  by (metis append_eq_conv_conj)

lemma infix_Cons_iff:
  "(\<exists>pre post. x # xs = pre @ ys @ post) \<longleftrightarrow> (\<exists>post. x # xs = ys @ post) \<or> (\<exists>pre post. xs = pre @ ys @ post)"
proof
  assume "\<exists>pre post. x # xs = pre @ ys @ post"
  then obtain pre post where "x # xs = pre @ ys @ post" by blast
  then show "(\<exists>post. x # xs = ys @ post) \<or> (\<exists>pre post. xs = pre @ ys @ post)"
    by (cases pre) auto
next
  assume "(\<exists>post. x # xs = ys @ post) \<or> (\<exists>pre post. xs = pre @ ys @ post)"
  then show "\<exists>pre post. x # xs = pre @ ys @ post"
    by (metis append_Cons append_Nil)
qed

lemma strstr_by_iff:
  "strstr_by f haystack needle \<longleftrightarrow> (\<exists>pre post. map f haystack = pre @ map f needle @ post)"
proof (induction haystack)
  case Nil
  then show ?case by (cases needle) (auto simp: strstr_by.simps)
next
  case (Cons c cs)
  have "strncmp_eq f needle (c # cs) (length needle) \<longleftrightarrow> (\<exists>post. f c # map f cs = map f needle @ post)"
    using take_length_eq_iff [of "map f needle" "map f (c # cs)"] by (simp add: strncmp_eq_prefix)
  with Cons show ?case
    by (subst strstr_by.simps) (simp add: infix_Cons_iff)
qed

subsection \<open>Reading a value\<close>

primrec is_string :: "json \<Rightarrow> bool" where
  "is_string JFalse = False"
| "is_string JTrue = False"
| "is_string JNull = False"
| "is_string (JNumber i d) = False"
| "is_string (JString s) = True"
| "is_string (JArray xs) = False"
| "is_string (JObject kvs) = False"

definition is_number :: "json \<Rightarrow> bool" where
  "is_number j = (case j of JNumber _ _ \<Rightarrow> True | _ \<Rightarrow> False)"

definition is_array :: "json \<Rightarrow> bool" where
  "is_array j = (case j of JArray _ \<Rightarrow> True | _ \<Rightarrow> False)"

definition is_object :: "json \<Rightarrow> bool" where
  "is_object j = (case j of JObject _ \<Rightarrow> True | _ \<Rightarrow> False)"

text \<open>\<^verbatim>\<open>item->valuestring\<close>: NULL unless the item is a string.\<close>

definition valuestring :: "json \<Rightarrow> string option" where
  "valuestring j = (case j of JString s \<Rightarrow> Some s | _ \<Rightarrow> None)"

text \<open>The chain of children, each with its name (\<^verbatim>\<open>item->string\<close>, NULL in an array).\<close>

definition children :: "json \<Rightarrow> (string option \<times> json) list" where
  "children j = (case j of
     JArray xs \<Rightarrow> map (\<lambda>x. (None, x)) xs
   | JObject kvs \<Rightarrow> map (\<lambda>(k, x). (Some k, x)) kvs
   | _ \<Rightarrow> [])"

definition cJSON_GetArraySize :: "json \<Rightarrow> nat" where
  "cJSON_GetArraySize j = length (children j)"

definition cJSON_GetArrayItem :: "json \<Rightarrow> nat \<Rightarrow> json option" where
  "cJSON_GetArrayItem j i = (if i < length (children j) then Some (snd (children j ! i)) else None)"

text \<open>The name comparison of lookup; a NULL name is different from every name.\<close>

definition case_insensitive_strcmp_eq :: "string \<Rightarrow> string option \<Rightarrow> bool" where
  "case_insensitive_strcmp_eq name s = (case s of None \<Rightarrow> False | Some s \<Rightarrow> strcasecmp_eq name s)"

fun get_object_item :: "(string option \<times> json) list \<Rightarrow> string \<Rightarrow> json option" where
  "get_object_item [] name = None"
| "get_object_item ((s, x) # rest) name =
    (if case_insensitive_strcmp_eq name s then Some x else get_object_item rest name)"

definition cJSON_GetObjectItem :: "json \<Rightarrow> string \<Rightarrow> json option" where
  "cJSON_GetObjectItem object name = get_object_item (children object) name"

text \<open>Lookup in a pointer that may be NULL.\<close>

definition cJSON_GetObjectItem_null :: "json option \<Rightarrow> string \<Rightarrow> json option" where
  "cJSON_GetObjectItem_null object name = (case object of None \<Rightarrow> None | Some j \<Rightarrow> cJSON_GetObjectItem j name)"

lemma get_object_item_Some:
  "get_object_item xs name = Some x \<Longrightarrow>
   \<exists>s. (Some s, x) \<in> set xs \<and> map tolower s = map tolower name"
  by (induction xs name rule: get_object_item.induct)
    (auto simp: case_insensitive_strcmp_eq_def strcasecmp_eq_iff split: if_splits option.splits)

lemma children_scalar [simp]:
  "children JFalse = []" "children JTrue = []" "children JNull = []"
  "children (JNumber i d) = []" "children (JString s) = []"
  by (simp_all add: children_def)

lemma GetObjectItem_JObject [simp]:
  "cJSON_GetObjectItem (JObject []) name = None"
  "cJSON_GetObjectItem (JObject ((k, x) # kvs)) name =
     (if map tolower name = map tolower k then Some x else cJSON_GetObjectItem (JObject kvs) name)"
  by (simp_all add: cJSON_GetObjectItem_def children_def case_insensitive_strcmp_eq_def strcasecmp_eq_iff)

text \<open>\<^verbatim>\<open>(int)\<close> conversion with saturation, as \<^verbatim>\<open>cJSON_CreateNumber\<close> fills \<^verbatim>\<open>valueint\<close>.\<close>

definition saturate_int :: "double \<Rightarrow> int" where
  "saturate_int d = (case d of
     Plus_Inf \<Rightarrow> 2 ^ 31 - 1
   | Minus_Inf \<Rightarrow> - (2 ^ 31)
   | Finite q \<Rightarrow> if 2 ^ 31 - 1 \<le> q then 2 ^ 31 - 1
                else if q \<le> - (2 ^ 31) then - (2 ^ 31)
                else (if 0 \<le> q then \<lfloor>q\<rfloor> else \<lceil>q\<rceil>))"

definition json_number :: "double \<Rightarrow> json" where
  "json_number d = JNumber (saturate_int d) d"

text \<open>Append a child to an object; a node of another type is left alone by the callers here.\<close>

definition append_member :: "json \<Rightarrow> string \<Rightarrow> json \<Rightarrow> json" where
  "append_member obj name item = (case obj of JObject kvs \<Rightarrow> JObject (kvs @ [(name, item)]) | _ \<Rightarrow> obj)"

definition append_item :: "json \<Rightarrow> json \<Rightarrow> json" where
  "append_item arr item = (case arr of JArray xs \<Rightarrow> JArray (xs @ [item]) | _ \<Rightarrow> arr)"

text \<open>
  The effect, on the object a child was attached to, of changing the child through its own pointer:
  the last member of that name is the child.  When attaching failed, the name is absent and the
  object does not change.
\<close>

fun update_last :: "string \<Rightarrow> json \<Rightarrow> (string \<times> json) list \<Rightarrow> (string \<times> json) list" where
  "update_last name item [] = []"
| "update_last name item ((k, x) # kvs) =
    (if k = name \<and> name \<notin> set (map fst kvs) then (k, item) # kvs else (k, x) # update_last name item kvs)"

definition update_member :: "json \<Rightarrow> string \<Rightarrow> json \<Rightarrow> json" where
  "update_member obj name item = (case obj of JObject kvs \<Rightarrow> JObject (update_last name item kvs) | _ \<Rightarrow> obj)"

text \<open>\<^verbatim>\<open>cJSON_ReplaceItemInObject\<close>: the first member found under the name, with the name given.\<close>

fun replace_first :: "string \<Rightarrow> json \<Rightarrow> (string \<times> json) list \<Rightarrow> (string \<times> json) list" where
  "replace_first name item [] = []"
| "replace_first name item ((k, x) # kvs) =
    (if strcasecmp_eq name k then (name, item) # kvs else (k, x) # replace_first name item kvs)"

definition cJSON_ReplaceItemInObject :: "json \<Rightarrow> string \<Rightarrow> json \<Rightarrow> json" where
  "cJSON_ReplaceItemInObject obj name item =
    (case obj of JObject kvs \<Rightarrow> JObject (replace_first name item kvs) | _ \<Rightarrow> obj)"

lemma GetObjectItem_replace:
  assumes "cJSON_GetObjectItem (JObject kvs) name = Some x"
  shows "cJSON_GetObjectItem (cJSON_ReplaceItemInObject (JObject kvs) name y) name' =
    (if map tolower name' = map tolower name then Some y else cJSON_GetObjectItem (JObject kvs) name')"
  using assms
  by (induction kvs) (auto simp: cJSON_ReplaceItemInObject_def strcasecmp_eq_iff split: if_splits)

end
