(* ===== verification/Broker_State.thy ===== *)
theory Broker_State
  imports Hashtable Json
begin

text \<open>
  The state of the daemon's broker and the primitive effects of its code.

  Pointers are numbers: a heap object of \<^verbatim>\<open>struct peer\<close>, \<^verbatim>\<open>struct element\<close>, \<^verbatim>\<open>struct fetch\<close> or
  \<^verbatim>\<open>struct routing_request\<close> lives in a finite map from references to records, and freeing it removes
  it from its map.  References are never reused, so that a dangling pointer stays recognisable.
  Intrusive lists (\<^verbatim>\<open>list.h\<close>) are lists of references in list order.

  Every call whose outcome the code does not control (an allocation, rendering a message, sending
  it, creating, arming or registering a timer) consumes one entry of \<open>env\<close>; when the list is used up
  every further call succeeds.  So a theorem for every \<open>env\<close> covers every pattern of failures of a
  finite run, and a run without failures is one with \<open>env = []\<close>.

  What C leaves undefined (following a NULL or dangling pointer, converting a double that does not
  fit) appends to \<open>faults\<close>, which nothing ever shortens: \<open>faults = []\<close> after a run says that none
  of it happened.

  Log output, and the arguments that exist for it only, are left out.
\<close>

subsection \<open>Configuration, objects\<close>

type_synonym peer_ref = nat
type_synonym elem_ref = nat
type_synonym fetch_ref = nat
type_synonym req_ref = nat
type_synonym group_t = "32 word"

record config =
  element_table_order :: nat
  routing_table_order :: nat
  initial_fetch_table_size :: nat
  routed_messages_timeout :: rat
  max_numbers_of_matchers_in_fetch :: nat
  allow_add_only_from_localhost :: bool
  check_json_length :: bool

datatype element_type = STATE | METHOD

datatype match_func =
    Equals_match | Equals_match_ignore_case
  | Contains_match | Contains_match_ignore_case
  | Startswith_match | Startswith_match_ignore_case
  | Endswith_match | Endswith_match_ignore_case
  | Equalsnot_match | Equalsnot_match_ignore_case
  | Containsallof_match | Containsallof_match_ignore_case

record path_matcher =
  match_function :: match_func
  path_elements :: "string list"

text \<open>\<open>matcher\<close> has \<^verbatim>\<open>number_of_matchers\<close> entries; NULL entries are \<open>None\<close>.\<close>

record fetch =
  fetch_id :: "json option"
  f_peer :: peer_ref
  matcher :: "path_matcher option list"

text \<open>\<open>fetcher_table\<close> has \<^verbatim>\<open>fetch_table_size\<close> entries; free entries (NULL) are \<open>None\<close>.\<close>

record element =
  e_path :: string
  e_peer :: peer_ref
  e_value :: "json option"
  fetcher_table :: "fetch_ref option list"
  e_fetch_groups :: group_t
  e_set_groups :: group_t
  e_call_groups :: group_t
  e_flags :: "32 word"
  e_timeout_nsec :: "64 word"

record peer =
  element_list :: "elem_ref list"
  fetch_list :: "fetch_ref list"
  routing_table :: "req_ref hashtable"
  p_name :: "string option"
  p_fetch_groups :: group_t
  p_set_groups :: group_t
  p_call_groups :: group_t
  p_user_name :: "string option"
  is_local_connection :: bool

record routing_request =
  requesting_peer :: peer_ref
  owner_peer :: peer_ref
  origin_request_id :: "json option"
  req_id :: string

text \<open>The kernel's side of a request's timer: known to the event loop, and when it is to expire.\<close>

record cjet_timer =
  registered :: bool
  armed :: "64 word option"

datatype fault =
    Null_pointer
  | Dangling_pointer
  | Out_of_bounds
  | Double_out_of_range
  | Endless_recursion

record world =
  cfg :: config
  env :: "bool list"
  faults :: "fault list"
  all_groups :: "string list option"
  user_data :: "json option"
  uuid :: "32 word"
  peer_list :: "peer_ref list"
  number_of_peers :: int
  peers :: "peer_ref \<rightharpoonup> peer"
  elements :: "elem_ref \<rightharpoonup> element"
  fetches :: "fetch_ref \<rightharpoonup> fetch"
  requests :: "req_ref \<rightharpoonup> routing_request"
  timers :: "req_ref \<rightharpoonup> cjet_timer"
  next_ref :: nat
  element_hashtable :: "elem_ref hashtable"
  sent :: "(peer_ref \<times> json) list"

type_synonym 'a cm = "(world, 'a) state"

abbreviation ret :: "'a \<Rightarrow> 'a cm" where
  "ret \<equiv> State_Monad.return"

definition config_ok :: "config \<Rightarrow> bool" where
  "config_ok c \<longleftrightarrow> 1 \<le> element_table_order c \<and> element_table_order c \<le> 31 \<and>
     1 \<le> routing_table_order c \<and> routing_table_order c \<le> 31 \<and>
     1 \<le> initial_fetch_table_size c \<and>
     1 \<le> routed_messages_timeout c \<and> routed_messages_timeout c \<le> 1000000"

subsection \<open>Primitive effects\<close>

definition modify :: "(world \<Rightarrow> world) \<Rightarrow> unit cm" where
  "modify f = do { w \<leftarrow> State_Monad.get; State_Monad.set (f w) }"

definition gets :: "(world \<Rightarrow> 'a) \<Rightarrow> 'a cm" where
  "gets f = do { w \<leftarrow> State_Monad.get; State_Monad.return (f w) }"

lemma run_modify [simp, run_simps]: "run_state (modify f) w = ((), f w)"
  by (simp add: modify_def)

lemma run_gets [simp, run_simps]: "run_state (gets f) w = (f w, w)"
  by (simp add: gets_def)

lemma keeps_gets [keeps_rules, simp]: "keeps I (gets f)"
  by (simp add: keeps_def)

lemma keeps_modify: "(\<And>w. I w \<Longrightarrow> I (f w)) \<Longrightarrow> keeps I (modify f)"
  by (simp add: keeps_def)

text \<open>The outcome of the next call to the environment.\<close>

definition ask :: "bool cm" where
  "ask = do {
     answers \<leftarrow> gets env;
     case answers of
       [] \<Rightarrow> ret True
     | ok # rest \<Rightarrow> do { modify (\<lambda>w. w\<lparr>env := rest\<rparr>); ret ok } }"

definition fault :: "fault \<Rightarrow> unit cm" where
  "fault x = modify (\<lambda>w. w\<lparr>faults := faults w @ [x]\<rparr>)"

text \<open>
  Following a pointer.  A NULL or dangling one is recorded as a fault, and the value read is the
  given default.
\<close>

definition deref :: "(world \<Rightarrow> nat \<rightharpoonup> 'a) \<Rightarrow> 'a \<Rightarrow> nat \<Rightarrow> 'a cm" where
  "deref heap dflt r = do {
     m \<leftarrow> gets heap;
     case m r of
       Some x \<Rightarrow> ret x
     | None \<Rightarrow> do { fault Dangling_pointer; ret dflt } }"

definition no_peer :: peer where
  "no_peer = \<lparr>element_list = [], fetch_list = [], routing_table = [], p_name = None,
     p_fetch_groups = 0, p_set_groups = 0, p_call_groups = 0, p_user_name = None,
     is_local_connection = False\<rparr>"

definition no_element :: element where
  "no_element = \<lparr>e_path = '''', e_peer = 0, e_value = None, fetcher_table = [],
     e_fetch_groups = 0, e_set_groups = 0, e_call_groups = 0, e_flags = 0, e_timeout_nsec = 0\<rparr>"

definition no_fetch :: fetch where
  "no_fetch = \<lparr>fetch_id = None, f_peer = 0, matcher = []\<rparr>"

definition no_request :: routing_request where
  "no_request = \<lparr>requesting_peer = 0, owner_peer = 0, origin_request_id = None, req_id = ''''\<rparr>"

definition get_peer :: "peer_ref \<Rightarrow> peer cm" where
  "get_peer = deref peers no_peer"

definition get_elem :: "elem_ref \<Rightarrow> element cm" where
  "get_elem = deref elements no_element"

definition get_fetch :: "fetch_ref \<Rightarrow> fetch cm" where
  "get_fetch = deref fetches no_fetch"

definition get_request :: "req_ref \<Rightarrow> routing_request cm" where
  "get_request = deref requests no_request"

text \<open>Writing through a pointer.\<close>

definition set_peer :: "peer_ref \<Rightarrow> (peer \<Rightarrow> peer) \<Rightarrow> unit cm" where
  "set_peer r f = do {
     m \<leftarrow> gets peers;
     case m r of
       Some x \<Rightarrow> modify (\<lambda>w. w\<lparr>peers := (peers w)(r \<mapsto> f x)\<rparr>)
     | None \<Rightarrow> fault Dangling_pointer }"

definition set_elem :: "elem_ref \<Rightarrow> (element \<Rightarrow> element) \<Rightarrow> unit cm" where
  "set_elem r f = do {
     m \<leftarrow> gets elements;
     case m r of
       Some x \<Rightarrow> modify (\<lambda>w. w\<lparr>elements := (elements w)(r \<mapsto> f x)\<rparr>)
     | None \<Rightarrow> fault Dangling_pointer }"

definition set_fetch :: "fetch_ref \<Rightarrow> (fetch \<Rightarrow> fetch) \<Rightarrow> unit cm" where
  "set_fetch r f = do {
     m \<leftarrow> gets fetches;
     case m r of
       Some x \<Rightarrow> modify (\<lambda>w. w\<lparr>fetches := (fetches w)(r \<mapsto> f x)\<rparr>)
     | None \<Rightarrow> fault Dangling_pointer }"

text \<open>A successful allocation: a reference no object ever had.\<close>

definition new_ref :: "nat cm" where
  "new_ref = do {
     r \<leftarrow> gets next_ref;
     modify (\<lambda>w. w\<lparr>next_ref := r + 1\<rparr>);
     ret r }"

text \<open>
  \<^verbatim>\<open>p->send_message(p, rendered, len)\<close>: the transport takes the message, or fails.  The log \<open>sent\<close>
  keeps the value that was rendered.
\<close>

definition send_message :: "peer_ref \<Rightarrow> json \<Rightarrow> bool cm" where
  "send_message p msg = do {
     ok \<leftarrow> ask;
     if ok then do { modify (\<lambda>w. w\<lparr>sent := sent w @ [(p, msg)]\<rparr>); ret True }
     else ret False }"

subsection \<open>Building JSON values\<close>

text \<open>
  Every constructor allocates.  \<^verbatim>\<open>cJSON_AddItemToObject\<close> allocates the name; when that fails, or the
  item is NULL, the object stays as it is, and none of the callers looks at the result.
\<close>

definition cJSON_CreateObject :: "json option cm" where
  "cJSON_CreateObject = do { ok \<leftarrow> ask; ret (if ok then Some (JObject []) else None) }"

definition cJSON_CreateArray :: "json option cm" where
  "cJSON_CreateArray = do { ok \<leftarrow> ask; ret (if ok then Some (JArray []) else None) }"

definition cJSON_CreateString :: "string \<Rightarrow> json option cm" where
  "cJSON_CreateString s = do { ok \<leftarrow> ask; ret (if ok then Some (JString s) else None) }"

definition cJSON_CreateNumber :: "double \<Rightarrow> json option cm" where
  "cJSON_CreateNumber d = do { ok \<leftarrow> ask; ret (if ok then Some (json_number d) else None) }"

definition cJSON_CreateTrue :: "json option cm" where
  "cJSON_CreateTrue = do { ok \<leftarrow> ask; ret (if ok then Some JTrue else None) }"

definition cJSON_Duplicate :: "json \<Rightarrow> json option cm" where
  "cJSON_Duplicate j = do { ok \<leftarrow> ask; ret (if ok then Some j else None) }"

definition cJSON_PrintUnformatted :: "json \<Rightarrow> json option cm" where
  "cJSON_PrintUnformatted j = do { ok \<leftarrow> ask; ret (if ok then Some j else None) }"

definition cJSON_AddItemToObject :: "json \<Rightarrow> string \<Rightarrow> json option \<Rightarrow> json cm" where
  "cJSON_AddItemToObject object name item =
    (case item of
       None \<Rightarrow> ret object
     | Some x \<Rightarrow> do { ok \<leftarrow> ask; ret (if ok then append_member object name x else object) })"

definition cJSON_AddTrueToObject :: "json \<Rightarrow> string \<Rightarrow> json cm" where
  "cJSON_AddTrueToObject object name = do {
     item \<leftarrow> cJSON_CreateTrue;
     cJSON_AddItemToObject object name item }"

definition duplicate_string :: "string \<Rightarrow> string option cm" where
  "duplicate_string s = do { ok \<leftarrow> ask; ret (if ok then Some s else None) }"

subsection \<open>Early returns\<close>

text \<open>
  A call that either fails, having set \<^verbatim>\<open>*response\<close>, or gives a value: \<open>Inl response\<close> or \<open>Inr x\<close>.
  \<open>or_return\<close> is the caller's \<^verbatim>\<open>if (... == NULL) return response;\<close>, \<open>or_fail\<close> the same for a caller
  that fails with that response itself.
\<close>

definition or_return :: "('e + 'a) cm \<Rightarrow> ('a \<Rightarrow> 'e cm) \<Rightarrow> 'e cm" where
  "or_return m f = do { r \<leftarrow> m; case r of Inl response \<Rightarrow> ret response | Inr x \<Rightarrow> f x }"

definition or_fail :: "('e + 'a) cm \<Rightarrow> ('a \<Rightarrow> ('e + 'b) cm) \<Rightarrow> ('e + 'b) cm" where
  "or_fail m f = do { r \<leftarrow> m; case r of Inl response \<Rightarrow> ret (Inl response) | Inr x \<Rightarrow> f x }"

lemma keeps_or_return [keeps_rules]:
  "keeps I m \<Longrightarrow> (\<And>x. keeps I (f x)) \<Longrightarrow> keeps I (or_return m f)"
  by (auto simp: or_return_def intro!: keeps_rules)

lemma keeps_or_fail [keeps_rules]:
  "keeps I m \<Longrightarrow> (\<And>x. keeps I (f x)) \<Longrightarrow> keeps I (or_fail m f)"
  by (auto simp: or_fail_def intro!: keeps_rules)

lemma valid_or_return [valid_rules]:
  "keeps I m \<Longrightarrow> (\<And>e w. I w \<Longrightarrow> Q e w) \<Longrightarrow> (\<And>x. valid I (f x) Q) \<Longrightarrow> valid I (or_return m f) Q"
  unfolding or_return_def by (intro valid_rules valid_return; assumption)

lemma valid_or_fail [valid_rules]:
  "keeps I m \<Longrightarrow> (\<And>e w. I w \<Longrightarrow> Q (Inl e) w) \<Longrightarrow> (\<And>x. valid I (f x) Q) \<Longrightarrow> valid I (or_fail m f) Q"
  unfolding or_fail_def by (intro valid_rules valid_return; assumption)

subsection \<open>Operations that only consume answers\<close>

text \<open>
  \<open>env_only m\<close>: \<open>m\<close> changes nothing but \<open>env\<close>, which can only get shorter.  A state predicate that
  does not look at \<open>env\<close> is kept by every such operation, and with \<open>env = []\<close> the state is
  unchanged.
\<close>

definition env_only :: "'a cm \<Rightarrow> bool" where
  "env_only m \<longleftrightarrow> (\<forall>w. \<exists>n. snd (run_state m w) = w\<lparr>env := drop n (env w)\<rparr>)"

definition env_free :: "(world \<Rightarrow> bool) \<Rightarrow> bool" where
  "env_free I \<longleftrightarrow> (\<forall>w e. I (w\<lparr>env := e\<rparr>) = I w)"

named_theorems env_only_rules "operations that only consume answers of the environment"

lemma env_only_keeps: "env_only m \<Longrightarrow> env_free I \<Longrightarrow> keeps I m"
  unfolding env_only_def env_free_def keeps_def by metis

lemma env_only_run: "env_only m \<Longrightarrow> env w = [] \<Longrightarrow> snd (run_state m w) = w"
  unfolding env_only_def by (metis (no_types, lifting) drop_Nil world.surjective world.update_convs(2))

lemma env_only_return [env_only_rules]: "env_only (ret x)"
  by (auto simp: env_only_def intro!: exI [of _ 0])

lemma env_only_gets [env_only_rules]: "env_only (gets f)"
  by (auto simp: env_only_def intro!: exI [of _ 0])

lemma env_only_bind [env_only_rules]:
  assumes m: "env_only m" and f: "\<And>x. env_only (f x)"
  shows "env_only (State_Monad.bind m f)"
  unfolding env_only_def
proof
  fix w
  obtain x w1 where r: "run_state m w = (x, w1)" by fastforce
  from m r obtain n where w1: "w1 = w\<lparr>env := drop n (env w)\<rparr>"
    unfolding env_only_def by (metis snd_conv)
  from f obtain k where "snd (run_state (f x) w1) = w1\<lparr>env := drop k (env w1)\<rparr>"
    unfolding env_only_def by blast
  then have "snd (run_state (State_Monad.bind m f) w) = w\<lparr>env := drop (k + n) (env w)\<rparr>"
    using r w1 by (simp add: drop_drop)
  then show "\<exists>n. snd (run_state (State_Monad.bind m f) w) = w\<lparr>env := drop n (env w)\<rparr>" by blast
qed

lemma env_only_if [env_only_rules]: "env_only m \<Longrightarrow> env_only n \<Longrightarrow> env_only (if b then m else n)"
  by simp

lemma env_only_case_option [env_only_rules]:
  "env_only m \<Longrightarrow> (\<And>y. env_only (f y)) \<Longrightarrow> env_only (case x of None \<Rightarrow> m | Some y \<Rightarrow> f y)"
  by (cases x) auto

lemma env_only_case_sum [env_only_rules]:
  "(\<And>y. env_only (f y)) \<Longrightarrow> (\<And>y. env_only (g y)) \<Longrightarrow> env_only (case x of Inl y \<Rightarrow> f y | Inr y \<Rightarrow> g y)"
  by (cases x) auto

lemma env_only_case_prod [env_only_rules]:
  "(\<And>a b. env_only (f a b)) \<Longrightarrow> env_only (case x of (a, b) \<Rightarrow> f a b)"
  by (cases x) auto

lemma env_only_or_return [env_only_rules]:
  "env_only m \<Longrightarrow> (\<And>x. env_only (f x)) \<Longrightarrow> env_only (or_return m f)"
  unfolding or_return_def by (intro env_only_rules)

lemma env_only_or_fail [env_only_rules]:
  "env_only m \<Longrightarrow> (\<And>x. env_only (f x)) \<Longrightarrow> env_only (or_fail m f)"
  unfolding or_fail_def by (intro env_only_rules)

lemma env_only_ask [env_only_rules]: "env_only ask"
  unfolding env_only_def
proof
  fix w
  show "\<exists>n. snd (run_state ask w) = w\<lparr>env := drop n (env w)\<rparr>"
    by (cases "env w") (auto simp: ask_def intro: exI [of _ 0] exI [of _ 1])
qed

lemma env_only_build [env_only_rules]:
  "env_only cJSON_CreateObject" "env_only cJSON_CreateArray" "env_only (cJSON_CreateString s)"
  "env_only (cJSON_CreateNumber d)" "env_only cJSON_CreateTrue" "env_only (cJSON_Duplicate j)"
  "env_only (cJSON_PrintUnformatted j)" "env_only (cJSON_AddItemToObject object name item)"
  "env_only (cJSON_AddTrueToObject object name)" "env_only (duplicate_string s)"
  unfolding cJSON_CreateObject_def cJSON_CreateArray_def cJSON_CreateString_def
    cJSON_CreateNumber_def cJSON_CreateTrue_def cJSON_Duplicate_def cJSON_PrintUnformatted_def
    cJSON_AddItemToObject_def cJSON_AddTrueToObject_def duplicate_string_def
  by (intro env_only_rules)+

text \<open>\<open>quiet m\<close>: \<open>m\<close> consumes answers and sends messages, and changes nothing else.\<close>

definition quiet :: "'a cm \<Rightarrow> bool" where
  "quiet m \<longleftrightarrow> (\<forall>w. \<exists>n s. snd (run_state m w) = w\<lparr>env := drop n (env w), sent := sent w @ s\<rparr>)"

named_theorems quiet_rules "operations that only consume answers and send messages"

lemma env_only_quiet: "env_only m \<Longrightarrow> quiet m"
  unfolding env_only_def quiet_def
proof
  fix w
  assume "\<forall>w. \<exists>n. snd (run_state m w) = w\<lparr>env := drop n (env w)\<rparr>"
  then obtain n where "snd (run_state m w) = w\<lparr>env := drop n (env w)\<rparr>" by blast
  then have "snd (run_state m w) = w\<lparr>env := drop n (env w), sent := sent w @ []\<rparr>" by simp
  then show "\<exists>n s. snd (run_state m w) = w\<lparr>env := drop n (env w), sent := sent w @ s\<rparr>" by blast
qed

lemma quietD:
  "quiet m \<Longrightarrow> run_state m w = (r, w') \<Longrightarrow> \<exists>n s. w' = w\<lparr>env := drop n (env w), sent := sent w @ s\<rparr>"
  unfolding quiet_def by (metis snd_conv)

lemma quiet_return [quiet_rules]: "quiet (ret x)"
  by (rule env_only_quiet [OF env_only_return])

lemma quiet_gets [quiet_rules]: "quiet (gets f)"
  by (rule env_only_quiet [OF env_only_gets])

lemma quiet_bind [quiet_rules]:
  assumes m: "quiet m" and f: "\<And>x. quiet (f x)"
  shows "quiet (State_Monad.bind m f)"
  unfolding quiet_def
proof
  fix w
  obtain x w1 where r: "run_state m w = (x, w1)" by fastforce
  from m r obtain n s where w1: "w1 = w\<lparr>env := drop n (env w), sent := sent w @ s\<rparr>"
    unfolding quiet_def by (metis snd_conv)
  from f obtain k s' where
    "snd (run_state (f x) w1) = w1\<lparr>env := drop k (env w1), sent := sent w1 @ s'\<rparr>"
    unfolding quiet_def by blast
  then have "snd (run_state (State_Monad.bind m f) w) =
      w\<lparr>env := drop (k + n) (env w), sent := sent w @ (s @ s')\<rparr>"
    using r w1 by (simp add: drop_drop)
  then show "\<exists>n s. snd (run_state (State_Monad.bind m f) w) =
      w\<lparr>env := drop n (env w), sent := sent w @ s\<rparr>" by blast
qed

lemma quiet_if [quiet_rules]: "quiet m \<Longrightarrow> quiet n \<Longrightarrow> quiet (if b then m else n)"
  by simp

lemma quiet_case_option [quiet_rules]:
  "quiet m \<Longrightarrow> (\<And>y. quiet (f y)) \<Longrightarrow> quiet (case x of None \<Rightarrow> m | Some y \<Rightarrow> f y)"
  by (cases x) auto

lemma quiet_need [quiet_rules]: "quiet m \<Longrightarrow> (\<And>x. quiet (f x)) \<Longrightarrow> quiet (need m f)"
  unfolding need_def by (intro quiet_rules)

lemma quiet_send_message [quiet_rules]: "quiet (send_message p msg)"
proof -
  have "quiet (modify (\<lambda>w. w\<lparr>sent := sent w @ [(p, msg)]\<rparr>))"
    unfolding quiet_def by (auto intro!: exI [of _ 0] exI [of _ "[(p, msg)]"])
  then show ?thesis
    unfolding send_message_def by (intro quiet_rules env_only_quiet [OF env_only_ask])
qed

subsection \<open>Runs without failures\<close>

lemma run_ask [pure_run]: "env w = [] \<Longrightarrow> run_state ask w = (True, w)"
  by (simp add: ask_def)

lemma run_build [pure_run]:
  assumes "env w = []"
  shows "run_state cJSON_CreateObject w = (Some (JObject []), w)"
    and "run_state cJSON_CreateArray w = (Some (JArray []), w)"
    and "run_state (cJSON_CreateString s) w = (Some (JString s), w)"
    and "run_state (cJSON_CreateNumber d) w = (Some (json_number d), w)"
    and "run_state cJSON_CreateTrue w = (Some JTrue, w)"
    and "run_state (cJSON_Duplicate j) w = (Some j, w)"
    and "run_state (cJSON_PrintUnformatted j) w = (Some j, w)"
    and "run_state (cJSON_AddItemToObject object name (Some x)) w = (append_member object name x, w)"
    and "run_state (cJSON_AddTrueToObject object name) w = (append_member object name JTrue, w)"
    and "run_state (duplicate_string str) w = (Some str, w)"
  using assms by (simp_all add: cJSON_CreateObject_def cJSON_CreateArray_def cJSON_CreateString_def
    cJSON_CreateNumber_def cJSON_CreateTrue_def cJSON_Duplicate_def cJSON_PrintUnformatted_def
    cJSON_AddItemToObject_def cJSON_AddTrueToObject_def duplicate_string_def run_ask)

lemma run_send_message [pure_run]:
  "env w = [] \<Longrightarrow> run_state (send_message p msg) w = (True, w\<lparr>sent := sent w @ [(p, msg)]\<rparr>)"
  by (simp add: send_message_def run_ask)

lemma run_get [pure_run]:
  "peers w p = Some pr \<Longrightarrow> run_state (get_peer p) w = (pr, w)"
  "elements w e = Some el \<Longrightarrow> run_state (get_elem e) w = (el, w)"
  "fetches w f = Some ft \<Longrightarrow> run_state (get_fetch f) w = (ft, w)"
  "requests w q = Some rq \<Longrightarrow> run_state (get_request q) w = (rq, w)"
  by (simp_all add: get_peer_def get_elem_def get_fetch_def get_request_def deref_def)

lemma run_set [pure_run]:
  "peers w p = Some pr \<Longrightarrow> run_state (set_peer p g) w = ((), w\<lparr>peers := (peers w)(p \<mapsto> g pr)\<rparr>)"
  "elements w e = Some el \<Longrightarrow> run_state (set_elem e h) w = ((), w\<lparr>elements := (elements w)(e \<mapsto> h el)\<rparr>)"
  "fetches w f = Some ft \<Longrightarrow> run_state (set_fetch f k) w = ((), w\<lparr>fetches := (fetches w)(f \<mapsto> k ft)\<rparr>)"
  by (simp_all add: set_peer_def set_elem_def set_fetch_def)

lemma run_new_ref [pure_run]: "run_state new_ref w = (next_ref w, w\<lparr>next_ref := next_ref w + 1\<rparr>)"
  by (simp add: new_ref_def)

lemma run_or_return: "run_state (or_return m f) w =
    (case run_state m w of (Inl r, w') \<Rightarrow> (r, w') | (Inr x, w') \<Rightarrow> run_state (f x) w')"
  by (simp add: or_return_def split: prod.splits sum.splits)

lemma run_or_fail: "run_state (or_fail m f) w =
    (case run_state m w of (Inl r, w') \<Rightarrow> (Inl r, w') | (Inr x, w') \<Rightarrow> run_state (f x) w')"
  by (simp add: or_fail_def split: prod.splits sum.splits)

end
