(* ===== verification/Response.thy ===== *)
theory Response
  imports Broker_State
begin

text \<open>
  JSON-RPC responses: \<^verbatim>\<open>src/src/response.c\<close> and \<^verbatim>\<open>src/src/request.h\<close>.

  The functions build the response node by node, and any allocation may fail; the result \<open>None\<close> is
  the NULL of the code, for a request without id (a notification gets no answer) or out of memory.
  \<open>error_value\<close> and \<open>result_value\<close> are the complete responses; the lemmas of \<open>pure_run\<close> say that they
  are what the code builds when no allocation fails.
\<close>

subsection \<open>The code\<close>

definition INVALID_REQUEST :: int where "INVALID_REQUEST = -32600"
definition METHOD_NOT_FOUND :: int where "METHOD_NOT_FOUND = -32601"
definition INVALID_PARAMS :: int where "INVALID_PARAMS = -32602"
definition INTERNAL_ERROR :: int where "INTERNAL_ERROR = -32603"

definition add_subobject_to_object :: "json \<Rightarrow> json option \<Rightarrow> string \<Rightarrow> json option cm" where
  "add_subobject_to_object root_obj value name =
    (case value of
       None \<Rightarrow> ret None
     | Some v \<Rightarrow> do { root_obj \<leftarrow> cJSON_AddItemToObject root_obj name (Some v); ret (Some root_obj) })"

definition create_common_response :: "json \<Rightarrow> json option cm" where
  "create_common_response jid = do {
     root_obj \<leftarrow> cJSON_CreateObject;
     case root_obj of
       None \<Rightarrow> ret None
     | Some root_obj \<Rightarrow>
        (case jid of
           JString s \<Rightarrow> do {
             v \<leftarrow> cJSON_CreateString s;
             add_subobject_to_object root_obj v ''id'' }
         | JNumber i d \<Rightarrow> do {
             v \<leftarrow> cJSON_CreateNumber (Finite (of_int i));
             add_subobject_to_object root_obj v ''id'' }
         | _ \<Rightarrow> ret None) }"

definition error_message :: "int \<Rightarrow> string" where
  "error_message code =
    (if code = INVALID_REQUEST then ''Invalid Request''
     else if code = METHOD_NOT_FOUND then ''Method not found''
     else if code = INVALID_PARAMS then ''Invalid params''
     else if code = INTERNAL_ERROR then ''Internal error''
     else ''Unknown error'')"

text \<open>
  The data object is attached to the error first and filled afterwards through its own pointer
  (\<open>update_member\<close>).
\<close>

definition create_error_object :: "int \<Rightarrow> string option \<Rightarrow> string option \<Rightarrow> json option cm" where
  "create_error_object code tag reason = do {
     error \<leftarrow> cJSON_CreateObject;
     case error of
       None \<Rightarrow> ret None
     | Some error \<Rightarrow> do {
         message \<leftarrow> cJSON_CreateString (error_message code);
         error \<leftarrow> add_subobject_to_object error message ''message'';
         case error of
           None \<Rightarrow> ret None
         | Some error \<Rightarrow> do {
             number \<leftarrow> cJSON_CreateNumber (Finite (of_int code));
             error \<leftarrow> add_subobject_to_object error number ''code'';
             case error of
               None \<Rightarrow> ret None
             | Some error \<Rightarrow>
                (case (tag, reason) of
                   (Some tag, Some reason) \<Rightarrow> do {
                     data \<leftarrow> cJSON_CreateObject;
                     case data of
                       None \<Rightarrow> ret (Some error)
                     | Some data \<Rightarrow> do {
                         error \<leftarrow> cJSON_AddItemToObject error ''data'' (Some data);
                         text \<leftarrow> cJSON_CreateString reason;
                         data \<leftarrow> add_subobject_to_object data text tag;
                         case data of
                           None \<Rightarrow> ret None
                         | Some data \<Rightarrow> ret (Some (update_member error ''data'' data)) } }
                 | _ \<Rightarrow> ret (Some error)) } } }"

definition create_error_response :: "json \<Rightarrow> int \<Rightarrow> string option \<Rightarrow> string option \<Rightarrow> json option cm" where
  "create_error_response jid code tag reason = do {
     root_obj \<leftarrow> create_common_response jid;
     case root_obj of
       None \<Rightarrow> ret None
     | Some root_obj \<Rightarrow> do {
         error \<leftarrow> create_error_object code tag reason;
         case error of
           Some error \<Rightarrow> do {
             root_obj \<leftarrow> cJSON_AddItemToObject root_obj ''error'' (Some error);
             ret (Some root_obj) }
         | None \<Rightarrow> ret None } }"

definition create_error_response_from_request :: "json \<Rightarrow> int \<Rightarrow> string \<Rightarrow> string \<Rightarrow> json option cm" where
  "create_error_response_from_request request code tag reason =
    (case cJSON_GetObjectItem request ''id'' of
       Some jid \<Rightarrow> create_error_response jid code (Some tag) (Some reason)
     | None \<Rightarrow> ret None)"

definition create_result_response :: "json \<Rightarrow> json option \<Rightarrow> string \<Rightarrow> json option cm" where
  "create_result_response jid result result_type = do {
     root_obj \<leftarrow> create_common_response jid;
     case root_obj of
       None \<Rightarrow> ret None
     | Some root_obj \<Rightarrow> do {
         root_obj \<leftarrow> cJSON_AddItemToObject root_obj result_type result;
         ret (Some root_obj) } }"

definition create_result_response_from_request :: "json \<Rightarrow> json option \<Rightarrow> string \<Rightarrow> json option cm" where
  "create_result_response_from_request request result result_type =
    (case cJSON_GetObjectItem request ''id'' of
       Some jid \<Rightarrow> create_result_response jid result result_type
     | None \<Rightarrow> ret None)"

definition create_success_response_from_request :: "json \<Rightarrow> json option cm" where
  "create_success_response_from_request request = do {
     t \<leftarrow> cJSON_CreateTrue;
     create_result_response_from_request request t ''result'' }"

definition get_params :: "json \<Rightarrow> (json option + json) cm" where
  "get_params request =
    (case cJSON_GetObjectItem request ''params'' of
       None \<Rightarrow> do {
         response \<leftarrow> create_error_response_from_request request INVALID_PARAMS ''reason'' ''no params found'';
         ret (Inl response) }
     | Some params \<Rightarrow> ret (Inr params))"

text \<open>The pattern of the handlers: fail with an error response.\<close>

definition fail_with :: "json \<Rightarrow> int \<Rightarrow> string \<Rightarrow> string \<Rightarrow> (json option + 'a) cm" where
  "fail_with request code tag reason = do {
     response \<leftarrow> create_error_response_from_request request code tag reason;
     ret (Inl response) }"

lemma env_only_case_json [env_only_rules]:
  "env_only a \<Longrightarrow> env_only b \<Longrightarrow> env_only c \<Longrightarrow> (\<And>i d. env_only (n i d)) \<Longrightarrow> (\<And>s. env_only (t s)) \<Longrightarrow>
   (\<And>xs. env_only (l xs)) \<Longrightarrow> (\<And>kvs. env_only (ob kvs)) \<Longrightarrow>
   env_only (case j of JFalse \<Rightarrow> a | JTrue \<Rightarrow> b | JNull \<Rightarrow> c | JNumber i d \<Rightarrow> n i d | JString s \<Rightarrow> t s
     | JArray xs \<Rightarrow> l xs | JObject kvs \<Rightarrow> ob kvs)"
  by (cases j) auto

lemma env_only_response [env_only_rules]:
  "env_only (add_subobject_to_object root_obj v k)"
  "env_only (create_common_response jid)"
  "env_only (create_error_object code tag reason)"
  "env_only (create_error_response jid code tag reason)"
  "env_only (create_error_response_from_request request code t r)"
  "env_only (create_result_response jid res rt)"
  "env_only (create_result_response_from_request request res rt)"
  "env_only (create_success_response_from_request request)"
  "env_only (get_params request)"
  "env_only (fail_with request code t r)"
proof -
  show *: "env_only (add_subobject_to_object root_obj v k)" for root_obj v k
    unfolding add_subobject_to_object_def by (intro env_only_rules)
  show c: "env_only (create_common_response jid)" for jid
    unfolding create_common_response_def by (intro env_only_rules *)
  have e: "env_only (create_error_object code tag reason)" for code tag reason
    unfolding create_error_object_def by (intro env_only_rules *)
  then show "env_only (create_error_object code tag reason)" .
  have er: "env_only (create_error_response jid code tag reason)" for jid code tag reason
    unfolding create_error_response_def by (intro env_only_rules * c e)
  then show "env_only (create_error_response jid code tag reason)" .
  have err: "env_only (create_error_response_from_request request code t r)" for request code t r
    unfolding create_error_response_from_request_def by (intro env_only_rules er)
  then show "env_only (create_error_response_from_request request code t r)" .
  have r: "env_only (create_result_response jid res rt)" for jid res rt
    unfolding create_result_response_def by (intro env_only_rules c)
  then show "env_only (create_result_response jid res rt)" .
  have rr: "env_only (create_result_response_from_request request res rt)" for request res rt
    unfolding create_result_response_from_request_def by (intro env_only_rules r)
  then show "env_only (create_result_response_from_request request res rt)" .
  show "env_only (create_success_response_from_request request)"
    unfolding create_success_response_from_request_def by (intro env_only_rules rr)
  show "env_only (get_params request)"
    unfolding get_params_def by (intro env_only_rules err)
  show "env_only (fail_with request code t r)"
    unfolding fail_with_def by (intro env_only_rules err)
qed

lemma valid_fail_with [valid_rules]:
  "keeps I (create_error_response_from_request request code t r) \<Longrightarrow> (\<And>e w. I w \<Longrightarrow> Q (Inl e) w) \<Longrightarrow>
   valid I (fail_with request code t r) Q"
  unfolding fail_with_def by (intro valid_rules valid_return)

subsection \<open>Complete responses\<close>

definition id_value :: "json \<Rightarrow> json option" where
  "id_value jid = (case jid of
     JString s \<Rightarrow> Some (JString s)
   | JNumber i d \<Rightarrow> Some (json_number (Finite (of_int i)))
   | _ \<Rightarrow> None)"

definition error_object :: "int \<Rightarrow> string option \<Rightarrow> string option \<Rightarrow> json" where
  "error_object code tag reason = JObject
    ([(''message'', JString (error_message code)), (''code'', json_number (Finite (of_int code)))] @
     (case (tag, reason) of
        (Some tag, Some reason) \<Rightarrow> [(''data'', JObject [(tag, JString reason)])]
      | _ \<Rightarrow> []))"

definition response_value :: "json \<Rightarrow> string \<Rightarrow> json \<Rightarrow> json option" where
  "response_value jid name x = (case id_value jid of
     None \<Rightarrow> None | Some v \<Rightarrow> Some (JObject [(''id'', v), (name, x)]))"

definition error_value :: "json \<Rightarrow> int \<Rightarrow> string \<Rightarrow> string \<Rightarrow> json option" where
  "error_value request code tag reason = (case cJSON_GetObjectItem request ''id'' of
     None \<Rightarrow> None | Some jid \<Rightarrow> response_value jid ''error'' (error_object code (Some tag) (Some reason)))"

definition result_value :: "json \<Rightarrow> json \<Rightarrow> json option" where
  "result_value request x = (case cJSON_GetObjectItem request ''id'' of
     None \<Rightarrow> None | Some jid \<Rightarrow> response_value jid ''result'' x)"

lemma run_common_response [pure_run]:
  "env w = [] \<Longrightarrow> run_state (create_common_response jid) w =
     ((case id_value jid of None \<Rightarrow> None | Some v \<Rightarrow> Some (JObject [(''id'', v)])), w)"
  by (cases jid) (simp_all add: create_common_response_def add_subobject_to_object_def id_value_def
      pure_run append_member_def)

lemma run_error_object [pure_run]:
  "env w = [] \<Longrightarrow> run_state (create_error_object code tag reason) w = (Some (error_object code tag reason), w)"
  by (cases tag; cases reason)
    (simp_all add: create_error_object_def add_subobject_to_object_def error_object_def
      pure_run append_member_def update_member_def)

lemma run_error_response [pure_run]:
  "env w = [] \<Longrightarrow> run_state (create_error_response jid code tag reason) w =
     (response_value jid ''error'' (error_object code tag reason), w)"
  by (cases "id_value jid") (simp_all add: create_error_response_def response_value_def pure_run append_member_def)

lemma run_result_response [pure_run]:
  "env w = [] \<Longrightarrow> run_state (create_result_response jid (Some x) rt) w = (response_value jid rt x, w)"
  by (cases "id_value jid") (simp_all add: create_result_response_def response_value_def pure_run append_member_def)

lemma run_from_request [pure_run]:
  assumes "env w = []"
  shows "run_state (create_error_response_from_request request code t r) w = (error_value request code t r, w)"
    and "run_state (create_result_response_from_request request (Some x) ''result'') w = (result_value request x, w)"
    and "run_state (create_success_response_from_request request) w = (result_value request JTrue, w)"
    and "run_state (fail_with request code t r) w = (Inl (error_value request code t r), w)"
  using assms
  by (simp_all add: create_error_response_from_request_def create_result_response_from_request_def
      create_success_response_from_request_def fail_with_def error_value_def result_value_def pure_run
      split: option.split)

lemma run_get_params [pure_run]:
  "env w = [] \<Longrightarrow> run_state (get_params request) w =
     ((case cJSON_GetObjectItem request ''params'' of
         None \<Rightarrow> Inl (error_value request INVALID_PARAMS ''reason'' ''no params found'')
       | Some params \<Rightarrow> Inr params), w)"
  by (simp add: get_params_def pure_run split: option.split)

lemma get_params_Inr:
  "run_state (get_params request) w = (Inr params, w') \<Longrightarrow> cJSON_GetObjectItem request ''params'' = Some params"
  by (auto simp: get_params_def split: option.splits prod.splits)

subsection \<open>What every response carries\<close>

text \<open>
  Whatever fails, a response that is built at all is an object.
\<close>

lemma ask_cases: "run_state ask w = (b, w') \<Longrightarrow> (b \<Longrightarrow> P) \<Longrightarrow> (\<not> b \<Longrightarrow> P) \<Longrightarrow> P"
  by blast

text \<open>
  Answers to a request: no id, no answer; an id that is neither a string nor a number, no answer.
\<close>

lemma no_id_no_response:
  assumes "cJSON_GetObjectItem request ''id'' = None"
  shows "fst (run_state (create_error_response_from_request request code t r) w) = None"
    and "fst (run_state (create_success_response_from_request request) w) = None"
    and "fst (run_state (create_result_response_from_request request res rt) w) = None"
  using assms
  by (simp_all add: create_error_response_from_request_def create_success_response_from_request_def
      create_result_response_from_request_def split: prod.split)

end
