(* ===== verification/Table.thy ===== *)
theory Table
  imports Response
begin

text \<open>
  The table of all elements by path: \<^verbatim>\<open>src/src/table.c\<close>, one hash table of order
  \<^verbatim>\<open>CONFIG_ELEMENT_TABLE_ORDER\<close> from paths to elements.
\<close>

definition element_table_put :: "string \<Rightarrow> elem_ref \<Rightarrow> ht_status cm" where
  "element_table_put path e = do {
     c \<leftarrow> gets cfg;
     t \<leftarrow> gets element_hashtable;
     let (status, previous, t') = hashtable_put (element_table_order c) t (Some path) e;
     modify (\<lambda>w. w\<lparr>element_hashtable := t'\<rparr>);
     ret status }"

definition element_table_get :: "string \<Rightarrow> elem_ref option cm" where
  "element_table_get path = do {
     c \<leftarrow> gets cfg;
     t \<leftarrow> gets element_hashtable;
     ret (hashtable_get (element_table_order c) t path) }"

definition element_table_remove :: "string \<Rightarrow> unit cm" where
  "element_table_remove path = do {
     c \<leftarrow> gets cfg;
     t \<leftarrow> gets element_hashtable;
     let (removed, t') = hashtable_remove (element_table_order c) t path;
     modify (\<lambda>w. w\<lparr>element_hashtable := t'\<rparr>) }"

definition lookup_element :: "world \<Rightarrow> string \<Rightarrow> elem_ref option" where
  "lookup_element w path = hashtable_get (element_table_order (cfg w)) (element_hashtable w) path"

definition element_table_ok :: "world \<Rightarrow> bool" where
  "element_table_ok w \<longleftrightarrow> table_inv (element_table_order (cfg w)) (element_hashtable w)"

lemma run_element_table_get [pure_run, simp]:
  "run_state (element_table_get path) w = (lookup_element w path, w)"
  by (simp add: element_table_get_def lookup_element_def)

lemma env_only_element_table_get [env_only_rules]: "env_only (element_table_get path)"
  unfolding element_table_get_def by (intro env_only_rules)

text \<open>What the two updates do to lookup, from the laws of string tables.\<close>

lemma element_table_put_spec:
  assumes ok: "element_table_ok w"
    and run: "run_state (element_table_put path e) w = (status, w')"
  shows "element_table_ok w'"
    and "w' = w\<lparr>element_hashtable := element_hashtable w'\<rparr>"
    and "lookup_element w' p = (if status = HASHTABLE_SUCCESS \<and> p = path then Some e else lookup_element w p)"
    and "status \<noteq> HASHTABLE_KEYINVAL"
proof -
  obtain prev t' where put: "hashtable_put (element_table_order (cfg w)) (element_hashtable w) (Some path) e =
      (status, prev, t')" and w': "w' = w\<lparr>element_hashtable := t'\<rparr>"
    using run by (auto simp: element_table_put_def split: prod.splits)
  note t = ok [unfolded element_table_ok_def]
  show "element_table_ok w'" using ht.invar_put [OF t put] by (simp add: w' element_table_ok_def)
  show "w' = w\<lparr>element_hashtable := element_hashtable w'\<rparr>" by (simp add: w')
  show "lookup_element w' p = (if status = HASHTABLE_SUCCESS \<and> p = path then Some e else lookup_element w p)"
    using ht.lookup_put [OF t put] by (simp add: w' lookup_element_def)
  show "status \<noteq> HASHTABLE_KEYINVAL" by (rule ht.put_valid_key [OF t put])
qed

lemma element_table_remove_spec:
  assumes ok: "element_table_ok w"
    and run: "run_state (element_table_remove path) w = (u, w')"
  shows "element_table_ok w'"
    and "w' = w\<lparr>element_hashtable := element_hashtable w'\<rparr>"
    and "lookup_element w' p = (if p = path then None else lookup_element w p)"
proof -
  obtain r t' where rm: "hashtable_remove (element_table_order (cfg w)) (element_hashtable w) path = (r, t')"
    and w': "w' = w\<lparr>element_hashtable := t'\<rparr>"
    using run by (auto simp: element_table_remove_def split: prod.splits)
  note t = ok [unfolded element_table_ok_def]
  show "element_table_ok w'" using ht.invar_remove [OF t rm] by (simp add: w' element_table_ok_def)
  show "w' = w\<lparr>element_hashtable := element_hashtable w'\<rparr>" by (simp add: w')
  show "lookup_element w' p = (if p = path then None else lookup_element w p)"
    using ht.lookup_remove [OF t rm] by (simp add: w' lookup_element_def)
qed

end
