(* ===== verification/Access_Groups.thy ===== *)
theory Access_Groups
  imports Response
begin

text \<open>
  Access groups: \<^verbatim>\<open>src/src/groups.c\<close>.

  \<open>all_groups\<close> is the array of the known group names (NULL, so \<open>None\<close>, when the daemon runs without a
  password file); a group set is a 32-bit word whose bit \<open>j\<close> stands for the \<open>j\<close>-th known name.  The
  lemmas say which names a word stands for, and that \<open>has_access\<close> asks for a common name.
\<close>

definition is_in_groups :: "string \<Rightarrow> bool cm" where
  "is_in_groups group_name = do {
     groups \<leftarrow> gets all_groups;
     ret (group_name \<in> set (case groups of None \<Rightarrow> [] | Some gs \<Rightarrow> gs)) }"

definition add_group :: "string \<Rightarrow> bool cm" where
  "add_group group_name = do {
     found \<leftarrow> is_in_groups group_name;
     if found then ret True
     else do {
       groups \<leftarrow> gets all_groups;
       if 32 \<le> length (case groups of None \<Rightarrow> [] | Some gs \<Rightarrow> gs) then ret False
       else do {
         item \<leftarrow> cJSON_CreateString group_name;
         modify (\<lambda>w. w\<lparr>all_groups := (case (all_groups w, item) of
           (Some gs, Some _) \<Rightarrow> Some (gs @ [group_name]) | (g, _) \<Rightarrow> g)\<rparr>);
         ret True } } }"

definition create_groups :: "bool cm" where
  "create_groups = do {
     array \<leftarrow> cJSON_CreateArray;
     case array of
       None \<Rightarrow> ret False
     | Some _ \<Rightarrow> do { modify (\<lambda>w. w\<lparr>all_groups := Some []\<rparr>); ret True } }"

definition add_groups :: "json \<Rightarrow> bool cm" where
  "add_groups group_array =
    (if \<not> is_array group_array then ret False
     else for_each_ok (\<lambda>group. case valuestring group of
            Some name \<Rightarrow> add_group name
          | None \<Rightarrow> ret False) (map snd (children group_array)))"

text \<open>The inner loop of \<^verbatim>\<open>get_groups\<close>: one bit for every known name that is equal.\<close>

fun group_bits :: "string list \<Rightarrow> nat \<Rightarrow> string \<Rightarrow> group_t \<Rightarrow> group_t" where
  "group_bits [] j name groups = groups"
| "group_bits (g # gs) j name groups =
    group_bits gs (j + 1) name (if g = name then groups OR push_bit j 1 else groups)"

fun groups_of :: "string list \<Rightarrow> json list \<Rightarrow> group_t \<Rightarrow> group_t" where
  "groups_of known [] groups = groups"
| "groups_of known (x # xs) groups =
    groups_of known xs (case valuestring x of Some name \<Rightarrow> group_bits known 0 name groups | None \<Rightarrow> groups)"

definition get_groups :: "json option \<Rightarrow> group_t cm" where
  "get_groups peer_groups = do {
     known \<leftarrow> gets all_groups;
     ret (case (peer_groups, known) of
            (Some gs, Some known) \<Rightarrow> if is_array gs then groups_of known (map snd (children gs)) 0 else 0
          | _ \<Rightarrow> 0) }"

definition access_allowed :: "string list option \<Rightarrow> group_t \<Rightarrow> group_t \<Rightarrow> bool" where
  "access_allowed known has wants \<longleftrightarrow> (case known of None \<Rightarrow> True | Some _ \<Rightarrow> has AND wants \<noteq> 0)"

definition has_access :: "group_t \<Rightarrow> group_t \<Rightarrow> bool cm" where
  "has_access has wants = do { known \<leftarrow> gets all_groups; ret (access_allowed known has wants) }"

lemma env_only_groups [env_only_rules]:
  "env_only (is_in_groups n)" "env_only (get_groups g)" "env_only (has_access h wt)"
  unfolding is_in_groups_def get_groups_def has_access_def by (intro env_only_rules)+

lemma run_groups [pure_run]:
  "run_state (has_access h wt) w = (access_allowed (all_groups w) h wt, w)"
  "run_state (get_groups None) w = (0, w)"
  by (simp_all add: has_access_def get_groups_def)

lemma run_get_groups: "snd (run_state (get_groups g) w) = w"
  by (simp add: get_groups_def)

subsection \<open>Which names a group word stands for\<close>

lemma bit_or_push: "bit (g OR push_bit j 1 :: group_t) i \<longleftrightarrow> bit g i \<or> i = j \<and> j < 32"
  by (auto simp: bit_simps simp del: push_bit_of_1)

lemma bit_group_bits:
  "j + length gs \<le> 32 \<Longrightarrow> bit (group_bits gs j name g) i \<longleftrightarrow>
     bit g i \<or> (j \<le> i \<and> i < j + length gs \<and> gs ! (i - j) = name)"
proof (induction gs j name g rule: group_bits.induct)
  case (1 j name g)
  then show ?case by auto
next
  case (2 x gs j name g)
  then show ?case
    by (cases "i = j") (auto simp: bit_or_push nth_Cons' Suc_diff_Suc simp del: push_bit_of_1)
qed

lemma bit_groups_of:
  "length known \<le> 32 \<Longrightarrow> bit (groups_of known xs g) i \<longleftrightarrow>
     bit g i \<or> (i < length known \<and> JString (known ! i) \<in> set xs)"
proof (induction known xs g rule: groups_of.induct)
  case (1 known g)
  then show ?case by simp
next
  case (2 known x xs g)
  then show ?case by (auto simp: bit_group_bits valuestring_def split: option.splits json.splits)
qed

definition names_of :: "json option \<Rightarrow> string set" where
  "names_of gs = (case gs of Some (JArray xs) \<Rightarrow> {name. JString name \<in> set xs} | _ \<Rightarrow> {})"

lemma bit_get_groups:
  assumes "all_groups w = Some known" "length known \<le> 32"
  shows "bit (fst (run_state (get_groups gs) w)) i \<longleftrightarrow> i < length known \<and> known ! i \<in> names_of gs"
  using assms by (auto simp: get_groups_def names_of_def is_array_def children_def bit_groups_of comp_def
      image_image split: option.splits json.splits)

lemma access_iff_common_bit: "h AND wt \<noteq> (0 :: group_t) \<longleftrightarrow> (\<exists>i. bit h i \<and> bit wt i)"
proof
  assume "h AND wt \<noteq> 0"
  then have "\<not> (\<forall>i. \<not> bit (h AND wt) i)" using bit_word_eqI [of "h AND wt" 0] by auto
  then show "\<exists>i. bit h i \<and> bit wt i" by (auto simp: bit_and_iff)
next
  assume "\<exists>i. bit h i \<and> bit wt i"
  then obtain i where "bit (h AND wt) i" by (auto simp: bit_and_iff)
  then show "h AND wt \<noteq> 0" by auto
qed

lemma access_iff_common_name:
  assumes "all_groups w = Some known" "length known \<le> 32"
  shows "access_allowed (Some known) (fst (run_state (get_groups a) w)) (fst (run_state (get_groups b) w)) \<longleftrightarrow>
    (\<exists>name\<in>set known. name \<in> names_of a \<and> name \<in> names_of b)"
  using assms
  by (simp add: access_allowed_def access_iff_common_bit bit_get_groups) (metis in_set_conv_nth)

subsection \<open>The table of known groups\<close>

definition groups_ok :: "world \<Rightarrow> bool" where
  "groups_ok w \<longleftrightarrow> (case all_groups w of None \<Rightarrow> True | Some gs \<Rightarrow> distinct gs \<and> length gs \<le> 32)"

lemma env_free_groups_ok: "env_free groups_ok"
  by (simp add: env_free_def groups_ok_def)

lemma add_group_keeps: "keeps groups_ok (add_group name)"
proof (rule keepsI)
  fix w r w'
  assume ok: "groups_ok w" and run: "run_state (add_group name) w = (r, w')"
  obtain n where "snd (run_state (cJSON_CreateString name) w) = w\<lparr>env := drop n (env w)\<rparr>"
    using env_only_build(3) unfolding env_only_def by blast
  with run ok show "groups_ok w'"
    by (auto simp: add_group_def is_in_groups_def groups_ok_def split: if_splits option.splits prod.splits)
qed

lemma add_groups_keeps [keeps_rules]: "keeps groups_ok (add_groups gs)"
  unfolding add_groups_def by (intro keeps_rules add_group_keeps)

end
