(* ===== verification/Fetch.thy ===== *)
theory Fetch
  imports Table Access_Groups
begin

text \<open>
  Fetches: \<^verbatim>\<open>src/src/fetch.c\<close>.

  A fetch is the standing request of a peer for all elements whose path its matchers accept.  Every
  element keeps the fetches that accept it in its \<open>fetcher_table\<close>, an array with holes that grows by
  doubling.  A fetch that is still being built, or the one \<^verbatim>\<open>get_elements\<close> uses, is not reachable from
  anywhere else, so it is a value of the record; it becomes a heap object when it is linked into the
  peer's \<open>fetch_list\<close>.

  The lemmas give the matchers their meaning on paths, and describe what subscribing one fetch to
  one element does to the world.
\<close>

subsection \<open>Matchers\<close>

type_synonym matcher_code = "path_matcher \<Rightarrow> string \<Rightarrow> bool"

definition equals_match :: matcher_code where
  "equals_match pm state_path \<longleftrightarrow> path_elements pm ! 0 = state_path"

definition equals_match_ignore_case :: matcher_code where
  "equals_match_ignore_case pm state_path \<longleftrightarrow> strcasecmp_eq (path_elements pm ! 0) state_path"

definition contains_match :: matcher_code where
  "contains_match pm state_path \<longleftrightarrow> strstr_by id state_path (path_elements pm ! 0)"

definition contains_match_ignore_case :: matcher_code where
  "contains_match_ignore_case pm state_path \<longleftrightarrow> strstr_by tolower state_path (path_elements pm ! 0)"

definition startswith_match :: matcher_code where
  "startswith_match pm state_path \<longleftrightarrow>
    (let fetch_path_length = length (path_elements pm ! 0)
     in strncmp_eq id (path_elements pm ! 0) state_path fetch_path_length)"

definition startswith_match_ignore_case :: matcher_code where
  "startswith_match_ignore_case pm state_path \<longleftrightarrow>
    (let fetch_path_length = length (path_elements pm ! 0)
     in strncmp_eq tolower (path_elements pm ! 0) state_path fetch_path_length)"

definition endswith_match :: matcher_code where
  "endswith_match pm state_path \<longleftrightarrow>
    (let fetch_path_length = length (path_elements pm ! 0); state_path_length = length state_path
     in fetch_path_length \<le> state_path_length \<and>
        drop (state_path_length - fetch_path_length) state_path = path_elements pm ! 0)"

definition endswith_match_ignore_case :: matcher_code where
  "endswith_match_ignore_case pm state_path \<longleftrightarrow>
    (let fetch_path_length = length (path_elements pm ! 0); state_path_length = length state_path
     in fetch_path_length \<le> state_path_length \<and>
        strcasecmp_eq (drop (state_path_length - fetch_path_length) state_path) (path_elements pm ! 0))"

definition equalsnot_match :: matcher_code where
  "equalsnot_match pm state_path \<longleftrightarrow> path_elements pm ! 0 \<noteq> state_path"

definition equalsnot_match_ignore_case :: matcher_code where
  "equalsnot_match_ignore_case pm state_path \<longleftrightarrow> \<not> strcasecmp_eq (path_elements pm ! 0) state_path"

fun all_contained :: "(char \<Rightarrow> char) \<Rightarrow> string list \<Rightarrow> string \<Rightarrow> bool" where
  "all_contained f [] state_path = True"
| "all_contained f (x # xs) state_path =
    (if \<not> strstr_by f state_path x then False else all_contained f xs state_path)"

definition containsallof_match :: matcher_code where
  "containsallof_match pm state_path \<longleftrightarrow> all_contained id (path_elements pm) state_path"

definition containsallof_match_ignore_case :: matcher_code where
  "containsallof_match_ignore_case pm state_path \<longleftrightarrow> all_contained tolower (path_elements pm) state_path"

text \<open>The call through the function pointer \<^verbatim>\<open>pm->match_function\<close>.\<close>

definition call_match_function :: matcher_code where
  "call_match_function pm = (case match_function pm of
     Equals_match \<Rightarrow> equals_match pm
   | Equals_match_ignore_case \<Rightarrow> equals_match_ignore_case pm
   | Contains_match \<Rightarrow> contains_match pm
   | Contains_match_ignore_case \<Rightarrow> contains_match_ignore_case pm
   | Startswith_match \<Rightarrow> startswith_match pm
   | Startswith_match_ignore_case \<Rightarrow> startswith_match_ignore_case pm
   | Endswith_match \<Rightarrow> endswith_match pm
   | Endswith_match_ignore_case \<Rightarrow> endswith_match_ignore_case pm
   | Equalsnot_match \<Rightarrow> equalsnot_match pm
   | Equalsnot_match_ignore_case \<Rightarrow> equalsnot_match_ignore_case pm
   | Containsallof_match \<Rightarrow> containsallof_match pm
   | Containsallof_match_ignore_case \<Rightarrow> containsallof_match_ignore_case pm)"

text \<open>The array \<^verbatim>\<open>matchers[]\<close>: name, both functions, and whether it takes several path elements.\<close>

definition supported_matchers :: "(string \<times> match_func \<times> match_func \<times> bool) list" where
  "supported_matchers =
    [(''equals'', Equals_match, Equals_match_ignore_case, False),
     (''contains'', Contains_match, Contains_match_ignore_case, False),
     (''startsWith'', Startswith_match, Startswith_match_ignore_case, False),
     (''endsWith'', Endswith_match, Endswith_match_ignore_case, False),
     (''equalsNot'', Equalsnot_match, Equalsnot_match_ignore_case, False),
     (''containsAllOf'', Containsallof_match, Containsallof_match_ignore_case, True)]"

subsection \<open>Building a fetch\<close>

text \<open>
  The size of a path matcher is computed with \<^verbatim>\<open>number_of_path_elements - 1\<close> in unsigned arithmetic;
  for 0 elements that asks for 32 GiB, which the limit of \<^verbatim>\<open>alloc.c\<close> refuses.
\<close>

definition create_path_matcher :: "nat \<Rightarrow> bool cm" where
  "create_path_matcher number_of_path_elements =
    (if number_of_path_elements = 0 then ret False else ask)"

primrec copy_path_elements :: "json list \<Rightarrow> string list option cm" where
  "copy_path_elements [] = ret (Some [])"
| "copy_path_elements (x # xs) =
    (case valuestring x of
       None \<Rightarrow> ret None
     | Some s \<Rightarrow> do {
         copy \<leftarrow> duplicate_string s;
         case copy of
           None \<Rightarrow> ret None
         | Some copy \<Rightarrow> do {
             rest \<leftarrow> copy_path_elements xs;
             ret (map_option (\<lambda>r. copy # r) rest) } })"

definition fill_path_elements :: "json \<Rightarrow> bool \<Rightarrow> string list option cm" where
  "fill_path_elements m has_multiple_path_elements =
    (if \<not> has_multiple_path_elements then
       copy_path_elements [m]
     else copy_path_elements (map snd (children m)))"

definition create_matcher :: "string \<Rightarrow> json \<Rightarrow> bool \<Rightarrow> path_matcher option cm" where
  "create_matcher name m ignore_case =
    (case map_of supported_matchers name of
       None \<Rightarrow> ret None
     | Some (case_sensitive, case_insensitive, has_multiple_path_elements) \<Rightarrow>
        if has_multiple_path_elements \<and> \<not> is_array m then ret None
        else if \<not> has_multiple_path_elements \<and> \<not> is_string m then ret None
        else do {
          let number_of_path_elements = (if has_multiple_path_elements then cJSON_GetArraySize m else 1);
          created \<leftarrow> create_path_matcher number_of_path_elements;
          if \<not> created then ret None
          else do {
            filled \<leftarrow> fill_path_elements m has_multiple_path_elements;
            case filled of
              None \<Rightarrow> ret None
            | Some els \<Rightarrow>
                ret (Some \<lparr>match_function = (if ignore_case then case_insensitive else case_sensitive),
                  path_elements = els\<rparr>) } })"

text \<open>The loop of \<^verbatim>\<open>add_matchers\<close>; the option \<open>caseInsensitive\<close> is not a matcher and does not count.\<close>

fun add_matchers_from ::
    "(string option \<times> json) list \<Rightarrow> bool \<Rightarrow> nat \<Rightarrow> path_matcher option list \<Rightarrow> path_matcher option list option cm" where
  "add_matchers_from [] ignore_case match_index ms = ret (Some ms)"
| "add_matchers_from ((name, m) # rest) ignore_case match_index ms =
    (case name of
       None \<Rightarrow> do { fault Null_pointer; ret None }
     | Some name \<Rightarrow>
        if name = ''caseInsensitive'' then add_matchers_from rest ignore_case match_index ms
        else do {
          pm \<leftarrow> create_matcher name m ignore_case;
          case pm of
            None \<Rightarrow> ret None
          | Some pm \<Rightarrow> do {
              (if match_index < length ms then ret () else fault Out_of_bounds);
              add_matchers_from rest ignore_case (match_index + 1) (ms[match_index := Some pm]) } })"

definition add_matchers :: "fetch \<Rightarrow> json \<Rightarrow> bool \<Rightarrow> fetch option cm" where
  "add_matchers f path ignore_case = do {
     ms \<leftarrow> add_matchers_from (children path) ignore_case 0 (matcher f);
     ret (map_option (\<lambda>ms. f\<lparr>matcher := ms\<rparr>) ms) }"

definition alloc_fetch :: "peer_ref \<Rightarrow> json option \<Rightarrow> nat \<Rightarrow> json \<Rightarrow> (json option + fetch) cm" where
  "alloc_fetch p jid number_of_matchers request = do {
     ok \<leftarrow> ask;
     if \<not> ok then fail_with request INVALID_PARAMS ''reason'' ''Could not allocated memory for fetch object!''
     else (case jid of
        None \<Rightarrow> ret (Inr \<lparr>fetch_id = None, f_peer = p, matcher = replicate number_of_matchers None\<rparr>)
      | Some jid \<Rightarrow> do {
          copy \<leftarrow> cJSON_Duplicate jid;
          case copy of
            None \<Rightarrow> fail_with request INVALID_PARAMS ''reason'' ''Could not allocated memory for fetch ID object!''
          | Some copy \<Rightarrow>
              ret (Inr \<lparr>fetch_id = Some copy, f_peer = p, matcher = replicate number_of_matchers None\<rparr>) }) }"

definition create_fetch :: "peer_ref \<Rightarrow> json \<Rightarrow> json option \<Rightarrow> json \<Rightarrow> (json option + fetch) cm" where
  "create_fetch p request jid params =
    (case cJSON_GetObjectItem params ''path'' of
       None \<Rightarrow> alloc_fetch p jid 1 request
     | Some path \<Rightarrow>
        if \<not> is_object path then fail_with request INVALID_PARAMS ''reason'' ''fetch path is not an object''
        else do {
          c \<leftarrow> gets cfg;
          let match_ignore_case = cJSON_GetObjectItem path ''caseInsensitive'';
          let number_of_matchers =
            (if match_ignore_case = None then cJSON_GetArraySize path else cJSON_GetArraySize path - 1);
          let ignore_case = (match_ignore_case = Some JTrue);
          if number_of_matchers = 0 then
            fail_with request INVALID_PARAMS ''reason'' ''no matcher in path object''
          else if max_numbers_of_matchers_in_fetch c < number_of_matchers then
            fail_with request INVALID_PARAMS ''reason'' ''too many matchers in path object''
          else do {
            f \<leftarrow> alloc_fetch p jid number_of_matchers request;
            case f of
              Inl _ \<Rightarrow> fail_with request INTERNAL_ERROR ''reason'' ''not enough memory to allocate fetch''
            | Inr f \<Rightarrow> do {
                f \<leftarrow> add_matchers f path ignore_case;
                case f of
                  None \<Rightarrow> fail_with request INTERNAL_ERROR ''reason'' ''could not add matchers to fetch''
                | Some f \<Rightarrow> ret (Inr f) } } })"

definition get_fetch_id :: "json \<Rightarrow> json \<Rightarrow> (json option + json) cm" where
  "get_fetch_id request params =
    (case cJSON_GetObjectItem params ''id'' of
       None \<Rightarrow> fail_with request INVALID_PARAMS ''reason'' ''no fetch id given''
     | Some jid \<Rightarrow>
        if \<not> is_string jid \<and> \<not> is_number jid
        then fail_with request INVALID_PARAMS ''reason'' ''fetch id is neither string nor number''
        else ret (Inr jid))"

definition ids_equal :: "json \<Rightarrow> json \<Rightarrow> bool" where
  "ids_equal id1 id2 =
    (case (id1, id2) of
       (JNumber i d, JNumber j e) \<Rightarrow> i = j
     | (JString s, JString t) \<Rightarrow> s = t
     | _ \<Rightarrow> False)"

fun find_fetch_in :: "fetch_ref list \<Rightarrow> json \<Rightarrow> fetch_ref option cm" where
  "find_fetch_in [] jid = ret None"
| "find_fetch_in (r # rs) jid = do {
     f \<leftarrow> get_fetch r;
     case fetch_id f of
       None \<Rightarrow> do { fault Null_pointer; ret None }
     | Some i \<Rightarrow> if ids_equal i jid then ret (Some r) else find_fetch_in rs jid }"

definition find_fetch :: "peer_ref \<Rightarrow> json \<Rightarrow> fetch_ref option cm" where
  "find_fetch p jid = do { pr \<leftarrow> get_peer p; find_fetch_in (fetch_list pr) jid }"

subsection \<open>Matching, the table of fetchers\<close>

fun matches_from :: "path_matcher option list \<Rightarrow> string \<Rightarrow> bool cm" where
  "matches_from [] path = ret True"
| "matches_from (m # ms) path =
    (case m of
       None \<Rightarrow> do { fault Null_pointer; ret False }
     | Some pm \<Rightarrow> if \<not> call_match_function pm path then ret False else matches_from ms path)"

definition state_matches :: "element \<Rightarrow> fetch \<Rightarrow> bool cm" where
  "state_matches e f =
    (case matcher f of
       [] \<Rightarrow> do { fault Out_of_bounds; ret False }
     | None # _ \<Rightarrow> ret True
     | ms \<Rightarrow> matches_from ms (e_path e))"

definition free_slot :: "fetch_ref option list \<Rightarrow> nat option" where
  "free_slot table = find_index (\<lambda>x. x = None) table"

definition grow_table :: "nat \<Rightarrow> fetch_ref option list \<Rightarrow> fetch_ref option list" where
  "grow_table initial table =
    (let new_size = max initial (length table * 2) in table @ replicate (new_size - length table) None)"

text \<open>
  The recursive call after growing always finds a slot, unless the table is empty and the initial
  size is 0: then the code would allocate and recurse forever.
\<close>

definition add_fetch_to_state :: "elem_ref \<Rightarrow> fetch_ref \<Rightarrow> bool cm" where
  "add_fetch_to_state e f = do {
     el \<leftarrow> get_elem e;
     case free_slot (fetcher_table el) of
       Some i \<Rightarrow> do { set_elem e (\<lambda>el. el\<lparr>fetcher_table := (fetcher_table el)[i := Some f]\<rparr>); ret True }
     | None \<Rightarrow> do {
         c \<leftarrow> gets cfg;
         ok \<leftarrow> ask;
         if \<not> ok then ret False
         else do {
           let table = grow_table (initial_fetch_table_size c) (fetcher_table el);
           case free_slot table of
             Some i \<Rightarrow> do { set_elem e (\<lambda>el. el\<lparr>fetcher_table := table[i := Some f]\<rparr>); ret True }
           | None \<Rightarrow> do { fault Endless_recursion; ret False } } } }"

definition remove_fetch_from_state :: "elem_ref \<Rightarrow> fetch_ref \<Rightarrow> unit cm" where
  "remove_fetch_from_state e f =
     set_elem e (\<lambda>el. el\<lparr>fetcher_table := map (\<lambda>x. if x = Some f then None else x) (fetcher_table el)\<rparr>)"

subsection \<open>Notifications\<close>

text \<open>\<^verbatim>\<open>FETCH_ONLY_FLAG\<close> and \<^verbatim>\<open>element_is_fetch_only\<close> of \<^verbatim>\<open>element.h\<close> and \<^verbatim>\<open>element.c\<close>.\<close>

definition FETCH_ONLY_FLAG :: "32 word" where "FETCH_ONLY_FLAG = 1"

definition element_is_fetch_only :: "element \<Rightarrow> bool" where
  "element_is_fetch_only e = (if e_flags e AND FETCH_ONLY_FLAG = FETCH_ONLY_FLAG then True else False)"

text \<open>The object \<open>params\<close> is attached first and filled afterwards.\<close>

definition notify_fetching_peer :: "element \<Rightarrow> fetch \<Rightarrow> string \<Rightarrow> bool cm" where
  "notify_fetching_peer e f event_name =
     need cJSON_CreateObject (\<lambda>root_obj.
     case fetch_id f of
       None \<Rightarrow> do { fault Null_pointer; ret False }
     | Some jid \<Rightarrow>
     need (cJSON_Duplicate jid) (\<lambda>fetch_id. do {
     root_obj \<leftarrow> cJSON_AddItemToObject root_obj ''method'' (Some fetch_id);
     need cJSON_CreateObject (\<lambda>param. do {
     root_obj \<leftarrow> cJSON_AddItemToObject root_obj ''params'' (Some param);
     param \<leftarrow> (if element_is_fetch_only e then cJSON_AddTrueToObject param ''fetchOnly'' else ret param);
     need (cJSON_CreateString (e_path e)) (\<lambda>path. do {
     param \<leftarrow> cJSON_AddItemToObject param ''path'' (Some path);
     need (cJSON_CreateString event_name) (\<lambda>event. do {
     param \<leftarrow> cJSON_AddItemToObject param ''event'' (Some event);
     param \<leftarrow> (case e_value e of
        None \<Rightarrow> ret (Some param)
      | Some v \<Rightarrow> do {
          copy \<leftarrow> cJSON_Duplicate v;
          case copy of
            None \<Rightarrow> ret None
          | Some copy \<Rightarrow> do { param \<leftarrow> cJSON_AddItemToObject param ''value'' (Some copy); ret (Some param) } });
     case param of
       None \<Rightarrow> ret False
     | Some param \<Rightarrow>
         need (cJSON_PrintUnformatted (update_member root_obj ''params'' param)) (\<lambda>rendered_message.
         send_message (f_peer f) rendered_message) }) }) }) }))"

definition notify_fetchers :: "elem_ref \<Rightarrow> string \<Rightarrow> bool cm" where
  "notify_fetchers e event_name = do {
     el \<leftarrow> get_elem e;
     for_each_ok (\<lambda>entry. case entry of
         None \<Rightarrow> ret True
       | Some r \<Rightarrow> do { f \<leftarrow> get_fetch r; notify_fetching_peer el f event_name })
       (fetcher_table el) }"

definition add_fetch_to_state_and_notify :: "elem_ref \<Rightarrow> fetch_ref \<Rightarrow> bool cm" where
  "add_fetch_to_state_and_notify e r = do {
     el \<leftarrow> get_elem e;
     f \<leftarrow> get_fetch r;
     pr \<leftarrow> get_peer (f_peer f);
     access \<leftarrow> has_access (e_fetch_groups el) (p_fetch_groups pr);
     if \<not> access then ret True
     else do {
       matches \<leftarrow> state_matches el f;
       if matches then do {
         added \<leftarrow> add_fetch_to_state e r;
         if \<not> added then ret False
         else do {
           el \<leftarrow> get_elem e;
           notified \<leftarrow> notify_fetching_peer el f ''add'';
           if \<not> notified then ret False else ret True } }
       else ret True } }"

subsection \<open>Loops over all peers\<close>

definition add_fetch_to_states_in_peer :: "peer_ref \<Rightarrow> fetch_ref \<Rightarrow> bool cm" where
  "add_fetch_to_states_in_peer p f = do {
     pr \<leftarrow> get_peer p;
     for_each_ok (\<lambda>e. add_fetch_to_state_and_notify e f) (element_list pr) }"

text \<open>The request is answered with an error when a notification could not be sent.\<close>

definition add_fetch_to_states :: "peer_ref \<Rightarrow> json \<Rightarrow> fetch_ref \<Rightarrow> json option cm" where
  "add_fetch_to_states request_peer request f = do {
     ps \<leftarrow> gets peer_list;
     ok \<leftarrow> for_each_ok (\<lambda>p. add_fetch_to_states_in_peer p f) ps;
     if \<not> ok
     then create_error_response_from_request request INTERNAL_ERROR ''reason'' ''could not add fetch to state''
     else create_success_response_from_request request }"

definition remove_fetch_from_states_in_peer :: "peer_ref \<Rightarrow> fetch_ref \<Rightarrow> unit cm" where
  "remove_fetch_from_states_in_peer p f = do {
     pr \<leftarrow> get_peer p;
     for_each (\<lambda>e. remove_fetch_from_state e f) (element_list pr) }"

definition remove_fetch_from_states :: "fetch_ref \<Rightarrow> unit cm" where
  "remove_fetch_from_states f = do {
     ps \<leftarrow> gets peer_list;
     for_each (\<lambda>p. remove_fetch_from_states_in_peer p f) ps }"

definition find_fetchers_for_element_in_peer :: "peer_ref \<Rightarrow> elem_ref \<Rightarrow> bool cm" where
  "find_fetchers_for_element_in_peer p e = do {
     pr \<leftarrow> get_peer p;
     for_each_ok (\<lambda>f. add_fetch_to_state_and_notify e f) (fetch_list pr) }"

definition find_fetchers_for_element :: "elem_ref \<Rightarrow> bool cm" where
  "find_fetchers_for_element e = do {
     ps \<leftarrow> gets peer_list;
     for_each_ok (\<lambda>p. find_fetchers_for_element_in_peer p e) ps }"

text \<open>\<open>Inl (Some response)\<close>: a failed \<^verbatim>\<open>get_element\<close>; otherwise the array so far.\<close>

definition get_element :: "json \<Rightarrow> fetch \<Rightarrow> elem_ref \<Rightarrow> json option \<Rightarrow> (json option + json option) cm" where
  "get_element request f e states = do {
     el \<leftarrow> get_elem e;
     pr \<leftarrow> get_peer (f_peer f);
     access \<leftarrow> has_access (e_fetch_groups el) (p_fetch_groups pr);
     if \<not> access then ret (Inr states)
     else do {
       matches \<leftarrow> state_matches el f;
       if matches then
         (case e_value el of
            None \<Rightarrow> ret (Inr states)
          | Some v \<Rightarrow> do {
              root_obj \<leftarrow> cJSON_CreateObject;
              case root_obj of
                None \<Rightarrow> fail_with request INTERNAL_ERROR ''reason'' ''could not allocate memory for state object''
              | Some root_obj \<Rightarrow> do {
                  path \<leftarrow> cJSON_CreateString (e_path el);
                  case path of
                    None \<Rightarrow> fail_with request INTERNAL_ERROR ''reason'' ''could not allocate memory for path object''
                  | Some path \<Rightarrow> do {
                      root_obj \<leftarrow> cJSON_AddItemToObject root_obj ''path'' (Some path);
                      value \<leftarrow> cJSON_Duplicate v;
                      case value of
                        None \<Rightarrow> fail_with request INTERNAL_ERROR ''reason'' ''could not allocate memory for value''
                      | Some value \<Rightarrow> do {
                          root_obj \<leftarrow> cJSON_AddItemToObject root_obj ''value'' (Some value);
                          ret (Inr (map_option (\<lambda>a. append_item a root_obj) states)) } } } })
       else ret (Inr states) } }"

definition get_elements_in_peer ::
    "json \<Rightarrow> fetch \<Rightarrow> peer_ref \<Rightarrow> json option \<Rightarrow> (json option + json option) cm" where
  "get_elements_in_peer request f p states = do {
     pr \<leftarrow> get_peer p;
     fold_each (get_element request f) (element_list pr) states }"

definition get_elements :: "json \<Rightarrow> peer_ref \<Rightarrow> json option cm" where
  "get_elements request request_peer =
     or_return (get_params request) (\<lambda>params.
     or_return (create_fetch request_peer request None params) (\<lambda>f. do {
       states \<leftarrow> cJSON_CreateArray;
       ps \<leftarrow> gets peer_list;
       or_return (fold_each (get_elements_in_peer request f) ps states) (\<lambda>states.
         create_result_response_from_request request states ''result'') }))"

subsection \<open>The requests \<open>fetch\<close> and \<open>unfetch\<close>\<close>

definition add_fetch_to_peer :: "peer_ref \<Rightarrow> json \<Rightarrow> (json option + fetch_ref) cm" where
  "add_fetch_to_peer p request =
     or_fail (get_params request) (\<lambda>params.
     if cJSON_GetObjectItem params ''match'' \<noteq> None
     then fail_with request INVALID_PARAMS ''reason'' ''No support for deprecated match''
     else
       or_fail (get_fetch_id request params) (\<lambda>jid. do {
         existing \<leftarrow> find_fetch p jid;
         case existing of
           Some _ \<Rightarrow> fail_with request INVALID_PARAMS ''reason'' ''fetch id already in use''
         | None \<Rightarrow>
             or_fail (create_fetch p request (Some jid) params) (\<lambda>f. do {
               r \<leftarrow> new_ref;
               modify (\<lambda>w. w\<lparr>fetches := (fetches w)(r \<mapsto> f)\<rparr>);
               set_peer p (\<lambda>pr. pr\<lparr>fetch_list := fetch_list pr @ [r]\<rparr>);
               ret (Inr r) }) }))"

text \<open>\<open>list_del\<close> and \<^verbatim>\<open>free_fetch\<close>.\<close>

definition unlink_fetch :: "peer_ref \<Rightarrow> fetch_ref \<Rightarrow> unit cm" where
  "unlink_fetch p f = do {
     set_peer p (\<lambda>pr. pr\<lparr>fetch_list := remove1 f (fetch_list pr)\<rparr>);
     modify (\<lambda>w. w\<lparr>fetches := (fetches w)(f := None)\<rparr>) }"

definition remove_fetch_from_peer :: "peer_ref \<Rightarrow> json \<Rightarrow> json option cm" where
  "remove_fetch_from_peer p request =
     or_return (get_params request) (\<lambda>params.
     or_return (get_fetch_id request params) (\<lambda>jid. do {
       existing \<leftarrow> find_fetch p jid;
       case existing of
         None \<Rightarrow> create_error_response_from_request request INVALID_PARAMS ''reason'' ''fetch id not found for unfetch''
       | Some f \<Rightarrow> do {
           remove_fetch_from_states f;
           unlink_fetch p f;
           create_success_response_from_request request } }))"

definition remove_all_fetchers_from_peer :: "peer_ref \<Rightarrow> unit cm" where
  "remove_all_fetchers_from_peer p = do {
     pr \<leftarrow> get_peer p;
     for_each (\<lambda>f. do { remove_fetch_from_states f; unlink_fetch p f }) (fetch_list pr) }"

end
