(* ===== verification/Subscription.thy ===== *)
theory Subscription
  imports Fetch
begin

text \<open>
  What subscribing does: the meaning of the operations of \<open>Fetch\<close> on the whole state.

  \<open>wants w e f\<close> says that fetch \<open>f\<close> is entitled to element \<open>e\<close> and accepts its path;
  \<open>subs w e f\<close> counts how often \<open>f\<close> stands in the table of \<open>e\<close>.  Every operation that walks over
  elements or fetches changes a state only by \<open>retable\<close>: it consumes answers, sends messages and
  rewrites fetcher tables.  \<open>subscribes w0 P msgs m\<close> is the contract of the loops: \<open>m\<close> adds every
  pair of \<open>P\<close> that is wanted to the tables, once, unless it fails half-way; without failures it
  sends exactly \<open>msgs\<close>.
\<close>

subsection \<open>Notifications\<close>

definition notification :: "element \<Rightarrow> json \<Rightarrow> string \<Rightarrow> json" where
  "notification e jid event_name = JObject
    [(''method'', jid),
     (''params'', JObject
       ((if element_is_fetch_only e then [(''fetchOnly'', JTrue)] else []) @
        [(''path'', JString (e_path e)), (''event'', JString event_name)] @
        (case e_value e of None \<Rightarrow> [] | Some v \<Rightarrow> [(''value'', v)])))]"

lemma run_need: "run_state (need m f) w =
    (case run_state m w of (None, w') \<Rightarrow> (False, w') | (Some x, w') \<Rightarrow> run_state (f x) w')"
  by (simp add: need_def split: prod.splits option.splits)

lemma update_member_params [simp]:
  "update_member (JObject [(''method'', i), (''params'', x)]) ''params'' y = JObject [(''method'', i), (''params'', y)]"
  by (simp add: update_member_def)

lemma run_notify_fetching_peer [pure_run]:
  assumes "env w = []" "fetch_id f = Some jid"
  shows "run_state (notify_fetching_peer e f ev) w =
    (True, w\<lparr>sent := sent w @ [(f_peer f, notification e jid ev)]\<rparr>)"
  using assms
  by (cases "e_value e"; cases "element_is_fetch_only e")
    (simp_all add: notify_fetching_peer_def notification_def run_need pure_run append_member_def)

lemma quiet_notify_fetching_peer: "fetch_id f = Some jid \<Longrightarrow> quiet (notify_fetching_peer e f ev)"
  unfolding notify_fetching_peer_def
  by (auto simp only: option.case intro!: quiet_rules env_only_quiet [OF env_only_build(1)] env_only_quiet [OF env_only_build(3)]
      env_only_quiet [OF env_only_build(6)] env_only_quiet [OF env_only_build(7)]
      env_only_quiet [OF env_only_build(8)] env_only_quiet [OF env_only_build(9)])

subsection \<open>Matching\<close>

definition path_matches :: "fetch \<Rightarrow> string \<Rightarrow> bool" where
  "path_matches f path \<longleftrightarrow>
    (case matcher f of
       [] \<Rightarrow> False
     | None # _ \<Rightarrow> True
     | ms \<Rightarrow> \<forall>m\<in>set ms. case m of None \<Rightarrow> False | Some pm \<Rightarrow> call_match_function pm path)"

text \<open>A fetch whose matchers can be called: one NULL entry (fetch all), or no NULL entry.\<close>

definition matchers_ok :: "fetch \<Rightarrow> bool" where
  "matchers_ok f \<longleftrightarrow> matcher f \<noteq> [] \<and> (hd (matcher f) = None \<or> None \<notin> set (matcher f))"

lemma run_matches_from:
  "\<exists>fs. run_state (matches_from ms path) w =
     (\<forall>m\<in>set ms. case m of None \<Rightarrow> False | Some pm \<Rightarrow> call_match_function pm path,
      w\<lparr>faults := faults w @ fs\<rparr>) \<and> set fs \<subseteq> {Null_pointer} \<and> (None \<notin> set ms \<longrightarrow> fs = [])"
proof (induction ms)
  case Nil
  then show ?case by (auto intro: exI [of _ "[]"])
next
  case (Cons m ms)
  show ?case
  proof (cases m)
    case None
    then show ?thesis by (auto simp: fault_def intro!: exI [of _ "[Null_pointer]"])
  next
    case (Some pm)
    with Cons show ?thesis by (cases "call_match_function pm path") (auto intro: exI [of _ "[]"])
  qed
qed

lemma run_state_matches:
  assumes "matcher f \<noteq> []"
  shows "\<exists>fs. run_state (state_matches e f) w = (path_matches f (e_path e), w\<lparr>faults := faults w @ fs\<rparr>) \<and>
    set fs \<subseteq> {Null_pointer} \<and> (matchers_ok f \<longrightarrow> fs = [])"
proof -
  from assms obtain m ms where m: "matcher f = m # ms" by (cases "matcher f") auto
  show ?thesis
  proof (cases m)
    case None
    with m show ?thesis by (auto simp: state_matches_def path_matches_def intro: exI [of _ "[]"])
  next
    case (Some pm)
    with m run_matches_from [of "m # ms" "e_path e" w] show ?thesis
      by (auto simp: state_matches_def path_matches_def matchers_ok_def)
  qed
qed

lemma run_state_matches_ok [pure_run]:
  "matchers_ok f \<Longrightarrow> run_state (state_matches e f) w = (path_matches f (e_path e), w)"
  using run_state_matches [of f e w] by (auto simp: matchers_ok_def)

subsection \<open>The table of fetchers\<close>

definition subs :: "world \<Rightarrow> elem_ref \<Rightarrow> fetch_ref \<Rightarrow> nat" where
  "subs w e f = (case elements w e of None \<Rightarrow> 0 | Some el \<Rightarrow> count_list (fetcher_table el) (Some f))"

lemma count_fill_slot:
  assumes "free_slot table = Some i"
  shows "count_list (table[i := Some f]) (Some g) = count_list table (Some g) + (if g = f then 1 else 0)"
proof -
  from assms have "i < length table" "table ! i = None"
    using find_index_Some [of "\<lambda>x. x = None" table i] by (simp_all add: free_slot_def)
  with count_list_update [of i table "Some f" "Some g"] show ?thesis by (auto split: if_splits)
qed

lemma count_grow_table: "count_list (grow_table n table) (Some g) = count_list table (Some g)"
  by (simp add: grow_table_def Let_def count_list_replicate)

lemma free_slot_grow: "1 \<le> n \<Longrightarrow> free_slot table = None \<Longrightarrow> free_slot (grow_table n table) \<noteq> None"
  by (cases "table = []") (auto simp: free_slot_def grow_table_def Let_def find_index_None max_def)

lemma fetcher_table_update_self [simp]: "el\<lparr>fetcher_table := fetcher_table el\<rparr> = el"
  by simp

lemma run_add_fetch_to_state:
  assumes e: "elements w e = Some el" and size: "1 \<le> initial_fetch_table_size (cfg w)"
    and run: "run_state (add_fetch_to_state e f) w = (ok, w')"
  shows "\<exists>n tb. w' = w\<lparr>env := drop n (env w), elements := (elements w)(e \<mapsto> el\<lparr>fetcher_table := tb\<rparr>)\<rparr> \<and>
    (\<forall>g. count_list tb (Some g) = count_list (fetcher_table el) (Some g) + (if ok \<and> g = f then 1 else 0)) \<and>
    (env w = [] \<longrightarrow> ok)"
proof (cases "free_slot (fetcher_table el)")
  case (Some i)
  with e run show ?thesis
    by (auto simp: add_fetch_to_state_def run_get run_set count_fill_slot
        intro!: exI [of _ 0] exI [of _ "(fetcher_table el)[i := Some f]"])
next
  case None
  obtain a w1 where ask: "run_state ask w = (a, w1)" by fastforce
  obtain n where w1: "w1 = w\<lparr>env := drop n (env w)\<rparr>"
    using env_only_ask ask unfolding env_only_def by (metis snd_conv)
  show ?thesis
  proof (cases a)
    case False
    with None e run ask have "ok = False" "w' = w1" by (auto simp: add_fetch_to_state_def run_get)
    moreover have "env w \<noteq> []" using ask False run_ask [of w] by auto
    moreover have "(elements w)(e \<mapsto> el) = elements w" using e by auto
    ultimately show ?thesis using w1 by (intro exI [of _ n] exI [of _ "fetcher_table el"]) simp
  next
    case True
    from free_slot_grow [OF size None] obtain i
      where i: "free_slot (grow_table (initial_fetch_table_size (cfg w)) (fetcher_table el)) = Some i" by auto
    have "elements w1 e = Some el" using e w1 by simp
    with None e run ask True i w1 show ?thesis
      by (auto simp: add_fetch_to_state_def run_get run_set count_fill_slot count_grow_table
          intro!: exI [of _ n] exI [of _ "(grow_table (initial_fetch_table_size (cfg w)) (fetcher_table el))[i := Some f]"])
  qed
qed

subsection \<open>Changes of tables only\<close>

definition retable :: "world \<Rightarrow> world \<Rightarrow> bool" where
  "retable w w' \<longleftrightarrow> (\<exists>en sn fs tb. set fs \<subseteq> {Null_pointer} \<and>
     w' = w\<lparr>env := en, sent := sent w @ sn, faults := faults w @ fs,
       elements := (\<lambda>e. map_option (\<lambda>el. el\<lparr>fetcher_table := tb e\<rparr>) (elements w e))\<rparr>)"

lemma elements_self: "(\<lambda>e. map_option (\<lambda>el. el\<lparr>fetcher_table := fetcher_table (the (m e))\<rparr>) (m e)) = m"
  by (rule ext) (auto simp: map_option_case split: option.split)

lemma retable_refl [simp]: "retable w w"
  unfolding retable_def
  by (rule exI [of _ "env w"], rule exI [of _ "[]"], rule exI [of _ "[]"],
      rule exI [of _ "\<lambda>e. fetcher_table (the (elements w e))"]) (simp add: elements_self)

lemma retable_trans [trans]:
  assumes "retable w1 w2" "retable w2 w3"
  shows "retable w1 w3"
proof -
  from assms(1) obtain en1 sn1 fs1 tb1 where 1: "set fs1 \<subseteq> {Null_pointer}"
    "w2 = w1\<lparr>env := en1, sent := sent w1 @ sn1, faults := faults w1 @ fs1,
       elements := (\<lambda>e. map_option (\<lambda>el. el\<lparr>fetcher_table := tb1 e\<rparr>) (elements w1 e))\<rparr>"
    unfolding retable_def by blast
  from assms(2) obtain en2 sn2 fs2 tb2 where 2: "set fs2 \<subseteq> {Null_pointer}"
    "w3 = w2\<lparr>env := en2, sent := sent w2 @ sn2, faults := faults w2 @ fs2,
       elements := (\<lambda>e. map_option (\<lambda>el. el\<lparr>fetcher_table := tb2 e\<rparr>) (elements w2 e))\<rparr>"
    unfolding retable_def by blast
  have "w3 = w1\<lparr>env := en2, sent := sent w1 @ (sn1 @ sn2), faults := faults w1 @ (fs1 @ fs2),
       elements := (\<lambda>e. map_option (\<lambda>el. el\<lparr>fetcher_table := tb2 e\<rparr>) (elements w1 e))\<rparr>"
    by (simp add: 2(2) 1(2) option.map_comp comp_def)
  moreover have "set (fs1 @ fs2) \<subseteq> {Null_pointer}" using 1(1) 2(1) by simp
  ultimately show ?thesis unfolding retable_def by blast
qed

lemma retable_answers: "set fs \<subseteq> {Null_pointer} \<Longrightarrow>
    retable w (w\<lparr>env := en, sent := sent w @ sn, faults := faults w @ fs\<rparr>)"
  unfolding retable_def
  by (rule exI [of _ en], rule exI [of _ sn], rule exI [of _ fs],
      rule exI [of _ "\<lambda>e. fetcher_table (the (elements w e))"]) (simp add: elements_self)

lemma retable_quiet: "quiet m \<Longrightarrow> run_state m w = (r, w') \<Longrightarrow> retable w w'"
  using quietD [of m w r w'] retable_answers [of "[]" w] by fastforce

lemma retable_table:
  assumes "elements w e = Some el"
  shows "retable w (w\<lparr>env := en, elements := (elements w)(e \<mapsto> el\<lparr>fetcher_table := tb\<rparr>)\<rparr>)"
proof -
  let ?tb = "\<lambda>x. if x = e then tb else fetcher_table (the (elements w x))"
  have "(elements w)(e \<mapsto> el\<lparr>fetcher_table := tb\<rparr>) =
      (\<lambda>x. map_option (\<lambda>el. el\<lparr>fetcher_table := ?tb x\<rparr>) (elements w x))"
    using assms by (intro ext) (auto simp: map_option_case split: option.split)
  then show ?thesis
    unfolding retable_def
    by (intro exI [of _ en] exI [of _ "[]"] exI [of _ ?tb]) simp
qed

lemma retable_same:
  assumes "retable w w'"
  shows "cfg w' = cfg w" "all_groups w' = all_groups w" "user_data w' = user_data w" "uuid w' = uuid w"
    and "peer_list w' = peer_list w" "number_of_peers w' = number_of_peers w" "peers w' = peers w"
    and "fetches w' = fetches w" "requests w' = requests w" "timers w' = timers w"
    and "next_ref w' = next_ref w" "element_hashtable w' = element_hashtable w"
  using assms unfolding retable_def by auto

lemma retable_element:
  "retable w w' \<Longrightarrow> elements w e = Some el \<Longrightarrow> \<exists>tb. elements w' e = Some (el\<lparr>fetcher_table := tb\<rparr>)"
  unfolding retable_def by auto

lemma retable_element_rev:
  "retable w w' \<Longrightarrow> elements w' e = Some el' \<Longrightarrow> \<exists>el tb. elements w e = Some el \<and> el' = el\<lparr>fetcher_table := tb\<rparr>"
  unfolding retable_def by fastforce

lemma retable_no_element: "retable w w' \<Longrightarrow> elements w' e = None \<longleftrightarrow> elements w e = None"
  unfolding retable_def by auto

lemma retable_faults: "retable w w' \<Longrightarrow> set (faults w') \<subseteq> set (faults w) \<union> {Null_pointer}"
  unfolding retable_def by auto

subsection \<open>Who is entitled to what\<close>

definition entitled :: "world \<Rightarrow> element \<Rightarrow> fetch \<Rightarrow> bool" where
  "entitled w el ft \<longleftrightarrow>
    (case peers w (f_peer ft) of
       None \<Rightarrow> False
     | Some pr \<Rightarrow> access_allowed (all_groups w) (e_fetch_groups el) (p_fetch_groups pr)) \<and>
    path_matches ft (e_path el)"

definition wants :: "world \<Rightarrow> elem_ref \<Rightarrow> fetch_ref \<Rightarrow> bool" where
  "wants w e f \<longleftrightarrow>
    (case (elements w e, fetches w f) of (Some el, Some ft) \<Rightarrow> entitled w el ft | _ \<Rightarrow> False)"

definition fetch_live :: "world \<Rightarrow> fetch_ref \<Rightarrow> bool" where
  "fetch_live w f \<longleftrightarrow> (case fetches w f of
     None \<Rightarrow> False
   | Some ft \<Rightarrow> fetch_id ft \<noteq> None \<and> matcher ft \<noteq> [] \<and> peers w (f_peer ft) \<noteq> None)"

definition event_for :: "world \<Rightarrow> string \<Rightarrow> elem_ref \<Rightarrow> fetch_ref \<Rightarrow> (peer_ref \<times> json) list" where
  "event_for w ev e f = (case (elements w e, fetches w f) of
     (Some el, Some ft) \<Rightarrow> [(f_peer ft, notification el (the (fetch_id ft)) ev)] | _ \<Rightarrow> [])"

lemma retable_wants: "retable w w' \<Longrightarrow> wants w' e f = wants w e f"
  unfolding retable_def wants_def entitled_def by (auto split: option.splits)

lemma retable_live: "retable w w' \<Longrightarrow> fetch_live w' f = fetch_live w f"
  by (simp add: fetch_live_def retable_same(7,8) cong: option.case_cong)

lemma notification_table [simp]: "notification (el\<lparr>fetcher_table := tb\<rparr>) jid ev = notification el jid ev"
  by (simp add: notification_def element_is_fetch_only_def)

lemma retable_event_for: "retable w w' \<Longrightarrow> event_for w' ev e f = event_for w ev e f"
  unfolding retable_def event_for_def by (auto split: option.splits)

lemma subs_answers [simp]:
  "subs (w\<lparr>env := en\<rparr>) = subs w" "subs (w\<lparr>sent := sn\<rparr>) = subs w" "subs (w\<lparr>faults := fs\<rparr>) = subs w"
  by (simp_all add: subs_def fun_eq_iff)

subsection \<open>The contract of the loops that subscribe\<close>

definition subscribed ::
    "world \<Rightarrow> (elem_ref \<times> fetch_ref) set \<Rightarrow> (peer_ref \<times> json) list \<Rightarrow> world \<Rightarrow> bool \<Rightarrow> world \<Rightarrow> bool" where
  "subscribed w0 P msgs w ok w' \<longleftrightarrow>
     retable w w' \<and>
     (\<exists>D \<subseteq> P. (\<forall>e f. subs w' e f = subs w e f + (if (e, f) \<in> D then 1 else 0)) \<and>
        (\<forall>(e, f) \<in> D. wants w0 e f) \<and> (ok \<longrightarrow> D = {(e, f) \<in> P. wants w0 e f})) \<and>
     ((\<forall>(e, f) \<in> P. \<forall>ft. fetches w0 f = Some ft \<longrightarrow> matchers_ok ft) \<longrightarrow> faults w' = faults w) \<and>
     (env w = [] \<longrightarrow> ok \<and> env w' = [] \<and> sent w' = sent w @ msgs)"

definition subscribes ::
    "world \<Rightarrow> (elem_ref \<times> fetch_ref) set \<Rightarrow> (peer_ref \<times> json) list \<Rightarrow> bool cm \<Rightarrow> bool" where
  "subscribes w0 P msgs m \<longleftrightarrow>
     (\<forall>w ok w'. retable w0 w \<longrightarrow> run_state m w = (ok, w') \<longrightarrow> subscribed w0 P msgs w ok w')"

lemma subscribedD:
  assumes "subscribed w0 P msgs w ok w'"
  shows "retable w w'"
    and "\<exists>D \<subseteq> P. (\<forall>e f. subs w' e f = subs w e f + (if (e, f) \<in> D then 1 else 0)) \<and>
        (\<forall>(e, f) \<in> D. wants w0 e f) \<and> (ok \<longrightarrow> D = {(e, f) \<in> P. wants w0 e f})"
    and "(\<forall>(e, f) \<in> P. \<forall>ft. fetches w0 f = Some ft \<longrightarrow> matchers_ok ft) \<longrightarrow> faults w' = faults w"
    and "env w = [] \<longrightarrow> ok \<and> env w' = [] \<and> sent w' = sent w @ msgs"
proof -
  note all = assms [unfolded subscribed_def]
  show "retable w w'" by (rule all [THEN conjunct1])
  show "\<exists>D \<subseteq> P. (\<forall>e f. subs w' e f = subs w e f + (if (e, f) \<in> D then 1 else 0)) \<and>
        (\<forall>(e, f) \<in> D. wants w0 e f) \<and> (ok \<longrightarrow> D = {(e, f) \<in> P. wants w0 e f})"
    by (rule all [THEN conjunct2, THEN conjunct1])
  show "(\<forall>(e, f) \<in> P. \<forall>ft. fetches w0 f = Some ft \<longrightarrow> matchers_ok ft) \<longrightarrow> faults w' = faults w"
    by (rule all [THEN conjunct2, THEN conjunct2, THEN conjunct1])
  show "env w = [] \<longrightarrow> ok \<and> env w' = [] \<and> sent w' = sent w @ msgs"
    by (rule all [THEN conjunct2, THEN conjunct2, THEN conjunct2])
qed

lemma subscribedI:
  assumes "retable w w'" and "D \<subseteq> P"
    and "\<And>e f. subs w' e f = subs w e f + (if (e, f) \<in> D then 1 else 0)"
    and "\<And>e f. (e, f) \<in> D \<Longrightarrow> wants w0 e f" and "ok \<Longrightarrow> D = {(e, f) \<in> P. wants w0 e f}"
    and "\<forall>(e, f) \<in> P. \<forall>ft. fetches w0 f = Some ft \<longrightarrow> matchers_ok ft \<Longrightarrow> faults w' = faults w"
    and "env w = [] \<Longrightarrow> ok \<and> env w' = [] \<and> sent w' = sent w @ msgs"
  shows "subscribed w0 P msgs w ok w'"
  unfolding subscribed_def
proof (intro conjI impI)
  show "\<exists>D \<subseteq> P. (\<forall>e f. subs w' e f = subs w e f + (if (e, f) \<in> D then 1 else 0)) \<and>
        (\<forall>(e, f) \<in> D. wants w0 e f) \<and> (ok \<longrightarrow> D = {(e, f) \<in> P. wants w0 e f})"
  proof (rule exI [of _ D], intro conjI)
    show "D \<subseteq> P" by (rule assms(2))
    show "\<forall>e f. subs w' e f = subs w e f + (if (e, f) \<in> D then 1 else 0)" using assms(3) by simp
    show "\<forall>(e, f) \<in> D. wants w0 e f" using assms(4) by auto
    show "ok \<longrightarrow> D = {(e, f) \<in> P. wants w0 e f}" using assms(5) by simp
  qed
qed (fact assms(1), erule assms(6), (frule assms(7), simp)+)

lemma subscribesD: "subscribes w0 P msgs m \<Longrightarrow> retable w0 w \<Longrightarrow> run_state m w = (ok, w') \<Longrightarrow> subscribed w0 P msgs w ok w'"
  by (simp add: subscribes_def)

lemma subscribes_return: "subscribes w0 {} [] (ret True)"
  by (simp add: subscribes_def subscribed_def)

lemma subscribes_cong:
  "(\<And>w. retable w0 w \<Longrightarrow> run_state m' w = run_state m w) \<Longrightarrow> subscribes w0 P msgs m \<Longrightarrow> subscribes w0 P msgs m'"
  by (simp add: subscribes_def)

lemma subscribes_get_peer:
  assumes "peers w0 p = Some pr" "subscribes w0 P msgs (k pr)"
  shows "subscribes w0 P msgs (do { pr \<leftarrow> get_peer p; k pr })"
  by (rule subscribes_cong [OF _ assms(2)]) (simp add: run_get assms(1) retable_same)

lemma subscribes_gets_peer_list:
  assumes "subscribes w0 P msgs (k (peer_list w0))"
  shows "subscribes w0 P msgs (do { ps \<leftarrow> gets peer_list; k ps })"
  by (rule subscribes_cong [OF _ assms]) (simp add: retable_same)

lemma subscribes_and:
  assumes m: "subscribes w0 P msgs m" and n: "subscribes w0 Q msgs' n" and disj: "P \<inter> Q = {}"
  shows "subscribes w0 (P \<union> Q) (msgs @ msgs') (do { ok \<leftarrow> m; if ok then n else ret False })"
  unfolding subscribes_def
proof (intro allI impI)
  fix w ok w'
  assume rt: "retable w0 w" and run: "run_state (do { ok \<leftarrow> m; if ok then n else ret False }) w = (ok, w')"
  obtain ok1 w1 where r1: "run_state m w = (ok1, w1)" by fastforce
  note m1 = subscribedD [OF subscribesD [OF m rt r1]]
  obtain D1 where D1: "D1 \<subseteq> P" "\<forall>e f. subs w1 e f = subs w e f + (if (e, f) \<in> D1 then 1 else 0)"
    "\<forall>(e, f) \<in> D1. wants w0 e f" "ok1 \<longrightarrow> D1 = {(e, f) \<in> P. wants w0 e f}"
    using m1(2) by blast
  show "subscribed w0 (P \<union> Q) (msgs @ msgs') w ok w'"
  proof (cases ok1)
    case False
    with r1 run have r: "ok = False" "w' = w1" by simp_all
    show ?thesis
    proof (rule subscribedI [where D = D1])
      show "retable w w'" using m1(1) r by simp
      show "D1 \<subseteq> P \<union> Q" using D1(1) by blast
      show "subs w' e f = subs w e f + (if (e, f) \<in> D1 then 1 else 0)" for e f using D1(2) r by simp
      show "wants w0 e f" if "(e, f) \<in> D1" for e f using D1(3) that by blast
      show "faults w' = faults w"
        if "\<forall>(e, f) \<in> P \<union> Q. \<forall>ft. fetches w0 f = Some ft \<longrightarrow> matchers_ok ft"
        using m1(3) that r by blast
      show "ok \<and> env w' = [] \<and> sent w' = sent w @ msgs @ msgs'" if "env w = []"
        using m1(4) that False by simp
    qed (simp add: r)
  next
    case True
    with r1 run have r2: "run_state n w1 = (ok, w')" by simp
    note n2 = subscribedD [OF subscribesD [OF n retable_trans [OF rt m1(1)] r2]]
    obtain D2 where D2: "D2 \<subseteq> Q" "\<forall>e f. subs w' e f = subs w1 e f + (if (e, f) \<in> D2 then 1 else 0)"
      "\<forall>(e, f) \<in> D2. wants w0 e f" "ok \<longrightarrow> D2 = {(e, f) \<in> Q. wants w0 e f}"
      using n2(2) by blast
    have dd: "(e, f) \<in> D1 \<Longrightarrow> (e, f) \<notin> D2" for e f using D1(1) D2(1) disj by blast
    show ?thesis
    proof (rule subscribedI [where D = "D1 \<union> D2"])
      show "retable w w'" by (rule retable_trans [OF m1(1) n2(1)])
      show "D1 \<union> D2 \<subseteq> P \<union> Q" using D1(1) D2(1) by blast
      show "subs w' e f = subs w e f + (if (e, f) \<in> D1 \<union> D2 then 1 else 0)" for e f
        using D1(2) D2(2) dd [of e f] by auto
      show "wants w0 e f" if "(e, f) \<in> D1 \<union> D2" for e f using D1(3) D2(3) that by blast
      show "D1 \<union> D2 = {(e, f) \<in> P \<union> Q. wants w0 e f}" if ok
        using D1(4) D2(4) True that by blast
      show "faults w' = faults w"
        if "\<forall>(e, f) \<in> P \<union> Q. \<forall>ft. fetches w0 f = Some ft \<longrightarrow> matchers_ok ft"
      proof -
        have "faults w1 = faults w" using m1(3) that by blast
        moreover have "faults w' = faults w1" using n2(3) that by blast
        ultimately show ?thesis by simp
      qed
      show "ok \<and> env w' = [] \<and> sent w' = sent w @ msgs @ msgs'" if "env w = []"
        using m1(4) n2(4) that by simp
    qed
  qed
qed

lemma subscribes_for_each_ok:
  assumes "\<And>x. x \<in> set xs \<Longrightarrow> subscribes w0 (P x) (msgs x) (f x)"
    and "distinct xs" and "\<And>x y. x \<in> set xs \<Longrightarrow> y \<in> set xs \<Longrightarrow> x \<noteq> y \<Longrightarrow> P x \<inter> P y = {}"
  shows "subscribes w0 (\<Union>x\<in>set xs. P x) (concat (map msgs xs)) (for_each_ok f xs)"
  using assms
proof (induction xs)
  case Nil
  then show ?case by (simp add: subscribes_return)
next
  case (Cons x xs)
  have "P x \<inter> (\<Union>y\<in>set xs. P y) = {}" using Cons.prems(2,3) by fastforce
  moreover have "subscribes w0 (\<Union>y\<in>set xs. P y) (concat (map msgs xs)) (for_each_ok f xs)"
    using Cons by auto
  ultimately show ?case
    using subscribes_and [of w0 "P x" "msgs x" "f x"] Cons.prems(1) by simp
qed

lemma wants_iff:
  assumes "elements w e = Some el" "fetches w f = Some ft" "peers w (f_peer ft) = Some pr"
  shows "wants w e f \<longleftrightarrow>
    access_allowed (all_groups w) (e_fetch_groups el) (p_fetch_groups pr) \<and> path_matches ft (e_path el)"
  using assms by (simp add: wants_def entitled_def)

lemma subscribes_step:
  assumes e: "elements w0 e \<noteq> None" and f: "fetch_live w0 f" and size: "1 \<le> initial_fetch_table_size (cfg w0)"
  shows "subscribes w0 {(e, f)} (if wants w0 e f then event_for w0 ''add'' e f else [])
    (add_fetch_to_state_and_notify e f)"
  unfolding subscribes_def
proof (intro allI impI)
  fix w ok w'
  assume rt: "retable w0 w" and run: "run_state (add_fetch_to_state_and_notify e f) w = (ok, w')"
  obtain el where el: "elements w e = Some el" using e retable_element [OF rt] by fastforce
  from f obtain ft jid pr where f0: "fetches w0 f = Some ft" and jid: "fetch_id ft = Some jid"
    and m: "matcher ft \<noteq> []" and p0: "peers w0 (f_peer ft) = Some pr"
    by (auto simp: fetch_live_def split: option.splits)
  have ft: "fetches w f = Some ft" and pr: "peers w (f_peer ft) = Some pr"
    using f0 p0 by (simp_all add: retable_same [OF rt])
  have wants: "wants w0 e f \<longleftrightarrow>
      access_allowed (all_groups w) (e_fetch_groups el) (p_fetch_groups pr) \<and> path_matches ft (e_path el)"
    using wants_iff [OF el ft pr] retable_wants [OF rt] by simp
  let ?P = "{(e, f)}" and ?msgs = "if wants w0 e f then event_for w0 ''add'' e f else []"
  obtain fs where sm: "run_state (state_matches el ft) w = (path_matches ft (e_path el), w\<lparr>faults := faults w @ fs\<rparr>)"
    "set fs \<subseteq> {Null_pointer}" "matchers_ok ft \<longrightarrow> fs = []"
    using run_state_matches [OF m, of el w] by blast
  show "subscribed w0 ?P ?msgs w ok w'"
  proof (cases "access_allowed (all_groups w) (e_fetch_groups el) (p_fetch_groups pr)")
    case False
    then have "ok" "w' = w"
      using run by (auto simp: add_fetch_to_state_and_notify_def run_get el ft pr run_groups)
    with False wants show ?thesis by (intro subscribedI [where D = "{}"]) auto
  next
    case access: True
    let ?w1 = "w\<lparr>faults := faults w @ fs\<rparr>"
    show ?thesis
    proof (cases "path_matches ft (e_path el)")
      case False
      then have "ok" "w' = ?w1"
        using run access sm by (auto simp: add_fetch_to_state_and_notify_def run_get el ft pr run_groups)
      moreover have "retable w ?w1" using retable_answers [OF sm(2), of w "[]" "env w"] by simp
      ultimately show ?thesis using False wants sm(3) f0
        by (intro subscribedI [where D = "{}"]) auto
    next
      case True
      with access wants have yes: "wants w0 e f" by simp
      obtain added w2 where r2: "run_state (add_fetch_to_state e f) ?w1 = (added, w2)" by fastforce
      have "elements ?w1 e = Some el" "1 \<le> initial_fetch_table_size (cfg ?w1)"
        using el size by (simp_all add: retable_same [OF rt])
      from run_add_fetch_to_state [OF this r2] obtain n tb where
        w2: "w2 = ?w1\<lparr>env := drop n (env ?w1), elements := (elements ?w1)(e \<mapsto> el\<lparr>fetcher_table := tb\<rparr>)\<rparr>"
        and tb: "\<And>g. count_list tb (Some g) = count_list (fetcher_table el) (Some g) + (if added \<and> g = f then 1 else 0)"
        and added: "env w = [] \<Longrightarrow> added"
        by auto
      have rt2: "retable w w2"
        using retable_trans [OF _ retable_table [of ?w1 e el tb "drop n (env ?w1)"]] w2 el
          retable_answers [OF sm(2), of w "[]" "env w"] by simp
      have subs2: "subs w2 e' f' = subs w e' f' + (if added \<and> (e', f') = (e, f) then 1 else 0)" for e' f'
        using tb by (simp add: subs_def w2 el)
      have faults2: "faults w2 = faults w @ fs" by (simp add: w2)
      show ?thesis
      proof (cases added)
        case False
        then have "\<not> ok" "w' = w2"
          using run access True sm r2 by (auto simp: add_fetch_to_state_and_notify_def run_get el ft pr run_groups)
        with False rt2 subs2 faults2 sm(3) f0 added show ?thesis
          by (intro subscribedI [where D = "{}"]) auto
      next
        case True
        let ?el2 = "el\<lparr>fetcher_table := tb\<rparr>"
        obtain sentok w3 where r3: "run_state (notify_fetching_peer ?el2 ft ''add'') w2 = (sentok, w3)" by fastforce
        have "elements w2 e = Some ?el2" by (simp add: w2)
        with access \<open>path_matches ft (e_path el)\<close> sm r2 r3 True run have r: "ok = sentok" "w' = w3"
          by (auto simp: add_fetch_to_state_and_notify_def run_get el ft pr run_groups split: if_splits)
        obtain k s where w3: "w3 = w2\<lparr>env := drop k (env w2), sent := sent w2 @ s\<rparr>"
          using quietD [OF quiet_notify_fetching_peer [OF jid] r3] by blast
        have msg: "env w = [] \<Longrightarrow> sentok \<and> env w3 = [] \<and> sent w3 = sent w @ event_for w0 ''add'' e f"
          using r3 run_notify_fetching_peer [OF _ jid, of w2 ?el2 "''add''"] jid el ft retable_event_for [OF rt, of "''add''" e f]
          by (auto simp: w2 event_for_def)
        show ?thesis
        proof (rule subscribedI [where D = "{(e, f)}"])
          show "retable w w'"
            using retable_trans [OF rt2 retable_quiet [OF quiet_notify_fetching_peer [OF jid] r3]] r by simp
          show "subs w' e' f' = subs w e' f' + (if (e', f') \<in> {(e, f)} then 1 else 0)" for e' f'
            using subs2 True by (simp add: r w3)
          show "faults w' = faults w" if "\<forall>(e, f)\<in>{(e, f)}. \<forall>ft. fetches w0 f = Some ft \<longrightarrow> matchers_ok ft"
            using that f0 sm(3) faults2 by (simp add: r w3)
        qed (use yes r msg in auto)
      qed
    qed
  qed
qed

lemma matched_pairs:
  "(\<And>x. x \<in> set xs \<Longrightarrow> g x = (if Q x then h x else [])) \<Longrightarrow> concat (map g xs) = concat (map h (filter Q xs))"
  by (induction xs) auto

subsection \<open>Lists of elements and fetches\<close>

definition linked :: "world \<Rightarrow> bool" where
  "linked w \<longleftrightarrow> distinct (peer_list w) \<and> set (peer_list w) = dom (peers w) \<and>
    (\<forall>p pr. peers w p = Some pr \<longrightarrow>
       distinct (element_list pr) \<and> distinct (fetch_list pr) \<and>
       (\<forall>e\<in>set (element_list pr). \<exists>el. elements w e = Some el \<and> e_peer el = p) \<and>
       (\<forall>f\<in>set (fetch_list pr). \<exists>ft. fetches w f = Some ft \<and> f_peer ft = p \<and> fetch_id ft \<noteq> None \<and> matcher ft \<noteq> []))"

lemma linkedD:
  assumes "linked w"
  shows "distinct (peer_list w)" and "set (peer_list w) = dom (peers w)"
    and "peers w p = Some pr \<Longrightarrow> distinct (element_list pr)"
    and "peers w p = Some pr \<Longrightarrow> distinct (fetch_list pr)"
    and "peers w p = Some pr \<Longrightarrow> e \<in> set (element_list pr) \<Longrightarrow> \<exists>el. elements w e = Some el \<and> e_peer el = p"
    and "peers w p = Some pr \<Longrightarrow> f \<in> set (fetch_list pr) \<Longrightarrow>
      \<exists>ft. fetches w f = Some ft \<and> f_peer ft = p \<and> fetch_id ft \<noteq> None \<and> matcher ft \<noteq> []"
  using assms unfolding linked_def by blast+

lemma linked_fetch_live: "linked w \<Longrightarrow> peers w p = Some pr \<Longrightarrow> f \<in> set (fetch_list pr) \<Longrightarrow> fetch_live w f"
  using linkedD(6) [of w p pr f] by (auto simp: fetch_live_def)

lemma linked_peer: "linked w \<Longrightarrow> p \<in> set (peer_list w) \<Longrightarrow> \<exists>pr. peers w p = Some pr"
  using linkedD(2) [of w] by auto

definition element_list_of :: "world \<Rightarrow> peer_ref \<Rightarrow> elem_ref list" where
  "element_list_of w p = (case peers w p of None \<Rightarrow> [] | Some pr \<Rightarrow> element_list pr)"

definition fetch_list_of :: "world \<Rightarrow> peer_ref \<Rightarrow> fetch_ref list" where
  "fetch_list_of w p = (case peers w p of None \<Rightarrow> [] | Some pr \<Rightarrow> fetch_list pr)"

lemma mem_element_list_of:
  "e \<in> set (element_list_of w p) \<longleftrightarrow> (\<exists>pr. peers w p = Some pr \<and> e \<in> set (element_list pr))"
  by (cases "peers w p") (simp_all add: element_list_of_def)

lemma mem_fetch_list_of:
  "f \<in> set (fetch_list_of w p) \<longleftrightarrow> (\<exists>pr. peers w p = Some pr \<and> f \<in> set (fetch_list pr))"
  by (cases "peers w p") (simp_all add: fetch_list_of_def)

definition all_elements :: "world \<Rightarrow> elem_ref list" where
  "all_elements w = concat (map (element_list_of w) (peer_list w))"

definition all_fetches :: "world \<Rightarrow> fetch_ref list" where
  "all_fetches w = concat (map (fetch_list_of w) (peer_list w))"

lemma mem_all_elements:
  assumes "linked w"
  shows "e \<in> set (all_elements w) \<longleftrightarrow> (\<exists>p pr. peers w p = Some pr \<and> e \<in> set (element_list pr))"
proof -
  have "set (peer_list w) = dom (peers w)" by (rule linkedD(2) [OF assms])
  then show ?thesis
    by (auto simp: all_elements_def element_list_of_def dom_def split: option.splits) blast+
qed

lemma mem_all_fetches:
  assumes "linked w"
  shows "f \<in> set (all_fetches w) \<longleftrightarrow> (\<exists>p pr. peers w p = Some pr \<and> f \<in> set (fetch_list pr))"
proof -
  have "set (peer_list w) = dom (peers w)" by (rule linkedD(2) [OF assms])
  then show ?thesis
    by (auto simp: all_fetches_def fetch_list_of_def dom_def split: option.splits) blast+
qed

lemma concat_map_concat: "concat (map g (concat xss)) = concat (map (\<lambda>xs. concat (map g xs)) xss)"
  by (induction xss) auto

definition add_event :: "world \<Rightarrow> elem_ref \<Rightarrow> fetch_ref \<Rightarrow> (peer_ref \<times> json) list" where
  "add_event w e f = (if wants w e f then event_for w ''add'' e f else [])"

lemma subscribes_states_in_peer:
  assumes l: "linked w0" and p: "p \<in> set (peer_list w0)" and f: "fetch_live w0 f"
    and size: "1 \<le> initial_fetch_table_size (cfg w0)"
  shows "subscribes w0 (\<Union>e\<in>set (element_list_of w0 p). {(e, f)})
    (concat (map (\<lambda>e. add_event w0 e f) (element_list_of w0 p))) (add_fetch_to_states_in_peer p f)"
proof -
  obtain pr where pr: "peers w0 p = Some pr" using linked_peer [OF l p] by blast
  have "subscribes w0 {(e, f)} (add_event w0 e f) (add_fetch_to_state_and_notify e f)"
    if "e \<in> set (element_list pr)" for e
    using subscribes_step [OF _ f size, of e] linkedD(5) [OF l pr that] by (auto simp: add_event_def)
  then show ?thesis
    unfolding add_fetch_to_states_in_peer_def
    using linkedD(3) [OF l pr]
    by (simp only: element_list_of_def pr option.case) (intro subscribes_get_peer [OF pr] subscribes_for_each_ok, auto)
qed

lemma subscribes_states:
  assumes l: "linked w0" and f: "fetch_live w0 f" and size: "1 \<le> initial_fetch_table_size (cfg w0)"
  shows "subscribes w0 (set (all_elements w0) \<times> {f}) (concat (map (\<lambda>e. add_event w0 e f) (all_elements w0)))
    (for_each_ok (\<lambda>p. add_fetch_to_states_in_peer p f) (peer_list w0))"
proof -
  have "(\<Union>e\<in>set (element_list_of w0 p). {(e, f)}) \<inter> (\<Union>e\<in>set (element_list_of w0 q). {(e, f)}) = {}"
    if "p \<noteq> q" for p q
  proof -
    have "e \<notin> set (element_list_of w0 q)" if e: "e \<in> set (element_list_of w0 p)" for e
    proof
      assume "e \<in> set (element_list_of w0 q)"
      with e obtain pr qr where "peers w0 p = Some pr" "e \<in> set (element_list pr)"
        "peers w0 q = Some qr" "e \<in> set (element_list qr)"
        by (auto simp: mem_element_list_of)
      with linkedD(5) [OF l, of p pr e] linkedD(5) [OF l, of q qr e] \<open>p \<noteq> q\<close> show False by auto
    qed
    then show ?thesis by auto
  qed
  then have "subscribes w0 (\<Union>p\<in>set (peer_list w0). \<Union>e\<in>set (element_list_of w0 p). {(e, f)})
    (concat (map (\<lambda>p. concat (map (\<lambda>e. add_event w0 e f) (element_list_of w0 p))) (peer_list w0)))
    (for_each_ok (\<lambda>p. add_fetch_to_states_in_peer p f) (peer_list w0))"
    by (intro subscribes_for_each_ok subscribes_states_in_peer l f size linkedD(1) [OF l]) auto
  moreover have "(\<Union>p\<in>set (peer_list w0). \<Union>e\<in>set (element_list_of w0 p). {(e, f)}) = set (all_elements w0) \<times> {f}"
    by (auto simp: all_elements_def)
  ultimately show ?thesis by (simp add: all_elements_def concat_map_concat comp_def)
qed

lemma subscribes_element_in_peer:
  assumes l: "linked w0" and p: "p \<in> set (peer_list w0)" and e: "elements w0 e \<noteq> None"
    and size: "1 \<le> initial_fetch_table_size (cfg w0)"
  shows "subscribes w0 (\<Union>f\<in>set (fetch_list_of w0 p). {(e, f)})
    (concat (map (\<lambda>f. add_event w0 e f) (fetch_list_of w0 p))) (find_fetchers_for_element_in_peer p e)"
proof -
  obtain pr where pr: "peers w0 p = Some pr" using linked_peer [OF l p] by blast
  have "subscribes w0 {(e, f)} (add_event w0 e f) (add_fetch_to_state_and_notify e f)"
    if "f \<in> set (fetch_list pr)" for f
    using subscribes_step [OF e linked_fetch_live [OF l pr that] size] by (simp add: add_event_def)
  then show ?thesis
    unfolding find_fetchers_for_element_in_peer_def
    using linkedD(4) [OF l pr]
    by (simp only: fetch_list_of_def pr option.case) (intro subscribes_get_peer [OF pr] subscribes_for_each_ok, auto)
qed

lemma subscribes_element:
  assumes l: "linked w0" and e: "elements w0 e \<noteq> None" and size: "1 \<le> initial_fetch_table_size (cfg w0)"
  shows "subscribes w0 ({e} \<times> set (all_fetches w0)) (concat (map (\<lambda>f. add_event w0 e f) (all_fetches w0)))
    (find_fetchers_for_element e)"
proof -
  have "(\<Union>f\<in>set (fetch_list_of w0 p). {(e, f)}) \<inter> (\<Union>f\<in>set (fetch_list_of w0 q). {(e, f)}) = {}"
    if "p \<noteq> q" for p q
  proof -
    have "f \<notin> set (fetch_list_of w0 q)" if f: "f \<in> set (fetch_list_of w0 p)" for f
    proof
      assume "f \<in> set (fetch_list_of w0 q)"
      with f obtain pr qr where "peers w0 p = Some pr" "f \<in> set (fetch_list pr)"
        "peers w0 q = Some qr" "f \<in> set (fetch_list qr)"
        by (auto simp: mem_fetch_list_of)
      with linkedD(6) [OF l, of p pr f] linkedD(6) [OF l, of q qr f] \<open>p \<noteq> q\<close> show False by auto
    qed
    then show ?thesis by auto
  qed
  then have "subscribes w0 (\<Union>p\<in>set (peer_list w0). \<Union>f\<in>set (fetch_list_of w0 p). {(e, f)})
    (concat (map (\<lambda>p. concat (map (\<lambda>f. add_event w0 e f) (fetch_list_of w0 p))) (peer_list w0)))
    (for_each_ok (\<lambda>p. find_fetchers_for_element_in_peer p e) (peer_list w0))"
    by (intro subscribes_for_each_ok subscribes_element_in_peer l e size linkedD(1) [OF l]) auto
  moreover have "(\<Union>p\<in>set (peer_list w0). \<Union>f\<in>set (fetch_list_of w0 p). {(e, f)}) = {e} \<times> set (all_fetches w0)"
    by (auto simp: all_fetches_def)
  ultimately show ?thesis
    unfolding find_fetchers_for_element_def
    by (intro subscribes_gets_peer_list) (simp add: all_fetches_def concat_map_concat comp_def)
qed

subsection \<open>Unsubscribing\<close>

definition clear_fetch :: "fetch_ref \<Rightarrow> element \<Rightarrow> element" where
  "clear_fetch f el = el\<lparr>fetcher_table := map (\<lambda>x. if x = Some f then None else x) (fetcher_table el)\<rparr>"

definition clear_in :: "fetch_ref \<Rightarrow> elem_ref set \<Rightarrow> world \<Rightarrow> world" where
  "clear_in f S w = w\<lparr>elements := (\<lambda>e. if e \<in> S then map_option (clear_fetch f) (elements w e) else elements w e)\<rparr>"

lemma clear_fetch_twice [simp]: "clear_fetch f (clear_fetch f el) = clear_fetch f el"
  by (simp add: clear_fetch_def)

lemma clear_in_empty [simp]: "clear_in f {} w = w"
  by (simp add: clear_in_def)

lemma clear_in_clear_in: "clear_in f S (clear_in f T w) = clear_in f (S \<union> T) w"
  by (auto simp: clear_in_def fun_eq_iff option.map_comp comp_def)

lemma clear_in_same [simp]:
  "peers (clear_in f S w) = peers w" "peer_list (clear_in f S w) = peer_list w"
  "elements (clear_in f S w) e = None \<longleftrightarrow> elements w e = None"
  by (simp_all add: clear_in_def)

lemma run_remove_fetch_from_state:
  "elements w e \<noteq> None \<Longrightarrow> run_state (remove_fetch_from_state e f) w = ((), clear_in f {e} w)"
  by (auto simp: remove_fetch_from_state_def run_set clear_in_def clear_fetch_def fun_eq_iff)

lemma run_clear_loop:
  assumes "\<And>e. e \<in> set es \<Longrightarrow> elements w e \<noteq> None"
  shows "run_state (for_each (\<lambda>e. remove_fetch_from_state e f) es) w = ((), clear_in f (set es) w)"
  using assms
proof (induction es arbitrary: w)
  case (Cons e es)
  have "run_state (for_each (\<lambda>e. remove_fetch_from_state e f) es) (clear_in f {e} w) =
      ((), clear_in f (set es) (clear_in f {e} w))"
    using Cons.prems by (intro Cons.IH) simp
  then show ?case
    using run_remove_fetch_from_state [of w e f] Cons.prems by (simp add: clear_in_clear_in)
qed simp

lemma run_remove_fetch_from_states_in_peer:
  assumes l: "linked w" and p: "peers w p = Some pr"
    and same: "peers w' = peers w" "\<And>e. elements w' e = None \<longleftrightarrow> elements w e = None"
  shows "run_state (remove_fetch_from_states_in_peer p f) w' = ((), clear_in f (set (element_list pr)) w')"
proof -
  have "elements w' e \<noteq> None" if "e \<in> set (element_list pr)" for e
    using linkedD(5) [OF l p that] same(2) [of e] by auto
  from run_clear_loop [OF this] p same(1) show ?thesis
    by (simp add: remove_fetch_from_states_in_peer_def run_get)
qed

lemma run_remove_fetch_from_states:
  assumes l: "linked w"
  shows "run_state (remove_fetch_from_states f) w = ((), clear_in f (set (all_elements w)) w)"
proof -
  have "run_state (for_each (\<lambda>p. remove_fetch_from_states_in_peer p f) ps) w' =
      ((), clear_in f (\<Union>p\<in>set ps. set (element_list_of w p)) w')"
    if "set ps \<subseteq> set (peer_list w)" "peers w' = peers w" "\<And>e. elements w' e = None \<longleftrightarrow> elements w e = None" for ps w'
    using that
  proof (induction ps arbitrary: w')
    case (Cons p ps)
    obtain pr where pr: "peers w p = Some pr" using linked_peer [OF l, of p] Cons.prems(1) by auto
    have "run_state (for_each (\<lambda>p. remove_fetch_from_states_in_peer p f) ps) (clear_in f (set (element_list pr)) w') =
        ((), clear_in f (\<Union>p\<in>set ps. set (element_list_of w p)) (clear_in f (set (element_list pr)) w'))"
      using Cons.prems by (intro Cons.IH) simp_all
    then show ?case
      using run_remove_fetch_from_states_in_peer [OF l pr Cons.prems(2,3), of f]
      by (simp add: clear_in_clear_in element_list_of_def pr Un_commute)
  qed simp
  from this [of "peer_list w" w] show ?thesis
    by (simp add: remove_fetch_from_states_def all_elements_def)
qed

lemma subs_clear_in:
  assumes "\<And>e. e \<notin> S \<Longrightarrow> elements w e = None"
  shows "subs (clear_in f S w) e g = (if g = f then 0 else subs w e g)"
proof -
  have "count_list (map (\<lambda>x. if x = Some f then None else x) xs) (Some g) =
      (if g = f then 0 else count_list xs (Some g))" for xs
    by (induction xs) auto
  with assms show ?thesis
    by (auto simp: subs_def clear_in_def clear_fetch_def map_option_case split: option.split)
qed

end
