(* ===== verification/Timer.thy ===== *)
theory Timer
  imports Response
begin

text \<open>
  Timeouts and timers: \<^verbatim>\<open>src/src/timer.c\<close> and \<^verbatim>\<open>src/src/linux/timer_linux.c\<close>.

  A timeout comes from the request in seconds and is used in nanoseconds.  A \<^verbatim>\<open>struct cjet_timer\<close> is
  part of a routing request, so the request's reference names it; what outlives the request's memory
  (the timer file descriptor, known to the event loop and armed or not) is kept in \<open>timers\<close>.
\<close>

definition MIN_TIMEOUT_IN_S :: rat where
  "MIN_TIMEOUT_IN_S = 1 / 1000"

text \<open>\<^verbatim>\<open>(uint64_t)(seconds * 1000000000.0)\<close>, undefined when the product does not fit.\<close>

definition convert_seconds_to_nsec :: "double \<Rightarrow> 64 word cm" where
  "convert_seconds_to_nsec seconds =
    (case seconds of
       Finite q \<Rightarrow>
         if - 1 < q * 1000000000 \<and> q * 1000000000 < 2 ^ 64
         then ret (of_int (if 0 \<le> q then \<lfloor>q * 1000000000\<rfloor> else \<lceil>q * 1000000000\<rceil>))
         else do { fault Double_out_of_range; ret 0 }
     | _ \<Rightarrow> do { fault Double_out_of_range; ret 0 })"

definition double_less :: "double \<Rightarrow> rat \<Rightarrow> bool" where
  "double_less d q = (case d of Finite x \<Rightarrow> x < q | Plus_Inf \<Rightarrow> False | Minus_Inf \<Rightarrow> True)"

text \<open>The result, and what \<^verbatim>\<open>*response\<close> is set to when the result is 0 for an error.\<close>

definition get_timeout_in_nsec :: "json \<Rightarrow> json option \<Rightarrow> 64 word \<Rightarrow> (64 word \<times> json option) cm" where
  "get_timeout_in_nsec request timeout default_timeout =
    (case timeout of
       None \<Rightarrow> ret (default_timeout, None)
     | Some t \<Rightarrow>
        if \<not> is_number t then do {
          response \<leftarrow> create_error_response_from_request request INVALID_PARAMS ''reason'' ''timeout is not a number'';
          ret (0, response) }
        else if double_less (valuedouble t) MIN_TIMEOUT_IN_S then do {
          response \<leftarrow> create_error_response_from_request request INVALID_PARAMS ''reason'' ''timeout value is too small'';
          ret (0, response) }
        else do { ns \<leftarrow> convert_seconds_to_nsec (valuedouble t); ret (ns, None) })"

subsection \<open>The kernel timer of a routing request\<close>

text \<open>The 64-bit division and difference of \<^verbatim>\<open>timer_linux.c\<close>: the fields \<^verbatim>\<open>it_value.tv_sec\<close> and \<^verbatim>\<open>tv_nsec\<close>.\<close>

definition convert_timeoutns_to_itimerspec :: "64 word \<Rightarrow> 64 word \<times> 64 word" where
  "convert_timeoutns_to_itimerspec timeout =
    (let seconds = timeout div 1000000000 in (seconds, timeout - seconds * 1000000000))"

lemma itimerspec_value:
  assumes "convert_timeoutns_to_itimerspec timeout = (seconds, nanos)"
  shows "unat seconds * 1000000000 + unat nanos = unat timeout" and "unat nanos < 1000000000"
    and "seconds < 2 ^ 63"
proof -
  have eq: "seconds = timeout div 1000000000" "nanos = timeout - timeout div 1000000000 * 1000000000"
    using assms by (auto simp: convert_timeoutns_to_itimerspec_def Let_def)
  have m: "nanos = timeout mod 1000000000"
    by (simp add: eq(2) minus_div_mult_eq_mod)
  from m show "unat nanos < 1000000000" by (simp add: unat_mod)
  show "unat seconds * 1000000000 + unat nanos = unat timeout"
    using m by (simp add: eq(1) unat_div unat_mod div_mult_mod_eq)
  have "unat seconds < 2 ^ 63"
    using unsigned_less [of timeout, where ?'a = nat] by (simp add: eq(1) unat_div div_less_iff_less_mult)
  then show "seconds < 2 ^ 63" by (simp add: word_less_nat_alt)
qed

definition cjet_timer_init :: "req_ref \<Rightarrow> bool cm" where
  "cjet_timer_init q = do {
     created \<leftarrow> ask;
     if \<not> created then ret False
     else do {
       modify (\<lambda>w. w\<lparr>timers := (timers w)(q \<mapsto> \<lparr>registered = False, armed = None\<rparr>)\<rparr>);
       added \<leftarrow> ask;
       if \<not> added then ret False
       else do {
         modify (\<lambda>w. w\<lparr>timers := (timers w)(q \<mapsto> \<lparr>registered = True, armed = None\<rparr>)\<rparr>);
         ret True } } }"

text \<open>Closing the descriptor takes it out of the event loop.\<close>

definition cjet_timer_destroy :: "req_ref \<Rightarrow> unit cm" where
  "cjet_timer_destroy q = modify (\<lambda>w. w\<lparr>timers := (timers w)(q := None)\<rparr>)"

definition set_armed :: "64 word option \<Rightarrow> cjet_timer option \<Rightarrow> cjet_timer option" where
  "set_armed a t = map_option (\<lambda>t. t\<lparr>armed := a\<rparr>) t"

definition timer_start :: "req_ref \<Rightarrow> 64 word \<Rightarrow> bool cm" where
  "timer_start q timeout_ns = do {
     ok \<leftarrow> ask;
     if ok then do {
       modify (\<lambda>w. w\<lparr>timers := (timers w)(q := set_armed (Some timeout_ns) (timers w q))\<rparr>);
       ret True }
     else ret False }"

text \<open>
  Cancelling disarms the timer and calls the handler with \<^verbatim>\<open>cancelled = true\<close>, for which the only
  handler of the daemon returns at once.
\<close>

definition timer_cancel :: "req_ref \<Rightarrow> bool cm" where
  "timer_cancel q = do {
     ok \<leftarrow> ask;
     if ok then do {
       modify (\<lambda>w. w\<lparr>timers := (timers w)(q := set_armed None (timers w q))\<rparr>);
       ret True }
     else ret False }"

lemma run_convert [pure_run]:
  "0 \<le> q \<Longrightarrow> q * 1000000000 < 2 ^ 64 \<Longrightarrow>
   run_state (convert_seconds_to_nsec (Finite q)) w = (of_int \<lfloor>q * 1000000000\<rfloor>, w)"
  by (simp add: convert_seconds_to_nsec_def)

lemma run_timer [pure_run]:
  assumes "env w = []"
  shows "run_state (cjet_timer_init q) w =
      (True, w\<lparr>timers := (timers w)(q \<mapsto> \<lparr>registered = True, armed = None\<rparr>)\<rparr>)"
    and "run_state (timer_start q ns) w =
      (True, w\<lparr>timers := (timers w)(q := set_armed (Some ns) (timers w q))\<rparr>)"
    and "run_state (timer_cancel q) w =
      (True, w\<lparr>timers := (timers w)(q := set_armed None (timers w q))\<rparr>)"
    and "run_state (cjet_timer_destroy q) w = ((), w\<lparr>timers := (timers w)(q := None)\<rparr>)"
  using assms
  by (simp_all add: cjet_timer_init_def timer_start_def timer_cancel_def cjet_timer_destroy_def run_ask)

text \<open>
  A timeout that is accepted lies between one millisecond and what 64 bits hold, and is the
  requested time rounded down to whole nanoseconds.
\<close>

lemma timeout_value:
  assumes run: "run_state (get_timeout_in_nsec request (Some (JNumber i (Finite q))) dt) w = ((ns, resp), w')"
    and nz: "ns \<noteq> 0"
  shows "MIN_TIMEOUT_IN_S \<le> q" and "q * 1000000000 < 2 ^ 64" and "uint ns = \<lfloor>q * 1000000000\<rfloor>"
proof -
  have q: "\<not> double_less (Finite q) MIN_TIMEOUT_IN_S"
    using run nz by (auto simp: get_timeout_in_nsec_def is_number_def split: if_splits prod.splits)
  then show min: "MIN_TIMEOUT_IN_S \<le> q" by (simp add: double_less_def)
  then have pos: "0 \<le> q" by (simp add: MIN_TIMEOUT_IN_S_def)
  show max: "q * 1000000000 < 2 ^ 64"
    using run nz q by (auto simp: get_timeout_in_nsec_def is_number_def convert_seconds_to_nsec_def
        fault_def split: if_splits prod.splits)
  have "ns = of_int \<lfloor>q * 1000000000\<rfloor>"
    using run q pos max by (auto simp: get_timeout_in_nsec_def is_number_def run_convert)
  moreover have "0 \<le> \<lfloor>q * 1000000000\<rfloor>" using pos by simp
  moreover have "\<lfloor>q * 1000000000\<rfloor> < 2 ^ 64" using max by (simp add: floor_less_iff)
  ultimately show "uint ns = \<lfloor>q * 1000000000\<rfloor>"
    by (simp add: uint_word_of_int take_bit_int_eq_self)
qed

end
