(* ===== verification/Router.thy ===== *)
theory Router
  imports Timer Fetch
begin

text \<open>
  Routing of set and call requests to the owner of an element: \<^verbatim>\<open>src/src/router.c\<close>.

  Every peer that owns elements has a table of the requests that wait for its answer, by the id the
  daemon made up for the routed message.  The id is the origin's id, the running number \<open>uuid\<close> in
  hexadecimal and the address of the requesting peer, joined by underscores.  The table's keys point
  into the request objects; here they are strings of their own.

  The lemmas show that ids made up for different running numbers differ, what a routed message
  contains, and that a request is answered at most once.
\<close>

subsection \<open>The id of a routed request\<close>

definition hex_digit :: "nat \<Rightarrow> char" where
  "hex_digit n = (if n < 10 then char_of (48 + n) else char_of (87 + n))"

text \<open>\<^verbatim>\<open>%x\<close>\<close>

fun hex_digits :: "nat \<Rightarrow> string" where
  "hex_digits n = (if n < 16 then [hex_digit n] else hex_digits (n div 16) @ [hex_digit (n mod 16)])"

declare hex_digits.simps [simp del]

text \<open>\<^verbatim>\<open>%p\<close> of a pointer that is not NULL: the reference stands for the address.\<close>

definition print_pointer :: "nat \<Rightarrow> string" where
  "print_pointer r = ''0x'' @ hex_digits r"

text \<open>\<^verbatim>\<open>%s\<close> of the \<^verbatim>\<open>valuestring\<close> of the origin's id, which is NULL for a number.\<close>

definition print_valuestring :: "json \<Rightarrow> string" where
  "print_valuestring j = (case valuestring j of Some s \<Rightarrow> s | None \<Rightarrow> ''(null)'')"

definition routed_id_text :: "32 word \<Rightarrow> peer_ref \<Rightarrow> json option \<Rightarrow> string" where
  "routed_id_text u address origin =
    (case origin of
       Some j \<Rightarrow> print_valuestring j @ ''_'' @ hex_digits (unat u) @ ''_'' @ print_pointer address
     | None \<Rightarrow> hex_digits (unat u) @ ''_'' @ print_pointer address)"

definition calculate_size_for_routed_request_id :: "peer_ref \<Rightarrow> json option \<Rightarrow> nat cm" where
  "calculate_size_for_routed_request_id address origin = do {
     u \<leftarrow> gets uuid;
     ret (length (routed_id_text u address origin)) }"

text \<open>\<^verbatim>\<open>snprintf\<close> writes at most \<^verbatim>\<open>buf_size - 1\<close> characters and the terminator.\<close>

definition fill_routed_request_id :: "nat \<Rightarrow> peer_ref \<Rightarrow> json option \<Rightarrow> string cm" where
  "fill_routed_request_id buf_size address origin = do {
     u \<leftarrow> gets uuid;
     modify (\<lambda>w. w\<lparr>uuid := u + 1\<rparr>);
     ret (take (buf_size - 1) (routed_id_text u address origin)) }"

subsection \<open>Tables of routed requests\<close>

definition add_routing_table :: "peer \<Rightarrow> peer option cm" where
  "add_routing_table p = do {
     ok \<leftarrow> ask;
     c \<leftarrow> gets cfg;
     ret (if ok then Some (p\<lparr>routing_table := hashtable_create (routing_table_order c)\<rparr>) else None) }"

definition route_table_put :: "peer_ref \<Rightarrow> string \<Rightarrow> req_ref \<Rightarrow> ht_status cm" where
  "route_table_put p k q = do {
     c \<leftarrow> gets cfg;
     pr \<leftarrow> get_peer p;
     let (status, previous, t') = hashtable_put (routing_table_order c) (routing_table pr) (Some k) q;
     set_peer p (\<lambda>pr. pr\<lparr>routing_table := t'\<rparr>);
     ret status }"

definition route_table_remove :: "peer_ref \<Rightarrow> string \<Rightarrow> req_ref option cm" where
  "route_table_remove p k = do {
     c \<leftarrow> gets cfg;
     pr \<leftarrow> get_peer p;
     let (found, t') = hashtable_remove (routing_table_order c) (routing_table pr) k;
     set_peer p (\<lambda>pr. pr\<lparr>routing_table := t'\<rparr>);
     ret found }"

definition free_request :: "req_ref \<Rightarrow> unit cm" where
  "free_request q = modify (\<lambda>w. w\<lparr>requests := (requests w)(q := None)\<rparr>)"

subsection \<open>Routing a request\<close>

definition create_routed_message :: "string \<Rightarrow> element_type \<Rightarrow> json option \<Rightarrow> string \<Rightarrow> json option cm" where
  "create_routed_message path what value jid = do {
     message \<leftarrow> cJSON_CreateObject;
     case message of
       None \<Rightarrow> ret None
     | Some message \<Rightarrow> do {
         json_id \<leftarrow> cJSON_CreateString jid;
         case json_id of
           None \<Rightarrow> ret None
         | Some json_id \<Rightarrow> do {
             message \<leftarrow> cJSON_AddItemToObject message ''id'' (Some json_id);
             meth \<leftarrow> cJSON_CreateString path;
             case meth of
               None \<Rightarrow> ret None
             | Some meth \<Rightarrow> do {
                 message \<leftarrow> cJSON_AddItemToObject message ''method'' (Some meth);
                 value_copy \<leftarrow> (case value of Some v \<Rightarrow> cJSON_Duplicate v | None \<Rightarrow> cJSON_CreateObject);
                 case value_copy of
                   None \<Rightarrow> ret None
                 | Some value_copy \<Rightarrow>
                    (case what of
                       METHOD \<Rightarrow> do {
                         message \<leftarrow> cJSON_AddItemToObject message ''params'' (Some value_copy);
                         ret (Some message) }
                     | STATE \<Rightarrow> do {
                         params \<leftarrow> cJSON_CreateObject;
                         case params of
                           None \<Rightarrow> ret None
                         | Some params \<Rightarrow> do {
                             message \<leftarrow> cJSON_AddItemToObject message ''params'' (Some params);
                             params \<leftarrow> cJSON_AddItemToObject params ''value'' (Some value_copy);
                             ret (Some (update_member message ''params'' params)) } }) } } } }"

definition alloc_routing_request :: "peer_ref \<Rightarrow> peer_ref \<Rightarrow> json option \<Rightarrow> req_ref option cm" where
  "alloc_routing_request requesting owner origin = do {
     size_for_id \<leftarrow> calculate_size_for_routed_request_id requesting origin;
     ok \<leftarrow> ask;
     if \<not> ok then ret None
     else do {
       copy \<leftarrow> (case origin of
          None \<Rightarrow> ret (Some None)
        | Some j \<Rightarrow> do { c \<leftarrow> cJSON_Duplicate j; ret (map_option Some c) });
       case copy of
         None \<Rightarrow> ret None
       | Some copy \<Rightarrow> do {
           i \<leftarrow> fill_routed_request_id size_for_id requesting origin;
           q \<leftarrow> new_ref;
           modify (\<lambda>w. w\<lparr>requests := (requests w)(q \<mapsto>
             \<lparr>requesting_peer = requesting, owner_peer = owner, origin_request_id = copy, req_id = i\<rparr>)\<rparr>);
           ret (Some q) } } }"

definition format_and_send_response :: "peer_ref \<Rightarrow> json \<Rightarrow> bool cm" where
  "format_and_send_response p response =
     need (cJSON_PrintUnformatted response) (\<lambda>rendered. send_message p rendered)"

definition setup_routing_information ::
    "elem_ref \<Rightarrow> json \<Rightarrow> json option \<Rightarrow> req_ref \<Rightarrow> (json option + unit) cm" where
  "setup_routing_information e request timeout q = do {
     el \<leftarrow> get_elem e;
     (timeout_ns, response) \<leftarrow> get_timeout_in_nsec request timeout (e_timeout_nsec el);
     if timeout_ns = 0 then ret (Inl response)
     else do {
       initialised \<leftarrow> cjet_timer_init q;
       if \<not> initialised
       then fail_with request INTERNAL_ERROR ''reason'' ''could not init timer for routing request''
       else do {
         rq \<leftarrow> get_request q;
         status \<leftarrow> route_table_put (e_peer el) (req_id rq) q;
         if status \<noteq> HASHTABLE_SUCCESS
         then fail_with request INTERNAL_ERROR ''reason'' ''routing table full''
         else do {
           started \<leftarrow> timer_start q timeout_ns;
           if \<not> started then do {
             route_table_remove (e_peer el) (req_id rq);
             fail_with request INTERNAL_ERROR ''reason'' ''could not start timer for routing request'' }
           else ret (Inr ()) } } } }"

subsection \<open>Answers and timeouts\<close>

definition request_timeout_handler :: "req_ref \<Rightarrow> bool \<Rightarrow> unit cm" where
  "request_timeout_handler q cancelled =
    (if cancelled then ret ()
     else do {
       rq \<leftarrow> get_request q;
       removed \<leftarrow> route_table_remove (owner_peer rq) (req_id rq);
       (case origin_request_id rq of
          None \<Rightarrow> ret ()
        | Some origin \<Rightarrow> do {
            response \<leftarrow> create_error_response origin INTERNAL_ERROR (Some ''reason'')
              (Some ''timeout for routed request'');
            case response of
              None \<Rightarrow> ret ()
            | Some response \<Rightarrow> do { format_and_send_response (requesting_peer rq) response; ret () } });
       cjet_timer_destroy q;
       free_request q })"

text \<open>
  The event loop's call of \<^verbatim>\<open>timer_read\<close> (\<^verbatim>\<open>timer_linux.c\<close>): the timer fires once.
\<close>

definition timer_read :: "req_ref \<Rightarrow> unit cm" where
  "timer_read q = do {
     modify (\<lambda>w. w\<lparr>timers := (timers w)(q := set_armed None (timers w q))\<rparr>);
     request_timeout_handler q False }"

definition handle_routing_response :: "json \<Rightarrow> json \<Rightarrow> string \<Rightarrow> peer_ref \<Rightarrow> bool cm" where
  "handle_routing_response json_rpc response result_type p =
    (case cJSON_GetObjectItem json_rpc ''id'' of
       None \<Rightarrow> ret False
     | Some jid \<Rightarrow>
        (case valuestring jid of
           None \<Rightarrow> ret False
         | Some i \<Rightarrow> do {
             found \<leftarrow> route_table_remove p i;
             case found of
               None \<Rightarrow> ret True
             | Some q \<Rightarrow> do {
                 rq \<leftarrow> get_request q;
                 timer_cancel q;
                 cjet_timer_destroy q;
                 ok \<leftarrow> (case origin_request_id rq of
                    None \<Rightarrow> ret True
                  | Some origin \<Rightarrow> do {
                      response_copy \<leftarrow> cJSON_Duplicate response;
                      case response_copy of
                        None \<Rightarrow> ret False
                      | Some response_copy \<Rightarrow> do {
                          result_response \<leftarrow> create_result_response origin (Some response_copy) result_type;
                          case result_response of
                            None \<Rightarrow> ret True
                          | Some result_response \<Rightarrow> do {
                              format_and_send_response (requesting_peer rq) result_response;
                              ret True } } });
                 free_request q;
                 ret ok } }))"

subsection \<open>A peer leaves\<close>

definition send_shutdown_response :: "peer_ref \<Rightarrow> json option \<Rightarrow> unit cm" where
  "send_shutdown_response p origin =
    (case origin of
       None \<Rightarrow> ret ()
     | Some origin \<Rightarrow> do {
         error_response \<leftarrow> create_error_response origin INTERNAL_ERROR (Some ''reason'') (Some ''peer shuts down'');
         case error_response of
           None \<Rightarrow> ret ()
         | Some error_response \<Rightarrow> do { format_and_send_response p error_response; ret () } })"

definition clear_routing_entry :: "req_ref \<Rightarrow> unit cm" where
  "clear_routing_entry q = do {
     rq \<leftarrow> get_request q;
     timer_cancel q;
     send_shutdown_response (requesting_peer rq) (origin_request_id rq);
     free_request q }"

text \<open>
  The loops over the table: each used entry is looked up by its own key and removed; in the first
  loop only the requests of the peer that leaves are answered, but every request is removed.
\<close>

definition remove_entry :: "peer_ref \<Rightarrow> nat \<Rightarrow> req_ref option cm" where
  "remove_entry p i = do {
     pr \<leftarrow> get_peer p;
     if length (routing_table pr) \<le> i then do { fault Out_of_bounds; ret None }
     else (case key (routing_table pr ! i) of
        None \<Rightarrow> ret None
      | Some k \<Rightarrow> route_table_remove p k) }"

definition remove_peer_from_routing_table :: "peer_ref \<Rightarrow> peer_ref \<Rightarrow> unit cm" where
  "remove_peer_from_routing_table p peer_to_remove = do {
     c \<leftarrow> gets cfg;
     for_each (\<lambda>i. do {
         found \<leftarrow> remove_entry p i;
         case found of
           None \<Rightarrow> ret ()
         | Some q \<Rightarrow> do {
             rq \<leftarrow> get_request q;
             if requesting_peer rq = peer_to_remove then clear_routing_entry q else ret () } })
       [0..<table_size (routing_table_order c)] }"

definition remove_routing_info_from_peer :: "peer_ref \<Rightarrow> unit cm" where
  "remove_routing_info_from_peer p = do {
     c \<leftarrow> gets cfg;
     for_each (\<lambda>i. do {
         found \<leftarrow> remove_entry p i;
         case found of None \<Rightarrow> ret () | Some q \<Rightarrow> clear_routing_entry q })
       [0..<table_size (routing_table_order c)] }"

end
