(* ===== verification/Element.thy ===== *)
theory Element
  imports Router
begin

text \<open>
  States and methods: \<^verbatim>\<open>src/src/element.c\<close>.

  The handlers of the requests add, remove, change, set and call.  An element that is being set up is
  a value; it becomes a heap object when \<^verbatim>\<open>init_element\<close> has succeeded, since the fetches that accept
  it are then written into its table through a pointer.
\<close>

subsection \<open>Parameters of a request\<close>

definition is_state :: "element \<Rightarrow> bool" where
  "is_state e \<longleftrightarrow> e_value e \<noteq> None"

text \<open>The three instances of the macro \<^verbatim>\<open>FILL_GROUP\<close>.\<close>

definition fill_group ::
    "string \<Rightarrow> string \<Rightarrow> (group_t \<Rightarrow> element \<Rightarrow> element) \<Rightarrow> json \<Rightarrow> json option \<Rightarrow> element \<Rightarrow> (json option + element) cm"
where
  "fill_group access_groups json_key put_groups request access e =
    (case access of
       None \<Rightarrow> ret (Inr e)
     | Some a \<Rightarrow>
        (let groups = cJSON_GetObjectItem a json_key
         in case groups of
              Some g \<Rightarrow>
                if \<not> is_array g
                then fail_with request INVALID_PARAMS ''reason'' (access_groups @ '' is not an array'')
                else do { bits \<leftarrow> get_groups groups; ret (Inr (put_groups bits e)) }
            | None \<Rightarrow> do { bits \<leftarrow> get_groups groups; ret (Inr (put_groups bits e)) }))"

definition fill_fetch_groups :: "json \<Rightarrow> json option \<Rightarrow> element \<Rightarrow> (json option + element) cm" where
  "fill_fetch_groups = fill_group ''fetch_groups'' ''fetchGroups'' (\<lambda>g e. e\<lparr>e_fetch_groups := g\<rparr>)"

definition fill_set_groups :: "json \<Rightarrow> json option \<Rightarrow> element \<Rightarrow> (json option + element) cm" where
  "fill_set_groups = fill_group ''set_groups'' ''setGroups'' (\<lambda>g e. e\<lparr>e_set_groups := g\<rparr>)"

definition fill_call_groups :: "json \<Rightarrow> json option \<Rightarrow> element \<Rightarrow> (json option + element) cm" where
  "fill_call_groups = fill_group ''call_groups'' ''callGroups'' (\<lambda>g e. e\<lparr>e_call_groups := g\<rparr>)"

definition fill_access :: "json \<Rightarrow> json option \<Rightarrow> element \<Rightarrow> (json option + element) cm" where
  "fill_access request access e =
     or_fail (fill_fetch_groups request access e) (\<lambda>e.
     if is_state e then fill_set_groups request access e else fill_call_groups request access e)"

definition get_path_from_params :: "json \<Rightarrow> json \<Rightarrow> (json option + string) cm" where
  "get_path_from_params request params =
    (case cJSON_GetObjectItem params ''path'' of
       None \<Rightarrow> fail_with request INVALID_PARAMS ''reason'' ''no path given''
     | Some path \<Rightarrow>
        (case valuestring path of
           None \<Rightarrow> fail_with request INVALID_PARAMS ''reason'' ''path is not a string''
         | Some s \<Rightarrow> ret (Inr s)))"

definition get_fetch_only_from_params :: "json \<Rightarrow> json \<Rightarrow> (json option + 32 word) cm" where
  "get_fetch_only_from_params request params =
    (let fetch_only = cJSON_GetObjectItem params ''fetchOnly''
     in if fetch_only = None \<or> fetch_only = Some JFalse then ret (Inr 0)
        else if fetch_only = Some JTrue then ret (Inr FETCH_ONLY_FLAG)
        else fail_with request INVALID_PARAMS ''reason'' ''fetchOnly is not a bool'')"

subsection \<open>Adding an element\<close>

definition init_element :: "json \<Rightarrow> peer_ref \<Rightarrow> (json option + element) cm" where
  "init_element request p =
     or_fail (get_params request) (\<lambda>params.
     or_fail (get_path_from_params request params) (\<lambda>path.
     or_fail (get_fetch_only_from_params request params) (\<lambda>flags. do {
       c \<leftarrow> gets cfg;
       default_timeout \<leftarrow> convert_seconds_to_nsec (Finite (routed_messages_timeout c));
       (timeout_nsec, response) \<leftarrow>
         get_timeout_in_nsec request (cJSON_GetObjectItem params ''timeout'') default_timeout;
       if timeout_nsec = 0 then ret (Inl response)
       else do {
         existing \<leftarrow> element_table_get path;
         if existing \<noteq> None then fail_with request INVALID_PARAMS ''exists'' path
         else do {
           let value = cJSON_GetObjectItem params ''value'';
           let access = cJSON_GetObjectItem params ''access'';
           table_allocated \<leftarrow> ask;
           if \<not> table_allocated
           then fail_with request INTERNAL_ERROR ''reason'' ''not enough memory to create fetch table''
           else do {
             path_copy \<leftarrow> duplicate_string path;
             case path_copy of
               None \<Rightarrow> fail_with request INTERNAL_ERROR ''reason'' ''not enough memory to copy path''
             | Some path_copy \<Rightarrow> do {
                 value_copy \<leftarrow> (case value of
                    None \<Rightarrow> ret (Some None)
                  | Some v \<Rightarrow> do { copy \<leftarrow> cJSON_Duplicate v; ret (map_option Some copy) });
                 case value_copy of
                   None \<Rightarrow> fail_with request INTERNAL_ERROR ''reason'' ''could not copy value object''
                 | Some value_copy \<Rightarrow> do {
                     filled \<leftarrow> fill_access request access
                       \<lparr>e_path = path_copy, e_peer = p, e_value = value_copy,
                        fetcher_table = replicate (initial_fetch_table_size c) None,
                        e_fetch_groups = 0, e_set_groups = 0, e_call_groups = 0,
                        e_flags = flags, e_timeout_nsec = timeout_nsec\<rparr>;
                     case filled of
                       Inl _ \<Rightarrow> fail_with request INTERNAL_ERROR ''reason'' ''could not fill access information''
                     | Inr e \<Rightarrow> ret (Inr e) } } } } } })))"

definition free_element :: "elem_ref \<Rightarrow> unit cm" where
  "free_element e = modify (\<lambda>w. w\<lparr>elements := (elements w)(e := None)\<rparr>)"

definition add_element_to_peer :: "peer_ref \<Rightarrow> json \<Rightarrow> json option cm" where
  "add_element_to_peer p request = do {
     c \<leftarrow> gets cfg;
     pr \<leftarrow> get_peer p;
     if allow_add_only_from_localhost c \<and> \<not> is_local_connection pr
     then create_error_response_from_request request INVALID_REQUEST ''reason'' ''add only allowed from localhost''
     else do {
       allocated \<leftarrow> ask;
       if \<not> allocated
       then create_error_response_from_request request INTERNAL_ERROR ''reason''
              ''not enough memory to allocate jet element''
       else
         or_return (init_element request p) (\<lambda>el. do {
           e \<leftarrow> new_ref;
           modify (\<lambda>w. w\<lparr>elements := (elements w)(e \<mapsto> el)\<rparr>);
           notified \<leftarrow> find_fetchers_for_element e;
           if \<not> notified then do {
             free_element e;
             create_error_response_from_request request INTERNAL_ERROR ''reason'' ''could not notify fetching peer'' }
           else do {
             status \<leftarrow> element_table_put (e_path el) e;
             if status \<noteq> HASHTABLE_SUCCESS then do {
               free_element e;
               create_error_response_from_request request INTERNAL_ERROR ''reason'' ''element table full'' }
             else do {
               set_peer p (\<lambda>pr. pr\<lparr>element_list := element_list pr @ [e]\<rparr>);
               create_success_response_from_request request } } }) } }"

subsection \<open>Changing a state\<close>

definition change_state :: "peer_ref \<Rightarrow> json \<Rightarrow> json option cm" where
  "change_state p request =
     or_return (get_params request) (\<lambda>params.
     or_return (get_path_from_params request params) (\<lambda>path.
     case cJSON_GetObjectItem params ''value'' of
       None \<Rightarrow> create_error_response_from_request request INVALID_PARAMS ''reason'' ''no value found''
     | Some value \<Rightarrow> do {
         found \<leftarrow> element_table_get path;
         case found of
           None \<Rightarrow> create_error_response_from_request request INVALID_PARAMS ''not exists'' path
         | Some e \<Rightarrow> do {
             el \<leftarrow> get_elem e;
             if e_peer el \<noteq> p
             then create_error_response_from_request request INVALID_PARAMS ''not owner of state'' path
             else if e_value el = None
             then create_error_response_from_request request INVALID_PARAMS ''change on method not possible'' path
             else do {
               value_copy \<leftarrow> cJSON_Duplicate value;
               case value_copy of
                 None \<Rightarrow> create_error_response_from_request request INTERNAL_ERROR ''not enough memory'' path
               | Some value_copy \<Rightarrow> do {
                   set_elem e (\<lambda>el. el\<lparr>e_value := Some value_copy\<rparr>);
                   notified \<leftarrow> notify_fetchers e ''change'';
                   if \<not> notified
                   then create_error_response_from_request request INTERNAL_ERROR
                          ''could not notify fetching peer'' path
                   else create_success_response_from_request request } } } }))"

subsection \<open>Set and call\<close>

text \<open>
  The error exits free the routing request, whatever refers to it; a message that cannot be sent is
  reported, but the request stays in the table.
\<close>

definition set_or_call :: "peer_ref \<Rightarrow> json \<Rightarrow> element_type \<Rightarrow> json option cm" where
  "set_or_call p request what =
     or_return (get_params request) (\<lambda>params.
     or_return (get_path_from_params request params) (\<lambda>path. do {
       found \<leftarrow> element_table_get path;
       case found of
         None \<Rightarrow> create_error_response_from_request request INVALID_PARAMS ''not exists'' path
       | Some e \<Rightarrow> do {
           el \<leftarrow> get_elem e;
           pr \<leftarrow> get_peer p;
           if element_is_fetch_only el
           then create_error_response_from_request request INVALID_PARAMS ''fetchOnly'' path
           else if (what = STATE \<and> e_value el = None) \<or> (what = METHOD \<and> e_value el \<noteq> None)
           then create_error_response_from_request request INVALID_PARAMS ''set/call on element not possible'' path
           else do {
             may_set \<leftarrow> has_access (e_set_groups el) (p_set_groups pr);
             may_call \<leftarrow> has_access (e_call_groups el) (p_call_groups pr);
             if (what = STATE \<and> \<not> may_set) \<or> (what = METHOD \<and> \<not> may_call)
             then create_error_response_from_request request INVALID_PARAMS ''request not authorized'' path
             else do {
               let origin = cJSON_GetObjectItem request ''id'';
               if (case origin of None \<Rightarrow> False | Some j \<Rightarrow> \<not> is_string j \<and> \<not> is_number j)
               then create_error_response_from_request request INVALID_PARAMS
                      ''request id is neither string nor number'' path
               else do {
                 allocated \<leftarrow> alloc_routing_request p (e_peer el) origin;
                 case allocated of
                   None \<Rightarrow> create_error_response_from_request request INTERNAL_ERROR
                             ''could not create routing request'' path
                 | Some q \<Rightarrow> do {
                     let value = cJSON_GetObjectItem params (case what of STATE \<Rightarrow> ''value'' | METHOD \<Rightarrow> ''args'');
                     if what = STATE \<and> value = None then do {
                       response \<leftarrow> create_error_response_from_request request INVALID_PARAMS
                         ''reason'' ''no value found'';
                       free_request q;
                       ret response }
                     else do {
                       rq \<leftarrow> get_request q;
                       routed_message \<leftarrow> create_routed_message path what value (req_id rq);
                       case routed_message of
                         None \<Rightarrow> do {
                           response \<leftarrow> create_error_response_from_request request INTERNAL_ERROR
                             ''reason'' ''could not create routed JSON object'';
                           free_request q;
                           ret response }
                       | Some routed_message \<Rightarrow> do {
                           setup \<leftarrow> setup_routing_information e request
                             (cJSON_GetObjectItem params ''timeout'') q;
                           case setup of
                             Inl response \<Rightarrow> do { free_request q; ret response }
                           | Inr _ \<Rightarrow> do {
                               rendered \<leftarrow> cJSON_PrintUnformatted routed_message;
                               case rendered of
                                 None \<Rightarrow> do {
                                   response \<leftarrow> create_error_response_from_request request INTERNAL_ERROR
                                     ''reason'' ''could not render message'';
                                   free_request q;
                                   ret response }
                               | Some rendered \<Rightarrow> do {
                                   routed \<leftarrow> send_message (e_peer el) rendered;
                                   if \<not> routed
                                   then create_error_response_from_request request INTERNAL_ERROR
                                          ''reason'' ''could not send routing information''
                                   else ret None } } } } } } } } } }))"

subsection \<open>Removing elements\<close>

definition remove_element :: "elem_ref \<Rightarrow> unit cm" where
  "remove_element e = do {
     notify_fetchers e ''remove'';
     el \<leftarrow> get_elem e;
     set_peer (e_peer el) (\<lambda>pr. pr\<lparr>element_list := remove1 e (element_list pr)\<rparr>);
     element_table_remove (e_path el);
     free_element e }"

fun find_element_in :: "elem_ref list \<Rightarrow> string \<Rightarrow> elem_ref option cm" where
  "find_element_in [] path = ret None"
| "find_element_in (e # es) path = do {
     el \<leftarrow> get_elem e;
     if e_path el = path then ret (Some e) else find_element_in es path }"

definition remove_element_from_peer :: "peer_ref \<Rightarrow> json \<Rightarrow> json option cm" where
  "remove_element_from_peer p request =
     or_return (get_params request) (\<lambda>params.
     or_return (get_path_from_params request params) (\<lambda>path. do {
       pr \<leftarrow> get_peer p;
       found \<leftarrow> find_element_in (element_list pr) path;
       case found of
         Some e \<Rightarrow> do { remove_element e; create_success_response_from_request request }
       | None \<Rightarrow> create_error_response_from_request request INVALID_PARAMS ''not exists'' path }))"

definition remove_all_elements_from_peer :: "peer_ref \<Rightarrow> unit cm" where
  "remove_all_elements_from_peer p = do {
     pr \<leftarrow> get_peer p;
     for_each remove_element (element_list pr) }"

end
