(* ===== verification/Peer.thy ===== *)
theory Peer
  imports Element
begin

text \<open>
  Peers: \<^verbatim>\<open>src/src/peer.c\<close>, and the requests config and info (\<^verbatim>\<open>src/src/config.c\<close>,
  \<^verbatim>\<open>src/src/info.c\<close>).
\<close>

definition get_number_of_peers :: "int cm" where
  "get_number_of_peers = gets number_of_peers"

text \<open>
  The transport allocates the peer's memory; the fields \<^verbatim>\<open>init_peer\<close> does not write are what the
  memory holds, the argument \<open>memory\<close>.
\<close>

definition init_peer :: "peer \<Rightarrow> bool \<Rightarrow> peer_ref option cm" where
  "init_peer memory local_connection = do {
     p \<leftarrow> add_routing_table memory;
     case p of
       None \<Rightarrow> ret None
     | Some p \<Rightarrow> do {
         r \<leftarrow> new_ref;
         modify (\<lambda>w. w\<lparr>peers := (peers w)(r \<mapsto>
           p\<lparr>p_name := None, p_user_name := None, is_local_connection := local_connection,
             element_list := [], fetch_list := []\<rparr>)\<rparr>);
         modify (\<lambda>w. w\<lparr>peer_list := peer_list w @ [r]\<rparr>);
         modify (\<lambda>w. w\<lparr>number_of_peers := number_of_peers w + 1\<rparr>);
         ret (Some r) } }"

definition remove_peer_from_routes :: "peer_ref \<Rightarrow> unit cm" where
  "remove_peer_from_routes peer_to_remove = do {
     ps \<leftarrow> gets peer_list;
     for_each (\<lambda>p. remove_peer_from_routing_table p peer_to_remove) ps }"

definition free_peer_resources :: "peer_ref \<Rightarrow> unit cm" where
  "free_peer_resources p = do {
     remove_routing_info_from_peer p;
     remove_peer_from_routes p;
     remove_all_fetchers_from_peer p;
     remove_all_elements_from_peer p;
     modify (\<lambda>w. w\<lparr>peer_list := remove1 p (peer_list w)\<rparr>);
     modify (\<lambda>w. w\<lparr>number_of_peers := number_of_peers w - 1\<rparr>) }"

text \<open>
  The callers of \<^verbatim>\<open>free_peer_resources\<close> (\<^verbatim>\<open>free_jet_peer\<close> of \<^verbatim>\<open>socket_peer.c\<close>, \<^verbatim>\<open>free_websocket_peer\<close> of
  \<^verbatim>\<open>websocket_peer.c\<close>) release the peer's memory next.
\<close>

definition free_peer :: "peer_ref \<Rightarrow> unit cm" where
  "free_peer p = do {
     free_peer_resources p;
     modify (\<lambda>w. w\<lparr>peers := (peers w)(p := None)\<rparr>) }"

definition set_peer_name :: "peer_ref \<Rightarrow> string \<Rightarrow> unit cm" where
  "set_peer_name p name = do {
     copy \<leftarrow> duplicate_string name;
     set_peer p (\<lambda>pr. pr\<lparr>p_name := copy\<rparr>) }"

definition get_peer_name :: "peer \<Rightarrow> string" where
  "get_peer_name p = (case p_name p of Some name \<Rightarrow> name | None \<Rightarrow> ''unknown peer'')"

definition destroy_all_peers :: "unit cm" where
  "destroy_all_peers = do { ps \<leftarrow> gets peer_list; for_each free_peer ps }"

subsection \<open>The request config\<close>

definition config_peer :: "peer_ref \<Rightarrow> json \<Rightarrow> json option cm" where
  "config_peer p request =
     or_return (get_params request) (\<lambda>params.
     case cJSON_GetObjectItem params ''name'' of
       None \<Rightarrow> create_success_response_from_request request
     | Some name \<Rightarrow>
        (case valuestring name of
           None \<Rightarrow> create_error_response_from_request request INVALID_PARAMS ''reason'' ''name is not a string''
         | Some s \<Rightarrow> do { set_peer_name p s; create_success_response_from_request request }))"

subsection \<open>The request info\<close>

text \<open>\<^verbatim>\<open>CJET_NAME\<close> and \<^verbatim>\<open>CJET_VERSION\<close> come from a generated header.\<close>

definition create_info :: "string \<Rightarrow> string \<Rightarrow> json option cm" where
  "create_info cjet_name cjet_version = do {
     root_obj \<leftarrow> cJSON_CreateObject;
     case root_obj of None \<Rightarrow> ret None | Some root_obj \<Rightarrow> do {
     name \<leftarrow> cJSON_CreateString cjet_name;
     case name of None \<Rightarrow> ret None | Some name \<Rightarrow> do {
     root_obj \<leftarrow> cJSON_AddItemToObject root_obj ''name'' (Some name);
     version \<leftarrow> cJSON_CreateString cjet_version;
     case version of None \<Rightarrow> ret None | Some version \<Rightarrow> do {
     root_obj \<leftarrow> cJSON_AddItemToObject root_obj ''version'' (Some version);
     protocol_version \<leftarrow> cJSON_CreateString ''1.0.0'';
     case protocol_version of None \<Rightarrow> ret None | Some protocol_version \<Rightarrow> do {
     root_obj \<leftarrow> cJSON_AddItemToObject root_obj ''protocolVersion'' (Some protocol_version);
     features \<leftarrow> cJSON_CreateObject;
     case features of None \<Rightarrow> ret None | Some features \<Rightarrow> do {
     root_obj \<leftarrow> cJSON_AddItemToObject root_obj ''features'' (Some features);
     batches \<leftarrow> cJSON_CreateTrue;
     case batches of None \<Rightarrow> ret None | Some batches \<Rightarrow> do {
     features \<leftarrow> cJSON_AddItemToObject features ''batches'' (Some batches);
     authentication \<leftarrow> cJSON_CreateTrue;
     case authentication of None \<Rightarrow> ret None | Some authentication \<Rightarrow> do {
     features \<leftarrow> cJSON_AddItemToObject features ''authentication'' (Some authentication);
     full \<leftarrow> cJSON_CreateString ''full'';
     case full of None \<Rightarrow> ret None | Some full \<Rightarrow> do {
     features \<leftarrow> cJSON_AddItemToObject features ''fetch'' (Some full);
     ret (Some (update_member root_obj ''features'' features)) } } } } } } } } }"

definition handle_info :: "string \<Rightarrow> string \<Rightarrow> json \<Rightarrow> json option cm" where
  "handle_info cjet_name cjet_version json_rpc = do {
     info \<leftarrow> create_info cjet_name cjet_version;
     create_result_response_from_request json_rpc info ''result'' }"

end
