(* ===== verification/Auth.thy ===== *)
theory Auth
  imports Peer
begin

text \<open>
  Authentication and the password file: \<^verbatim>\<open>src/src/authenticate.c\<close> and \<^verbatim>\<open>src/src/posix/auth_file.c\<close>.

  \<open>user_data\<close> is the parsed file, \<open>users_of\<close> the pointer \<^verbatim>\<open>users\<close> into it.  \<^verbatim>\<open>crypt\<close> of the C library
  is a parameter, as are the random numbers drawn for a salt.  That \<^verbatim>\<open>clear_password\<close> overwrites the
  password in the request is left out: nothing reads it again.
\<close>

type_synonym crypt = "string \<Rightarrow> string \<Rightarrow> string option"

definition users_of :: "json option \<Rightarrow> json option" where
  "users_of data = cJSON_GetObjectItem_null data ''users''"

subsection \<open>Loading the file\<close>

text \<open>The loop over all users; a user without \<^verbatim>\<open>auth\<close> is passed over.\<close>

definition add_group_member :: "json \<Rightarrow> string \<Rightarrow> bool cm" where
  "add_group_member auth name =
    (case cJSON_GetObjectItem auth name of
       None \<Rightarrow> ret True
     | Some groups \<Rightarrow> add_groups groups)"

definition load_groups_of_user :: "json \<Rightarrow> bool cm" where
  "load_groups_of_user user =
    (case cJSON_GetObjectItem user ''auth'' of
       None \<Rightarrow> ret True
     | Some auth \<Rightarrow> do {
         ok \<leftarrow> add_group_member auth ''fetchGroups'';
         if \<not> ok then ret False
         else do {
           ok \<leftarrow> add_group_member auth ''setGroups'';
           if \<not> ok then ret False
           else add_group_member auth ''callGroups'' } })"

text \<open>
  \<open>parsed\<close> is what the JSON parser makes of the file's text; opening and mapping the file may fail.
  On an error the daemon does not start, so the groups and the data that were freed are gone.
\<close>

definition load_passwd_data :: "string option \<Rightarrow> json option \<Rightarrow> bool cm" where
  "load_passwd_data passwd_file parsed =
    (if passwd_file = None then ret True
     else do {
       created \<leftarrow> create_groups;
       if \<not> created then ret False
       else do {
         resolved \<leftarrow> ask;
         opened \<leftarrow> (if resolved then ask else ret False);
         mapped \<leftarrow> (if opened then ask else ret False);
         if \<not> mapped then do { modify (\<lambda>w. w\<lparr>all_groups := None\<rparr>); ret False }
         else (case parsed of
            None \<Rightarrow> do { modify (\<lambda>w. w\<lparr>all_groups := None\<rparr>); ret False }
          | Some data \<Rightarrow> do {
              modify (\<lambda>w. w\<lparr>user_data := Some data\<rparr>);
              ok \<leftarrow> (case users_of (Some data) of
                 None \<Rightarrow> ret False
               | Some users \<Rightarrow> for_each_ok load_groups_of_user (map snd (children users)));
              if ok then ret True
              else do { modify (\<lambda>w. w\<lparr>user_data := None, all_groups := None\<rparr>); ret False } }) } })"

subsection \<open>Credentials\<close>

definition credentials_ok :: "crypt \<Rightarrow> string \<Rightarrow> string \<Rightarrow> json option cm" where
  "credentials_ok crypt user_name passwd = do {
     data \<leftarrow> gets user_data;
     ret (case data of
       None \<Rightarrow> None
     | Some _ \<Rightarrow>
        (case cJSON_GetObjectItem_null (users_of data) user_name of
           None \<Rightarrow> None
         | Some user \<Rightarrow>
            (case cJSON_GetObjectItem user ''password'' of
               None \<Rightarrow> None
             | Some password \<Rightarrow>
                (case valuestring password of
                   None \<Rightarrow> None
                 | Some stored \<Rightarrow>
                    (case crypt passwd stored of
                       None \<Rightarrow> None
                     | Some encrypted \<Rightarrow>
                         if stored = encrypted then cJSON_GetObjectItem user ''auth'' else None))))) }"

definition get_string_param :: "json \<Rightarrow> json \<Rightarrow> string \<Rightarrow> string \<Rightarrow> string \<Rightarrow> (json option + string) cm" where
  "get_string_param request params name missing not_a_string =
    (case cJSON_GetObjectItem params name of
       None \<Rightarrow> fail_with request INVALID_PARAMS ''reason'' missing
     | Some j \<Rightarrow>
        (case valuestring j of
           None \<Rightarrow> fail_with request INVALID_PARAMS ''reason'' not_a_string
         | Some s \<Rightarrow> ret (Inr s)))"

definition handle_authentication :: "crypt \<Rightarrow> peer_ref \<Rightarrow> json \<Rightarrow> json option cm" where
  "handle_authentication crypt p request =
     or_return (get_params request) (\<lambda>params.
     or_return (get_string_param request params ''user'' ''no user given'' ''user is not a string'') (\<lambda>user.
     or_return (get_string_param request params ''password'' ''no password given'' ''password is not a string'') (\<lambda>passwd. do {
       pr \<leftarrow> get_peer p;
       if fetch_list pr \<noteq> []
       then create_error_response_from_request request INVALID_PARAMS ''fetched before authenticate'' user
       else do {
         auth \<leftarrow> credentials_ok crypt user passwd;
         case auth of
           None \<Rightarrow> create_error_response_from_request request INVALID_PARAMS ''invalid credentials'' user
         | Some auth \<Rightarrow> do {
             g \<leftarrow> get_groups (cJSON_GetObjectItem auth ''fetchGroups'');
             set_peer p (\<lambda>pr. pr\<lparr>p_fetch_groups := g\<rparr>);
             g \<leftarrow> get_groups (cJSON_GetObjectItem auth ''setGroups'');
             set_peer p (\<lambda>pr. pr\<lparr>p_set_groups := g\<rparr>);
             g \<leftarrow> get_groups (cJSON_GetObjectItem auth ''callGroups'');
             set_peer p (\<lambda>pr. pr\<lparr>p_call_groups := g\<rparr>);
             name \<leftarrow> duplicate_string user;
             set_peer p (\<lambda>pr. pr\<lparr>p_user_name := name\<rparr>);
             if name = None
             then create_error_response_from_request request INTERNAL_ERROR ''reason''
                    ''not enough memory to allocate user name''
             else create_success_response_from_request request } } })))"

subsection \<open>Changing a password\<close>

definition is_readonly :: "json \<Rightarrow> bool" where
  "is_readonly user \<longleftrightarrow> cJSON_GetObjectItem user ''readonly'' = Some JTrue"

definition is_admin :: "json option \<Rightarrow> string \<Rightarrow> bool" where
  "is_admin data current_user =
    (case cJSON_GetObjectItem_null (users_of data) current_user of
       None \<Rightarrow> False
     | Some user \<Rightarrow> cJSON_GetObjectItem user ''admin'' = Some JTrue)"

text \<open>The salt methods: prefix, minimal and maximal length.\<close>

definition methods :: "(string \<times> nat \<times> nat) list" where
  "methods = [('''', 2, 2), (''$1$'', 8, 8), (''$5$'', 8, 16), (''$6$'', 8, 16)]"

definition valid_salts :: string where
  "valid_salts = ''abcdefghijklmnopqrstuvwxyzABCDEFGHIJKLMNOPQRSTUVWXYZ0123456789./''"

definition fill_salt :: "nat \<Rightarrow> (nat \<Rightarrow> 8 word) \<Rightarrow> string" where
  "fill_salt salt_len random_bytes =
     map (\<lambda>i. valid_salts ! (unat (random_bytes i) mod length valid_salts)) [0..<salt_len] @ ''$''"

fun find_method :: "(string \<times> nat \<times> nat) list \<Rightarrow> string \<Rightarrow> nat \<Rightarrow> (string \<times> nat \<times> nat) option" where
  "find_method [] passwd n = None"
| "find_method (m # ms) passwd n =
    (if strncmp_eq id passwd (fst m) n then Some m else find_method ms passwd n)"

definition get_salt_from_passwd :: "32 word \<Rightarrow> (nat \<Rightarrow> 8 word) \<Rightarrow> string \<Rightarrow> string option cm" where
  "get_salt_from_passwd random_int random_bytes passwd = do {
     found \<leftarrow> (if passwd \<noteq> [] \<and> hd passwd = CHR ''$'' then
          (case find_index (\<lambda>c. c = CHR ''$'') (tl passwd) of
             None \<Rightarrow> do { fault Null_pointer; ret None }
           | Some i \<Rightarrow> ret (find_method methods passwd (i + 2)))
        else ret (Some (methods ! 0)));
     ret (case found of
       None \<Rightarrow> None
     | Some (prefix, minlen, maxlen) \<Rightarrow>
         let salt_len = (if minlen \<noteq> maxlen
                         then unat (random_int mod of_nat (maxlen - minlen + 1)) + minlen else maxlen)
         in Some (prefix @ fill_salt salt_len random_bytes)) }"

text \<open>
  The loop of \<^verbatim>\<open>write_user_data\<close>.  \<open>results\<close> are the results of the calls of \<^verbatim>\<open>write\<close>: how many bytes the
  kernel took, at most as many as asked for, or \<open>None\<close> for an error; \<open>file\<close> is what the file holds.
\<close>

fun write_loop :: "string \<Rightarrow> nat \<Rightarrow> nat \<Rightarrow> nat option list \<Rightarrow> string \<Rightarrow> (bool \<times> string) option" where
  "write_loop data written to_write results file =
    (if written < to_write then
       (case results of
          [] \<Rightarrow> None
        | None # _ \<Rightarrow> Some (False, file)
        | Some n # rest \<Rightarrow>
            let written = min n to_write
            in write_loop data written (to_write - written) rest (file @ take written data))
     else Some (True, file))"

declare write_loop.simps [simp del]

definition write_user_data :: "bool cm" where
  "write_user_data = do {
     truncated \<leftarrow> ask;
     if \<not> truncated then ret False
     else do {
       rendered \<leftarrow> ask;
       if \<not> rendered then ret False
       else ask } }"

text \<open>The update of the value found under a name, in place.\<close>

fun map_first :: "string \<Rightarrow> (json \<Rightarrow> json) \<Rightarrow> (string \<times> json) list \<Rightarrow> (string \<times> json) list" where
  "map_first name f [] = []"
| "map_first name f ((k, x) # kvs) =
    (if strcasecmp_eq name k then (k, f x) # kvs else (k, x) # map_first name f kvs)"

definition map_member :: "string \<Rightarrow> (json \<Rightarrow> json) \<Rightarrow> json \<Rightarrow> json" where
  "map_member name f obj = (case obj of JObject kvs \<Rightarrow> JObject (map_first name f kvs) | _ \<Rightarrow> obj)"

definition replace_password :: "string \<Rightarrow> json \<Rightarrow> json \<Rightarrow> json" where
  "replace_password user_name new_password data =
     map_member ''users'' (map_member user_name
       (\<lambda>user. cJSON_ReplaceItemInObject user ''password'' new_password)) data"

definition change_password ::
    "crypt \<Rightarrow> 32 word \<Rightarrow> (nat \<Rightarrow> 8 word) \<Rightarrow> peer_ref \<Rightarrow> json \<Rightarrow> string \<Rightarrow> string \<Rightarrow> json option cm" where
  "change_password crypt random_int random_bytes p request user_name passwd = do {
     pr \<leftarrow> get_peer p;
     case p_user_name pr of
       None \<Rightarrow> create_error_response_from_request request INVALID_PARAMS ''reason''
                 ''non-authenticated peer can't change any passwords''
     | Some own_name \<Rightarrow> do {
         data \<leftarrow> gets user_data;
         case cJSON_GetObjectItem_null (users_of data) user_name of
           None \<Rightarrow> create_error_response_from_request request INVALID_PARAMS ''reason''
                     ''user not in password database''
         | Some user \<Rightarrow>
             if \<not> is_readonly user \<and> (own_name = user_name \<or> is_admin data own_name) then
               (case cJSON_GetObjectItem user ''password'' of
                  None \<Rightarrow> create_error_response_from_request request INVALID_PARAMS ''reason''
                            ''no password for user in password database''
                | Some password \<Rightarrow>
                   (case valuestring password of
                      None \<Rightarrow> create_error_response_from_request request INVALID_PARAMS ''reason''
                                ''password for user in password database is not a string''
                    | Some stored \<Rightarrow> do {
                        salt \<leftarrow> get_salt_from_passwd random_int random_bytes stored;
                        case salt of
                          None \<Rightarrow> create_error_response_from_request request INVALID_PARAMS ''reason''
                                    ''can't create salt for new password''
                        | Some salt \<Rightarrow>
                           (case crypt passwd salt of
                              None \<Rightarrow> create_error_response_from_request request INVALID_PARAMS ''reason''
                                        ''could not encrypt password''
                            | Some encrypted \<Rightarrow> do {
                                item \<leftarrow> cJSON_CreateString encrypted;
                                modify (\<lambda>w. case item of
                                    None \<Rightarrow> w
                                  | Some item \<Rightarrow>
                                      w\<lparr>user_data := map_option (replace_password user_name item) (user_data w)\<rparr>);
                                written \<leftarrow> write_user_data;
                                if \<not> written
                                then create_error_response_from_request request INTERNAL_ERROR ''reason''
                                       ''Could not write password file''
                                else create_success_response_from_request request }) }))
             else create_error_response_from_request request INVALID_PARAMS ''reason''
                    ''user not allowed to change password'' } }"

definition handle_change_password ::
    "crypt \<Rightarrow> 32 word \<Rightarrow> (nat \<Rightarrow> 8 word) \<Rightarrow> peer_ref \<Rightarrow> json \<Rightarrow> json option cm" where
  "handle_change_password crypt random_int random_bytes p request =
     or_return (get_params request) (\<lambda>params.
     or_return (get_string_param request params ''user'' ''no user given'' ''user is not a string'') (\<lambda>user.
     or_return (get_string_param request params ''password'' ''no password given'' ''password is not a string'') (\<lambda>passwd.
       change_password crypt random_int random_bytes p request user passwd)))"

end
