(* ===== verification/Parse.thy ===== *)
theory Parse
  imports Auth
begin

text \<open>
  Dispatch of messages: \<^verbatim>\<open>src/src/parse.c\<close>.

  A message reaches this component as the value the JSON parser made of it (\<open>None\<close> when the text does
  not parse) with the number of characters parsed.  A result \<open>False\<close> is the code's \<^verbatim>\<open>-1\<close>, on which
  the transport closes the connection.  What a handler takes from outside (\<^verbatim>\<open>crypt\<close>, random numbers,
  the generated version strings) is gathered in one record.
\<close>

record externals =
  ext_crypt :: crypt
  ext_random_int :: "32 word"
  ext_random_bytes :: "nat \<Rightarrow> 8 word"
  CJET_NAME :: string
  CJET_VERSION :: string

definition send_response :: "json option \<Rightarrow> peer_ref \<Rightarrow> bool cm" where
  "send_response response p =
    (case response of
       None \<Rightarrow> ret True
     | Some response \<Rightarrow> need (cJSON_PrintUnformatted response) (\<lambda>rendered. send_message p rendered))"

definition process_fetch :: "json \<Rightarrow> peer_ref \<Rightarrow> json option cm" where
  "process_fetch json_rpc p =
     or_return (add_fetch_to_peer p json_rpc) (\<lambda>f. add_fetch_to_states p json_rpc f)"

definition handle_method :: "externals \<Rightarrow> json \<Rightarrow> string \<Rightarrow> peer_ref \<Rightarrow> json option cm" where
  "handle_method ex request method_name p =
    (if method_name = ''change'' then change_state p request
     else if method_name = ''set'' then set_or_call p request STATE
     else if method_name = ''call'' then set_or_call p request METHOD
     else if method_name = ''add'' then add_element_to_peer p request
     else if method_name = ''remove'' then remove_element_from_peer p request
     else if method_name = ''fetch'' then process_fetch request p
     else if method_name = ''unfetch'' then remove_fetch_from_peer p request
     else if method_name = ''get'' then get_elements request p
     else if method_name = ''config'' then config_peer p request
     else if method_name = ''info'' then handle_info (CJET_NAME ex) (CJET_VERSION ex) request
     else if method_name = ''authenticate'' then handle_authentication (ext_crypt ex) p request
     else if method_name = ''passwd''
       then handle_change_password (ext_crypt ex) (ext_random_int ex) (ext_random_bytes ex) p request
     else create_error_response_from_request request METHOD_NOT_FOUND ''reason'' method_name)"

definition parse_json_rpc :: "externals \<Rightarrow> json \<Rightarrow> peer_ref \<Rightarrow> bool cm" where
  "parse_json_rpc ex request p =
    (case cJSON_GetObjectItem request ''method'' of
       Some meth \<Rightarrow> do {
         response \<leftarrow> (case valuestring meth of
            None \<Rightarrow> create_error_response_from_request request INVALID_REQUEST ''reason'' ''method is not a string''
          | Some method_name \<Rightarrow> handle_method ex request method_name p);
         send_response response p }
     | None \<Rightarrow>
        (case cJSON_GetObjectItem request ''result'' of
           Some result \<Rightarrow> handle_routing_response request result ''result'' p
         | None \<Rightarrow>
            (case cJSON_GetObjectItem request ''error'' of
               Some error \<Rightarrow> handle_routing_response request error ''error'' p
             | None \<Rightarrow> do {
                 response \<leftarrow> create_error_response_from_request request INVALID_REQUEST ''reason''
                   ''neither request nor response'';
                 send_response response p })))"

definition parse_json_array :: "externals \<Rightarrow> json \<Rightarrow> peer_ref \<Rightarrow> bool cm" where
  "parse_json_array ex batch p =
     for_each_ok (\<lambda>sub_item. if is_object sub_item then parse_json_rpc ex sub_item p else ret False)
       (map snd (children batch))"

definition parse_message :: "externals \<Rightarrow> (json \<times> nat) option \<Rightarrow> nat \<Rightarrow> peer_ref \<Rightarrow> bool cm" where
  "parse_message ex parsed msg_length p =
    (case parsed of
       None \<Rightarrow> ret False
     | Some (message, parsed_length) \<Rightarrow> do {
         c \<leftarrow> gets cfg;
         if check_json_length c \<and> parsed_length \<noteq> msg_length then ret False
         else (case message of
            JArray _ \<Rightarrow> parse_json_array ex message p
          | JObject _ \<Rightarrow> parse_json_rpc ex message p
          | _ \<Rightarrow> ret False) })"

end
