(* ===== verification/Broker_Invariant.thy ===== *)
theory Broker_Invariant
  imports Subscription Parse
begin

text \<open>
  The invariant of the broker's state, and the elementary updates that keep it.

  \<open>consistent_but X\<close> relates the heap, the intrusive lists, the element table and the fetcher tables;
  \<open>X\<close> are elements that exist but are not published yet.  It holds whatever fails.  \<open>exact\<close> adds that
  no subscription is missing; it is kept as long as no call to the environment fails.

  The view is the part of the state the invariant speaks about.  An operation that does not change the
  view keeps the invariant; \<open>same_view\<close> also says that a run without failures stays one.
\<close>

definition consistent_but :: "elem_ref set \<Rightarrow> world \<Rightarrow> bool" where
  "consistent_but X w \<longleftrightarrow>
    config_ok (cfg w) \<and> linked w \<and> element_table_ok w \<and>
    number_of_peers w = int (length (peer_list w)) \<and>
    (\<forall>e el. elements w e = Some el \<longrightarrow> e \<notin> X \<longrightarrow>
       (\<exists>pr. peers w (e_peer el) = Some pr \<and> e \<in> set (element_list pr))) \<and>
    (\<forall>f ft. fetches w f = Some ft \<longrightarrow> (\<exists>pr. peers w (f_peer ft) = Some pr \<and> f \<in> set (fetch_list pr))) \<and>
    (\<forall>path e. lookup_element w path = Some e \<longleftrightarrow> e \<notin> X \<and> (\<exists>el. elements w e = Some el \<and> e_path el = path)) \<and>
    (\<forall>e f. subs w e f \<le> (if wants w e f then 1 else 0)) \<and>
    (\<forall>r \<ge> next_ref w. peers w r = None \<and> elements w r = None \<and> fetches w r = None) \<and>
    (\<forall>p pr. peers w p = Some pr \<longrightarrow> set (element_list pr) \<inter> X = {})"

abbreviation consistent :: "world \<Rightarrow> bool" where
  "consistent \<equiv> consistent_but {}"

definition exact :: "world \<Rightarrow> bool" where
  "exact w \<longleftrightarrow> (\<forall>e f. wants w e f \<longrightarrow> subs w e f = 1)"

lemma consistent_butD:
  assumes "consistent_but X w"
  shows "config_ok (cfg w)" and "linked w" and "element_table_ok w"
    and "number_of_peers w = int (length (peer_list w))"
    and "elements w e = Some el \<Longrightarrow> e \<notin> X \<Longrightarrow> \<exists>pr. peers w (e_peer el) = Some pr \<and> e \<in> set (element_list pr)"
    and "fetches w f = Some ft \<Longrightarrow> \<exists>pr. peers w (f_peer ft) = Some pr \<and> f \<in> set (fetch_list pr)"
    and "lookup_element w path = Some e \<longleftrightarrow> e \<notin> X \<and> (\<exists>el. elements w e = Some el \<and> e_path el = path)"
    and "subs w e f \<le> (if wants w e f then 1 else 0)"
    and "next_ref w \<le> r \<Longrightarrow> peers w r = None" and "next_ref w \<le> r \<Longrightarrow> elements w r = None"
    and "next_ref w \<le> r \<Longrightarrow> fetches w r = None"
    and "peers w p = Some pr \<Longrightarrow> e \<in> set (element_list pr) \<Longrightarrow> e \<notin> X"
  using assms unfolding consistent_but_def by blast+

lemma consistent_butI:
  assumes "config_ok (cfg w)" and "linked w" and "element_table_ok w"
    and "number_of_peers w = int (length (peer_list w))"
    and "\<And>e el. elements w e = Some el \<Longrightarrow> e \<notin> X \<Longrightarrow>
      \<exists>pr. peers w (e_peer el) = Some pr \<and> e \<in> set (element_list pr)"
    and "\<And>f ft. fetches w f = Some ft \<Longrightarrow> \<exists>pr. peers w (f_peer ft) = Some pr \<and> f \<in> set (fetch_list pr)"
    and "\<And>path e. lookup_element w path = Some e \<longleftrightarrow> e \<notin> X \<and> (\<exists>el. elements w e = Some el \<and> e_path el = path)"
    and "\<And>e f. subs w e f \<le> (if wants w e f then 1 else 0)"
    and "\<And>r. next_ref w \<le> r \<Longrightarrow> peers w r = None \<and> elements w r = None \<and> fetches w r = None"
    and "\<And>p pr e. peers w p = Some pr \<Longrightarrow> e \<in> set (element_list pr) \<Longrightarrow> e \<in> X \<Longrightarrow> False"
  shows "consistent_but X w"
  unfolding consistent_but_def
  by (intro conjI allI impI assms(1-6) assms(7-9); (assumption | (use assms(10) in blast)))

lemma subs_live:
  assumes "consistent_but X w" "elements w e = Some el" "Some f \<in> set (fetcher_table el)"
  shows "wants w e f" and "subs w e f = 1" and "fetches w f \<noteq> None"
proof -
  have "subs w e f \<noteq> 0" using assms(2,3) by (simp add: subs_def count_list_0_iff)
  with consistent_butD(8) [OF assms(1), of e f] show "wants w e f" "subs w e f = 1"
    by (auto split: if_splits)
  then show "fetches w f \<noteq> None" by (auto simp: wants_def split: option.splits)
qed

subsection \<open>The view\<close>

definition peer_view :: "peer \<Rightarrow> elem_ref list \<times> fetch_ref list \<times> group_t" where
  "peer_view pr = (element_list pr, fetch_list pr, p_fetch_groups pr)"

definition elem_view :: "element \<Rightarrow> string \<times> peer_ref \<times> fetch_ref option list \<times> group_t" where
  "elem_view el = (e_path el, e_peer el, fetcher_table el, e_fetch_groups el)"

definition same_view :: "world \<Rightarrow> world \<Rightarrow> bool" where
  "same_view w w' \<longleftrightarrow> cfg w' = cfg w \<and> all_groups w' = all_groups w \<and> peer_list w' = peer_list w \<and>
    number_of_peers w' = number_of_peers w \<and>
    (\<forall>p. map_option peer_view (peers w' p) = map_option peer_view (peers w p)) \<and>
    (\<forall>e. map_option elem_view (elements w' e) = map_option elem_view (elements w e)) \<and>
    fetches w' = fetches w \<and> element_hashtable w' = element_hashtable w \<and> next_ref w \<le> next_ref w' \<and>
    (env w = [] \<longrightarrow> env w' = [])"

lemma same_view_refl [simp]: "same_view w w"
  by (simp add: same_view_def)

lemma same_view_trans [trans]: "same_view w1 w2 \<Longrightarrow> same_view w2 w3 \<Longrightarrow> same_view w1 w3"
  by (simp add: same_view_def)

lemma map_option_eqD: "map_option h x = map_option h y \<Longrightarrow> x = Some a \<Longrightarrow> \<exists>b. y = Some b \<and> h a = h b"
  by (cases y) auto

lemma same_viewD:
  assumes "same_view w w'"
  shows "cfg w' = cfg w" "all_groups w' = all_groups w" "peer_list w' = peer_list w"
    and "number_of_peers w' = number_of_peers w" "fetches w' = fetches w"
    and "element_hashtable w' = element_hashtable w" "next_ref w \<le> next_ref w'"
    and "peers w p = Some pr \<Longrightarrow> \<exists>pr'. peers w' p = Some pr' \<and> peer_view pr' = peer_view pr"
    and "peers w' p = Some pr' \<Longrightarrow> \<exists>pr. peers w p = Some pr \<and> peer_view pr' = peer_view pr"
    and "elements w e = Some el \<Longrightarrow> \<exists>el'. elements w' e = Some el' \<and> elem_view el' = elem_view el"
    and "elements w' e = Some el' \<Longrightarrow> \<exists>el. elements w e = Some el \<and> elem_view el' = elem_view el"
    and "peers w' p = None \<longleftrightarrow> peers w p = None" "elements w' e = None \<longleftrightarrow> elements w e = None"
    and "env w = [] \<Longrightarrow> env w' = []"
  using assms unfolding same_view_def
  by (simp_all, (metis map_option_eqD map_option_is_None)+)

lemma elem_view_eq: "elem_view a = elem_view b \<longleftrightarrow> e_path a = e_path b \<and> e_peer a = e_peer b \<and>
    fetcher_table a = fetcher_table b \<and> e_fetch_groups a = e_fetch_groups b"
  by (simp add: elem_view_def)

lemma peer_view_eq: "peer_view a = peer_view b \<longleftrightarrow> element_list a = element_list b \<and>
    fetch_list a = fetch_list b \<and> p_fetch_groups a = p_fetch_groups b"
  by (simp add: peer_view_def)

lemma same_view_subs: "same_view w w' \<Longrightarrow> subs w' e f = subs w e f"
  using same_viewD(10) [of w w' e] same_viewD(13) [of w w' e]
  by (auto simp: subs_def elem_view_eq split: option.split)

lemma same_view_wants:
  assumes v: "same_view w w'"
  shows "wants w' e f = wants w e f"
proof (cases "elements w e")
  case None
  with same_viewD(13) [OF v, of e] show ?thesis by (simp add: wants_def)
next
  case (Some el)
  then obtain el' where el': "elements w' e = Some el'" "elem_view el' = elem_view el"
    using same_viewD(10) [OF v] by blast
  show ?thesis
  proof (cases "fetches w f")
    case None
    with same_viewD(5) [OF v] Some el' show ?thesis by (simp add: wants_def)
  next
    case ft: (Some ft)
    then have ft': "fetches w' f = Some ft" using same_viewD(5) [OF v] by simp
    show ?thesis
    proof (cases "peers w (f_peer ft)")
      case None
      with same_viewD(12) [OF v, of "f_peer ft"] Some ft ft' el' show ?thesis by (simp add: wants_def entitled_def)
    next
      case pr: (Some pr)
      then obtain pr' where "peers w' (f_peer ft) = Some pr'" "peer_view pr' = peer_view pr"
        using same_viewD(8) [OF v] by blast
      with pr Some ft ft' el' show ?thesis
        by (simp add: wants_def entitled_def elem_view_eq peer_view_eq same_viewD(2) [OF v])
    qed
  qed
qed

lemma same_view_lookup: "same_view w w' \<Longrightarrow> lookup_element w' path = lookup_element w path"
  by (simp add: lookup_element_def same_viewD(1,6))

lemma same_view_linked:
  assumes v: "same_view w w'" and l: "linked w"
  shows "linked w'"
  unfolding linked_def
proof (intro conjI allI impI)
  show "distinct (peer_list w')" using linkedD(1) [OF l] same_viewD(3) [OF v] by simp
  have "dom (peers w') = dom (peers w)" using same_viewD(12) [OF v] by (auto simp: dom_def)
  then show "set (peer_list w') = dom (peers w')" using linkedD(2) [OF l] same_viewD(3) [OF v] by simp
  fix p pr'
  assume "peers w' p = Some pr'"
  then obtain pr where pr: "peers w p = Some pr" "peer_view pr' = peer_view pr" using same_viewD(9) [OF v] by blast
  show "distinct (element_list pr')" "distinct (fetch_list pr')"
    using linkedD(3,4) [OF l pr(1)] pr(2) by (simp_all add: peer_view_eq)
  show "\<forall>e\<in>set (element_list pr'). \<exists>el. elements w' e = Some el \<and> e_peer el = p"
  proof
    fix e
    assume "e \<in> set (element_list pr')"
    then obtain el where "elements w e = Some el" "e_peer el = p"
      using linkedD(5) [OF l pr(1)] pr(2) by (auto simp: peer_view_eq)
    with same_viewD(10) [OF v, of e el] show "\<exists>el. elements w' e = Some el \<and> e_peer el = p"
      by (auto simp: elem_view_eq)
  qed
  show "\<forall>f\<in>set (fetch_list pr'). \<exists>ft. fetches w' f = Some ft \<and> f_peer ft = p \<and> fetch_id ft \<noteq> None \<and> matcher ft \<noteq> []"
    using linkedD(6) [OF l pr(1)] pr(2) same_viewD(5) [OF v] by (simp add: peer_view_eq)
qed

lemma consistent_same_view:
  assumes v: "same_view w w'" and c: "consistent_but X w"
  shows "consistent_but X w'"
proof (rule consistent_butI)
  note D = consistent_butD [OF c]
  show "config_ok (cfg w')" using D(1) by (simp add: same_viewD [OF v])
  show "linked w'" by (rule same_view_linked [OF v D(2)])
  show "element_table_ok w'" using D(3) by (simp add: element_table_ok_def same_viewD(1,6) [OF v])
  show "number_of_peers w' = int (length (peer_list w'))" using D(4) by (simp add: same_viewD(3,4) [OF v])
  show "\<exists>pr. peers w' (e_peer el) = Some pr \<and> e \<in> set (element_list pr)"
    if e: "elements w' e = Some el" "e \<notin> X" for e el
  proof -
    from same_viewD(11) [OF v e(1)] obtain el0 where el0: "elements w e = Some el0" "elem_view el = elem_view el0" by blast
    from D(5) [OF this(1) e(2)] obtain pr where "peers w (e_peer el0) = Some pr" "e \<in> set (element_list pr)" by blast
    with same_viewD(8) [OF v, of "e_peer el0" pr] el0 show ?thesis by (auto simp: elem_view_eq peer_view_eq)
  qed
  show "\<exists>pr. peers w' (f_peer ft) = Some pr \<and> f \<in> set (fetch_list pr)" if f: "fetches w' f = Some ft" for f ft
  proof -
    from f D(6) [of f ft] obtain pr where "peers w (f_peer ft) = Some pr" "f \<in> set (fetch_list pr)"
      by (auto simp: same_viewD(5) [OF v])
    with same_viewD(8) [OF v, of "f_peer ft" pr] show ?thesis by (auto simp: peer_view_eq)
  qed
  show "lookup_element w' path = Some e \<longleftrightarrow> e \<notin> X \<and> (\<exists>el. elements w' e = Some el \<and> e_path el = path)" for path e
  proof -
    have "(\<exists>el. elements w' e = Some el \<and> e_path el = path) \<longleftrightarrow> (\<exists>el. elements w e = Some el \<and> e_path el = path)"
      using same_viewD(10) [OF v, of e] same_viewD(11) [OF v, of e] by (auto simp: elem_view_eq)
    then show ?thesis using D(7) [of path e] by (simp add: same_view_lookup [OF v])
  qed
  show "subs w' e f \<le> (if wants w' e f then 1 else 0)" for e f
    using D(8) [of e f] by (simp add: same_view_subs [OF v] same_view_wants [OF v])
  show "peers w' r = None \<and> elements w' r = None \<and> fetches w' r = None" if "next_ref w' \<le> r" for r
    using D(9-11) [of r] that same_viewD(7) [OF v] by (simp add: same_viewD(5,12,13) [OF v])
  show False if "peers w' p = Some pr'" "e \<in> set (element_list pr')" "e \<in> X" for p pr' e
    using same_viewD(9) [OF v that(1)] D(12) [of p _ e] that by (auto simp: peer_view_eq)
qed

lemma exact_same_view: "same_view w w' \<Longrightarrow> exact w \<Longrightarrow> exact w'"
  by (simp add: exact_def same_view_subs same_view_wants)

text \<open>Operations that do not change the view.\<close>

named_theorems view_rules "operations that do not change the view"

abbreviation keeps_view :: "'a cm \<Rightarrow> bool" where
  "keeps_view m \<equiv> (\<forall>w0. keeps (same_view w0) m)"

lemma keeps_viewD: "keeps_view m \<Longrightarrow> run_state m w = (r, w') \<Longrightarrow> same_view w w'"
  by (metis keepsD same_view_refl)

lemma view_modify: "(\<And>w. same_view w (f w)) \<Longrightarrow> keeps (same_view w0) (modify f)"
  by (auto intro: keeps_modify same_view_trans)

lemma view_env_only: "env_only m \<Longrightarrow> keeps (same_view w0) m"
proof (rule keepsI)
  fix w r w'
  assume q: "env_only m" and s: "same_view w0 w" and r: "run_state m w = (r, w')"
  from q r obtain n where "w' = w\<lparr>env := drop n (env w)\<rparr>" unfolding env_only_def by (metis snd_conv)
  with s show "same_view w0 w'" by (simp add: same_view_def)
qed

lemma view_quiet: "quiet m \<Longrightarrow> keeps (same_view w0) m"
proof (rule keepsI)
  fix w r w'
  assume q: "quiet m" and s: "same_view w0 w" and r: "run_state m w = (r, w')"
  from quietD [OF q r] obtain n sn where "w' = w\<lparr>env := drop n (env w), sent := sent w @ sn\<rparr>" by blast
  with s show "same_view w0 w'" by (simp add: same_view_def)
qed

lemma view_fault [view_rules]: "keeps (same_view w0) (fault x)"
  unfolding fault_def by (rule view_modify) (simp add: same_view_def)

lemma view_deref [view_rules]: "keeps (same_view w0) (deref heap dflt r)"
  unfolding deref_def by (intro keeps_rules view_rules)

lemma view_get [view_rules]:
  "keeps (same_view w0) (get_peer p)" "keeps (same_view w0) (get_elem e)"
  "keeps (same_view w0) (get_fetch f)" "keeps (same_view w0) (get_request q)"
  unfolding get_peer_def get_elem_def get_fetch_def get_request_def by (intro view_rules)+

lemma view_set_peer:
  assumes "\<And>pr. peer_view (f pr) = peer_view pr"
  shows "keeps (same_view w0) (set_peer p f)"
proof (rule keepsI)
  fix w r w'
  assume s: "same_view w0 w" and r: "run_state (set_peer p f) w = (r, w')"
  have "same_view w w'"
    using r assms by (cases "peers w p") (auto simp: set_peer_def fault_def same_view_def)
  with s show "same_view w0 w'" by (rule same_view_trans)
qed

lemma view_set_elem:
  assumes "\<And>el. elem_view (f el) = elem_view el"
  shows "keeps (same_view w0) (set_elem e f)"
proof (rule keepsI)
  fix w r w'
  assume s: "same_view w0 w" and r: "run_state (set_elem e f) w = (r, w')"
  have "same_view w w'"
    using r assms by (cases "elements w e") (auto simp: set_elem_def fault_def same_view_def)
  with s show "same_view w0 w'" by (rule same_view_trans)
qed

lemma view_new_ref [view_rules]: "keeps (same_view w0) new_ref"
  by (rule keepsI) (auto simp: run_new_ref same_view_def)

lemma view_send_message [view_rules]: "keeps (same_view w0) (send_message p msg)"
  by (rule view_quiet [OF quiet_send_message])

lemmas view_ask [view_rules] = view_env_only [OF env_only_ask]
lemmas view_build [view_rules] = env_only_build [THEN view_env_only]
lemmas view_response [view_rules] = env_only_response [THEN view_env_only]
lemmas view_groups [view_rules] = env_only_groups [THEN view_env_only]
lemmas view_table_get [view_rules] = env_only_element_table_get [THEN view_env_only]

subsection \<open>Handlers that do not change the view\<close>

lemma view_or [view_rules]:
  "keeps (same_view w0) m \<Longrightarrow> (\<And>x. keeps (same_view w0) (f x)) \<Longrightarrow> keeps (same_view w0) (or_return m f)"
  "keeps (same_view w0) m \<Longrightarrow> (\<And>x. keeps (same_view w0) (g x)) \<Longrightarrow> keeps (same_view w0) (or_fail m g)"
  by (rule keeps_or_return keeps_or_fail; assumption)+

lemma view_notify [view_rules]: "keeps (same_view w0) (notify_fetching_peer e f ev)"
  unfolding notify_fetching_peer_def by (intro keeps_rules view_rules)

lemma view_notify_fetchers [view_rules]: "keeps (same_view w0) (notify_fetchers e ev)"
  unfolding notify_fetchers_def by (intro keeps_rules view_rules)

lemma view_timeout [view_rules]:
  "keeps (same_view w0) (convert_seconds_to_nsec d)"
  "keeps (same_view w0) (get_timeout_in_nsec request t dt)"
proof -
  show "keeps (same_view w0) (convert_seconds_to_nsec d)" for d
    unfolding convert_seconds_to_nsec_def by (cases d) (auto intro!: keeps_rules view_rules)
  then show "keeps (same_view w0) (get_timeout_in_nsec request t dt)"
    unfolding get_timeout_in_nsec_def by (intro keeps_rules view_rules)
qed

lemma view_timer [view_rules]:
  "keeps (same_view w0) (cjet_timer_init q)" "keeps (same_view w0) (cjet_timer_destroy q)"
  "keeps (same_view w0) (timer_start q ns)" "keeps (same_view w0) (timer_cancel q)"
  unfolding cjet_timer_init_def cjet_timer_destroy_def timer_start_def timer_cancel_def
  by (intro keeps_rules view_rules view_modify; simp add: same_view_def)+

lemma view_route_table [view_rules]:
  "keeps (same_view w0) (route_table_put p k q)" "keeps (same_view w0) (route_table_remove p k)"
  unfolding route_table_put_def route_table_remove_def Let_def
  by (intro keeps_rules view_rules view_set_peer; simp add: peer_view_def)+

lemma view_free_request [view_rules]: "keeps (same_view w0) (free_request q)"
  unfolding free_request_def by (intro view_modify) (simp add: same_view_def)

lemma view_routing [view_rules]:
  "keeps (same_view w0) (create_routed_message path what value i)"
  "keeps (same_view w0) (format_and_send_response p x)"
  "keeps (same_view w0) (setup_routing_information e request t q)"
  unfolding create_routed_message_def format_and_send_response_def setup_routing_information_def
  by (cases what; intro keeps_rules view_rules keeps_need; simp; intro keeps_rules view_rules)+

lemma view_alloc_routing_request [view_rules]: "keeps (same_view w0) (alloc_routing_request r o' j)"
  unfolding alloc_routing_request_def calculate_size_for_routed_request_id_def fill_routed_request_id_def
  by (intro keeps_rules view_rules view_modify) (simp_all add: same_view_def)

lemma view_answers [view_rules]:
  "keeps (same_view w0) (request_timeout_handler q c)"
  "keeps (same_view w0) (handle_routing_response j x t p)"
  "keeps (same_view w0) (send_shutdown_response p oid)"
  unfolding request_timeout_handler_def handle_routing_response_def send_shutdown_response_def
  by (intro keeps_rules view_rules)+

lemma view_timer_read [view_rules]: "keeps (same_view w0) (timer_read q)"
  unfolding timer_read_def by (intro keeps_rules view_rules view_modify) (simp add: same_view_def)

lemma view_clear [view_rules]:
  "keeps (same_view w0) (clear_routing_entry q)" "keeps (same_view w0) (remove_entry p i)"
  unfolding clear_routing_entry_def remove_entry_def by (intro keeps_rules view_rules)+

lemma view_leave [view_rules]:
  "keeps (same_view w0) (remove_peer_from_routing_table p x)"
  "keeps (same_view w0) (remove_routing_info_from_peer p)"
  "keeps (same_view w0) (remove_peer_from_routes p)"
proof -
  have t: "keeps (same_view w0) (remove_peer_from_routing_table p x)" for p x
    unfolding remove_peer_from_routing_table_def by (intro keeps_rules view_rules)
  then show "keeps (same_view w0) (remove_peer_from_routing_table p x)" .
  show "keeps (same_view w0) (remove_routing_info_from_peer p)"
    unfolding remove_routing_info_from_peer_def by (intro keeps_rules view_rules)
  show "keeps (same_view w0) (remove_peer_from_routes p)"
    unfolding remove_peer_from_routes_def by (intro keeps_rules view_rules t)
qed

lemma view_params [view_rules]:
  "keeps (same_view w0) (get_path_from_params request params)"
  "keeps (same_view w0) (get_fetch_only_from_params request params)"
  "keeps (same_view w0) (get_fetch_id request params)"
  "keeps (same_view w0) (get_string_param request params n a b)"
  unfolding get_path_from_params_def get_fetch_only_from_params_def get_fetch_id_def get_string_param_def Let_def
  by (intro keeps_rules view_rules)+

lemma view_change_state [view_rules]: "keeps (same_view w0) (change_state p request)"
  unfolding change_state_def
  by (intro keeps_rules view_rules view_set_elem) (simp add: elem_view_def)

lemma view_set_or_call [view_rules]: "keeps (same_view w0) (set_or_call p request what)"
  unfolding set_or_call_def Let_def by (intro keeps_rules view_rules)

lemma view_config [view_rules]:
  "keeps (same_view w0) (config_peer p request)"
  "keeps (same_view w0) (handle_info a b request)"
  unfolding config_peer_def set_peer_name_def handle_info_def create_info_def
  by (intro keeps_rules view_rules view_set_peer; simp add: peer_view_def)+

lemma view_passwd [view_rules]:
  "keeps (same_view w0) (change_password c ri rb p request u pw)"
  "keeps (same_view w0) (handle_change_password c ri rb p request)"
proof -
  have salt: "keeps (same_view w0) (get_salt_from_passwd ri rb pw)" for pw
    unfolding get_salt_from_passwd_def by (intro keeps_rules view_rules)
  have wud: "keeps (same_view w0) write_user_data"
    unfolding write_user_data_def by (intro keeps_rules view_rules)
  have user: "same_view w (case item of None \<Rightarrow> w | Some item \<Rightarrow> w\<lparr>user_data := f item (user_data w)\<rparr>)"
    for w :: world and item :: "json option" and f
    by (simp add: same_view_def split: option.split)
  show cp: "keeps (same_view w0) (change_password c ri rb p request u pw)" for u pw
    unfolding change_password_def by (intro keeps_rules view_rules salt wud view_modify) (rule user)
  show "keeps (same_view w0) (handle_change_password c ri rb p request)"
    unfolding handle_change_password_def by (intro keeps_rules view_rules cp)
qed

lemma view_find [view_rules]:
  "keeps (same_view w0) (find_fetch p j)" "keeps (same_view w0) (find_element_in es path)"
proof -
  have "keeps (same_view w0) (find_fetch_in fs j)" for fs
    by (induction fs) (auto intro!: keeps_rules view_rules)
  then show "keeps (same_view w0) (find_fetch p j)"
    unfolding find_fetch_def by (intro keeps_rules view_rules)
  show "keeps (same_view w0) (find_element_in es path)"
    by (induction es) (auto intro!: keeps_rules view_rules)
qed

lemma view_create_fetch [view_rules]: "keeps (same_view w0) (create_fetch p request j params)"
proof -
  have copy: "keeps (same_view w0) (copy_path_elements xs)" for xs
    by (induction xs) (auto intro!: keeps_rules view_rules)
  have cm: "keeps (same_view w0) (create_matcher n m ic)" for n m ic
    unfolding create_matcher_def create_path_matcher_def fill_path_elements_def Let_def
    by (intro keeps_rules view_rules copy)
  have loop: "keeps (same_view w0) (add_matchers_from xs ic i ms)" for xs ic i ms
    by (induction xs ic i ms rule: add_matchers_from.induct) (auto intro!: keeps_rules view_rules cm split: option.split)
  have alloc: "keeps (same_view w0) (alloc_fetch p j n request)" for n
    unfolding alloc_fetch_def by (intro keeps_rules view_rules)
  show ?thesis
    unfolding create_fetch_def add_matchers_def Let_def by (intro keeps_rules view_rules loop alloc)
qed

lemma view_get_elements [view_rules]: "keeps (same_view w0) (get_elements request p)"
proof -
  have mf: "keeps (same_view w0) (matches_from ms path)" for ms path
    by (induction ms) (auto intro!: keeps_rules view_rules split: option.split)
  have sm: "keeps (same_view w0) (state_matches e f)" for e f
    unfolding state_matches_def by (auto intro!: keeps_rules view_rules mf split: list.split option.split)
  have ge: "keeps (same_view w0) (get_element request f e st)" for f e st
    unfolding get_element_def by (intro keeps_rules view_rules sm)
  show ?thesis
    unfolding get_elements_def get_elements_in_peer_def by (intro keeps_rules view_rules ge)
qed

end
