(* ===== verification/Broker_Proofs.thy ===== *)
theory Broker_Proofs
  imports Broker_Invariant
begin

text \<open>
  Every handler and every event of a peer's life keeps the invariant, whatever fails on the way; and
  while nothing fails, subscriptions stay exact.  The operations that change the view are fetch,
  unfetch, add, remove, authenticate, and a peer's coming and going.
\<close>

subsection \<open>What a handler keeps\<close>

text \<open>
  In a run that started in \<open>w0\<close> on behalf of peer \<open>p\<close>: the invariant holds, the peer is still there,
  and without failures nothing has failed and exactness is kept.
\<close>

definition fine :: "world \<Rightarrow> peer_ref \<Rightarrow> world \<Rightarrow> bool" where
  "fine w0 p w \<longleftrightarrow> consistent w \<and> peers w p \<noteq> None \<and> (env w0 = [] \<longrightarrow> env w = [] \<and> (exact w0 \<longrightarrow> exact w))"

lemma fine_view: "fine w0 p w1 \<Longrightarrow> same_view w1 w2 \<Longrightarrow> fine w0 p w2"
  unfolding fine_def using consistent_same_view exact_same_view same_viewD(12,14) by metis

lemma fine_refl: "consistent w \<Longrightarrow> peers w p \<noteq> None \<Longrightarrow> fine w p w"
  by (simp add: fine_def)

lemma fine_keeps: "keeps_view m \<Longrightarrow> keeps (fine w0 p) m"
  by (rule keepsI) (metis keeps_viewD fine_view)

lemma fine_trans:
  assumes "fine w0 p w" "consistent w' \<and> peers w' p \<noteq> None \<and> (env w = [] \<longrightarrow> env w' = [] \<and> (exact w \<longrightarrow> exact w'))"
  shows "fine w0 p w'"
  using assms unfolding fine_def by blast

subsection \<open>Table changes\<close>

lemma retable_linked:
  assumes rt: "retable w w'" and l: "linked w"
  shows "linked w'"
  unfolding linked_def
proof (intro conjI allI impI)
  show "distinct (peer_list w')" "set (peer_list w') = dom (peers w')"
    using linkedD(1,2) [OF l] by (simp_all add: retable_same [OF rt])
  fix p pr
  assume "peers w' p = Some pr"
  then have pr: "peers w p = Some pr" by (simp add: retable_same [OF rt])
  show "distinct (element_list pr)" "distinct (fetch_list pr)" using linkedD(3,4) [OF l pr] by simp_all
  show "\<forall>e\<in>set (element_list pr). \<exists>el. elements w' e = Some el \<and> e_peer el = p"
    using linkedD(5) [OF l pr] retable_element [OF rt] by fastforce
  show "\<forall>f\<in>set (fetch_list pr). \<exists>ft. fetches w' f = Some ft \<and> f_peer ft = p \<and> fetch_id ft \<noteq> None \<and> matcher ft \<noteq> []"
    using linkedD(6) [OF l pr] by (simp add: retable_same [OF rt])
qed

lemma retable_consistent:
  assumes rt: "retable w w'" and c: "consistent_but X w"
    and subs: "\<And>e f. subs w' e f \<le> (if wants w e f then 1 else 0)"
  shows "consistent_but X w'"
proof (rule consistent_butI)
  note D = consistent_butD [OF c] and S = retable_same [OF rt]
  show "config_ok (cfg w')" "element_table_ok w'" "number_of_peers w' = int (length (peer_list w'))"
    using D(1,3,4) by (simp_all add: S element_table_ok_def)
  show "linked w'" by (rule retable_linked [OF rt D(2)])
  show "\<exists>pr. peers w' (e_peer el) = Some pr \<and> e \<in> set (element_list pr)"
    if "elements w' e = Some el" "e \<notin> X" for e el
    using that retable_element_rev [OF rt that(1)] D(5) [of e] by (auto simp: S)
  show "\<exists>pr. peers w' (f_peer ft) = Some pr \<and> f \<in> set (fetch_list pr)" if "fetches w' f = Some ft" for f ft
    using that D(6) [of f ft] by (simp add: S)
  show "lookup_element w' path = Some e \<longleftrightarrow> e \<notin> X \<and> (\<exists>el. elements w' e = Some el \<and> e_path el = path)" for path e
  proof -
    have "(\<exists>el. elements w' e = Some el \<and> e_path el = path) \<longleftrightarrow> (\<exists>el. elements w e = Some el \<and> e_path el = path)"
      using retable_element [OF rt, of e] retable_element_rev [OF rt, of e] by fastforce
    then show ?thesis using D(7) [of path e] by (simp add: lookup_element_def S)
  qed
  show "subs w' e f \<le> (if wants w' e f then 1 else 0)" for e f using subs by (simp add: retable_wants [OF rt])
  show "peers w' r = None \<and> elements w' r = None \<and> fetches w' r = None" if "next_ref w' \<le> r" for r
    using that D(9-11) [of r] retable_no_element [OF rt, of r] by (simp add: S)
  show False if "peers w' p = Some pr" "e \<in> set (element_list pr)" "e \<in> X" for p pr e
    using D(12) [of p pr e] that by (simp add: S)
qed

lemma subscribed_consistent:
  assumes s: "subscribed w P msgs w ok w'" and c: "consistent_but X w"
    and zero: "\<And>e f. (e, f) \<in> P \<Longrightarrow> subs w e f = 0"
  shows "consistent_but X w'"
    and "ok \<Longrightarrow> wants w' e f \<Longrightarrow> subs w' e f = (if (e, f) \<in> P then 1 else subs w e f)"
proof -
  note rt = subscribedD(1) [OF s]
  from subscribedD(2) [OF s] obtain D where D: "D \<subseteq> P"
    "\<forall>e f. subs w' e f = subs w e f + (if (e, f) \<in> D then 1 else 0)"
    "\<forall>(e, f) \<in> D. wants w e f" "ok \<longrightarrow> D = {(e, f) \<in> P. wants w e f}" by blast
  have "subs w' e f \<le> (if wants w e f then 1 else 0)" for e f
    using D(1,2,3) zero [of e f] consistent_butD(8) [OF c, of e f] by auto
  then show "consistent_but X w'" by (rule retable_consistent [OF rt c])
  show "subs w' e f = (if (e, f) \<in> P then 1 else subs w e f)" if "ok" "wants w' e f"
  proof -
    have "(e, f) \<in> D \<longleftrightarrow> (e, f) \<in> P" using D(4) that retable_wants [OF rt, of e f] by blast
    then show ?thesis using D(2) zero [of e f] by auto
  qed
qed

subsection \<open>The request fetch\<close>

lemma add_matchers_from_length:
  "run_state (add_matchers_from xs ic i ms) w = (Some ms', w') \<Longrightarrow> length ms' = length ms"
proof (induction xs ic i ms arbitrary: w rule: add_matchers_from.induct)
  case (2 name m rest ic i ms)
  then show ?case by (auto split: option.splits if_splits prod.splits)
qed simp

lemma create_fetch_result:
  assumes "run_state (create_fetch p request j params) w = (Inr ft, w')"
  shows "f_peer ft = p" and "fetch_id ft = j" and "matcher ft \<noteq> []"
proof -
  have a: "f_peer f = p \<and> fetch_id f = j \<and> length (matcher f) = n"
    if "run_state (alloc_fetch p j n request) w = (Inr f, w')" for n f w w'
    using that
    by (auto simp: alloc_fetch_def fail_with_def cJSON_Duplicate_def split: if_splits option.splits prod.splits)
  have m: "f_peer f' = f_peer f \<and> fetch_id f' = fetch_id f \<and> length (matcher f') = length (matcher f)"
    if "run_state (add_matchers f path ic) w = (Some f', w')" for f f' path ic w w'
    using that add_matchers_from_length by (auto simp: add_matchers_def split: prod.splits)
  have "f_peer ft = p \<and> fetch_id ft = j \<and> matcher ft \<noteq> []"
    using assms
    by (auto simp: create_fetch_def fail_with_def Let_def split: option.splits if_splits prod.splits sum.splits
        dest!: a m)
  then show "f_peer ft = p" "fetch_id ft = j" "matcher ft \<noteq> []" by simp_all
qed

definition link_fetch :: "peer_ref \<Rightarrow> peer \<Rightarrow> fetch_ref \<Rightarrow> fetch \<Rightarrow> world \<Rightarrow> world" where
  "link_fetch p pr r ft w = w\<lparr>next_ref := r + 1, fetches := (fetches w)(r \<mapsto> ft),
     peers := (peers w)(p \<mapsto> pr\<lparr>fetch_list := fetch_list pr @ [r]\<rparr>)\<rparr>"

lemma add_fetch_to_peer_valid:
  assumes live: "peers w0 p \<noteq> None"
  shows "valid (same_view w0) (add_fetch_to_peer p request) (\<lambda>r w'. case r of
      Inl _ \<Rightarrow> same_view w0 w'
    | Inr f \<Rightarrow> \<exists>w pr ft. same_view w0 w \<and> peers w p = Some pr \<and> f = next_ref w \<and> w' = link_fetch p pr f ft w \<and>
        f_peer ft = p \<and> fetch_id ft \<noteq> None \<and> matcher ft \<noteq> [])"
    (is "valid _ _ ?Q")
proof -
  have link: "valid (same_view w0) (do {
      r \<leftarrow> new_ref;
      modify (\<lambda>w. w\<lparr>fetches := (fetches w)(r \<mapsto> ft)\<rparr>);
      set_peer p (\<lambda>pr. pr\<lparr>fetch_list := fetch_list pr @ [r]\<rparr>);
      ret (Inr r :: json option + fetch_ref) }) ?Q" if "f_peer ft = p" "fetch_id ft \<noteq> None" "matcher ft \<noteq> []" for ft
  proof (rule validI)
    fix w r w'
    assume v: "same_view w0 w" and run: "run_state (do {
      r \<leftarrow> new_ref;
      modify (\<lambda>w. w\<lparr>fetches := (fetches w)(r \<mapsto> ft)\<rparr>);
      set_peer p (\<lambda>pr. pr\<lparr>fetch_list := fetch_list pr @ [r]\<rparr>);
      ret (Inr r :: json option + fetch_ref) }) w = (r, w')"
    obtain pr where pr: "peers w p = Some pr" using live same_viewD(12) [OF v, of p] by auto
    then have "r = Inr (next_ref w)" "w' = link_fetch p pr (next_ref w) ft w"
      using run by (auto simp: run_new_ref set_peer_def link_fetch_def)
    with v pr that show "?Q r w'" by auto
  qed
  have create: "valid (same_view w0) (or_fail (create_fetch p request (Some jid) params) k) ?Q"
    if k: "\<And>ft. f_peer ft = p \<Longrightarrow> fetch_id ft \<noteq> None \<Longrightarrow> matcher ft \<noteq> [] \<Longrightarrow> valid (same_view w0) (k ft) ?Q"
    for jid params k
  proof (rule validI)
    fix w r w'
    assume v: "same_view w0 w" and run: "run_state (or_fail (create_fetch p request (Some jid) params) k) w = (r, w')"
    obtain c w1 where c: "run_state (create_fetch p request (Some jid) params) w = (c, w1)" by fastforce
    have v1: "same_view w0 w1" by (rule same_view_trans [OF v keeps_viewD [OF _ c]]) (intro allI view_rules)
    show "?Q r w'"
    proof (cases c)
      case (Inl e)
      with run c v1 show ?thesis by (auto simp: run_or_fail)
    next
      case (Inr ft)
      have vk: "valid (same_view w0) (k ft) ?Q"
        using create_fetch_result [OF c [unfolded Inr]] by (intro k) simp_all
      have "run_state (k ft) w1 = (r, w')" using run c Inr by (simp add: run_or_fail)
      with vk v1 show ?thesis by (rule validD)
    qed
  qed
  have existing: "valid (same_view w0) (do {
         existing \<leftarrow> find_fetch p jid;
         case existing of
           Some _ \<Rightarrow> fail_with request INVALID_PARAMS ''reason'' ''fetch id already in use''
         | None \<Rightarrow>
             or_fail (create_fetch p request (Some jid) params) (\<lambda>f. do {
               r \<leftarrow> new_ref;
               modify (\<lambda>w. w\<lparr>fetches := (fetches w)(r \<mapsto> f)\<rparr>);
               set_peer p (\<lambda>pr. pr\<lparr>fetch_list := fetch_list pr @ [r]\<rparr>);
               ret (Inr r) }) }) ?Q" for params jid
    by (intro valid_keeps_bind valid_case_option create link valid_fail_with view_find view_response; simp)
  show ?thesis
    unfolding add_fetch_to_peer_def
    by (intro valid_or_fail valid_if existing valid_fail_with view_params view_response; simp)
qed

lemma subs_link [simp]: "subs (link_fetch p pr r ft w) = subs w"
  by (simp add: link_fetch_def subs_def fun_eq_iff)

lemma wants_link:
  assumes "peers w p = Some pr" "f \<noteq> r"
  shows "wants (link_fetch p pr r ft w) e f = wants w e f"
  using assms by (simp add: wants_def link_fetch_def entitled_def split: option.split)

lemma link_fetch_consistent:
  assumes c: "consistent_but X w" and pr: "peers w p = Some pr" and r: "r = next_ref w"
    and ft: "f_peer ft = p" "fetch_id ft \<noteq> None" "matcher ft \<noteq> []"
  shows "consistent_but X (link_fetch p pr r ft w)" and "subs w e r = 0"
proof -
  note D = consistent_butD [OF c]
  have fresh: "fetches w r = None" using D(11) r by simp
  have "\<not> wants w e r" for e using fresh by (simp add: wants_def split: option.split)
  then have zero: "subs w e r = 0" for e using D(8) [of e r] by simp
  then show "subs w e r = 0" .
  let ?w = "link_fetch p pr r ft w"
  note l = D(2)
  have not_in: "r \<notin> set (fetch_list qr)" if "peers w q = Some qr" for q qr
    using linkedD(6) [OF l that, of r] fresh by auto
  show "consistent_but X ?w"
  proof (rule consistent_butI)
    show "config_ok (cfg ?w)" "element_table_ok ?w" "number_of_peers ?w = int (length (peer_list ?w))"
      using D(1,3,4) by (simp_all add: link_fetch_def element_table_ok_def)
    show "linked ?w"
      unfolding linked_def
    proof (intro conjI allI impI)
      show "distinct (peer_list ?w)" "set (peer_list ?w) = dom (peers ?w)"
        using linkedD(1,2) [OF l] pr by (auto simp: link_fetch_def)
      fix q qr
      assume q: "peers ?w q = Some qr"
      then obtain qr0 where q0: "peers w q = Some qr0" and el: "element_list qr = element_list qr0"
        and fl: "fetch_list qr = (if q = p then fetch_list qr0 @ [r] else fetch_list qr0)"
        using pr by (auto simp: link_fetch_def split: if_splits)
      show "distinct (element_list qr)" "distinct (fetch_list qr)"
        using linkedD(3,4) [OF l q0] not_in [OF q0] by (simp_all add: el fl)
      show "\<forall>e\<in>set (element_list qr). \<exists>el. elements ?w e = Some el \<and> e_peer el = q"
        using linkedD(5) [OF l q0] by (simp add: el link_fetch_def)
      show "\<forall>f\<in>set (fetch_list qr). \<exists>ft. fetches ?w f = Some ft \<and> f_peer ft = q \<and> fetch_id ft \<noteq> None \<and> matcher ft \<noteq> []"
        using linkedD(6) [OF l q0] not_in [OF q0] ft by (auto simp: fl link_fetch_def)
    qed
    show "\<exists>pr. peers ?w (e_peer el) = Some pr \<and> e \<in> set (element_list pr)"
      if "elements ?w e = Some el" "e \<notin> X" for e el
      using D(5) [of e el] that pr by (auto simp: link_fetch_def)
    show "\<exists>pr. peers ?w (f_peer g) = Some pr \<and> f \<in> set (fetch_list pr)" if "fetches ?w f = Some g" for f g
      using D(6) [of f g] that pr ft by (auto simp: link_fetch_def split: if_splits)
    show "lookup_element ?w path = Some e \<longleftrightarrow> e \<notin> X \<and> (\<exists>el. elements ?w e = Some el \<and> e_path el = path)" for path e
      using D(7) [of path e] by (simp add: link_fetch_def lookup_element_def)
    show "subs ?w e f \<le> (if wants ?w e f then 1 else 0)" for e f
      using D(8) [of e f] zero [of e] wants_link [OF pr, of f r ft e] by (cases "f = r") auto
    show "peers ?w q = None \<and> elements ?w q = None \<and> fetches ?w q = None" if "next_ref ?w \<le> q" for q
      using D(9-11) [of q] D(9) [of p] that pr r by (cases "next_ref w \<le> p") (auto simp: link_fetch_def)
    show False if "peers ?w q = Some qr" "e \<in> set (element_list qr)" "e \<in> X" for q qr e
      using D(12) [of q _ e] D(12) [of p pr e] that pr by (auto simp: link_fetch_def split: if_splits)
  qed
qed

lemma all_elements_complete:
  "consistent_but X w \<Longrightarrow> elements w e \<noteq> None \<Longrightarrow> e \<notin> X \<Longrightarrow> e \<in> set (all_elements w)"
  using consistent_butD(2,5) [of X w] mem_all_elements [of w e] by fastforce

lemma all_fetches_complete: "consistent_but X w \<Longrightarrow> fetches w f \<noteq> None \<Longrightarrow> f \<in> set (all_fetches w)"
  using consistent_butD(2,6) [of X w] mem_all_fetches [of w f] by fastforce

lemma wants_live: "wants w e f \<Longrightarrow> elements w e \<noteq> None \<and> fetches w f \<noteq> None"
  by (auto simp: wants_def split: option.splits)

lemma config_size: "consistent_but X w \<Longrightarrow> 1 \<le> initial_fetch_table_size (cfg w)"
  using consistent_butD(1) [of X w] by (simp add: config_ok_def)

text \<open>Both halves of the request, in a state where the new fetch is in the peer's list.\<close>

lemma add_fetch_to_states_run:
  assumes c: "consistent w" and f: "fetches w f = Some ft" and zero: "\<And>e. subs w e f = 0"
    and run: "run_state (add_fetch_to_states p request f) w = (response, w')"
  shows "\<exists>ok w1. subscribed w (set (all_elements w) \<times> {f}) (concat (map (\<lambda>e. add_event w e f) (all_elements w))) w ok w1 \<and>
    consistent w1 \<and> same_view w1 w' \<and>
    ((\<forall>e g. g \<noteq> f \<longrightarrow> wants w e g \<longrightarrow> subs w e g = 1) \<longrightarrow> ok \<longrightarrow> exact w1) \<and>
    run_state (if ok then create_success_response_from_request request
       else create_error_response_from_request request INTERNAL_ERROR ''reason'' ''could not add fetch to state'') w1 = (response, w')"
proof -
  note D = consistent_butD [OF c]
  obtain pr where pr: "peers w (f_peer ft) = Some pr" "f \<in> set (fetch_list pr)" using D(6) [OF f] by blast
  obtain ok w1 where r1: "run_state (for_each_ok (\<lambda>p. add_fetch_to_states_in_peer p f) (peer_list w)) w = (ok, w1)"
    by fastforce
  have live: "fetch_live w f" by (rule linked_fetch_live [OF D(2) pr])
  have s: "subscribed w (set (all_elements w) \<times> {f}) (concat (map (\<lambda>e. add_event w e f) (all_elements w))) w ok w1"
    using subscribesD [OF subscribes_states [OF D(2) live config_size [OF c]] retable_refl r1] .
  have z: "subs w e g = 0" if "(e, g) \<in> set (all_elements w) \<times> {f}" for e g using that zero by auto
  have c1: "consistent w1" by (rule subscribed_consistent(1) [OF s c z])
  have ex: "exact w1" if "\<forall>e g. g \<noteq> f \<longrightarrow> wants w e g \<longrightarrow> subs w e g = 1" ok
    unfolding exact_def
  proof (intro allI impI)
    fix e g
    assume want: "wants w1 e g"
    then have "wants w e g" by (simp add: retable_wants [OF subscribedD(1) [OF s]])
    with all_elements_complete [OF c, of e] wants_live [of w e g] that(1)
      subscribed_consistent(2) [OF s c z \<open>ok\<close> want]
    show "subs w1 e g = 1" by (cases "g = f") auto
  qed
  have r2: "run_state (if ok then create_success_response_from_request request
      else create_error_response_from_request request INTERNAL_ERROR ''reason'' ''could not add fetch to state'') w1 = (response, w')"
    using run r1 by (auto simp: add_fetch_to_states_def)
  have "same_view w1 w'"
    by (rule keeps_viewD [OF _ r2]) (intro allI keeps_rules view_rules)
  with s c1 ex r2 show ?thesis by blast
qed

lemma process_fetch_fine:
  assumes fine: "fine w0 p w" and run: "run_state (process_fetch request p) w = (response, w')"
  shows "fine w0 p w'"
proof -
  have c: "consistent w" and live: "peers w p \<noteq> None" using fine by (simp_all add: fine_def)
  obtain a w1 where a: "run_state (add_fetch_to_peer p request) w = (a, w1)" by fastforce
  note v = validD [OF add_fetch_to_peer_valid [OF live, of request] same_view_refl a]
  show ?thesis
  proof (cases a)
    case (Inl e)
    with a run v have "same_view w w'" by (simp add: process_fetch_def run_or_return)
    with fine show ?thesis by (rule fine_view)
  next
    case (Inr f)
    with v obtain wf pr ft where v0: "same_view w wf" and pr: "peers wf p = Some pr" and f: "f = next_ref wf"
      and w1: "w1 = link_fetch p pr f ft wf" and ft: "f_peer ft = p" "fetch_id ft \<noteq> None" "matcher ft \<noteq> []"
      by auto
    have c0: "consistent wf" by (rule consistent_same_view [OF v0 c])
    note c1 = link_fetch_consistent [OF c0 pr f ft]
    have "run_state (add_fetch_to_states p request f) w1 = (response, w')"
      using run a Inr by (simp add: process_fetch_def run_or_return)
    moreover have "fetches w1 f = Some ft" by (simp add: w1 link_fetch_def)
    moreover have "subs w1 e f = 0" for e using c1(2) by (simp add: w1)
    ultimately obtain ok w2 where s: "subscribed w1 (set (all_elements w1) \<times> {f})
        (concat (map (\<lambda>e. add_event w1 e f) (all_elements w1))) w1 ok w2"
      and c2: "consistent w2" and v2: "same_view w2 w'"
      and ex: "(\<forall>e g. g \<noteq> f \<longrightarrow> wants w1 e g \<longrightarrow> subs w1 e g = 1) \<longrightarrow> ok \<longrightarrow> exact w2"
      using add_fetch_to_states_run [OF c1(1) [folded w1]] by blast
    have p2: "peers w2 p \<noteq> None" by (simp add: retable_same [OF subscribedD(1) [OF s]] w1 link_fetch_def)
    have ee: "env w' = [] \<and> (exact w \<longrightarrow> exact w')" if e: "env w = []"
    proof -
      have "env w1 = []" using same_viewD(14) [OF v0 e] by (simp add: w1 link_fetch_def)
      with subscribedD(4) [OF s] have "ok" "env w2 = []" by simp_all
      moreover have "\<forall>e g. g \<noteq> f \<longrightarrow> wants w1 e g \<longrightarrow> subs w1 e g = 1" if "exact w"
        using exact_same_view [OF v0 that] wants_link [OF pr, of _ f ft] by (simp add: w1 exact_def)
      ultimately show ?thesis using ex same_viewD(14) [OF v2] exact_same_view [OF v2] by blast
    qed
    show ?thesis
      using consistent_same_view [OF v2 c2] p2 same_viewD(12) [OF v2, of p] ee
      by (intro fine_trans [OF fine]) simp
  qed
qed

subsection \<open>The request unfetch\<close>

definition drop_fetch :: "peer_ref \<Rightarrow> peer \<Rightarrow> fetch_ref \<Rightarrow> world \<Rightarrow> world" where
  "drop_fetch p pr f w = (clear_in f (set (all_elements w)) w)
     \<lparr>peers := (peers w)(p \<mapsto> pr\<lparr>fetch_list := remove1 f (fetch_list pr)\<rparr>), fetches := (fetches w)(f := None)\<rparr>"

lemma run_drop_fetch:
  assumes "linked w" "peers w p = Some pr"
  shows "run_state (do { remove_fetch_from_states f; unlink_fetch p f }) w = ((), drop_fetch p pr f w)"
  using assms
  by (simp add: run_remove_fetch_from_states unlink_fetch_def set_peer_def drop_fetch_def clear_in_def)

lemma drop_fetch_consistent:
  assumes c: "consistent w" and pr: "peers w p = Some pr" and f: "f \<in> set (fetch_list pr)"
  shows "consistent (drop_fetch p pr f w)" and "exact w \<Longrightarrow> exact (drop_fetch p pr f w)"
proof -
  note D = consistent_butD [OF c]
  note l = D(2)
  let ?w = "drop_fetch p pr f w"
  obtain ft where ft: "fetches w f = Some ft" "f_peer ft = p" using linkedD(6) [OF l pr f] by blast
  have els: "elements ?w e = map_option (\<lambda>el. if e \<in> set (all_elements w) then clear_fetch f el else el) (elements w e)" for e
    by (simp add: drop_fetch_def clear_in_def option.map_ident)
  have subs: "subs ?w e g = (if g = f then 0 else subs w e g)" for e g
  proof -
    have "subs ?w e g = subs (clear_in f (set (all_elements w)) w) e g" by (simp add: drop_fetch_def subs_def)
    also have "\<dots> = (if g = f then 0 else subs w e g)"
      by (rule subs_clear_in) (use all_elements_complete [OF c] in blast)
    finally show ?thesis .
  qed
  have wants: "wants ?w e g = (g \<noteq> f \<and> wants w e g)" for e g
    using pr by (auto simp: wants_def entitled_def drop_fetch_def clear_in_def clear_fetch_def
        map_option_case split: option.split)
  show "consistent ?w"
  proof (rule consistent_butI)
    show "config_ok (cfg ?w)" "element_table_ok ?w" "number_of_peers ?w = int (length (peer_list ?w))"
      using D(1,3,4) by (simp_all add: drop_fetch_def clear_in_def element_table_ok_def)
    show "linked ?w"
      unfolding linked_def
    proof (intro conjI allI impI)
      show "distinct (peer_list ?w)" "set (peer_list ?w) = dom (peers ?w)"
        using linkedD(1,2) [OF l] pr by (auto simp: drop_fetch_def clear_in_def)
      fix q qr
      assume q: "peers ?w q = Some qr"
      then obtain qr0 where q0: "peers w q = Some qr0" and el: "element_list qr = element_list qr0"
        and fl: "fetch_list qr = (if q = p then remove1 f (fetch_list qr0) else fetch_list qr0)"
        using pr by (auto simp: drop_fetch_def split: if_splits)
      show "distinct (element_list qr)" "distinct (fetch_list qr)"
        using linkedD(3,4) [OF l q0] by (simp_all add: el fl)
      show "\<forall>e\<in>set (element_list qr). \<exists>el. elements ?w e = Some el \<and> e_peer el = q"
        using linkedD(5) [OF l q0] by (fastforce simp: el els clear_fetch_def)
      show "\<forall>g\<in>set (fetch_list qr). \<exists>ft. fetches ?w g = Some ft \<and> f_peer ft = q \<and> fetch_id ft \<noteq> None \<and> matcher ft \<noteq> []"
        using linkedD(4,6) [OF l q0] linkedD(6) [OF l q0, of f] ft by (auto simp: fl drop_fetch_def)
    qed
    show "\<exists>pr. peers ?w (e_peer el) = Some pr \<and> e \<in> set (element_list pr)"
      if "elements ?w e = Some el" "e \<notin> {}" for e el
    proof -
      from that(1) obtain el0 where el0: "elements w e = Some el0" "e_peer el = e_peer el0"
        by (auto simp: els clear_fetch_def)
      from D(5) [OF this(1) that(2)] obtain qr where "peers w (e_peer el0) = Some qr" "e \<in> set (element_list qr)" by blast
      with el0 pr show ?thesis by (auto simp: drop_fetch_def)
    qed
    show "\<exists>pr. peers ?w (f_peer g) = Some pr \<and> h \<in> set (fetch_list pr)" if "fetches ?w h = Some g" for h g
      using D(6) [of h g] that pr by (auto simp: drop_fetch_def split: if_splits)
    show "lookup_element ?w path = Some e \<longleftrightarrow> e \<notin> {} \<and> (\<exists>el. elements ?w e = Some el \<and> e_path el = path)" for path e
    proof -
      have "(\<exists>el. elements ?w e = Some el \<and> e_path el = path) \<longleftrightarrow> (\<exists>el. elements w e = Some el \<and> e_path el = path)"
        by (cases "elements w e") (auto simp: els clear_fetch_def)
      with D(7) [of path e] show ?thesis by (simp add: drop_fetch_def clear_in_def lookup_element_def)
    qed
    show "subs ?w e g \<le> (if wants ?w e g then 1 else 0)" for e g
      using D(8) [of e g] by (auto simp: subs wants split: if_splits)
    show "peers ?w q = None \<and> elements ?w q = None \<and> fetches ?w q = None" if "next_ref ?w \<le> q" for q
      using D(9-11) [of q] D(9) [of p] that pr
      by (cases "next_ref w \<le> p") (auto simp: els drop_fetch_def clear_in_def)
  qed simp
  show "exact ?w" if "exact w" using that by (simp add: exact_def subs wants)
qed

lemma find_fetch_in_list: "run_state (find_fetch_in fs j) w = (Some f, w') \<Longrightarrow> f \<in> set fs"
  by (induction fs arbitrary: w) (auto split: prod.splits option.splits if_splits)

lemma find_fetch_found:
  assumes "peers w p = Some pr" "run_state (find_fetch p j) w = (Some f, w')"
  shows "f \<in> set (fetch_list pr)"
  using assms find_fetch_in_list by (auto simp: find_fetch_def run_get)

lemma remove_fetch_from_peer_fine: "keeps (fine w0 p) (remove_fetch_from_peer p request)"
proof -
  have found: "keeps (fine w0 p) (do {
       existing \<leftarrow> find_fetch p jid;
       case existing of
         None \<Rightarrow> create_error_response_from_request request INVALID_PARAMS ''reason'' ''fetch id not found for unfetch''
       | Some f \<Rightarrow> do {
           remove_fetch_from_states f;
           unlink_fetch p f;
           create_success_response_from_request request } })" for jid
  proof (rule keepsI)
    fix s r s'
    assume fine: "fine w0 p s" and run: "run_state (do {
       existing \<leftarrow> find_fetch p jid;
       case existing of
         None \<Rightarrow> create_error_response_from_request request INVALID_PARAMS ''reason'' ''fetch id not found for unfetch''
       | Some f \<Rightarrow> do {
           remove_fetch_from_states f;
           unlink_fetch p f;
           create_success_response_from_request request } }) s = (r, s')"
    obtain e s1 where f: "run_state (find_fetch p jid) s = (e, s1)" by fastforce
    have v1: "same_view s s1" by (rule keeps_viewD [OF _ f]) (intro allI view_rules)
    have fine1: "fine w0 p s1" by (rule fine_view [OF fine v1])
    show "fine w0 p s'"
    proof (cases e)
      case None
      with run f have r: "run_state (create_error_response_from_request request INVALID_PARAMS ''reason'' ''fetch id not found for unfetch'') s1 = (r, s')"
        by simp
      have "same_view s1 s'" by (rule keeps_viewD [OF _ r]) (intro allI view_rules)
      with fine1 show ?thesis by (rule fine_view)
    next
      case (Some g)
      obtain pr0 where pr0: "peers s p = Some pr0" using fine by (auto simp: fine_def)
      obtain pr where pr: "peers s1 p = Some pr" using fine1 by (auto simp: fine_def)
      have "g \<in> set (fetch_list pr0)" by (rule find_fetch_found [OF pr0 f [unfolded Some]])
      then have g: "g \<in> set (fetch_list pr)"
        using same_viewD(8) [OF v1 pr0] pr by (auto simp: peer_view_eq)
      have c1: "consistent s1" using fine1 by (simp add: fine_def)
      let ?s2 = "drop_fetch p pr g s1"
      have "run_state (do { remove_fetch_from_states g; unlink_fetch p g }) s1 = ((), ?s2)"
        by (rule run_drop_fetch [OF consistent_butD(2) [OF c1] pr])
      with run f Some have r: "run_state (create_success_response_from_request request) ?s2 = (r, s')"
        by (simp split: prod.splits)
      have "fine w0 p ?s2"
        using drop_fetch_consistent [OF c1 pr g]
        by (intro fine_trans [OF fine1]) (simp add: drop_fetch_def clear_in_def)
      moreover have "same_view ?s2 s'" by (rule keeps_viewD [OF _ r]) (intro allI view_rules)
      ultimately show ?thesis by (rule fine_view)
    qed
  qed
  show ?thesis
    unfolding remove_fetch_from_peer_def
    by (intro keeps_or_return found fine_keeps allI view_params view_response)
qed

subsection \<open>The request add\<close>

lemma valid_lookup:
  "valid (same_view w0) (k (lookup_element w0 path)) Q \<Longrightarrow>
   valid (same_view w0) (do { x \<leftarrow> element_table_get path; k x }) Q"
  by (simp add: valid_def same_view_lookup)

lemma valid_duplicate_string:
  assumes "valid (same_view w0) (k (Some str)) Q" "valid (same_view w0) (k None) Q"
  shows "valid (same_view w0) (do { x \<leftarrow> duplicate_string str; k x }) Q"
proof (rule validI)
  fix w r w'
  assume v: "same_view w0 w" and run: "run_state (do { x \<leftarrow> duplicate_string str; k x }) w = (r, w')"
  obtain x w1 where d: "run_state (duplicate_string str) w = (x, w1)" by fastforce
  have v1: "same_view w0 w1" by (rule keepsD [OF view_build(10) v d])
  have "x = Some str \<or> x = None" using d by (auto simp: duplicate_string_def split: prod.splits if_splits)
  then show "Q r w'"
  proof
    assume "x = Some str"
    with d run have "run_state (k (Some str)) w1 = (r, w')" by simp
    with assms(1) v1 show ?thesis by (rule validD)
  next
    assume "x = None"
    with d run have "run_state (k None) w1 = (r, w')" by simp
    with assms(2) v1 show ?thesis by (rule validD)
  qed
qed

lemma fill_access_result:
  assumes "run_state (fill_access request access el) w = (Inr el', w')"
  shows "e_path el' = e_path el \<and> e_peer el' = e_peer el \<and> fetcher_table el' = fetcher_table el \<and> e_value el' = e_value el"
  using assms
  by (auto simp: fill_access_def fill_fetch_groups_def fill_set_groups_def fill_call_groups_def fill_group_def
      fail_with_def get_groups_def run_or_fail Let_def split: option.splits if_splits sum.splits prod.splits)

lemma view_fill_access: "keeps (same_view w0) (fill_access request access el)"
  unfolding fill_access_def fill_fetch_groups_def fill_set_groups_def fill_call_groups_def fill_group_def Let_def
  by (intro keeps_rules view_rules)

definition new_element :: "world \<Rightarrow> peer_ref \<Rightarrow> element \<Rightarrow> bool" where
  "new_element w p el \<longleftrightarrow> e_peer el = p \<and> (\<forall>f. count_list (fetcher_table el) (Some f) = 0) \<and>
     lookup_element w (e_path el) = None"

lemma init_element_valid:
  "valid (same_view w0) (init_element request p)
     (\<lambda>r w. same_view w0 w \<and> (\<forall>el. r = Inr el \<longrightarrow> new_element w0 p el))"
proof -
  let ?Q = "\<lambda>r w. same_view w0 w \<and> (\<forall>el. r = Inr el \<longrightarrow> new_element w0 p el)"
  have fill: "valid (same_view w0) (do {
         filled \<leftarrow> fill_access request access el;
         case filled of
           Inl _ \<Rightarrow> fail_with request INTERNAL_ERROR ''reason'' ''could not fill access information''
         | Inr e \<Rightarrow> ret (Inr e) }) ?Q" if el: "new_element w0 p el" for access el
  proof (rule valid_bind [where R = "\<lambda>r w. same_view w0 w \<and> (\<forall>el. r = Inr el \<longrightarrow> new_element w0 p el)"])
    show "valid (same_view w0) (fill_access request access el)
        (\<lambda>r w. same_view w0 w \<and> (\<forall>el. r = Inr el \<longrightarrow> new_element w0 p el))"
    proof (rule validI)
      fix s r s'
      assume s: "same_view w0 s" and r: "run_state (fill_access request access el) s = (r, s')"
      have "same_view w0 s'" by (rule keepsD [OF view_fill_access s r])
      with el r show "same_view w0 s' \<and> (\<forall>el. r = Inr el \<longrightarrow> new_element w0 p el)"
        using fill_access_result by (auto simp: new_element_def)
    qed
    fix x :: "json option + element"
    have *: "valid (same_view w0) (fail_with request INTERNAL_ERROR ''reason'' ''could not fill access information'' :: (json option + element) cm) ?Q"
      by (intro valid_fail_with view_response) simp
    show "valid (\<lambda>w. same_view w0 w \<and> (\<forall>el. x = Inr el \<longrightarrow> new_element w0 p el))
        (case x of Inl _ \<Rightarrow> fail_with request INTERNAL_ERROR ''reason'' ''could not fill access information''
         | Inr e \<Rightarrow> ret (Inr e)) ?Q"
      by (cases x) (auto intro!: valid_return valid_pre [OF *])
  qed
  show ?thesis
    unfolding init_element_def Let_def
    by (intro fill valid_lookup valid_duplicate_string valid_or_fail valid_keeps_bind valid_if valid_case_option valid_case_prod
        valid_fail_with valid_return keeps_rules view_params view_response view_timeout view_ask view_build;
        simp add: new_element_def count_list_replicate)
qed

definition with_element :: "elem_ref \<Rightarrow> element \<Rightarrow> world \<Rightarrow> world" where
  "with_element e el w = w\<lparr>next_ref := e + 1, elements := (elements w)(e \<mapsto> el)\<rparr>"

lemma with_element_consistent:
  assumes c: "consistent w" and e: "e = next_ref w" and el: "new_element w p el"
  shows "consistent_but {e} (with_element e el w)" and "subs (with_element e el w) e f = 0"
    and "e' \<noteq> e \<Longrightarrow> subs (with_element e el w) e' f = subs w e' f"
    and "e' \<noteq> e \<Longrightarrow> wants (with_element e el w) e' f = wants w e' f"
proof -
  note D = consistent_butD [OF c]
  note l = D(2)
  let ?w = "with_element e el w"
  have fresh: "elements w e = None" using D(10) e by simp
  have not_in: "e \<notin> set (element_list pr)" if "peers w q = Some pr" for q pr
    using linkedD(5) [OF l that, of e] fresh by auto
  show z: "subs ?w e f = 0" for f using el by (simp add: with_element_def subs_def new_element_def)
  show s: "e' \<noteq> e \<Longrightarrow> subs ?w e' f = subs w e' f" for e' f by (simp add: with_element_def subs_def)
  show wt: "e' \<noteq> e \<Longrightarrow> wants ?w e' f = wants w e' f" for e' f
    by (simp add: with_element_def wants_def entitled_def split: option.split)
  show "consistent_but {e} ?w"
  proof (rule consistent_butI)
    show "config_ok (cfg ?w)" "element_table_ok ?w" "number_of_peers ?w = int (length (peer_list ?w))"
      using D(1,3,4) by (simp_all add: with_element_def element_table_ok_def)
    show "linked ?w"
      using l not_in unfolding linked_def by (auto simp: with_element_def)
    show "\<exists>pr. peers ?w (e_peer x) = Some pr \<and> e' \<in> set (element_list pr)"
      if "elements ?w e' = Some x" "e' \<notin> {e}" for e' x
      using D(5) [of e' x] that by (simp add: with_element_def)
    show "\<exists>pr. peers ?w (f_peer g) = Some pr \<and> f \<in> set (fetch_list pr)" if "fetches ?w f = Some g" for f g
      using D(6) [of f g] that by (simp add: with_element_def)
    show "lookup_element ?w path = Some e' \<longleftrightarrow> e' \<notin> {e} \<and> (\<exists>x. elements ?w e' = Some x \<and> e_path x = path)" for path e'
      using D(7) [of path e'] fresh by (auto simp: with_element_def lookup_element_def)
    show "subs ?w e' f \<le> (if wants ?w e' f then 1 else 0)" for e' f
      using D(8) [of e' f] z s wt by (cases "e' = e") simp_all
    show "peers ?w q = None \<and> elements ?w q = None \<and> fetches ?w q = None" if "next_ref ?w \<le> q" for q
      using D(9-11) [of q] that e by (simp add: with_element_def)
    show False if "peers ?w q = Some qr" "e' \<in> set (element_list qr)" "e' \<in> {e}" for q qr e'
      using not_in [of q qr] that by (simp add: with_element_def)
  qed
qed

lemma free_element_consistent:
  assumes c: "consistent_but {e} w"
  shows "consistent (w\<lparr>elements := (elements w)(e := None)\<rparr>)"
    and "(\<And>e' f. e' \<noteq> e \<Longrightarrow> wants w e' f \<Longrightarrow> subs w e' f = 1) \<Longrightarrow> exact (w\<lparr>elements := (elements w)(e := None)\<rparr>)"
proof -
  note D = consistent_butD [OF c]
  let ?w = "w\<lparr>elements := (elements w)(e := None)\<rparr>"
  have s: "subs ?w e' f = (if e' = e then 0 else subs w e' f)" for e' f by (simp add: subs_def)
  have wt: "wants ?w e' f \<longleftrightarrow> e' \<noteq> e \<and> wants w e' f" for e' f
    by (auto simp: wants_def entitled_def split: option.split)
  show "consistent ?w"
  proof (rule consistent_butI)
    show "config_ok (cfg ?w)" "element_table_ok ?w" "number_of_peers ?w = int (length (peer_list ?w))"
      using D(1,3,4) by (simp_all add: element_table_ok_def)
    show "linked ?w"
      using D(2,12) unfolding linked_def by auto
    show "\<exists>pr. peers ?w (e_peer x) = Some pr \<and> e' \<in> set (element_list pr)"
      if "elements ?w e' = Some x" "e' \<notin> {}" for e' x
      using D(5) [of e' x] that by (auto split: if_splits)
    show "\<exists>pr. peers ?w (f_peer g) = Some pr \<and> f \<in> set (fetch_list pr)" if "fetches ?w f = Some g" for f g
      using D(6) [of f g] that by simp
    show "lookup_element ?w path = Some e' \<longleftrightarrow> e' \<notin> {} \<and> (\<exists>x. elements ?w e' = Some x \<and> e_path x = path)" for path e'
      using D(7) [of path e'] by (auto simp: lookup_element_def)
    show "subs ?w e' f \<le> (if wants ?w e' f then 1 else 0)" for e' f
      using D(8) [of e' f] by (auto simp: s wt split: if_splits)
    show "peers ?w q = None \<and> elements ?w q = None \<and> fetches ?w q = None" if "next_ref ?w \<le> q" for q
      using D(9-11) [of q] that by simp
  qed simp
  show "exact ?w" if "\<And>e' f. e' \<noteq> e \<Longrightarrow> wants w e' f \<Longrightarrow> subs w e' f = 1"
    using that by (simp add: exact_def s wt)
qed

definition publish :: "elem_ref \<Rightarrow> peer_ref \<Rightarrow> peer \<Rightarrow> world \<Rightarrow> world" where
  "publish e p pr w = w\<lparr>peers := (peers w)(p \<mapsto> pr\<lparr>element_list := element_list pr @ [e]\<rparr>)\<rparr>"

lemma table_put_keeps:
  assumes c: "consistent_but {e} w" and run: "run_state (element_table_put path e) w = (status, w1)"
  shows "subs w1 = subs w" and "wants w1 = wants w" and "env w1 = env w" and "peers w1 = peers w"
    and "elements w1 = elements w"
    and "status \<noteq> HASHTABLE_SUCCESS \<Longrightarrow> consistent_but {e} w1"
proof -
  note spec = element_table_put_spec [OF consistent_butD(3) [OF c] run]
  then obtain t where w1: "w1 = w\<lparr>element_hashtable := t\<rparr>" by blast
  show "subs w1 = subs w" "env w1 = env w" "peers w1 = peers w" "elements w1 = elements w"
    by (simp_all add: w1 subs_def fun_eq_iff)
  show "wants w1 = wants w" by (simp add: w1 wants_def entitled_def fun_eq_iff split: option.split)
  assume "status \<noteq> HASHTABLE_SUCCESS"
  then have look: "lookup_element w1 path' = lookup_element w path'" for path' using spec(3) by simp
  show "consistent_but {e} w1"
  proof (rule consistent_butI)
    show "element_table_ok w1" by (rule spec(1))
    show "lookup_element w1 path = Some e' \<longleftrightarrow> e' \<notin> {e} \<and> (\<exists>el. elements w1 e' = Some el \<and> e_path el = path)" for path e'
      using consistent_butD(7) [OF c, of path e'] \<open>elements w1 = elements w\<close> by (simp only: look)
    show "subs w1 e' f \<le> (if wants w1 e' f then 1 else 0)" for e' f
      using consistent_butD(8) [OF c, of e' f] \<open>subs w1 = subs w\<close> \<open>wants w1 = wants w\<close> by simp
    show "linked w1" using consistent_butD(2) [OF c] by (simp add: w1 linked_def)
    show False if "peers w1 p = Some pr" "e' \<in> set (element_list pr)" "e' \<in> {e}" for p pr e'
      using consistent_butD(12) [OF c, of p pr e'] that by (simp add: w1)
  qed (use consistent_butD [OF c] in \<open>simp_all add: w1\<close>)
qed

lemma publish_consistent:
  assumes c: "consistent_but {e} w" and el: "elements w e = Some el" and pr: "peers w (e_peer el) = Some pr"
    and none: "lookup_element w (e_path el) = None"
    and run: "run_state (element_table_put (e_path el) e) w = (HASHTABLE_SUCCESS, w1)"
  shows "consistent (publish e (e_peer el) pr w1)" and "subs (publish e (e_peer el) pr w1) = subs w"
    and "wants (publish e (e_peer el) pr w1) = wants w"
proof -
  note D = consistent_butD [OF c]
  note l = D(2)
  note spec = element_table_put_spec [OF D(3) run]
  then obtain t where w1: "w1 = w\<lparr>element_hashtable := t\<rparr>" by blast
  let ?w = "publish e (e_peer el) pr w1"
  have look: "lookup_element ?w path = (if path = e_path el then Some e else lookup_element w path)" for path
    using spec(3) [of path] by (simp add: publish_def lookup_element_def)
  have els: "elements ?w = elements w" by (simp add: publish_def w1)
  have not_in: "e \<notin> set (element_list qr)" if "peers w q = Some qr" for q qr
    using D(12) [OF that] by blast
  show s: "subs ?w = subs w" by (simp add: publish_def w1 subs_def fun_eq_iff)
  show wt: "wants ?w = wants w"
    using pr by (auto simp: publish_def w1 wants_def entitled_def fun_eq_iff split: option.split)
  show "consistent ?w"
  proof (rule consistent_butI)
    show "config_ok (cfg ?w)" "number_of_peers ?w = int (length (peer_list ?w))"
      using D(1,4) by (simp_all add: publish_def w1)
    show "element_table_ok ?w" using spec(1) by (simp add: publish_def element_table_ok_def)
    show "linked ?w"
      unfolding linked_def
    proof (intro conjI allI impI)
      show "distinct (peer_list ?w)" "set (peer_list ?w) = dom (peers ?w)"
        using linkedD(1,2) [OF l] pr by (auto simp: publish_def w1)
      fix q qr
      assume q: "peers ?w q = Some qr"
      then obtain qr0 where q0: "peers w q = Some qr0" and fl: "fetch_list qr = fetch_list qr0"
        and ell: "element_list qr = (if q = e_peer el then element_list qr0 @ [e] else element_list qr0)"
        using pr by (auto simp: publish_def w1 split: if_splits)
      show "distinct (element_list qr)" "distinct (fetch_list qr)"
        using linkedD(3,4) [OF l q0] not_in [OF q0] by (simp_all add: fl ell)
      show "\<forall>e\<in>set (element_list qr). \<exists>el. elements ?w e = Some el \<and> e_peer el = q"
        using linkedD(5) [OF l q0] el by (auto simp: ell publish_def w1)
      show "\<forall>f\<in>set (fetch_list qr). \<exists>ft. fetches ?w f = Some ft \<and> f_peer ft = q \<and> fetch_id ft \<noteq> None \<and> matcher ft \<noteq> []"
        using linkedD(6) [OF l q0] by (simp add: fl publish_def w1)
    qed
    show "\<exists>pr. peers ?w (e_peer x) = Some pr \<and> e' \<in> set (element_list pr)"
      if "elements ?w e' = Some x" "e' \<notin> {}" for e' x
      using D(5) [of e' x] that pr el by (cases "e' = e") (auto simp: publish_def w1)
    show "\<exists>pr. peers ?w (f_peer g) = Some pr \<and> f \<in> set (fetch_list pr)" if "fetches ?w f = Some g" for f g
      using D(6) [of f g] that pr by (auto simp: publish_def w1)
    show "lookup_element ?w path = Some e' \<longleftrightarrow> e' \<notin> {} \<and> (\<exists>x. elements ?w e' = Some x \<and> e_path x = path)" for path e'
    proof (cases "path = e_path el")
      case True
      have "\<not> (e' \<noteq> e \<and> (\<exists>x. elements w e' = Some x \<and> e_path x = e_path el))"
        using D(7) [of "e_path el" e'] none by simp
      with True el show ?thesis unfolding look els by auto
    next
      case False
      with D(7) [of path e'] el show ?thesis unfolding look els by auto
    qed
    show "subs ?w e' f \<le> (if wants ?w e' f then 1 else 0)" for e' f using D(8) [of e' f] by (simp add: s wt)
    show "peers ?w q = None \<and> elements ?w q = None \<and> fetches ?w q = None" if "next_ref ?w \<le> q" for q
      using D(9-11) [of q] D(9) [of "e_peer el"] that pr
      by (cases "next_ref w \<le> e_peer el") (auto simp: publish_def w1)
  qed simp
qed

lemma add_element_to_peer_fine:
  assumes fine: "fine w0 p w" and run: "run_state (add_element_to_peer p request) w = (response, w')"
  shows "fine w0 p w'"
proof -
  define body where "body = (\<lambda>el. do {
           e \<leftarrow> new_ref;
           modify (\<lambda>w. w\<lparr>elements := (elements w)(e \<mapsto> el)\<rparr>);
           notified \<leftarrow> find_fetchers_for_element e;
           if \<not> notified then do {
             free_element e;
             create_error_response_from_request request INTERNAL_ERROR ''reason'' ''could not notify fetching peer'' }
           else do {
             status \<leftarrow> element_table_put (e_path el) e;
             if status \<noteq> HASHTABLE_SUCCESS then do {
               free_element e;
               create_error_response_from_request request INTERNAL_ERROR ''reason'' ''element table full'' }
             else do {
               set_peer p (\<lambda>pr. pr\<lparr>element_list := element_list pr @ [e]\<rparr>);
               create_success_response_from_request request } } })"
  have body: "fine w0 p s'"
    if f: "fine w0 p s" and n: "new_element s p el" and r: "run_state (body el) s = (resp, s')" for s s' el resp
  proof -
    have c: "consistent s" using f by (simp add: fine_def)
    define e where "e = next_ref s"
    define s1 where "s1 = with_element e el s"
    note c1 = with_element_consistent [OF c e_def n, folded s1_def]
    have el1: "elements s1 e = Some el" by (simp add: s1_def with_element_def)
    have p1: "peers s1 = peers s" "env s1 = env s" by (simp_all add: s1_def with_element_def)
    obtain ok s2 where r2: "run_state (find_fetchers_for_element e) s1 = (ok, s2)" by fastforce
    have sub: "subscribed s1 ({e} \<times> set (all_fetches s1)) (concat (map (\<lambda>f. add_event s1 e f) (all_fetches s1))) s1 ok s2"
      by (rule subscribesD [OF subscribes_element [OF consistent_butD(2) [OF c1(1)] _ config_size [OF c1(1)]] retable_refl r2])
        (simp add: el1)
    note rt = subscribedD(1) [OF sub]
    have c2: "consistent_but {e} s2"
      by (rule subscribed_consistent(1) [OF sub c1(1)]) (use c1(2) in auto)
    have peers2: "peers s2 = peers s" using retable_same(7) [OF rt] p1 by simp
    have look2: "lookup_element s2 = lookup_element s"
      using retable_same(1,12) [OF rt] by (simp add: lookup_element_def fun_eq_iff s1_def with_element_def)
    obtain tb where el2: "elements s2 e = Some (el\<lparr>fetcher_table := tb\<rparr>)" using retable_element [OF rt el1] by blast
    have pure: "ok \<and> env s2 = []" if "env s = []" using subscribedD(4) [OF sub] that p1 by simp
    have ex: "subs s2 e' f = 1" if "ok" "exact s" "wants s2 e' f" for e' f
    proof (cases "e' = e")
      case True
      have "f \<in> set (all_fetches s1)"
        using wants_live [OF that(3)] all_fetches_complete [OF c1(1), of f] by (simp add: retable_same(8) [OF rt])
      with True subscribed_consistent(2) [OF sub c1(1) _ that(1,3)] c1(2) show ?thesis by auto
    next
      case False
      have "wants s1 e' f" using that(3) by (simp add: retable_wants [OF rt])
      with that(2) False have "subs s1 e' f = 1" by (simp add: exact_def c1(3,4))
      with False subscribed_consistent(2) [OF sub c1(1) _ that(1,3)] c1(2) show ?thesis by auto
    qed
    have run1: "run_state (body el) s = run_state (do {
           notified \<leftarrow> find_fetchers_for_element e;
           if \<not> notified then do {
             free_element e;
             create_error_response_from_request request INTERNAL_ERROR ''reason'' ''could not notify fetching peer'' }
           else do {
             status \<leftarrow> element_table_put (e_path el) e;
             if status \<noteq> HASHTABLE_SUCCESS then do {
               free_element e;
               create_error_response_from_request request INTERNAL_ERROR ''reason'' ''element table full'' }
             else do {
               set_peer p (\<lambda>pr. pr\<lparr>element_list := element_list pr @ [e]\<rparr>);
               create_success_response_from_request request } } }) s1"
      unfolding body_def e_def s1_def with_element_def by (simp add: run_new_ref)
    have view: "fine w0 p s'" if "fine w0 p u" "run_state m u = (resp, s')" "keeps_view m" for u m
      using fine_view [OF that(1) keeps_viewD [OF that(3,2)]] .
    show ?thesis
    proof (cases ok)
      case False
      have "consistent (s2\<lparr>elements := (elements s2)(e := None)\<rparr>)" by (rule free_element_consistent(1) [OF c2])
      then have "fine w0 p (s2\<lparr>elements := (elements s2)(e := None)\<rparr>)"
        using f pure False peers2 by (auto simp: fine_def)
      moreover have "run_state (create_error_response_from_request request INTERNAL_ERROR ''reason'' ''could not notify fetching peer'')
          (s2\<lparr>elements := (elements s2)(e := None)\<rparr>) = (resp, s')"
        using r run1 r2 False by (simp add: free_element_def)
      ultimately show ?thesis by (rule view) (intro allI view_response)
    next
      case True
      obtain status s3 where r3: "run_state (element_table_put (e_path el) e) s2 = (status, s3)" by fastforce
      note k3 = table_put_keeps [OF c2 r3]
      show ?thesis
      proof (cases "status = HASHTABLE_SUCCESS")
        case False
        have c3: "consistent_but {e} s3" by (rule k3(6) [OF False])
        let ?u = "s3\<lparr>elements := (elements s3)(e := None)\<rparr>"
        have "exact ?u" if "exact s"
          by (rule free_element_consistent(2) [OF c3]) (use ex [OF True that] in \<open>simp add: k3(1,2)\<close>)
        then have "fine w0 p ?u"
          using f pure peers2 free_element_consistent(1) [OF c3] by (auto simp: fine_def k3(3,4))
        moreover have "run_state (create_error_response_from_request request INTERNAL_ERROR ''reason'' ''element table full'') ?u = (resp, s')"
          using r run1 r2 True r3 False by (simp add: free_element_def)
        ultimately show ?thesis by (rule view) (intro allI view_response)
      next
        case success: True
        obtain pr where pr: "peers s p = Some pr" using f by (auto simp: fine_def)
        have pe: "e_peer (el\<lparr>fetcher_table := tb\<rparr>) = p" using n by (simp add: new_element_def)
        have put: "run_state (element_table_put (e_path (el\<lparr>fetcher_table := tb\<rparr>)) e) s2 = (HASHTABLE_SUCCESS, s3)"
          using r3 success by simp
        have none: "lookup_element s2 (e_path (el\<lparr>fetcher_table := tb\<rparr>)) = None"
          using n by (simp add: look2 new_element_def)
        have pr2: "peers s2 (e_peer (el\<lparr>fetcher_table := tb\<rparr>)) = Some pr" using pr pe peers2 by simp
        note pub = publish_consistent [OF c2 el2 pr2 none put, unfolded pe]
        let ?u = "publish e p pr s3"
        have "exact ?u" if "exact s"
          using ex [OF True that] by (simp add: exact_def pub(2,3))
        then have "fine w0 p ?u"
          using f pure pub(1) by (auto simp: fine_def k3(3,4) peers2 publish_def)
        moreover have "run_state (create_success_response_from_request request) ?u = (resp, s')"
          using r run1 r2 True r3 success pr by (simp add: set_peer_def publish_def k3(4) peers2)
        ultimately show ?thesis by (rule view) (intro allI view_response)
      qed
    qed
  qed
  have init: "keeps (fine w0 p) (or_return (init_element request p) body)"
  proof (rule keepsI)
    fix s r s'
    assume f: "fine w0 p s" and r: "run_state (or_return (init_element request p) body) s = (r, s')"
    obtain i s1 where i: "run_state (init_element request p) s = (i, s1)" by fastforce
    from validD [OF init_element_valid same_view_refl i]
    have v: "same_view s s1" and n: "\<And>el. i = Inr el \<Longrightarrow> new_element s p el" by auto
    have f1: "fine w0 p s1" by (rule fine_view [OF f v])
    show "fine w0 p s'"
    proof (cases i)
      case (Inl x)
      with r i f1 show ?thesis by (simp add: run_or_return)
    next
      case (Inr el)
      with n have "new_element s1 p el" by (simp add: new_element_def same_view_lookup [OF v])
      with f1 r i Inr show ?thesis by (intro body [of s1 el r s']) (simp_all add: run_or_return)
    qed
  qed
  have "keeps (fine w0 p) (add_element_to_peer p request)"
    unfolding add_element_to_peer_def body_def [symmetric]
    by (intro keeps_rules init fine_keeps allI view_rules)
  with fine run show ?thesis by (rule keepsD [rotated 1])
qed

subsection \<open>Removing elements\<close>

definition drop_element :: "elem_ref \<Rightarrow> peer_ref \<Rightarrow> peer \<Rightarrow> elem_ref hashtable \<Rightarrow> world \<Rightarrow> world" where
  "drop_element e p pr t w = w\<lparr>peers := (peers w)(p \<mapsto> pr\<lparr>element_list := remove1 e (element_list pr)\<rparr>),
     element_hashtable := t, elements := (elements w)(e := None)\<rparr>"

lemma drop_element_consistent:
  assumes c: "consistent w" and el: "elements w e = Some el" and pr: "peers w (e_peer el) = Some pr"
    and t: "table_inv (element_table_order (cfg w)) t"
    and look: "\<And>path. hashtable_get (element_table_order (cfg w)) t path =
      (if path = e_path el then None else lookup_element w path)"
  shows "consistent (drop_element e (e_peer el) pr t w)" and "exact w \<Longrightarrow> exact (drop_element e (e_peer el) pr t w)"
proof -
  note D = consistent_butD [OF c]
  note l = D(2)
  let ?w = "drop_element e (e_peer el) pr t w"
  have look': "lookup_element ?w path = (if path = e_path el then None else lookup_element w path)" for path
    using look [of path] by (simp add: lookup_element_def drop_element_def)
  have els: "elements ?w = (elements w)(e := None)" by (simp add: drop_element_def)
  have s: "subs ?w e' f = (if e' = e then 0 else subs w e' f)" for e' f by (simp add: subs_def els)
  have wt: "wants ?w e' f \<longleftrightarrow> e' \<noteq> e \<and> wants w e' f" for e' f
    using pr by (auto simp: wants_def els entitled_def drop_element_def split: option.split)
  show "consistent ?w"
  proof (rule consistent_butI)
    show "config_ok (cfg ?w)" "number_of_peers ?w = int (length (peer_list ?w))"
      using D(1,4) by (simp_all add: drop_element_def)
    show "element_table_ok ?w" using t by (simp add: drop_element_def element_table_ok_def)
    show "linked ?w"
      unfolding linked_def
    proof (intro conjI allI impI)
      show "distinct (peer_list ?w)" "set (peer_list ?w) = dom (peers ?w)"
        using linkedD(1,2) [OF l] pr by (auto simp: drop_element_def)
      fix q qr
      assume q: "peers ?w q = Some qr"
      then obtain qr0 where q0: "peers w q = Some qr0" and fl: "fetch_list qr = fetch_list qr0"
        and ell: "element_list qr = (if q = e_peer el then remove1 e (element_list qr0) else element_list qr0)"
        using pr by (auto simp: drop_element_def split: if_splits)
      show "distinct (element_list qr)" "distinct (fetch_list qr)"
        using linkedD(3,4) [OF l q0] by (simp_all add: fl ell)
      show "\<forall>x\<in>set (element_list qr). \<exists>el. elements ?w x = Some el \<and> e_peer el = q"
        using linkedD(3,5) [OF l q0] linkedD(5) [OF l q0, of e] el by (auto simp: ell els)
      show "\<forall>f\<in>set (fetch_list qr). \<exists>ft. fetches ?w f = Some ft \<and> f_peer ft = q \<and> fetch_id ft \<noteq> None \<and> matcher ft \<noteq> []"
        using linkedD(6) [OF l q0] by (simp add: fl drop_element_def)
    qed
    show "\<exists>pr. peers ?w (e_peer x) = Some pr \<and> e' \<in> set (element_list pr)"
      if "elements ?w e' = Some x" "e' \<notin> {}" for e' x
      using D(5) [of e' x] that pr by (auto simp: drop_element_def split: if_splits)
    show "\<exists>pr. peers ?w (f_peer g) = Some pr \<and> f \<in> set (fetch_list pr)" if "fetches ?w f = Some g" for f g
      using D(6) [of f g] that pr by (auto simp: drop_element_def)
    show "lookup_element ?w path = Some e' \<longleftrightarrow> e' \<notin> {} \<and> (\<exists>x. elements ?w e' = Some x \<and> e_path x = path)" for path e'
    proof -
      have uniq: "e' = e" if "elements w e' = Some x" "e_path x = e_path el" for x
      proof -
        have "lookup_element w (e_path el) = Some e'" using D(7) [of "e_path el" e'] that by auto
        moreover have "lookup_element w (e_path el) = Some e" using D(7) [of "e_path el" e] el by auto
        ultimately show ?thesis by simp
      qed
      show ?thesis
      proof (cases "path = e_path el")
        case True
        with uniq show ?thesis unfolding look' els by auto
      next
        case False
        with D(7) [of path e'] el show ?thesis unfolding look' els by auto
      qed
    qed
    show "subs ?w e' f \<le> (if wants ?w e' f then 1 else 0)" for e' f
      using D(8) [of e' f] by (auto simp: s wt split: if_splits)
    show "peers ?w q = None \<and> elements ?w q = None \<and> fetches ?w q = None" if "next_ref ?w \<le> q" for q
      using D(9-11) [of q] D(9) [of "e_peer el"] that pr
      by (cases "next_ref w \<le> e_peer el") (auto simp: drop_element_def)
  qed simp
  show "exact ?w" if "exact w" using that by (simp add: exact_def s wt)
qed

lemma remove_element_run:
  assumes c: "consistent w" and el: "elements w e = Some el"
    and run: "run_state (remove_element e) w = (u, w')"
  shows "\<exists>w1 el1 pr t. same_view w w1 \<and> elements w1 e = Some el1 \<and> peers w1 (e_peer el1) = Some pr \<and>
    w' = drop_element e (e_peer el1) pr t w1 \<and> table_inv (element_table_order (cfg w1)) t \<and>
    (\<forall>path. hashtable_get (element_table_order (cfg w1)) t path = (if path = e_path el1 then None else lookup_element w1 path))"
proof -
  obtain ok w1 where n: "run_state (notify_fetchers e ''remove'') w = (ok, w1)" by fastforce
  have v: "same_view w w1" by (rule keeps_viewD [OF _ n]) (intro allI view_rules)
  have c1: "consistent w1" by (rule consistent_same_view [OF v c])
  obtain el1 where el1: "elements w1 e = Some el1" using same_viewD(10) [OF v el] by blast
  obtain pr where pr: "peers w1 (e_peer el1) = Some pr" using consistent_butD(5) [OF c1 el1] by auto
  obtain r t where t: "hashtable_remove (element_table_order (cfg w1)) (element_hashtable w1) (e_path el1) = (r, t)" by fastforce
  note inv = consistent_butD(3) [OF c1, unfolded element_table_ok_def]
  have w': "w' = drop_element e (e_peer el1) pr t w1"
    using run n el1 pr t
    by (simp add: remove_element_def run_get set_peer_def element_table_remove_def free_element_def drop_element_def)
  show ?thesis
    by (intro exI [of _ w1] exI [of _ el1] exI [of _ pr] exI [of _ t] conjI v el1 pr w' allI
        ht.invar_remove [OF inv t]) (simp add: ht.lookup_remove [OF inv t] lookup_element_def)
qed

lemma same_view_lists:
  assumes v: "same_view w w'"
  shows "element_list_of w' q = element_list_of w q" and "fetch_list_of w' q = fetch_list_of w q"
proof -
  have "element_list_of w' q = element_list_of w q \<and> fetch_list_of w' q = fetch_list_of w q"
  proof (cases "peers w q")
    case None
    then have "peers w' q = None" using same_viewD(12) [OF v] by simp
    with None show ?thesis by (simp add: element_list_of_def fetch_list_of_def)
  next
    case (Some pr)
    then obtain pr' where "peers w' q = Some pr'" "peer_view pr' = peer_view pr" using same_viewD(8) [OF v] by blast
    with Some show ?thesis by (simp add: element_list_of_def fetch_list_of_def peer_view_eq)
  qed
  then show "element_list_of w' q = element_list_of w q" "fetch_list_of w' q = fetch_list_of w q" by simp_all
qed

lemma remove_element_fine:
  assumes fine: "fine w0 p w" and el: "elements w e = Some el"
    and run: "run_state (remove_element e) w = (u, w')"
  shows "fine w0 p w'"
    and "element_list_of w' q = (if q = e_peer el then remove1 e (element_list_of w q) else element_list_of w q)"
    and "fetch_list_of w' q = fetch_list_of w q"
proof -
  have c: "consistent w" using fine by (simp add: fine_def)
  obtain w1 el1 pr t where v: "same_view w w1" and el1: "elements w1 e = Some el1"
    and pr: "peers w1 (e_peer el1) = Some pr" and w': "w' = drop_element e (e_peer el1) pr t w1"
    and t: "table_inv (element_table_order (cfg w1)) t"
    and look: "\<And>path. hashtable_get (element_table_order (cfg w1)) t path = (if path = e_path el1 then None else lookup_element w1 path)"
    using remove_element_run [OF c el run] by blast
  have f1: "fine w0 p w1" by (rule fine_view [OF fine v])
  have c1: "consistent w1" using f1 by (simp add: fine_def)
  show "fine w0 p w'"
  proof (rule fine_trans [OF f1], intro conjI impI)
    show "consistent w'" unfolding w' by (rule drop_element_consistent(1) [OF c1 el1 pr t look])
    show "peers w' p \<noteq> None" using f1 by (simp add: w' fine_def drop_element_def)
    show "env w' = []" if "env w1 = []" using that by (simp add: w' drop_element_def)
    show "exact w'" if "exact w1" unfolding w' by (rule drop_element_consistent(2) [OF c1 el1 pr t look that])
  qed
  have peer: "e_peer el1 = e_peer el" using same_viewD(10) [OF v el] el1 by (auto simp: elem_view_eq)
  have view: "element_list_of w1 q = element_list_of w q" "fetch_list_of w1 q = fetch_list_of w q"
    by (rule same_view_lists [OF v])+
  show "element_list_of w' q = (if q = e_peer el then remove1 e (element_list_of w q) else element_list_of w q)"
    using pr unfolding view(1) [symmetric] by (simp add: w' drop_element_def element_list_of_def peer)
  show "fetch_list_of w' q = fetch_list_of w q"
    using pr unfolding view(2) [symmetric] by (simp add: w' drop_element_def fetch_list_of_def)
qed

lemma find_element_in_list: "run_state (find_element_in es path) w = (Some e, w') \<Longrightarrow> e \<in> set es"
  by (induction es arbitrary: w) (auto split: prod.splits if_splits)

lemma remove_element_from_peer_fine: "keeps (fine w0 p) (remove_element_from_peer p request)"
proof -
  have found: "keeps (fine w0 p) (do {
       pr \<leftarrow> get_peer p;
       found \<leftarrow> find_element_in (element_list pr) path;
       case found of
         Some e \<Rightarrow> do { remove_element e; create_success_response_from_request request }
       | None \<Rightarrow> create_error_response_from_request request INVALID_PARAMS ''not exists'' path })" for path
  proof (rule keepsI)
    fix s r s'
    assume f: "fine w0 p s" and run: "run_state (do {
       pr \<leftarrow> get_peer p;
       found \<leftarrow> find_element_in (element_list pr) path;
       case found of
         Some e \<Rightarrow> do { remove_element e; create_success_response_from_request request }
       | None \<Rightarrow> create_error_response_from_request request INVALID_PARAMS ''not exists'' path }) s = (r, s')"
    obtain pr where pr: "peers s p = Some pr" using f by (auto simp: fine_def)
    obtain x s1 where x: "run_state (find_element_in (element_list pr) path) s = (x, s1)" by fastforce
    have v: "same_view s s1" by (rule keeps_viewD [OF _ x]) (intro allI view_rules)
    have f1: "fine w0 p s1" by (rule fine_view [OF f v])
    show "fine w0 p s'"
    proof (cases x)
      case None
      have r: "run_state (create_error_response_from_request request INVALID_PARAMS ''not exists'' path) s1 = (r, s')"
        using run pr x None by (simp add: run_get)
      show ?thesis by (rule fine_view [OF f1 keeps_viewD [OF _ r]]) (intro allI view_rules)
    next
      case (Some e)
      have "e \<in> set (element_list pr)" by (rule find_element_in_list [OF x [unfolded Some]])
      then obtain el0 where "elements s e = Some el0"
        using linkedD(5) [OF consistent_butD(2), of "{}" s p pr e] f pr by (auto simp: fine_def)
      then obtain el where el: "elements s1 e = Some el" using same_viewD(10) [OF v] by blast
      obtain u s2 where u: "run_state (remove_element e) s1 = (u, s2)" by (meson surj_pair)
      have f2: "fine w0 p s2" by (rule remove_element_fine(1) [OF f1 el u])
      have r: "run_state (create_success_response_from_request request) s2 = (r, s')"
        using run pr x Some u by (simp add: run_get)
      show ?thesis by (rule fine_view [OF f2 keeps_viewD [OF _ r]]) (intro allI view_rules)
    qed
  qed
  show ?thesis
    unfolding remove_element_from_peer_def
    by (intro keeps_or_return found fine_keeps allI view_params view_response)
qed

subsection \<open>The request authenticate\<close>

text \<open>The fetch groups of a peer may change only while it has no fetch.\<close>

definition regroup :: "peer_ref \<Rightarrow> peer \<Rightarrow> group_t \<Rightarrow> world \<Rightarrow> world" where
  "regroup p pr g w = w\<lparr>peers := (peers w)(p \<mapsto> pr\<lparr>p_fetch_groups := g\<rparr>)\<rparr>"

lemma regroup_consistent:
  assumes c: "consistent w" and pr: "peers w p = Some pr" and none: "fetch_list pr = []"
  shows "consistent (regroup p pr g w)" and "exact w \<Longrightarrow> exact (regroup p pr g w)"
proof -
  note D = consistent_butD [OF c]
  let ?w = "regroup p pr g w"
  have s: "subs ?w = subs w" by (simp add: regroup_def subs_def fun_eq_iff)
  have wt: "wants ?w e f = wants w e f" for e f
    using D(6) [of f] pr none
    by (auto simp: regroup_def wants_def entitled_def split: option.split)
  show "consistent ?w"
  proof (rule consistent_butI)
    show "config_ok (cfg ?w)" "element_table_ok ?w" "number_of_peers ?w = int (length (peer_list ?w))"
      using D(1,3,4) by (simp_all add: regroup_def element_table_ok_def)
    show "linked ?w"
      using D(2) pr unfolding linked_def by (auto simp: regroup_def)
    show "\<exists>pr. peers ?w (e_peer x) = Some pr \<and> e \<in> set (element_list pr)"
      if "elements ?w e = Some x" "e \<notin> {}" for e x
      using D(5) [of e x] that pr by (auto simp: regroup_def)
    show "\<exists>pr. peers ?w (f_peer x) = Some pr \<and> f \<in> set (fetch_list pr)" if "fetches ?w f = Some x" for f x
      using D(6) [of f x] that pr by (auto simp: regroup_def)
    show "lookup_element ?w path = Some e \<longleftrightarrow> e \<notin> {} \<and> (\<exists>x. elements ?w e = Some x \<and> e_path x = path)" for path e
      using D(7) [of path e] by (simp add: regroup_def lookup_element_def)
    show "subs ?w e f \<le> (if wants ?w e f then 1 else 0)" for e f using D(8) [of e f] by (simp add: s wt)
    show "peers ?w q = None \<and> elements ?w q = None \<and> fetches ?w q = None" if "next_ref ?w \<le> q" for q
      using D(9-11) [of q] D(9) [of p] that pr by (cases "next_ref w \<le> p") (auto simp: regroup_def)
  qed simp
  show "exact ?w" if "exact w" using that by (simp add: exact_def s wt)
qed

abbreviation fine_unfetched :: "world \<Rightarrow> peer_ref \<Rightarrow> world \<Rightarrow> bool" where
  "fine_unfetched w0 p w \<equiv> fine w0 p w \<and> fetch_list_of w p = []"

lemma unfetched_keeps: "keeps_view m \<Longrightarrow> keeps (fine_unfetched w0 p) m"
  by (rule keepsI) (metis keeps_viewD fine_view same_view_lists(2))

lemma unfetched_regroup: "keeps (fine_unfetched w0 p) (set_peer p (\<lambda>pr. pr\<lparr>p_fetch_groups := g\<rparr>))"
proof (rule keepsI)
  fix w r w'
  assume f: "fine_unfetched w0 p w" and run: "run_state (set_peer p (\<lambda>pr. pr\<lparr>p_fetch_groups := g\<rparr>)) w = (r, w')"
  obtain pr where pr: "peers w p = Some pr" using f by (auto simp: fine_def)
  with run have w': "w' = regroup p pr g w" by (simp add: set_peer_def regroup_def)
  have c: "consistent w" and none: "fetch_list pr = []" using f pr by (simp_all add: fine_def fetch_list_of_def)
  have fw: "fine w0 p w" using f by simp
  have "fine w0 p w'"
  proof (rule fine_trans [OF fw], intro conjI impI)
    show "consistent w'" unfolding w' by (rule regroup_consistent(1) [OF c pr none])
    show "peers w' p \<noteq> None" by (simp add: w' regroup_def)
    show "env w' = []" if "env w = []" using that by (simp add: w' regroup_def)
    show "exact w'" if "exact w" unfolding w' by (rule regroup_consistent(2) [OF c pr none that])
  qed
  with none show "fine_unfetched w0 p w'" by (simp add: w' regroup_def fetch_list_of_def)
qed

lemma view_credentials [view_rules]: "keeps (same_view w0) (credentials_ok c u pw)"
  unfolding credentials_ok_def by (intro keeps_rules)

lemma handle_authentication_fine: "keeps (fine w0 p) (handle_authentication crypt p request)"
proof -
  have auth: "keeps (fine_unfetched w0 p) (do {
         auth \<leftarrow> credentials_ok crypt user passwd;
         case auth of
           None \<Rightarrow> create_error_response_from_request request INVALID_PARAMS ''invalid credentials'' user
         | Some auth \<Rightarrow> do {
             g \<leftarrow> get_groups (cJSON_GetObjectItem auth ''fetchGroups'');
             set_peer p (\<lambda>pr. pr\<lparr>p_fetch_groups := g\<rparr>);
             g \<leftarrow> get_groups (cJSON_GetObjectItem auth ''setGroups'');
             set_peer p (\<lambda>pr. pr\<lparr>p_set_groups := g\<rparr>);
             g \<leftarrow> get_groups (cJSON_GetObjectItem auth ''callGroups'');
             set_peer p (\<lambda>pr. pr\<lparr>p_call_groups := g\<rparr>);
             name \<leftarrow> duplicate_string user;
             set_peer p (\<lambda>pr. pr\<lparr>p_user_name := name\<rparr>);
             if name = None
             then create_error_response_from_request request INTERNAL_ERROR ''reason''
                    ''not enough memory to allocate user name''
             else create_success_response_from_request request } })" (is "keeps _ ?auth") for user passwd
    by (intro unfetched_regroup keeps_bind keeps_case_option keeps_if)
      (intro unfetched_keeps allI view_rules view_set_peer; simp add: peer_view_def)+
  have guard: "keeps (fine w0 p) (do {
       pr \<leftarrow> get_peer p;
       if fetch_list pr \<noteq> []
       then create_error_response_from_request request INVALID_PARAMS ''fetched before authenticate'' user
       else m })" if m: "keeps (fine_unfetched w0 p) m" for user m
  proof (rule keepsI)
    fix w r w'
    assume f: "fine w0 p w" and run: "run_state (do {
       pr \<leftarrow> get_peer p;
       if fetch_list pr \<noteq> []
       then create_error_response_from_request request INVALID_PARAMS ''fetched before authenticate'' user
       else m }) w = (r, w')"
    obtain pr where pr: "peers w p = Some pr" using f by (auto simp: fine_def)
    show "fine w0 p w'"
    proof (cases "fetch_list pr = []")
      case True
      with run pr have r: "run_state m w = (r, w')" by (simp add: run_get)
      have "fine_unfetched w0 p w" using f pr True by (simp add: fetch_list_of_def)
      from keepsD [OF m this r] have "fine_unfetched w0 p w'" .
      then show ?thesis by simp
    next
      case False
      with run pr have r: "run_state (create_error_response_from_request request INVALID_PARAMS ''fetched before authenticate'' user) w = (r, w')"
        by (simp add: run_get)
      show ?thesis by (rule fine_view [OF f keeps_viewD [OF _ r]]) (intro allI view_rules)
    qed
  qed
  show ?thesis
    unfolding handle_authentication_def
    by (intro keeps_or_return guard [OF auth] fine_keeps allI view_params view_response)
qed

end
