(* ===== verification/Broker_System.thy ===== *)
theory Broker_System
  imports Broker_Proofs
begin

text \<open>
  The broker as a whole: messages, timers, peers that come and go.

  An event is what the event loop delivers: a new connection, a message of a peer, the expiry of a
  request's timer, the end of a connection.  \<open>broker_step\<close> runs the code for one event with the
  answers the environment gives during it; \<open>reachable\<close> are the states after any number of events,
  \<open>reachable_ok\<close> those reached without a failed call.  The invariant holds in every reachable state.
\<close>

subsection \<open>Messages\<close>

lemma handle_method_fine: "keeps (fine w0 p) (handle_method ex request name p)"
proof -
  have fetch: "keeps (fine w0 p) (process_fetch request p)"
    by (rule keepsI) (rule process_fetch_fine)
  have add: "keeps (fine w0 p) (add_element_to_peer p request)"
    by (rule keepsI) (rule add_element_to_peer_fine)
  show ?thesis
    unfolding handle_method_def
    by (intro keeps_if fetch add remove_element_from_peer_fine remove_fetch_from_peer_fine handle_authentication_fine
        fine_keeps allI view_rules)
qed

lemma view_send_response [view_rules]: "keeps (same_view w0) (send_response r p)"
  unfolding send_response_def by (intro keeps_rules view_rules)

lemma parse_json_rpc_fine: "keeps (fine w0 p) (parse_json_rpc ex request p)"
  unfolding parse_json_rpc_def
  by (intro keeps_case_option keeps_bind handle_method_fine fine_keeps allI view_rules)

lemma parse_json_array_fine: "keeps (fine w0 p) (parse_json_array ex batch p)"
  unfolding parse_json_array_def
  by (intro keeps_for_each_ok keeps_if parse_json_rpc_fine keeps_return)

lemma parse_message_fine: "keeps (fine w0 p) (parse_message ex parsed n p)"
proof -
  have "keeps (fine w0 p) (case message of JArray _ \<Rightarrow> parse_json_array ex message p
      | JObject _ \<Rightarrow> parse_json_rpc ex message p | _ \<Rightarrow> ret False)" for message
    by (cases message) (auto intro: parse_json_array_fine parse_json_rpc_fine)
  then show ?thesis
    unfolding parse_message_def
    by (intro keeps_case_option keeps_case_prod keeps_bind keeps_if keeps_gets keeps_return)
qed

subsection \<open>Peers\<close>

text \<open>The invariant without a peer on whose behalf the run happens.\<close>

definition sound :: "world \<Rightarrow> world \<Rightarrow> bool" where
  "sound w0 w \<longleftrightarrow> consistent w \<and> (env w0 = [] \<longrightarrow> env w = [] \<and> (exact w0 \<longrightarrow> exact w))"

lemma fine_sound: "fine w0 p w \<Longrightarrow> sound w0 w"
  by (simp add: fine_def sound_def)

lemma sound_view: "sound w0 w1 \<Longrightarrow> same_view w1 w2 \<Longrightarrow> sound w0 w2"
  unfolding sound_def using consistent_same_view exact_same_view same_viewD(14) by metis

definition add_peer :: "peer_ref \<Rightarrow> peer \<Rightarrow> world \<Rightarrow> world" where
  "add_peer p pr w = w\<lparr>next_ref := p + 1, peers := (peers w)(p \<mapsto> pr), peer_list := peer_list w @ [p],
     number_of_peers := number_of_peers w + 1\<rparr>"

lemma add_peer_consistent:
  assumes c: "consistent w" and p: "p = next_ref w" and pr: "element_list pr = []" "fetch_list pr = []"
  shows "consistent (add_peer p pr w)" and "exact w \<Longrightarrow> exact (add_peer p pr w)"
proof -
  note D = consistent_butD [OF c]
  note l = D(2)
  let ?w = "add_peer p pr w"
  have fresh: "peers w p = None" using D(9) p by simp
  have s: "subs ?w = subs w" by (simp add: add_peer_def subs_def fun_eq_iff)
  have wt: "wants ?w e f = wants w e f" for e f
    using D(6) [of f] fresh by (auto simp: add_peer_def wants_def entitled_def split: option.split)
  show "consistent ?w"
  proof (rule consistent_butI)
    show "config_ok (cfg ?w)" "element_table_ok ?w" "number_of_peers ?w = int (length (peer_list ?w))"
      using D(1,3,4) by (simp_all add: add_peer_def element_table_ok_def)
    show "linked ?w"
      unfolding linked_def
    proof (intro conjI allI impI)
      have "p \<notin> set (peer_list w)" using linkedD(2) [OF l] fresh by auto
      then show "distinct (peer_list ?w)" "set (peer_list ?w) = dom (peers ?w)"
        using linkedD(1,2) [OF l] by (auto simp: add_peer_def)
      fix q qr
      assume "peers ?w q = Some qr"
      then have q: "q = p \<and> qr = pr \<or> q \<noteq> p \<and> peers w q = Some qr" by (auto simp: add_peer_def split: if_splits)
      show "distinct (element_list qr)" "distinct (fetch_list qr)"
        using q linkedD(3,4) [OF l, of q qr] pr by auto
      show "\<forall>e\<in>set (element_list qr). \<exists>el. elements ?w e = Some el \<and> e_peer el = q"
        using q linkedD(5) [OF l, of q qr] pr by (auto simp: add_peer_def)
      show "\<forall>f\<in>set (fetch_list qr). \<exists>ft. fetches ?w f = Some ft \<and> f_peer ft = q \<and> fetch_id ft \<noteq> None \<and> matcher ft \<noteq> []"
        using q linkedD(6) [OF l, of q qr] pr by (auto simp: add_peer_def)
    qed
    show "\<exists>pr. peers ?w (e_peer x) = Some pr \<and> e \<in> set (element_list pr)"
      if "elements ?w e = Some x" "e \<notin> {}" for e x
      using D(5) [of e x] that fresh by (auto simp: add_peer_def)
    show "\<exists>pr. peers ?w (f_peer x) = Some pr \<and> f \<in> set (fetch_list pr)" if "fetches ?w f = Some x" for f x
      using D(6) [of f x] that fresh by (auto simp: add_peer_def)
    show "lookup_element ?w path = Some e \<longleftrightarrow> e \<notin> {} \<and> (\<exists>x. elements ?w e = Some x \<and> e_path x = path)" for path e
      using D(7) [of path e] by (simp add: add_peer_def lookup_element_def)
    show "subs ?w e f \<le> (if wants ?w e f then 1 else 0)" for e f using D(8) [of e f] by (simp add: s wt)
    show "peers ?w q = None \<and> elements ?w q = None \<and> fetches ?w q = None" if "next_ref ?w \<le> q" for q
      using D(9-11) [of q] that p by (simp add: add_peer_def)
  qed simp
  show "exact ?w" if "exact w" using that by (simp add: exact_def s wt)
qed

lemma init_peer_run:
  assumes run: "run_state (init_peer memory local) w = (r, w')"
  shows "(r = None \<and> same_view w w') \<or>
    (\<exists>w1 pr. same_view w w1 \<and> element_list pr = [] \<and> fetch_list pr = [] \<and> r = Some (next_ref w1) \<and>
       w' = add_peer (next_ref w1) pr w1)"
proof -
  obtain x w1 where x: "run_state (add_routing_table memory) w = (x, w1)" by fastforce
  have v: "same_view w w1"
    by (rule keeps_viewD [OF _ x], unfold add_routing_table_def) (intro allI keeps_rules view_rules)
  show ?thesis
  proof (cases x)
    case None
    with run x v show ?thesis by (simp add: init_peer_def)
  next
    case (Some p)
    let ?pr = "p\<lparr>p_name := None, p_user_name := None, is_local_connection := local, element_list := [], fetch_list := []\<rparr>"
    have "w' = add_peer (next_ref w1) ?pr w1" "r = Some (next_ref w1)"
      using run x Some by (simp_all add: init_peer_def run_new_ref add_peer_def)
    with v show ?thesis by (intro disjI2 exI [of _ w1] exI [of _ ?pr]) simp
  qed
qed

lemma init_peer_sound: "keeps (sound w0) (init_peer memory local)"
proof (rule keepsI)
  fix w r w'
  assume s: "sound w0 w" and run: "run_state (init_peer memory local) w = (r, w')"
  from init_peer_run [OF run] show "sound w0 w'"
  proof
    assume "r = None \<and> same_view w w'"
    with s show ?thesis using sound_view by blast
  next
    assume "\<exists>w1 pr. same_view w w1 \<and> element_list pr = [] \<and> fetch_list pr = [] \<and> r = Some (next_ref w1) \<and>
       w' = add_peer (next_ref w1) pr w1"
    then obtain w1 pr where v: "same_view w w1" and pr: "element_list pr = []" "fetch_list pr = []"
      and w': "w' = add_peer (next_ref w1) pr w1" by blast
    have s1: "sound w0 w1" by (rule sound_view [OF s v])
    then have c1: "consistent w1" by (simp add: sound_def)
    show ?thesis
      using s1 add_peer_consistent [OF c1 refl pr] unfolding w' sound_def by (auto simp: add_peer_def)
  qed
qed

lemma drop_fetches_run:
  assumes "fine w0 p w" "fetch_list_of w p = fs"
    and "run_state (for_each (\<lambda>f. do { remove_fetch_from_states f; unlink_fetch p f }) fs) w = (u, w')"
  shows "fine w0 p w' \<and> fetch_list_of w' p = []"
  using assms
proof (induction fs arbitrary: w)
  case Nil
  then show ?case by simp
next
  case (Cons f fs)
  obtain pr where pr: "peers w p = Some pr" using Cons.prems(1) by (auto simp: fine_def)
  have fl: "fetch_list pr = f # fs" using Cons.prems(2) pr by (simp add: fetch_list_of_def)
  have c: "consistent w" using Cons.prems(1) by (simp add: fine_def)
  let ?w = "drop_fetch p pr f w"
  have f: "f \<in> set (fetch_list pr)" using fl by simp
  have fine: "fine w0 p ?w"
    using drop_fetch_consistent [OF c pr f]
    by (intro fine_trans [OF Cons.prems(1)]) (simp add: drop_fetch_def clear_in_def)
  have list: "fetch_list_of ?w p = fs" by (simp add: drop_fetch_def fetch_list_of_def fl)
  have "run_state (do { remove_fetch_from_states f; unlink_fetch p f }) w = ((), ?w)"
    by (rule run_drop_fetch [OF consistent_butD(2) [OF c] pr])
  with Cons.prems(3) have "run_state (for_each (\<lambda>f. do { remove_fetch_from_states f; unlink_fetch p f }) fs) ?w = (u, w')"
    by (simp split: prod.splits)
  with fine list show ?case by (rule Cons.IH)
qed

lemma drop_elements_run:
  assumes "fine w0 p w" "element_list_of w p = es" "fetch_list_of w p = []"
    and "run_state (for_each remove_element es) w = (u, w')"
  shows "fine w0 p w' \<and> element_list_of w' p = [] \<and> fetch_list_of w' p = []"
  using assms
proof (induction es arbitrary: w)
  case Nil
  then show ?case by simp
next
  case (Cons e es)
  obtain pr where pr: "peers w p = Some pr" using Cons.prems(1) by (auto simp: fine_def)
  have "e \<in> set (element_list pr)" using Cons.prems(2) pr by (simp add: element_list_of_def)
  then obtain el where el: "elements w e = Some el" "e_peer el = p"
    using linkedD(5) [OF consistent_butD(2), of "{}" w p pr e] Cons.prems(1) pr by (auto simp: fine_def)
  obtain v w1 where r: "run_state (remove_element e) w = (v, w1)" by (meson surj_pair)
  note re = remove_element_fine [OF Cons.prems(1) el(1) r]
  have "run_state (for_each remove_element es) w1 = (u, w')" using Cons.prems(4) r by simp
  moreover have "element_list_of w1 p = es" using re(2) [of p] Cons.prems(2) el(2) by simp
  ultimately show ?case using Cons.IH [of w1] re(1) re(3) [of p] Cons.prems(3) by simp
qed

definition drop_peer :: "peer_ref \<Rightarrow> world \<Rightarrow> world" where
  "drop_peer p w = w\<lparr>peer_list := remove1 p (peer_list w), number_of_peers := number_of_peers w - 1,
     peers := (peers w)(p := None)\<rparr>"

lemma drop_peer_consistent:
  assumes c: "consistent w" and pr: "peers w p = Some pr" and none: "element_list pr = []" "fetch_list pr = []"
  shows "consistent (drop_peer p w)" and "exact w \<Longrightarrow> exact (drop_peer p w)"
proof -
  note D = consistent_butD [OF c]
  note l = D(2)
  let ?w = "drop_peer p w"
  have p: "p \<in> set (peer_list w)" using linkedD(2) [OF l] pr by auto
  have s: "subs ?w = subs w" by (simp add: drop_peer_def subs_def fun_eq_iff)
  have not_f: "f_peer ft \<noteq> p" if "fetches w f = Some ft" for f ft
    using D(6) [OF that] pr none by auto
  have wt: "wants ?w e f = wants w e f" for e f
    using not_f [of f] by (auto simp: drop_peer_def wants_def entitled_def split: option.split)
  show "consistent ?w"
  proof (rule consistent_butI)
    show "config_ok (cfg ?w)" "element_table_ok ?w"
      using D(1,3) by (simp_all add: drop_peer_def element_table_ok_def)
    show "number_of_peers ?w = int (length (peer_list ?w))"
    proof -
      have "length (remove1 p (peer_list w)) + 1 = length (peer_list w)"
        using p length_pos_if_in_set [OF p] by (simp add: length_remove1)
      then show ?thesis using D(4) by (simp add: drop_peer_def)
    qed
    show "linked ?w"
      unfolding linked_def
    proof (intro conjI allI impI)
      show "distinct (peer_list ?w)" "set (peer_list ?w) = dom (peers ?w)"
        using linkedD(1,2) [OF l] by (auto simp: drop_peer_def)
      fix q qr
      assume "peers ?w q = Some qr"
      then have q: "peers w q = Some qr" by (auto simp: drop_peer_def split: if_splits)
      show "distinct (element_list qr)" "distinct (fetch_list qr)" using linkedD(3,4) [OF l q] .
      show "\<forall>e\<in>set (element_list qr). \<exists>el. elements ?w e = Some el \<and> e_peer el = q"
        using linkedD(5) [OF l q] by (simp add: drop_peer_def)
      show "\<forall>f\<in>set (fetch_list qr). \<exists>ft. fetches ?w f = Some ft \<and> f_peer ft = q \<and> fetch_id ft \<noteq> None \<and> matcher ft \<noteq> []"
        using linkedD(6) [OF l q] by (simp add: drop_peer_def)
    qed
    show "\<exists>pr. peers ?w (e_peer x) = Some pr \<and> e \<in> set (element_list pr)"
      if "elements ?w e = Some x" "e \<notin> {}" for e x
      using D(5) [of e x] that pr none by (auto simp: drop_peer_def)
    show "\<exists>pr. peers ?w (f_peer x) = Some pr \<and> f \<in> set (fetch_list pr)" if "fetches ?w f = Some x" for f x
      using D(6) [of f x] not_f [of f x] that by (auto simp: drop_peer_def)
    show "lookup_element ?w path = Some e \<longleftrightarrow> e \<notin> {} \<and> (\<exists>x. elements ?w e = Some x \<and> e_path x = path)" for path e
      using D(7) [of path e] by (simp add: drop_peer_def lookup_element_def)
    show "subs ?w e f \<le> (if wants ?w e f then 1 else 0)" for e f using D(8) [of e f] by (simp add: s wt)
    show "peers ?w q = None \<and> elements ?w q = None \<and> fetches ?w q = None" if "next_ref ?w \<le> q" for q
      using D(9-11) [of q] that by (simp add: drop_peer_def)
  qed simp
  show "exact ?w" if "exact w" using that by (simp add: exact_def s wt)
qed

lemma free_peer_sound:
  assumes fine: "fine w0 p w" and run: "run_state (free_peer p) w = (u, w')"
  shows "sound w0 w'" and "peers w' p = None"
proof -
  obtain u1 w1 where 1: "run_state (remove_routing_info_from_peer p) w = (u1, w1)" by (meson surj_pair)
  obtain u2 w2 where 2: "run_state (remove_peer_from_routes p) w1 = (u2, w2)" by (meson surj_pair)
  have "same_view w w1" by (rule keeps_viewD [OF _ 1]) (intro allI view_rules)
  moreover have "same_view w1 w2" by (rule keeps_viewD [OF _ 2]) (intro allI view_rules)
  ultimately have f2: "fine w0 p w2" using fine fine_view by blast
  obtain pr where pr: "peers w2 p = Some pr" using f2 by (auto simp: fine_def)
  obtain u3 w3 where 3: "run_state (for_each (\<lambda>f. do { remove_fetch_from_states f; unlink_fetch p f }) (fetch_list pr)) w2 = (u3, w3)"
    by (meson surj_pair)
  have f3: "fine w0 p w3 \<and> fetch_list_of w3 p = []"
    by (rule drop_fetches_run [OF f2 _ 3]) (simp add: fetch_list_of_def pr)
  obtain pr3 where pr3: "peers w3 p = Some pr3" using f3 by (auto simp: fine_def)
  obtain u4 w4 where 4: "run_state (for_each remove_element (element_list pr3)) w3 = (u4, w4)"
    by (meson surj_pair)
  have f4: "fine w0 p w4 \<and> element_list_of w4 p = [] \<and> fetch_list_of w4 p = []"
    by (rule drop_elements_run [OF _ _ _ 4]) (use f3 in \<open>simp_all add: element_list_of_def pr3\<close>)
  obtain pr4 where pr4: "peers w4 p = Some pr4" using f4 by (auto simp: fine_def)
  have none: "element_list pr4 = []" "fetch_list pr4 = []"
    using f4 pr4 by (simp_all add: element_list_of_def fetch_list_of_def)
  have c4: "consistent w4" using f4 by (simp add: fine_def)
  have "w' = drop_peer p w4"
    using run 1 2 3 4 pr pr3
    by (simp add: free_peer_def free_peer_resources_def remove_all_fetchers_from_peer_def
        remove_all_elements_from_peer_def run_get drop_peer_def)
  with drop_peer_consistent [OF c4 pr4 none] f4 show "sound w0 w'" and "peers w' p = None"
    by (auto simp: sound_def fine_def) (simp_all add: drop_peer_def)
qed

subsection \<open>Events\<close>

datatype event =
    Connect peer bool
  | Message peer_ref "(json \<times> nat) option" nat
  | Timer_expired req_ref
  | Disconnect peer_ref

definition possible :: "event \<Rightarrow> world \<Rightarrow> bool" where
  "possible ev w = (case ev of
     Connect memory local \<Rightarrow> True
   | Message p parsed n \<Rightarrow> peers w p \<noteq> None
   | Timer_expired q \<Rightarrow> (case timers w q of None \<Rightarrow> False | Some t \<Rightarrow> registered t \<and> armed t \<noteq> None)
   | Disconnect p \<Rightarrow> peers w p \<noteq> None)"

definition handle_event :: "externals \<Rightarrow> event \<Rightarrow> unit cm" where
  "handle_event ex ev = (case ev of
     Connect memory local \<Rightarrow> do { init_peer memory local; ret () }
   | Message p parsed n \<Rightarrow> do { parse_message ex parsed n p; ret () }
   | Timer_expired q \<Rightarrow> timer_read q
   | Disconnect p \<Rightarrow> free_peer p)"

text \<open>The state when the daemon starts serving, with the groups and users of a password file, if any.\<close>

definition start :: "config \<Rightarrow> string list option \<Rightarrow> json option \<Rightarrow> world" where
  "start c groups users = \<lparr>cfg = c, env = [], faults = [], all_groups = groups, user_data = users, uuid = 0,
     peer_list = [], number_of_peers = 0, peers = Map.empty, elements = Map.empty, fetches = Map.empty,
     requests = Map.empty, timers = Map.empty, next_ref = 1,
     element_hashtable = hashtable_create (element_table_order c), sent = []\<rparr>"

definition next_state :: "externals \<Rightarrow> event \<Rightarrow> bool list \<Rightarrow> world \<Rightarrow> world" where
  "next_state ex ev answers w = snd (run_state (handle_event ex ev) (w\<lparr>env := answers\<rparr>))"

inductive reachable :: "externals \<Rightarrow> world \<Rightarrow> world \<Rightarrow> bool" for ex w0 where
  reachable_start: "reachable ex w0 w0"
| reachable_step: "reachable ex w0 w \<Longrightarrow> possible ev w \<Longrightarrow> reachable ex w0 (next_state ex ev answers w)"

inductive reachable_ok :: "externals \<Rightarrow> world \<Rightarrow> world \<Rightarrow> bool" for ex w0 where
  reachable_ok_start: "reachable_ok ex w0 w0"
| reachable_ok_step: "reachable_ok ex w0 w \<Longrightarrow> possible ev w \<Longrightarrow> reachable_ok ex w0 (next_state ex ev [] w)"

lemma consistent_start: "config_ok c \<Longrightarrow> consistent (start c groups users)"
  by (rule consistent_butI) (auto simp: start_def config_ok_def linked_def element_table_ok_def
      lookup_element_def subs_def)

lemma exact_start: "exact (start c groups users)"
  by (simp add: exact_def wants_def start_def)

lemma entitled_env [simp]: "entitled (w\<lparr>env := e\<rparr>) = entitled w"
  by (simp add: entitled_def fun_eq_iff split: option.split)

lemma wants_env [simp]: "wants (w\<lparr>env := e\<rparr>) = wants w"
  by (simp add: wants_def fun_eq_iff split: option.split)

lemma consistent_env [simp]: "consistent_but X (w\<lparr>env := e\<rparr>) = consistent_but X w" "exact (w\<lparr>env := e\<rparr>) = exact w"
  by (simp_all add: consistent_but_def linked_def element_table_ok_def lookup_element_def exact_def)

lemma next_state_sound:
  assumes c: "consistent w" and poss: "possible ev w"
  shows "sound (w\<lparr>env := answers\<rparr>) (next_state ex ev answers w)"
proof -
  let ?w = "w\<lparr>env := answers\<rparr>"
  have c': "consistent ?w" and s: "sound ?w ?w" using c by (simp_all add: sound_def)
  show ?thesis
  proof (cases ev)
    case (Connect memory local)
    obtain r w' where r: "run_state (init_peer memory local) ?w = (r, w')" by fastforce
    with keepsD [OF init_peer_sound s r] Connect show ?thesis by (simp add: next_state_def handle_event_def)
  next
    case (Message p parsed n)
    have f: "fine ?w p ?w" using c' poss Message by (intro fine_refl) (simp_all add: possible_def)
    obtain r w' where r: "run_state (parse_message ex parsed n p) ?w = (r, w')" by fastforce
    with keepsD [OF parse_message_fine f r] Message show ?thesis
      by (simp add: next_state_def handle_event_def fine_sound)
  next
    case (Timer_expired q)
    obtain r w' where r: "run_state (timer_read q) ?w = (r, w')" by (meson surj_pair)
    have "same_view ?w w'" by (rule keeps_viewD [OF _ r]) (intro allI view_rules)
    from sound_view [OF s this] r Timer_expired show ?thesis by (simp add: next_state_def handle_event_def)
  next
    case (Disconnect p)
    have f: "fine ?w p ?w" using c' poss Disconnect by (intro fine_refl) (simp_all add: possible_def)
    obtain r w' where r: "run_state (free_peer p) ?w = (r, w')" by (meson surj_pair)
    with free_peer_sound(1) [OF f r] Disconnect show ?thesis by (simp add: next_state_def handle_event_def)
  qed
qed

theorem reachable_consistent:
  assumes "config_ok c" "reachable ex (start c groups users) w"
  shows "consistent w"
  using assms(2)
proof induction
  case reachable_start
  show ?case by (rule consistent_start [OF assms(1)])
next
  case (reachable_step w ev answers)
  then show ?case using next_state_sound [of w ev answers ex] by (simp add: sound_def)
qed

theorem reachable_ok_exact:
  assumes "config_ok c" "reachable_ok ex (start c groups users) w"
  shows "consistent w \<and> exact w"
  using assms(2)
proof induction
  case reachable_ok_start
  show ?case using consistent_start [OF assms(1)] exact_start by simp
next
  case (reachable_ok_step w ev)
  then show ?case using next_state_sound [of w ev "[]" ex] by (simp add: sound_def)
qed

end
