(* ===== verification/Scenario.thy ===== *)
theory Scenario
  imports Broker_System
begin

text \<open>
  Concrete runs of the broker, evaluated in the logic.

  Three peers connect; the first offers the state \<open>a/b\<close> and the method \<open>a/m\<close>, the second fetches
  \<open>a/\<close>, the third calls.  The properties of the whole system are instantiated on these runs.
\<close>

fun run_events :: "externals \<Rightarrow> event list \<Rightarrow> world \<Rightarrow> world" where
  "run_events ex [] w = w"
| "run_events ex (ev # evs) w = run_events ex evs (next_state ex ev [] w)"

fun all_possible :: "externals \<Rightarrow> event list \<Rightarrow> world \<Rightarrow> bool" where
  "all_possible ex [] w = True"
| "all_possible ex (ev # evs) w = (possible ev w \<and> all_possible ex evs (next_state ex ev [] w))"

lemma run_events_reachable_ok:
  "reachable_ok ex w0 w \<Longrightarrow> all_possible ex evs w \<Longrightarrow> reachable_ok ex w0 (run_events ex evs w)"
  by (induction evs arbitrary: w) (auto intro: reachable_ok_step)

lemma run_events_reachable:
  "reachable ex w0 w \<Longrightarrow> all_possible ex evs w \<Longrightarrow> reachable ex w0 (run_events ex evs w)"
  by (induction evs arbitrary: w) (auto intro: reachable_step)

definition demo_config :: config where
  "demo_config = \<lparr>element_table_order = 2, routing_table_order = 2, initial_fetch_table_size = 1,
     routed_messages_timeout = 5, max_numbers_of_matchers_in_fetch = 12,
     allow_add_only_from_localhost = False, check_json_length = False\<rparr>"

definition demo_externals :: externals where
  "demo_externals = \<lparr>ext_crypt = (\<lambda>key salt. Some (salt @ key)), ext_random_int = 0,
     ext_random_bytes = (\<lambda>i. of_nat i), CJET_NAME = ''cjet'', CJET_VERSION = ''1''\<rparr>"

definition demo_memory :: peer where
  "demo_memory = \<lparr>element_list = [], fetch_list = [], routing_table = [], p_name = None, p_fetch_groups = 0,
     p_set_groups = 0, p_call_groups = 0, p_user_name = None, is_local_connection = False\<rparr>"

definition request_of :: "string \<Rightarrow> (string \<times> json) list \<Rightarrow> json" where
  "request_of name params = JObject [(''id'', JNumber 7 (Finite 7)), (''method'', JString name), (''params'', JObject params)]"

definition message_of :: "peer_ref \<Rightarrow> json \<Rightarrow> event" where
  "message_of p message = Message p (Some (message, 0)) 0"

definition demo_add :: json where
  "demo_add = request_of ''add'' [(''path'', JString ''a/b''), (''value'', JNumber 1 (Finite 1))]"

definition demo_fetch :: json where
  "demo_fetch = request_of ''fetch'' [(''id'', JString ''f''), (''path'', JObject [(''startsWith'', JString ''a/'')])]"

definition demo_events :: "event list" where
  "demo_events = [Connect demo_memory True, Connect demo_memory False, Connect demo_memory False,
     message_of 1 demo_add, message_of 2 demo_fetch]"

definition demo_start :: world where
  "demo_start = start demo_config None None"

definition demo_world :: world where
  "demo_world = run_events demo_externals demo_events demo_start"

lemma demo_config_ok: "config_ok demo_config" by code_simp

lemma demo_possible: "all_possible demo_externals demo_events demo_start" by code_simp

definition demo_fetch_object :: fetch where
  "demo_fetch_object = \<lparr>fetch_id = Some (JString ''f''), f_peer = 2,
     matcher = [Some \<lparr>match_function = Startswith_match, path_elements = [''a/'']\<rparr>]\<rparr>"

definition demo_element_object :: element where
  "demo_element_object = \<lparr>e_path = ''a/b'', e_peer = 1, e_value = Some (JNumber 1 (Finite 1)), fetcher_table = [Some 5],
     e_fetch_groups = 0, e_set_groups = 0, e_call_groups = 0, e_flags = 0, e_timeout_nsec = 5000000000\<rparr>"

text \<open>The run is evaluated once, for all that is used of its final state.\<close>

definition demo_view :: "world \<Rightarrow> bool" where
  "demo_view w \<longleftrightarrow> elements w 4 = Some demo_element_object \<and> fetches w 5 = Some demo_fetch_object \<and>
     peers w 2 \<noteq> None \<and> peers w 3 \<noteq> None \<and> map_option routing_table (peers w 1) = Some (hashtable_create 2) \<and>
     requests w 6 = None \<and> timers w 6 = None \<and> lookup_element w ''a/b'' = Some 4 \<and>
     cfg w = demo_config \<and> all_groups w = None \<and> uuid w = 0 \<and> next_ref w = 6 \<and> env w = []"

lemma demo_viewed: "demo_view demo_world" by code_simp

lemma demo_facts:
  "peers demo_world 2 \<noteq> None" "peers demo_world 3 \<noteq> None" "map_option routing_table (peers demo_world 1) = Some (hashtable_create 2)"
  "requests demo_world 6 = None" "timers demo_world 6 = None" "lookup_element demo_world ''a/b'' = Some 4"
  "cfg demo_world = demo_config" "all_groups demo_world = None" "uuid demo_world = 0" "next_ref demo_world = 6" "env demo_world = []"
  using demo_viewed by (simp_all add: demo_view_def)

lemma demo_element: "elements demo_world 4 = Some
    \<lparr>e_path = ''a/b'', e_peer = 1, e_value = Some (JNumber 1 (Finite 1)), fetcher_table = [Some 5],
     e_fetch_groups = 0, e_set_groups = 0, e_call_groups = 0, e_flags = 0, e_timeout_nsec = 5000000000\<rparr>"
  using demo_viewed by (simp add: demo_view_def demo_element_object_def)

lemma demo_fetch_live: "fetches demo_world 5 = Some demo_fetch_object"
  using demo_viewed by (simp add: demo_view_def)

lemmas demo_peer = demo_facts(1)

lemma demo_reachable_ok: "reachable_ok demo_externals (start demo_config None None) demo_world"
  using demo_possible reachable_ok_start unfolding demo_world_def demo_start_def by (intro run_events_reachable_ok)

lemma demo_reachable: "reachable demo_externals (start demo_config None None) demo_world"
  using demo_possible reachable_start unfolding demo_world_def demo_start_def by (intro run_events_reachable)

end
