(* ===== verification/Requests.thy ===== *)
theory Requests
  imports Scenario
begin

text \<open>
  What single requests do, on top of the invariant of the broker: who may route and change what, whom a
  change reaches, and what becomes of a routed request.
\<close>

subsection \<open>Set and call are authorized\<close>

lemma lookup_element_env [simp]: "lookup_element (w\<lparr>env := e\<rparr>) = lookup_element w"
  by (simp add: lookup_element_def fun_eq_iff)

definition same_but_env :: "world \<Rightarrow> world \<Rightarrow> bool" where
  "same_but_env w0 w \<longleftrightarrow> w\<lparr>env := []\<rparr> = w0\<lparr>env := []\<rparr>"

lemma same_but_env_refl [simp]: "same_but_env w w"
  by (simp add: same_but_env_def)

lemma same_but_envD:
  assumes "same_but_env w0 w"
  shows "sent w = sent w0" "elements w = elements w0" "peers w = peers w0" "all_groups w = all_groups w0"
    "lookup_element w = lookup_element w0"
proof -
  note eq = assms [unfolded same_but_env_def]
  show "sent w = sent w0" using arg_cong [OF eq, of sent] by simp
  show "elements w = elements w0" using arg_cong [OF eq, of elements] by simp
  show "peers w = peers w0" using arg_cong [OF eq, of peers] by simp
  show "all_groups w = all_groups w0" using arg_cong [OF eq, of all_groups] by simp
  show "lookup_element w = lookup_element w0" using arg_cong [OF eq, of lookup_element] by simp
qed

lemma keeps_same_but_env: "env_only m \<Longrightarrow> keeps (same_but_env w0) m"
  by (rule env_only_keeps) (auto simp: env_free_def same_but_env_def)

lemmas same_but_env_rules =
  env_only_ask [THEN keeps_same_but_env] env_only_build [THEN keeps_same_but_env]
  env_only_response [THEN keeps_same_but_env] env_only_groups [THEN keeps_same_but_env]

text \<open>The requests and messages a step has not touched.\<close>

definition nothing_routed :: "world \<Rightarrow> world \<Rightarrow> bool" where
  "nothing_routed w0 w \<longleftrightarrow> sent w = sent w0"

lemma keeps_nothing_routed: "env_only m \<Longrightarrow> keeps (nothing_routed w0) m"
  by (rule env_only_keeps) (auto simp: env_free_def nothing_routed_def)

lemma nothing_routed_modify: "(\<And>w. sent (f w) = sent w) \<Longrightarrow> keeps (nothing_routed w0) (modify f)"
  by (rule keeps_modify) (simp add: nothing_routed_def)

lemma nothing_routed_basic:
  "keeps (nothing_routed w0) (fault x)"
  "keeps (nothing_routed w0) (deref heap dflt r)"
  "keeps (nothing_routed w0) (get_peer r)" "keeps (nothing_routed w0) (get_elem r)" "keeps (nothing_routed w0) (get_request r)"
  "keeps (nothing_routed w0) (set_peer r g)"
  "keeps (nothing_routed w0) new_ref" "keeps (nothing_routed w0) (free_request q)"
proof -
  show f: "keeps (nothing_routed w0) (fault x)" for x unfolding fault_def by (rule nothing_routed_modify) simp
  show d: "keeps (nothing_routed w0) (deref heap dflt r)" for heap :: "world \<Rightarrow> nat \<rightharpoonup> 'b" and dflt r
    unfolding deref_def by (intro keeps_rules f)
  have d': "keeps (nothing_routed w0) (deref heap dflt r)" for heap :: "world \<Rightarrow> nat \<rightharpoonup> 'c" and dflt r
    unfolding deref_def by (intro keeps_rules f)
  show "keeps (nothing_routed w0) (get_peer r)" "keeps (nothing_routed w0) (get_elem r)" "keeps (nothing_routed w0) (get_request r)"
    unfolding get_peer_def get_elem_def get_request_def deref_def by (intro keeps_rules f)+
  show "keeps (nothing_routed w0) (set_peer r g)"
    unfolding set_peer_def by (intro keeps_rules f nothing_routed_modify) simp
  show "keeps (nothing_routed w0) new_ref" "keeps (nothing_routed w0) (free_request q)"
    unfolding new_ref_def free_request_def by (intro keeps_rules nothing_routed_modify; simp)+
qed

lemmas nothing_routed_rules = nothing_routed_basic
  env_only_ask [THEN keeps_nothing_routed] env_only_build [THEN keeps_nothing_routed]
  env_only_response [THEN keeps_nothing_routed] env_only_groups [THEN keeps_nothing_routed]

lemma nothing_routed_setup:
  "keeps (nothing_routed w0) (get_timeout_in_nsec request t d)"
  "keeps (nothing_routed w0) (alloc_routing_request p o' j)"
  "keeps (nothing_routed w0) (create_routed_message path what v i)"
  "keeps (nothing_routed w0) (setup_routing_information e request t q)"
proof -
  have c: "keeps (nothing_routed w0) (convert_seconds_to_nsec d)" for d
    unfolding convert_seconds_to_nsec_def by (cases d) (auto intro!: keeps_rules nothing_routed_rules)
  show t: "keeps (nothing_routed w0) (get_timeout_in_nsec request t d)" for request t d
    unfolding get_timeout_in_nsec_def by (intro keeps_rules nothing_routed_rules c)
  show "keeps (nothing_routed w0) (alloc_routing_request p o' j)"
    unfolding alloc_routing_request_def calculate_size_for_routed_request_id_def fill_routed_request_id_def
    by (intro keeps_rules nothing_routed_rules nothing_routed_modify; simp)
  show "keeps (nothing_routed w0) (create_routed_message path what v i)"
    unfolding create_routed_message_def by (cases what) (simp_all, (intro keeps_rules nothing_routed_rules)+)
  have put: "keeps (nothing_routed w0) (route_table_put p k q)" "keeps (nothing_routed w0) (route_table_remove p k)" for p k q
    unfolding route_table_put_def route_table_remove_def by (intro keeps_rules nothing_routed_rules)+
  have tm: "keeps (nothing_routed w0) (cjet_timer_init q)" "keeps (nothing_routed w0) (timer_start q ns)" for q ns
    unfolding cjet_timer_init_def timer_start_def by (intro keeps_rules nothing_routed_rules nothing_routed_modify; simp)+
  show "keeps (nothing_routed w0) (setup_routing_information e request t q)"
    unfolding setup_routing_information_def by (intro keeps_rules nothing_routed_rules t put tm)
qed


definition access_words :: "element_type \<Rightarrow> element \<Rightarrow> peer \<Rightarrow> group_t \<times> group_t" where
  "access_words what el pr = (case what of STATE \<Rightarrow> (e_set_groups el, p_set_groups pr) | METHOD \<Rightarrow> (e_call_groups el, p_call_groups pr))"

text \<open>What a peer needs to have its request routed to the owner of the element at a path.\<close>

definition authorized :: "world \<Rightarrow> peer_ref \<Rightarrow> element_type \<Rightarrow> string \<Rightarrow> peer_ref \<Rightarrow> bool" where
  "authorized w p what path owner \<longleftrightarrow> (\<exists>e el pr. lookup_element w path = Some e \<and> elements w e = Some el \<and> peers w p = Some pr \<and>
     e_peer el = owner \<and> \<not> element_is_fetch_only el \<and> (what = STATE \<longleftrightarrow> is_state el) \<and>
     case_prod (access_allowed (all_groups w)) (access_words what el pr))"

lemma valid_send:
  "Q \<Longrightarrow> valid (nothing_routed w0) (send_message r msg)
    (\<lambda>_ w. sent w = sent w0 \<or> Q \<and> (\<exists>msg. sent w = sent w0 @ [(r, msg)]))"
  unfolding send_message_def
  by (auto simp: valid_def nothing_routed_def ask_def split: list.splits)

lemma valid_nothing: "keeps (nothing_routed w0) m \<Longrightarrow> valid (nothing_routed w0) m (\<lambda>_ w. sent w = sent w0 \<or> Q w)"
  by (auto simp: keeps_def valid_def nothing_routed_def)


definition request_path :: "json \<Rightarrow> string option" where
  "request_path request = Option.bind (cJSON_GetObjectItem request ''params'')
    (\<lambda>params. Option.bind (cJSON_GetObjectItem params ''path'') valuestring)"

lemma valid_or_return_rel:
  assumes "valid I m (\<lambda>r w. I w \<and> (\<forall>x. r = Inr x \<longrightarrow> R x))" "\<And>e w. I w \<Longrightarrow> Q e w" "\<And>x. R x \<Longrightarrow> valid I (f x) Q"
  shows "valid I (or_return m f) Q"
  unfolding or_return_def
proof (rule valid_bind [OF assms(1)])
  fix r
  show "valid (\<lambda>w. I w \<and> (\<forall>x. r = Inr x \<longrightarrow> R x)) (case r of Inl response \<Rightarrow> ret response | Inr x \<Rightarrow> f x) Q"
    using assms(2,3) by (cases r) (auto simp: valid_def)
qed

lemma valid_rel: "keeps I m \<Longrightarrow> (\<And>w x w'. run_state m w = (Inr x, w') \<Longrightarrow> R x) \<Longrightarrow> valid I m (\<lambda>r w. I w \<and> (\<forall>x. r = Inr x \<longrightarrow> R x))"
  unfolding valid_def keeps_def by (metis prod.collapse)

lemma get_path_Inr:
  "run_state (get_path_from_params request params) w = (Inr path, w') \<Longrightarrow>
   \<exists>j. cJSON_GetObjectItem params ''path'' = Some j \<and> valuestring j = Some path"
  by (auto simp: get_path_from_params_def fail_with_def split: option.splits prod.splits)

lemma env_only_get_path [env_only_rules]: "env_only (get_path_from_params request params)"
  unfolding get_path_from_params_def by (intro env_only_rules)

text \<open>Requests with a path as parameter: a rule for their first two steps.\<close>

lemma valid_with_path:
  assumes "\<And>params path. cJSON_GetObjectItem request ''params'' = Some params \<Longrightarrow> request_path request = Some path \<Longrightarrow>
      valid (same_but_env w0) (f params path) Q"
    and "\<And>e w. same_but_env w0 w \<Longrightarrow> Q e w"
  shows "valid (same_but_env w0) (or_return (get_params request) (\<lambda>params. or_return (get_path_from_params request params) (f params))) Q"
proof (rule valid_or_return_rel)
  show "valid (same_but_env w0) (get_params request)
      (\<lambda>r w. same_but_env w0 w \<and> (\<forall>x. r = Inr x \<longrightarrow> cJSON_GetObjectItem request ''params'' = Some x))"
    by (rule valid_rel [OF keeps_same_but_env get_params_Inr]) (intro env_only_rules)
  fix params assume params: "cJSON_GetObjectItem request ''params'' = Some params"
  show "valid (same_but_env w0) (or_return (get_path_from_params request params) (f params)) Q"
  proof (rule valid_or_return_rel [where R = "\<lambda>path. request_path request = Some path"])
    show "valid (same_but_env w0) (get_path_from_params request params)
        (\<lambda>r w. same_but_env w0 w \<and> (\<forall>x. r = Inr x \<longrightarrow> request_path request = Some x))"
      by (rule valid_rel [OF keeps_same_but_env], intro env_only_rules)
        (auto dest!: get_path_Inr simp: request_path_def params)
  qed (fact assms(2), rule assms(1) [OF params])
qed (fact assms(2))

lemma valid_value:
  assumes "\<And>w. P w \<Longrightarrow> \<exists>x. run_state m w = (x, w) \<and> R x" "\<And>x. R x \<Longrightarrow> valid P (f x) Q"
  shows "valid P (State_Monad.bind m f) Q"
  unfolding valid_def
proof (intro allI impI)
  fix w assume P: "P w"
  obtain x where x: "run_state m w = (x, w)" "R x" using assms(1) [OF P] by blast
  from assms(2) [OF x(2)] P have "Q (fst (run_state (f x) w)) (snd (run_state (f x) w))" by (simp add: valid_def)
  with x(1) show "Q (fst (run_state (State_Monad.bind m f) w)) (snd (run_state (State_Monad.bind m f) w))" by simp
qed

lemma set_or_call_valid:
  assumes "consistent w0" "peers w0 p = Some pr"
  shows "valid (same_but_env w0) (set_or_call p request what) (\<lambda>_ w. sent w = sent w0 \<or>
    (\<exists>path owner. request_path request = Some path \<and> authorized w0 p what path owner \<and> (\<exists>msg. sent w = sent w0 @ [(owner, msg)])))"
    (is "valid _ _ (\<lambda>_ w. ?Q w)")
proof -
  have quiet: "valid (same_but_env w0) m (\<lambda>_ w. ?Q w)" if "env_only m" for m :: "json option cm"
    using keeps_same_but_env [OF that, of w0] unfolding keeps_def valid_def by (blast dest: same_but_envD(1))
  have access: "\<exists>x. run_state (has_access a b) w = (x, w) \<and> x = access_allowed (all_groups w0) a b" if "same_but_env w0 w" for a b w
    using same_but_envD(4) [OF that] by (simp add: run_groups)
  show ?thesis
    unfolding set_or_call_def
    apply (rule valid_with_path)
    subgoal premises path for params path
      apply (rule valid_value [where R = "\<lambda>x. x = lookup_element w0 path"])
       apply (simp add: same_but_envD)
      apply (rule valid_case_option)
       apply (rule quiet, intro env_only_rules)
      subgoal premises e for found e
      proof -
        have found: "lookup_element w0 path = Some e" using e by simp
        then obtain el where el: "elements w0 e = Some el" using consistent_butD(7) [OF assms(1)] by blast
        show ?thesis
          apply (rule valid_value [where R = "\<lambda>x. x = el"])
           apply (simp add: run_get el same_but_envD)
          apply (rule valid_value [where R = "\<lambda>x. x = pr"])
           apply (simp add: run_get assms(2) same_but_envD)
          apply (rule valid_if, rule quiet, intro env_only_rules)
          apply (rule valid_if, rule quiet, intro env_only_rules)
          apply (rule valid_value [OF access], assumption)
          apply (rule valid_value [OF access], assumption)
          apply (rule valid_if, rule quiet, intro env_only_rules)
          subgoal premises ok for el' pr' may_set may_call
          proof -
            have "authorized w0 p what path (e_peer el)"
              using ok found el assms(2) by (cases what) (auto simp: authorized_def is_state_def access_words_def)
            then have send: "valid (nothing_routed w0) (send_message (e_peer el') msg) (\<lambda>_. ?Q)" for msg
              using path ok by (intro valid_post [OF valid_send [of True]]) auto
            have after: "keeps ?Q m" if "env_only m" for m :: "json option cm"
              by (rule env_only_keeps [OF that]) (simp add: env_free_def)
            have none: "valid (nothing_routed w0) m (\<lambda>_. ?Q)" if "keeps (nothing_routed w0) m" for m :: "json option cm"
              using that by (simp add: keeps_def valid_def nothing_routed_def)
            show ?thesis
              apply (rule valid_pre [where P' = "nothing_routed w0"])
               apply (unfold Let_def)
               apply (rule valid_if, rule none, intro keeps_rules nothing_routed_rules)
               apply (rule valid_keeps_bind [OF nothing_routed_setup(2)])
               apply (rule valid_case_option, rule none, intro keeps_rules nothing_routed_rules)
               apply (rule valid_if, rule none, intro keeps_rules nothing_routed_rules)
               apply (rule valid_keeps_bind [OF nothing_routed_basic(5)])
               apply (rule valid_keeps_bind [OF nothing_routed_setup(3)])
               apply (rule valid_case_option, rule none, intro keeps_rules nothing_routed_rules)
               apply (rule valid_keeps_bind [OF nothing_routed_setup(4)])
               apply (rule valid_case_sum, rule none, intro keeps_rules nothing_routed_rules)
               apply (rule valid_keeps_bind, intro nothing_routed_rules)
               apply (rule valid_case_option, rule none, intro keeps_rules nothing_routed_rules)
               apply (rule valid_bind [OF send])
               apply (subst keeps_valid [symmetric])
               apply (rule after, intro env_only_rules)
              apply (simp add: nothing_routed_def same_but_envD(1))
              done
          qed
          done
      qed
      done
    subgoal by (simp add: same_but_envD(1))
    done
qed


text \<open>C7: Only who may does.  Whatever fails, a set or call request makes the broker send something to a peer only if an
  element stands at its path that is not fetch-only and is a state or a method as the request needs it, and the
  requesting peer is in one of the groups the element asks for; then it sends one message, to the owner of that
  element.  All other requests leave every message queue as it was.\<close>
theorem routing_is_authorized:
  assumes "reachable ex (start c gs us) w" "config_ok c" "peers w p \<noteq> None"
    and "run_state (set_or_call p request what) (w\<lparr>env := answers\<rparr>) = (r, w')" "sent w' \<noteq> sent w"
  shows "\<exists>path owner msg. request_path request = Some path \<and> authorized w p what path owner \<and> sent w' = sent w @ [(owner, msg)]"
proof -
  let ?w = "w\<lparr>env := answers\<rparr>"
  obtain pr where pr: "peers ?w p = Some pr" using assms(3) by auto
  have "consistent ?w" using reachable_consistent assms(1,2) by simp
  from set_or_call_valid [OF this pr, of request what] have "sent w' = sent w \<or>
      (\<exists>path owner. request_path request = Some path \<and> authorized ?w p what path owner \<and> (\<exists>msg. sent w' = sent w @ [(owner, msg)]))"
    using assms(4) by (fastforce simp: valid_def dest: spec [of _ ?w])
  moreover have "authorized ?w = authorized w" by (simp add: authorized_def fun_eq_iff)
  ultimately show ?thesis using assms(5) by auto
qed

subsection \<open>The way of a routed request\<close>

definition routed_id :: "world \<Rightarrow> peer_ref \<Rightarrow> json option \<Rightarrow> string" where
  "routed_id w p origin = butlast (routed_id_text (uuid w) p origin)"

definition routed_message :: "string \<Rightarrow> element_type \<Rightarrow> json option \<Rightarrow> string \<Rightarrow> json" where
  "routed_message path what v rid = (let x = (case v of Some x \<Rightarrow> x | None \<Rightarrow> JObject [])
     in JObject [(''id'', JString rid), (''method'', JString path),
        (''params'', case what of METHOD \<Rightarrow> x | STATE \<Rightarrow> JObject [(''value'', x)])])"

lemma run_create_routed_message [pure_run]:
  "env w = [] \<Longrightarrow> run_state (create_routed_message path what v rid) w = (Some (routed_message path what v rid), w)"
  by (cases what; cases v) (simp_all add: create_routed_message_def routed_message_def pure_run append_member_def update_member_def)

lemma run_alloc_routing_request [pure_run]:
  assumes "env w = []"
  shows "run_state (alloc_routing_request p own origin) w = (Some (next_ref w),
    w\<lparr>uuid := uuid w + 1, next_ref := next_ref w + 1, requests := (requests w)(next_ref w \<mapsto>
      \<lparr>requesting_peer = p, owner_peer = own, origin_request_id = origin, req_id = routed_id w p origin\<rparr>)\<rparr>)"
  using assms
  by (cases origin) (simp_all add: alloc_routing_request_def calculate_size_for_routed_request_id_def fill_routed_request_id_def
      routed_id_def butlast_conv_take new_ref_def run_ask pure_run)

lemma run_setup_routing_information:
  assumes "env w = []" "elements w e = Some el" "peers w (e_peer el) = Some opr" "requests w q = Some rq" "e_timeout_nsec el \<noteq> 0"
    and "hashtable_put (routing_table_order (cfg w)) (routing_table opr) (Some (req_id rq)) q = (HASHTABLE_SUCCESS, prev, t')"
  shows "run_state (setup_routing_information e request None q) w = (Inr (),
    w\<lparr>timers := (timers w)(q \<mapsto> \<lparr>registered = True, armed = Some (e_timeout_nsec el)\<rparr>),
      peers := (peers w)(e_peer el \<mapsto> opr\<lparr>routing_table := t'\<rparr>)\<rparr>)"
  using assms
  by (simp add: setup_routing_information_def get_timeout_in_nsec_def pure_run route_table_put_def set_armed_def)


text \<open>The state after a request has been routed.\<close>

definition routed ::
    "world \<Rightarrow> peer_ref \<Rightarrow> element \<Rightarrow> peer \<Rightarrow> json option \<Rightarrow> req_ref hashtable \<Rightarrow> json \<Rightarrow> world" where
  "routed w p el opr origin t' msg = w\<lparr>uuid := uuid w + 1, next_ref := next_ref w + 1,
     requests := (requests w)(next_ref w \<mapsto> \<lparr>requesting_peer = p, owner_peer = e_peer el, origin_request_id = origin,
       req_id = routed_id w p origin\<rparr>),
     timers := (timers w)(next_ref w \<mapsto> \<lparr>registered = True, armed = Some (e_timeout_nsec el)\<rparr>),
     peers := (peers w)(e_peer el \<mapsto> opr\<lparr>routing_table := t'\<rparr>),
     sent := sent w @ [(e_peer el, msg)]\<rparr>"

text \<open>A request that is to be routed, at the element \<open>e\<close>.\<close>

definition routable :: "world \<Rightarrow> peer_ref \<Rightarrow> json \<Rightarrow> element_type \<Rightarrow> string \<Rightarrow> elem_ref \<Rightarrow> element \<Rightarrow> json option \<Rightarrow> bool" where
  "routable w p request what path e el v \<longleftrightarrow>
     (\<exists>params pr. cJSON_GetObjectItem request ''params'' = Some params \<and> cJSON_GetObjectItem params ''path'' = Some (JString path) \<and>
        cJSON_GetObjectItem params ''timeout'' = None \<and>
        cJSON_GetObjectItem params (case what of STATE \<Rightarrow> ''value'' | METHOD \<Rightarrow> ''args'') = v \<and> (what = STATE \<longrightarrow> v \<noteq> None) \<and>
        peers w p = Some pr \<and>
        (case what of STATE \<Rightarrow> access_allowed (all_groups w) (e_set_groups el) (p_set_groups pr)
         | METHOD \<Rightarrow> access_allowed (all_groups w) (e_call_groups el) (p_call_groups pr))) \<and>
     lookup_element w path = Some e \<and> elements w e = Some el \<and> \<not> element_is_fetch_only el \<and> (what = STATE \<longleftrightarrow> is_state el) \<and>
     e_timeout_nsec el \<noteq> 0 \<and>
     (case cJSON_GetObjectItem request ''id'' of None \<Rightarrow> True | Some j \<Rightarrow> is_string j \<or> is_number j)"

lemma run_get_path [pure_run]:
  "cJSON_GetObjectItem params ''path'' = Some (JString path) \<Longrightarrow> run_state (get_path_from_params request params) w = (Inr path, w)"
  by (simp add: get_path_from_params_def valuestring_def)

lemma run_set_or_call:
  assumes "env w = []" "routable w p request what path e el v" "peers w (e_peer el) = Some opr"
    and "hashtable_put (routing_table_order (cfg w)) (routing_table opr)
      (Some (routed_id w p (cJSON_GetObjectItem request ''id''))) (next_ref w) = (HASHTABLE_SUCCESS, prev, t')"
  shows "run_state (set_or_call p request what) w =
    (None, routed w p el opr (cJSON_GetObjectItem request ''id'') t'
       (routed_message path what v (routed_id w p (cJSON_GetObjectItem request ''id''))))"
proof -
  let ?origin = "cJSON_GetObjectItem request ''id''"
  let ?w1 = "w\<lparr>uuid := uuid w + 1, next_ref := Suc (next_ref w), requests := (requests w)(next_ref w \<mapsto>
      \<lparr>requesting_peer = p, owner_peer = e_peer el, origin_request_id = ?origin, req_id = routed_id w p ?origin\<rparr>)\<rparr>"
  obtain params pr where r: "cJSON_GetObjectItem request ''params'' = Some params"
    "cJSON_GetObjectItem params ''path'' = Some (JString path)" "cJSON_GetObjectItem params ''timeout'' = None"
    "cJSON_GetObjectItem params (case what of STATE \<Rightarrow> ''value'' | METHOD \<Rightarrow> ''args'') = v" "what = STATE \<longrightarrow> v \<noteq> None"
    "peers w p = Some pr" "what = STATE \<longrightarrow> access_allowed (all_groups w) (e_set_groups el) (p_set_groups pr)"
    "what = METHOD \<longrightarrow> access_allowed (all_groups w) (e_call_groups el) (p_call_groups pr)"
    "lookup_element w path = Some e" "elements w e = Some el" "\<not> element_is_fetch_only el" "what = STATE \<longleftrightarrow> is_state el"
    "e_timeout_nsec el \<noteq> 0" "\<not> (case ?origin of None \<Rightarrow> False | Some j \<Rightarrow> \<not> is_string j \<and> \<not> is_number j)"
    using assms(2) unfolding routable_def by (cases what) (auto split: option.splits)
  have kind: "\<not> ((what = STATE \<and> e_value el = None) \<or> (what = METHOD \<and> e_value el \<noteq> None))"
    using r(12) by (cases what) (auto simp: is_state_def)
  have access: "\<not> ((what = STATE \<and> \<not> access_allowed (all_groups w) (e_set_groups el) (p_set_groups pr)) \<or>
      (what = METHOD \<and> \<not> access_allowed (all_groups w) (e_call_groups el) (p_call_groups pr)))"
    using r(7,8) by blast
  have prepared: "run_state (setup_routing_information e request None (next_ref w)) ?w1 = (Inr (),
    ?w1\<lparr>timers := (timers ?w1)(next_ref w \<mapsto> \<lparr>registered = True, armed = Some (e_timeout_nsec el)\<rparr>),
      peers := (peers ?w1)(e_peer el \<mapsto> opr\<lparr>routing_table := t'\<rparr>)\<rparr>)"
    by (rule run_setup_routing_information) (use assms r in auto)
  note steps = set_or_call_def or_return_def pure_run routed_def send_message_def run_ask prepared r(1-3,6,9-11,13,14) assms(1)
  show ?thesis
  proof (cases what)
    case STATE
    with r(4,5,7,12) obtain a y where "v = Some a" "e_value el = Some y" "cJSON_GetObjectItem params ''value'' = Some a"
      "access_allowed (all_groups w) (e_set_groups el) (p_set_groups pr)"
      by (auto simp: is_state_def)
    with STATE show ?thesis by (simp add: steps)
  next
    case METHOD
    with r(4,8,12) have "e_value el = None" "cJSON_GetObjectItem params ''args'' = v"
      "access_allowed (all_groups w) (e_call_groups el) (p_call_groups pr)"
      by (auto simp: is_state_def)
    with METHOD show ?thesis by (simp add: steps)
  qed
qed


text \<open>The answer of an owner, in any state in which the request still waits.\<close>

definition answer_of :: "string \<Rightarrow> string \<Rightarrow> json \<Rightarrow> json" where
  "answer_of rid k x = JObject [(''id'', JString rid), (k, x)]"

lemma answer_members:
  "cJSON_GetObjectItem (answer_of rid k x) ''id'' = Some (JString rid)"
  "k \<in> {''result'', ''error''} \<Longrightarrow> cJSON_GetObjectItem (answer_of rid k x) ''method'' = None"
  "cJSON_GetObjectItem (answer_of rid ''result'' x) ''result'' = Some x"
  "cJSON_GetObjectItem (answer_of rid ''error'' x) ''result'' = None"
  "cJSON_GetObjectItem (answer_of rid ''error'' x) ''error'' = Some x"
  by (auto simp: answer_of_def cJSON_GetObjectItem_def children_def case_insensitive_strcmp_eq_def tolower_def)

lemma run_handle_routing_response:
  assumes "env w = []" "peers w own = Some opr" "table_inv (routing_table_order (cfg w)) (routing_table opr)"
    and "hashtable_get (routing_table_order (cfg w)) (routing_table opr) rid = Some q"
    and "requests w q = Some rq" "origin_request_id rq = Some jid" "id_value jid = Some i"
    and "hashtable_remove (routing_table_order (cfg w)) (routing_table opr) rid = (found, t')"
  shows "run_state (handle_routing_response (answer_of rid k x) x k own) w = (True,
    w\<lparr>peers := (peers w)(own \<mapsto> opr\<lparr>routing_table := t'\<rparr>), timers := (timers w)(q := None),
      requests := (requests w)(q := None), sent := sent w @ [(requesting_peer rq, JObject [(''id'', i), (k, x)])]\<rparr>)"
proof -
  have "found = Some q" using ht.remove_result [OF assms(3,8)] assms(4) by simp
  with assms show ?thesis
    by (simp add: handle_routing_response_def answer_members valuestring_def route_table_remove_def pure_run
        response_value_def format_and_send_response_def run_need free_request_def)
qed



subsection \<open>Whom a change reaches\<close>

definition entries :: "'a option list \<Rightarrow> 'a list" where
  "entries table = map the (filter (\<lambda>x. x \<noteq> None) table)"

lemma set_entries: "f \<in> set (entries table) \<longleftrightarrow> Some f \<in> set table"
  by (force simp: entries_def)

lemma count_entries: "count_list (entries table) f = count_list table (Some f)"
  by (induction table) (auto simp: entries_def)

definition events_for :: "world \<Rightarrow> element \<Rightarrow> string \<Rightarrow> fetch_ref list \<Rightarrow> (peer_ref \<times> json) list" where
  "events_for w el ev fs = map (\<lambda>f. let ft = the (fetches w f) in (f_peer ft, notification el (the (fetch_id ft)) ev)) fs"

lemma run_notify_loop:
  assumes "env w = []" "\<forall>f. Some f \<in> set table \<longrightarrow> (\<exists>ft jid. fetches w f = Some ft \<and> fetch_id ft = Some jid)"
  shows "run_state (for_each_ok (\<lambda>entry. case entry of None \<Rightarrow> ret True
       | Some r \<Rightarrow> do { f \<leftarrow> get_fetch r; notify_fetching_peer el f ev }) table) w =
    (True, w\<lparr>sent := sent w @ events_for w el ev (entries table)\<rparr>)"
  using assms
proof (induction table arbitrary: w)
  case (Cons x table)
  show ?case
  proof (cases x)
    case None
    with Cons show ?thesis by (simp add: entries_def)
  next
    case (Some r)
    with Cons.prems obtain ft jid where ft: "fetches w r = Some ft" "fetch_id ft = Some jid" by auto
    let ?w = "w\<lparr>sent := sent w @ [(f_peer ft, notification el jid ev)]\<rparr>"
    have "events_for ?w el ev fs = events_for w el ev fs" for fs by (simp add: events_for_def)
    with Cons.IH [of ?w] Cons.prems ft Some show ?thesis by (simp add: pure_run events_for_def entries_def)
  qed
qed (simp add: entries_def events_for_def)

lemma run_notify_fetchers:
  assumes "env w = []" "elements w e = Some el"
    and "\<forall>f. Some f \<in> set (fetcher_table el) \<longrightarrow> (\<exists>ft jid. fetches w f = Some ft \<and> fetch_id ft = Some jid)"
  shows "run_state (notify_fetchers e ev) w = (True, w\<lparr>sent := sent w @ events_for w el ev (entries (fetcher_table el))\<rparr>)"
  using run_notify_loop [OF assms(1,3)] assms(2) by (simp add: notify_fetchers_def pure_run)

lemma count_distinct: "(\<And>x. count_list xs x \<le> 1) \<Longrightarrow> distinct xs"
proof (induction xs)
  case (Cons y ys)
  have "count_list ys x \<le> 1" for x using Cons.prems [of x] by (simp split: if_splits)
  moreover have "y \<notin> set ys" using Cons.prems [of y] by (simp add: count_list_0_iff)
  ultimately show ?case using Cons.IH by simp
qed simp

lemma subscribers_exact:
  assumes "consistent w" "exact w" "elements w e = Some el"
  shows "distinct (entries (fetcher_table el))" "set (entries (fetcher_table el)) = {f. wants w e f}"
proof -
  have "count_list (entries (fetcher_table el)) f \<le> 1" for f
    using consistent_butD(8) [OF assms(1), of e f] assms(3) by (simp add: count_entries subs_def split: if_splits)
  then show "distinct (entries (fetcher_table el))" by (rule count_distinct)
  show "set (entries (fetcher_table el)) = {f. wants w e f}"
  proof -
    have "Some f \<in> set (fetcher_table el)" if "wants w e f" for f
    proof -
      have "count_list (fetcher_table el) (Some f) = 1" using assms(2,3) that by (auto simp: exact_def subs_def split: option.splits)
      then show ?thesis using count_list_0_iff [of "fetcher_table el" "Some f"] by simp
    qed
    then show ?thesis using subs_live(1) [OF assms(1,3)] by (auto simp: set_entries)
  qed
qed

definition answer_to :: "peer_ref \<Rightarrow> json option \<Rightarrow> (peer_ref \<times> json) list" where
  "answer_to p response = (case response of None \<Rightarrow> [] | Some r \<Rightarrow> [(p, r)])"

lemma run_send_response:
  "env w = [] \<Longrightarrow> run_state (send_response response p) w = (True, w\<lparr>sent := sent w @ answer_to p response\<rparr>)"
  by (cases response) (simp_all add: send_response_def answer_to_def pure_run run_need)

text \<open>C9: A change reaches all subscribers.  While nothing fails, a change request of the owner of a state, with a value,
  sets the value of that state and nothing else; every fetch that is entitled to the state and accepts its path gets
  exactly one change event with the new value, no other fetch gets any, and then the owner gets the answer true if its
  request had an id.\<close>
theorem change_reaches_subscribers:
  assumes "config_ok c" "reachable_ok ex (start c gs us) w"
    and "elements w e = Some el" "e_value el \<noteq> None"
    and "cJSON_GetObjectItem request ''method'' = Some (JString ''change'')"
    and "cJSON_GetObjectItem request ''params'' = Some params" "cJSON_GetObjectItem params ''path'' = Some (JString (e_path el))"
    and "cJSON_GetObjectItem params ''value'' = Some v"
    and "run_state (parse_json_rpc ex request (e_peer el)) (w\<lparr>env := []\<rparr>) = (ok, w2)"
  shows "\<exists>fs. ok \<and> distinct fs \<and> set fs = {f. wants w e f} \<and>
    w2 = w\<lparr>env := [], elements := (elements w)(e \<mapsto> el\<lparr>e_value := Some v\<rparr>),
      sent := sent w @ events_for w (el\<lparr>e_value := Some v\<rparr>) ''change'' fs @ answer_to (e_peer el) (result_value request JTrue)\<rparr>"
proof -
  have c: "consistent w" "exact w" using reachable_ok_exact [OF assms(1,2)] by auto
  let ?el = "el\<lparr>e_value := Some v\<rparr>" and ?fs = "entries (fetcher_table el)"
  let ?w = "w\<lparr>env := [], elements := (elements w)(e \<mapsto> ?el)\<rparr>"
  have lookup: "lookup_element w (e_path el) = Some e" using consistent_butD(7) [OF c(1)] assms(3) by blast
  have "\<exists>ft jid. fetches w f = Some ft \<and> fetch_id ft = Some jid" if f: "Some f \<in> set (fetcher_table el)" for f
  proof -
    obtain ft where ft: "fetches w f = Some ft" using subs_live(3) [OF c(1) assms(3) f] by blast
    then obtain pr where pr: "peers w (f_peer ft) = Some pr" "f \<in> set (fetch_list pr)"
      using consistent_butD(6) [OF c(1)] by blast
    with linkedD(6) [OF consistent_butD(2) [OF c(1)] pr] ft show ?thesis by auto
  qed
  then have "run_state (notify_fetchers e ''change'') ?w = (True, ?w\<lparr>sent := sent w @ events_for w ?el ''change'' ?fs\<rparr>)"
    using run_notify_fetchers [of ?w e ?el "''change''"] by (simp add: events_for_def)
  then have "run_state (change_state (e_peer el) request) (w\<lparr>env := []\<rparr>) =
      (result_value request JTrue, ?w\<lparr>sent := sent w @ events_for w ?el ''change'' ?fs\<rparr>)"
    using assms(3,4,6-8) lookup
    by (auto simp: change_state_def or_return_def pure_run set_elem_def)
  then have "w2 = ?w\<lparr>sent := sent w @ events_for w ?el ''change'' ?fs @ answer_to (e_peer el) (result_value request JTrue)\<rparr> \<and> ok"
    using assms(5,9) by (simp add: parse_json_rpc_def valuestring_def handle_method_def run_send_response)
  then show ?thesis using subscribers_exact [OF c assms(3)] by (intro exI [of _ ?fs]) simp
qed


subsection \<open>A request in the demo world\<close>

definition demo_set :: json where
  "demo_set = request_of ''set'' [(''path'', JString ''a/b''), (''value'', JNumber 5 (Finite 5))]"

lemma demo_members:
  "cJSON_GetObjectItem demo_set ''id'' = Some (JNumber 7 (Finite 7))" "cJSON_GetObjectItem demo_set ''method'' = Some (JString ''set'')"
  "cJSON_GetObjectItem demo_set ''params'' = Some (JObject [(''path'', JString ''a/b''), (''value'', JNumber 5 (Finite 5))])"
  "cJSON_GetObjectItem (JObject [(''path'', JString ''a/b''), (''value'', JNumber 5 (Finite 5))]) ''path'' = Some (JString ''a/b'')"
  "cJSON_GetObjectItem (JObject [(''path'', JString ''a/b''), (''value'', JNumber 5 (Finite 5))]) ''value'' = Some (JNumber 5 (Finite 5))"
  "cJSON_GetObjectItem (JObject [(''path'', JString ''a/b''), (''value'', JNumber 5 (Finite 5))]) ''timeout'' = None"
  by code_simp+

definition demo_routed_id :: string where
  "demo_routed_id = ''(null)_0_0x''"

lemma demo_routed_id: "routed_id demo_world 3 (Some (JNumber 7 (Finite 7))) = demo_routed_id"
proof -
  have "butlast (routed_id_text 0 3 (Some (JNumber 7 (Finite 7)))) = demo_routed_id" by code_simp
  then show ?thesis by (simp add: routed_id_def demo_facts)
qed

lemma demo_put:
  obtains prev t' where "hashtable_put 2 (hashtable_create 2) (Some demo_routed_id) (6 :: nat) = (HASHTABLE_SUCCESS, prev, t')"
proof -
  have "fst (hashtable_put 2 (hashtable_create 2) (Some demo_routed_id) (6 :: nat)) = HASHTABLE_SUCCESS" by code_simp
  with that show thesis by (metis prod.collapse)
qed

lemma demo_routable: "routable demo_world 3 demo_set STATE ''a/b'' 4 demo_element_object (Some (JNumber 5 (Finite 5)))"
proof -
  have "\<exists>pr. peers demo_world 3 = Some pr" using demo_facts(2) by blast
  then show ?thesis
    using demo_element by (simp add: routable_def demo_members demo_facts(4-) demo_element_object_def access_allowed_def
      element_is_fetch_only_def FETCH_ONLY_FLAG_def is_state_def is_number_def)
qed

theorem routing_is_authorized_witness:
  shows "\<exists>path owner msg. request_path demo_set = Some path \<and> authorized demo_world 3 STATE path owner \<and>
    sent (snd (run_state (set_or_call 3 demo_set STATE) (demo_world\<lparr>env := []\<rparr>))) = sent demo_world @ [(owner, msg)]"
proof -
  obtain opr where opr: "peers demo_world 1 = Some opr" "routing_table opr = hashtable_create 2" using demo_facts(3) by auto
  obtain prev t' where put: "hashtable_put 2 (hashtable_create 2) (Some demo_routed_id) (6 :: nat) = (HASHTABLE_SUCCESS, prev, t')" by (rule demo_put)
  have w: "demo_world\<lparr>env := []\<rparr> = demo_world" using demo_facts(11) by simp
  have "sent (snd (run_state (set_or_call 3 demo_set STATE) (demo_world\<lparr>env := []\<rparr>))) \<noteq> sent demo_world"
    using run_set_or_call [OF demo_facts(11) demo_routable, of opr prev t'] opr put
    by (simp add: w demo_element_object_def demo_facts demo_members demo_routed_id demo_config_def routed_def)
  then show ?thesis
    using routing_is_authorized [OF demo_reachable demo_config_ok demo_facts(2), of demo_set STATE "[]"] by (metis prod.collapse)
qed



definition demo_change :: json where
  "demo_change = request_of ''change'' [(''path'', JString ''a/b''), (''value'', JNumber 5 (Finite 5))]"

theorem change_reaches_subscribers_witness:
  shows "\<exists>fs. set fs = {f. wants demo_world 4 f} \<and> (5 \<in> set fs) \<and>
    sent (snd (run_state (parse_json_rpc demo_externals demo_change 1) (demo_world\<lparr>env := []\<rparr>))) =
      sent demo_world @ events_for demo_world (demo_element_object\<lparr>e_value := Some (JNumber 5 (Finite 5))\<rparr>) ''change'' fs @
        answer_to 1 (result_value demo_change JTrue)"
proof -
  have el: "elements demo_world 4 = Some demo_element_object" by (simp add: demo_element demo_element_object_def)
  obtain ok w2 where run: "run_state (parse_json_rpc demo_externals demo_change (e_peer demo_element_object)) (demo_world\<lparr>env := []\<rparr>) = (ok, w2)"
    by (metis surj_pair)
  have m: "cJSON_GetObjectItem demo_change ''method'' = Some (JString ''change'')"
    "cJSON_GetObjectItem demo_change ''params'' = Some (JObject [(''path'', JString ''a/b''), (''value'', JNumber 5 (Finite 5))])"
    by code_simp+
  have "wants demo_world 4 5"
    by (rule subs_live(1) [OF reachable_consistent [OF demo_config_ok demo_reachable] el]) (simp add: demo_element_object_def)
  with change_reaches_subscribers [OF demo_config_ok demo_reachable_ok el _ m _ demo_members(5) run] demo_members(4) run show ?thesis
    by (force simp: demo_element_object_def)
qed

end
