(* ===== verification/Replies.thy ===== *)
theory Replies
  imports Requests
begin

text \<open>
  What the broker says, as JSON-RPC: every message it sends is a notification, a request or a response
  of the form the protocol gives it, and every request is answered once, under its own id.

  \<open>calm T b w0 w\<close> is what a run without failed calls keeps: from \<open>w0\<close> to \<open>w\<close> only messages with \<open>T\<close> were
  sent, faults were only added (some, if \<open>b\<close>), fetch ids are strings or numbers and timeouts are not 0.
  The locale \<open>speaker\<close> holds the rules for the operations that send notifications only; \<open>responder\<close> and
  \<open>router\<close> add those that answer and route.
\<close>

subsection \<open>The forms of a message\<close>

definition is_id :: "json \<Rightarrow> bool" where
  "is_id j \<longleftrightarrow> is_string j \<or> is_number j"

definition is_notification :: "json \<Rightarrow> bool" where
  "is_notification m = (case m of
     JObject [(a, i), (b, params)] \<Rightarrow> a = ''method'' \<and> is_id i \<and> b = ''params'' \<and> is_object params
   | _ \<Rightarrow> False)"

definition is_response :: "json \<Rightarrow> bool" where
  "is_response m = (case m of
     JObject [(a, i), (b, x)] \<Rightarrow> a = ''id'' \<and> is_id i \<and> (b = ''result'' \<or> b = ''error'')
   | _ \<Rightarrow> False)"

definition is_request :: "json \<Rightarrow> bool" where
  "is_request m = (case m of
     JObject [(a, i), (b, path), (c, params)] \<Rightarrow> a = ''id'' \<and> is_string i \<and> b = ''method'' \<and> is_string path \<and> c = ''params''
   | _ \<Rightarrow> False)"

definition is_json_rpc :: "json \<Rightarrow> bool" where
  "is_json_rpc m \<longleftrightarrow> is_notification m \<or> is_response m \<or> is_request m"

text \<open>The answer to a request: none without a usable id, otherwise a response that carries the id.\<close>

definition is_reply :: "json \<Rightarrow> json option \<Rightarrow> bool" where
  "is_reply request r = (case Option.bind (cJSON_GetObjectItem request ''id'') id_value of
     None \<Rightarrow> r = None
   | Some i \<Rightarrow> (case r of
       Some response \<Rightarrow> is_response response \<and> cJSON_GetObjectItem response ''id'' = Some i
     | None \<Rightarrow> False))"

lemma id_value_is_id: "id_value j = Some i \<Longrightarrow> is_id i"
  by (cases j) (auto simp: id_value_def is_id_def json_number_def is_number_def is_string_def)

lemma is_reply_response: "is_reply request (Some r) \<Longrightarrow> is_response r"
  by (simp add: is_reply_def split: option.splits)

lemma response_value_response: "response_value jid k x = Some r \<Longrightarrow> k = ''result'' \<or> k = ''error'' \<Longrightarrow> is_response r"
  by (auto simp: response_value_def is_response_def id_value_is_id split: option.splits)

lemma is_reply_values [simp]:
  "is_reply request (error_value request code t r)" "is_reply request (result_value request x)"
  by (auto simp: is_reply_def error_value_def result_value_def response_value_def is_response_def id_value_is_id split: option.split)

lemma notification_is_notification: "is_id jid \<Longrightarrow> is_notification (notification e jid ev)"
  by (simp add: is_notification_def notification_def is_object_def)

subsection \<open>Runs that keep the forms\<close>

definition named :: "fetch \<Rightarrow> bool" where
  "named ft \<longleftrightarrow> (case fetch_id ft of None \<Rightarrow> True | Some i \<Rightarrow> is_id i)"

definition timed :: "element \<Rightarrow> bool" where
  "timed el \<longleftrightarrow> e_timeout_nsec el \<noteq> 0"

definition typed_objects :: "world \<Rightarrow> bool" where
  "typed_objects w \<longleftrightarrow> (\<forall>f ft. fetches w f = Some ft \<longrightarrow> named ft) \<and> (\<forall>e el. elements w e = Some el \<longrightarrow> timed el)"

definition calm :: "(json \<Rightarrow> bool) \<Rightarrow> bool \<Rightarrow> world \<Rightarrow> world \<Rightarrow> bool" where
  "calm T b w0 w \<longleftrightarrow> env w = [] \<and> config_ok (cfg w) \<and> typed_objects w \<and>
     (\<exists>ms. sent w = sent w0 @ ms \<and> (\<forall>(p, m)\<in>set ms. T m)) \<and>
     (\<exists>fs. faults w = faults w0 @ fs \<and> (b \<longrightarrow> fs \<noteq> []))"

named_theorems calm_rules "operations that keep the forms of messages"

lemma calmD: "calm T b w0 w \<Longrightarrow> env w = []" "calm T b w0 w \<Longrightarrow> config_ok (cfg w)" "calm T b w0 w \<Longrightarrow> typed_objects w"
  by (simp_all add: calm_def)

lemma calm_env_only: "env_only m \<Longrightarrow> keeps (calm T b w0) m"
  by (rule keepsI) (metis calmD(1) env_only_run snd_conv)

lemmas calm_answers [calm_rules] = env_only_ask [THEN calm_env_only] env_only_build [THEN calm_env_only]
  env_only_response [THEN calm_env_only] env_only_groups [THEN calm_env_only] env_only_element_table_get [THEN calm_env_only]

lemma calm_modify:
  "(\<And>w. env (f w) = env w \<and> cfg (f w) = cfg w \<and> sent (f w) = sent w \<and> faults (f w) = faults w) \<Longrightarrow>
   (\<And>w. typed_objects w \<Longrightarrow> typed_objects (f w)) \<Longrightarrow> keeps (calm T b w0) (modify f)"
  by (rule keeps_modify) (simp add: calm_def)

lemma calm_fault: "calm T b w0 w \<Longrightarrow> calm T b' w0 (w\<lparr>faults := faults w @ [x]\<rparr>)"
  by (auto simp: calm_def typed_objects_def)

lemma calm_fault_rule [calm_rules]: "keeps (calm T b w0) (fault x)"
  unfolding fault_def by (rule keeps_modify) (rule calm_fault)

lemma calm_deref [calm_rules]: "keeps (calm T b w0) (deref heap dflt r)"
  unfolding deref_def by (intro keeps_rules calm_rules)

lemma calm_get [calm_rules]:
  "keeps (calm T b w0) (get_peer p)" "keeps (calm T b w0) (get_elem e)"
  "keeps (calm T b w0) (get_fetch f)" "keeps (calm T b w0) (get_request q)"
  unfolding get_peer_def get_elem_def get_fetch_def get_request_def by (intro calm_rules)+

lemma calm_set_peer [calm_rules]: "keeps (calm T b w0) (set_peer p f)"
  unfolding set_peer_def by (intro keeps_rules calm_rules calm_modify; simp add: typed_objects_def)

lemma calm_set_elem [calm_rules]:
  assumes "\<And>el. e_timeout_nsec (f el) = e_timeout_nsec el"
  shows "keeps (calm T b w0) (set_elem e f)"
proof (rule keepsI)
  fix w r w'
  assume c: "calm T b w0 w" and run: "run_state (set_elem e f) w = (r, w')"
  show "calm T b w0 w'"
  proof (cases "elements w e")
    case None
    with run calm_fault [OF c] show ?thesis by (auto simp: set_elem_def fault_def)
  next
    case (Some el)
    with run have "w' = w\<lparr>elements := (elements w)(e \<mapsto> f el)\<rparr>" by (simp add: set_elem_def)
    with c Some assms show ?thesis by (auto simp: calm_def typed_objects_def timed_def)
  qed
qed

lemma calm_new_ref [calm_rules]: "keeps (calm T b w0) new_ref"
  unfolding new_ref_def by (intro keeps_rules calm_modify; simp add: typed_objects_def)

lemma calm_or [calm_rules]:
  "keeps (calm T b w0) m \<Longrightarrow> (\<And>x. keeps (calm T b w0) (f x)) \<Longrightarrow> keeps (calm T b w0) (or_return m f)"
  "keeps (calm T b w0) m \<Longrightarrow> (\<And>x. keeps (calm T b w0) (g x)) \<Longrightarrow> keeps (calm T b w0) (or_fail m g)"
  by (rule keeps_or_return keeps_or_fail; assumption)+

lemma calm_timeout [calm_rules]:
  "keeps (calm T b w0) (convert_seconds_to_nsec d)"
  "keeps (calm T b w0) (get_timeout_in_nsec request t dt)"
proof -
  show "keeps (calm T b w0) (convert_seconds_to_nsec d)" for d
    unfolding convert_seconds_to_nsec_def by (cases d) (auto intro!: keeps_rules calm_rules)
  then show "keeps (calm T b w0) (get_timeout_in_nsec request t dt)"
    unfolding get_timeout_in_nsec_def by (intro keeps_rules calm_rules)
qed

lemma calm_timer [calm_rules]:
  "keeps (calm T b w0) (cjet_timer_init q)" "keeps (calm T b w0) (cjet_timer_destroy q)"
  "keeps (calm T b w0) (timer_start q ns)" "keeps (calm T b w0) (timer_cancel q)"
  unfolding cjet_timer_init_def cjet_timer_destroy_def timer_start_def timer_cancel_def
  by (intro keeps_rules calm_rules calm_modify; simp add: typed_objects_def)+

lemma calm_tables [calm_rules]:
  "keeps (calm T b w0) (route_table_put p k q)" "keeps (calm T b w0) (route_table_remove p k)"
  "keeps (calm T b w0) (element_table_put path e)" "keeps (calm T b w0) (element_table_remove path)"
  unfolding route_table_put_def route_table_remove_def element_table_put_def element_table_remove_def Let_def
  by (intro keeps_rules calm_rules calm_modify; simp add: typed_objects_def)+

lemma calm_free [calm_rules]:
  "keeps (calm T b w0) (free_request q)" "keeps (calm T b w0) (free_element e)" "keeps (calm T b w0) (unlink_fetch p f)"
  unfolding free_request_def free_element_def unlink_fetch_def
  by (intro keeps_rules calm_rules calm_modify; simp add: typed_objects_def)+

lemma calm_setup [calm_rules]:
  "keeps (calm T b w0) (create_routed_message path what value i)"
  "keeps (calm T b w0) (setup_routing_information e request t q)"
  "keeps (calm T b w0) (alloc_routing_request r o' j)"
proof -
  show "keeps (calm T b w0) (create_routed_message path what value i)"
    unfolding create_routed_message_def by (cases what; simp; intro keeps_rules calm_rules)
  show "keeps (calm T b w0) (setup_routing_information e request t q)"
    unfolding setup_routing_information_def by (intro keeps_rules calm_rules)
  show "keeps (calm T b w0) (alloc_routing_request r o' j)"
    unfolding alloc_routing_request_def calculate_size_for_routed_request_id_def fill_routed_request_id_def
    by (intro keeps_rules calm_rules calm_modify; simp add: typed_objects_def)
qed

lemma calm_params [calm_rules]:
  "keeps (calm T b w0) (get_path_from_params request params)"
  "keeps (calm T b w0) (get_fetch_only_from_params request params)"
  "keeps (calm T b w0) (get_fetch_id request params)"
  "keeps (calm T b w0) (get_string_param request params n c d)"
  unfolding get_path_from_params_def get_fetch_only_from_params_def get_fetch_id_def get_string_param_def Let_def
  by (intro keeps_rules calm_rules)+

lemma calm_find [calm_rules]:
  "keeps (calm T b w0) (find_fetch p j)" "keeps (calm T b w0) (find_element_in es path)"
proof -
  have "keeps (calm T b w0) (find_fetch_in fs j)" for fs
    by (induction fs) (auto intro!: keeps_rules calm_rules)
  then show "keeps (calm T b w0) (find_fetch p j)"
    unfolding find_fetch_def by (intro keeps_rules calm_rules)
  show "keeps (calm T b w0) (find_element_in es path)"
    by (induction es) (auto intro!: keeps_rules calm_rules)
qed

lemma calm_matching [calm_rules]: "keeps (calm T b w0) (state_matches e f)"
proof -
  have "keeps (calm T b w0) (matches_from ms path)" for ms path
    by (induction ms path rule: matches_from.induct) (auto intro!: keeps_rules calm_rules split: option.split)
  then show ?thesis
    unfolding state_matches_def by (intro keeps_rules calm_rules)
qed

lemma calm_create_fetch [calm_rules]:
  "keeps (calm T b w0) (add_matchers_from kvs ic i ms)"
  "keeps (calm T b w0) (create_fetch p request j params)"
proof -
  have els: "keeps (calm T b w0) (copy_path_elements xs)" for xs
    by (induction xs) (auto intro!: keeps_rules calm_rules)
  have m: "keeps (calm T b w0) (create_matcher n j ic)" for n j ic
    unfolding create_matcher_def fill_path_elements_def create_path_matcher_def Let_def by (intro keeps_rules calm_rules els)
  show ms: "keeps (calm T b w0) (add_matchers_from kvs ic i ms)" for kvs ic i ms
    by (induction kvs ic i ms rule: add_matchers_from.induct) (auto intro!: keeps_rules calm_rules m split: option.split)
  show "keeps (calm T b w0) (create_fetch p request j params)"
    unfolding create_fetch_def alloc_fetch_def add_matchers_def Let_def by (intro keeps_rules calm_rules ms)
qed

lemma calm_table_add [calm_rules]: "keeps (calm T b w0) (add_fetch_to_state e f)"
  unfolding add_fetch_to_state_def Let_def by (intro keeps_rules calm_rules; simp)

lemma calm_table_remove [calm_rules]: "keeps (calm T b w0) (remove_fetch_from_states f)"
  unfolding remove_fetch_from_states_def remove_fetch_from_states_in_peer_def remove_fetch_from_state_def
  by (intro keeps_rules calm_rules; simp)

lemma calm_get_elements [calm_rules]: "keeps (calm T b w0) (get_elements request p)"
  unfolding get_elements_def get_elements_in_peer_def get_element_def by (intro keeps_rules calm_rules)


subsection \<open>Answering\<close>

definition replied :: "(json \<Rightarrow> bool) \<Rightarrow> bool \<Rightarrow> world \<Rightarrow> json \<Rightarrow> json option \<Rightarrow> world \<Rightarrow> bool" where
  "replied T b w0 request r w \<longleftrightarrow> calm T b w0 w \<and> (r = None \<or> is_reply request r) \<and>
     (faults w = faults w0 \<longrightarrow> is_reply request r)"

definition settles :: "(world \<Rightarrow> json option \<Rightarrow> world \<Rightarrow> bool) \<Rightarrow> (json \<Rightarrow> bool) \<Rightarrow> bool \<Rightarrow> json \<Rightarrow> json option cm \<Rightarrow> bool" where
  "settles R T b request m \<longleftrightarrow> (\<forall>w0. valid (calm T b w0) m (\<lambda>r w. replied T b w0 request r w \<or> R w0 r w))"

definition checks :: "('a \<Rightarrow> bool) \<Rightarrow> (json \<Rightarrow> bool) \<Rightarrow> bool \<Rightarrow> json \<Rightarrow> (json option + 'a) cm \<Rightarrow> bool" where
  "checks P T b request m \<longleftrightarrow> (\<forall>w0. valid (calm T b w0) m
     (\<lambda>r w. case r of Inl e \<Rightarrow> replied T b w0 request e w | Inr x \<Rightarrow> calm T b w0 w \<and> P x))"

abbreviation any :: "'a \<Rightarrow> bool" where
  "any \<equiv> \<lambda>_. True"

abbreviation unrouted :: "world \<Rightarrow> json option \<Rightarrow> world \<Rightarrow> bool" where
  "unrouted \<equiv> \<lambda>_ _ _. False"

named_theorems answers_rules "operations that answer their request"

lemma answers_pure [answers_rules]:
  "settles R T b request (create_error_response_from_request request code t r)"
  "settles R T b request (create_success_response_from_request request)"
  "checks P T b request (fail_with request code t r)"
  by (auto simp: settles_def checks_def valid_def replied_def calmD(1) run_from_request)

lemma answers_case_rules [answers_rules]:
  "(c \<Longrightarrow> settles R T b request m) \<Longrightarrow> (\<not> c \<Longrightarrow> settles R T b request n) \<Longrightarrow> settles R T b request (if c then m else n)"
  "(x = None \<Longrightarrow> settles R T b request m) \<Longrightarrow> (\<And>y. x = Some y \<Longrightarrow> settles R T b request (f y)) \<Longrightarrow>
   settles R T b request (case x of None \<Rightarrow> m | Some y \<Rightarrow> f y)"
  by simp (cases x; simp)

lemma checks_case_rules [answers_rules]:
  "(c \<Longrightarrow> checks P T b request m) \<Longrightarrow> (\<not> c \<Longrightarrow> checks P T b request n) \<Longrightarrow> checks P T b request (if c then m else n)"
  "(x = None \<Longrightarrow> checks P T b request m) \<Longrightarrow> (\<And>y. x = Some y \<Longrightarrow> checks P T b request (f y)) \<Longrightarrow>
   checks P T b request (case x of None \<Rightarrow> m | Some y \<Rightarrow> f y)"
  by simp (cases x; simp)

lemma checks_return [answers_rules]: "P x \<Longrightarrow> checks P T b request (ret (Inr x))"
  by (simp add: checks_def valid_def)

lemma checks_weaken: "checks P T b request m \<Longrightarrow> (\<And>x. P x \<Longrightarrow> Q x) \<Longrightarrow> checks Q T b request m"
  unfolding checks_def valid_def by (auto split: sum.splits)

lemma valid_case_bind:
  assumes "valid I m (\<lambda>r w. case r of Inl e \<Rightarrow> E e w | Inr x \<Rightarrow> I w \<and> P x)"
    and "\<And>e. valid (E e) (g e) Q" "\<And>x. P x \<Longrightarrow> valid I (h x) Q"
  shows "valid I (State_Monad.bind m (\<lambda>r. case r of Inl e \<Rightarrow> g e | Inr x \<Rightarrow> h x)) Q"
proof (rule valid_bind [OF assms(1)])
  fix r
  show "valid (\<lambda>w. case r of Inl e \<Rightarrow> E e w | Inr x \<Rightarrow> I w \<and> P x) (case r of Inl e \<Rightarrow> g e | Inr x \<Rightarrow> h x) Q"
    using assms(2,3) by (cases r) (auto simp: valid_def)
qed

lemma answers_or_return:
  "checks P T b request m \<Longrightarrow> (\<And>x. P x \<Longrightarrow> settles R T b request (f x)) \<Longrightarrow> settles R T b request (or_return m f)"
  unfolding checks_def settles_def or_return_def
  by (intro allI valid_case_bind [where P = P]) (auto simp: valid_def)

lemma checks_or_fail:
  "checks P T b request m \<Longrightarrow> (\<And>x. P x \<Longrightarrow> checks Q T b request (f x)) \<Longrightarrow> checks Q T b request (or_fail m f)"
  unfolding checks_def or_fail_def
  by (intro allI valid_case_bind [where P = P]) (auto simp: valid_def)

lemmas or_any [answers_rules] = answers_or_return [where P = any] checks_or_fail [where P = any]

lemma answers_bind:
  "(\<And>w0. keeps (calm T b w0) m) \<Longrightarrow> (\<And>x. settles R T b request (f x)) \<Longrightarrow> settles R T b request (State_Monad.bind m f)"
  unfolding settles_def by (intro allI valid_keeps_bind; simp)

lemma checks_bind:
  "(\<And>w0. keeps (calm T b w0) m) \<Longrightarrow> (\<And>x. checks P T b request (f x)) \<Longrightarrow> checks P T b request (State_Monad.bind m f)"
  unfolding checks_def by (intro allI valid_keeps_bind; simp)

text \<open>Steps whose result matters for the answer.\<close>

lemma valid_rel_bind:
  assumes "valid I m (\<lambda>x w. I w \<and> S x)" "\<And>x. S x \<Longrightarrow> valid I (f x) Q"
  shows "valid I (State_Monad.bind m f) Q"
proof (rule valid_bind [OF assms(1)])
  show "valid (\<lambda>w. I w \<and> S x) (f x) Q" for x using assms(2) by (auto simp: valid_def)
qed

lemma checks_bind_rel:
  "(\<And>w0. valid (calm T b w0) m (\<lambda>x w. calm T b w0 w \<and> S x)) \<Longrightarrow> (\<And>x. S x \<Longrightarrow> checks P T b request (f x)) \<Longrightarrow>
   checks P T b request (State_Monad.bind m f)"
  unfolding checks_def by (intro allI valid_rel_bind [where S = S]; simp)

lemma answers_bind_rel:
  "(\<And>w0. valid (calm T b w0) m (\<lambda>x w. calm T b w0 w \<and> S x)) \<Longrightarrow> (\<And>x. S x \<Longrightarrow> settles R T b request (f x)) \<Longrightarrow>
   settles R T b request (State_Monad.bind m f)"
  unfolding settles_def by (intro allI valid_rel_bind [where S = S]; simp)

lemma checks_retry:
  assumes "checks P T b request m" "\<And>e. checks Q T b request (g e)" "\<And>x. P x \<Longrightarrow> checks Q T b request (h x)"
  shows "checks Q T b request (State_Monad.bind m (\<lambda>r. case r of Inl e \<Rightarrow> g e | Inr x \<Rightarrow> h x))"
  unfolding checks_def
proof (intro allI valid_case_bind [where P = P])
  fix w0 e
  show "valid (calm T b w0) m (\<lambda>r w. case r of Inl e \<Rightarrow> replied T b w0 request e w | Inr x \<Rightarrow> calm T b w0 w \<and> P x)"
    using assms(1) by (simp add: checks_def)
  show "valid (replied T b w0 request e) (g e) (\<lambda>r w. case r of Inl e \<Rightarrow> replied T b w0 request e w | Inr x \<Rightarrow> calm T b w0 w \<and> Q x)"
    by (rule valid_pre [of "calm T b w0"]) (use assms(2) in \<open>simp_all add: checks_def replied_def\<close>)
qed (use assms(3) in \<open>simp add: checks_def\<close>)

lemma checks_fetch_id: "checks is_id T b request (get_fetch_id request params)"
  unfolding get_fetch_id_def by (intro answers_rules; simp add: is_id_def)

lemma checks_params [answers_rules]:
  "checks any T b request (get_params request)"
  "checks any T b request (get_path_from_params request params)"
  "checks any T b request (get_fetch_only_from_params request params)"
  "checks any T b request (get_fetch_id request params)"
  "checks any T b request (get_string_param request params n c d)"
proof -
  show "checks any T b request (get_params request)"
    by (auto simp: checks_def valid_def replied_def calmD(1) run_get_params split: option.split)
qed (unfold get_path_from_params_def get_fetch_only_from_params_def get_fetch_id_def get_string_param_def Let_def,
    (intro answers_rules; simp)+)

subsection \<open>Timeouts\<close>

lemma nanoseconds_positive:
  assumes "MIN_TIMEOUT_IN_S \<le> q" "q * 1000000000 < 2 ^ 64"
  shows "(of_int \<lfloor>q * 1000000000\<rfloor> :: 64 word) \<noteq> 0"
proof -
  have "1 \<le> \<lfloor>q * 1000000000\<rfloor>" using assms(1) by (simp add: MIN_TIMEOUT_IN_S_def)
  moreover have "\<lfloor>q * 1000000000\<rfloor> < 2 ^ 64" using assms(2) by (simp add: floor_less_iff)
  ultimately have "uint (of_int \<lfloor>q * 1000000000\<rfloor> :: 64 word) = \<lfloor>q * 1000000000\<rfloor>"
    by (simp add: uint_word_of_int take_bit_int_eq_self)
  with \<open>1 \<le> \<lfloor>q * 1000000000\<rfloor>\<close> show ?thesis by (metis not_one_le_zero uint_0_eq)
qed

lemma convert_range:
  assumes "run_state (convert_seconds_to_nsec d) w = (ns, w')" "\<not> double_less d MIN_TIMEOUT_IN_S"
  shows "w' = w \<and> ns \<noteq> 0 \<or> w' = w\<lparr>faults := faults w @ [Double_out_of_range]\<rparr>"
proof (cases d)
  case (Finite q)
  then have q: "MIN_TIMEOUT_IN_S \<le> q" using assms(2) by (simp add: double_less_def)
  then have "0 \<le> q" by (simp add: MIN_TIMEOUT_IN_S_def)
  then show ?thesis
    using assms(1) Finite nanoseconds_positive [OF q]
    by (cases "q * 1000000000 < 2 ^ 64") (auto simp: convert_seconds_to_nsec_def fault_def)
qed (use assms in \<open>auto simp: convert_seconds_to_nsec_def fault_def\<close>)

lemma default_timeout:
  assumes "config_ok c"
  shows "run_state (convert_seconds_to_nsec (Finite (routed_messages_timeout c))) w =
    (of_int \<lfloor>routed_messages_timeout c * 1000000000\<rfloor>, w) \<and> (of_int \<lfloor>routed_messages_timeout c * 1000000000\<rfloor> :: 64 word) \<noteq> 0"
  using assms nanoseconds_positive [of "routed_messages_timeout c"]
  by (simp add: config_ok_def run_convert MIN_TIMEOUT_IN_S_def)

lemma calm_faulted:
  assumes "calm T b w0 w"
  shows "calm T True w0 (w\<lparr>faults := faults w @ [x]\<rparr>)" "faults w @ [x] \<noteq> faults w0"
  using assms by (auto simp: calm_def typed_objects_def)

lemma get_timeout_valid:
  assumes "b \<or> dt \<noteq> 0"
  shows "valid (calm T b w0) (get_timeout_in_nsec request t dt)
    (\<lambda>(ns, e) w. calm T b w0 w \<and> (ns = 0 \<longrightarrow> replied T b w0 request e w))"
proof (rule validI)
  fix w r w'
  assume c: "calm T b w0 w" and run: "run_state (get_timeout_in_nsec request t dt) w = (r, w')"
  obtain ns e where r: "r = (ns, e)" by fastforce
  have c': "calm T b w0 w'" using keepsD [OF calm_timeout(2) c run] .
  show "(case r of (ns, e) \<Rightarrow> \<lambda>w. calm T b w0 w \<and> (ns = 0 \<longrightarrow> replied T b w0 request e w)) w'"
  proof (cases t)
    case None
    with run r c c' assms show ?thesis by (auto simp: get_timeout_in_nsec_def replied_def calm_def)
  next
    case (Some j)
    consider "\<not> is_number j" | "double_less (valuedouble j) MIN_TIMEOUT_IN_S" "is_number j" |
      "is_number j" "\<not> double_less (valuedouble j) MIN_TIMEOUT_IN_S" by blast
    then show ?thesis
    proof cases
      case 3
      then have e: "e = None" and conv: "run_state (convert_seconds_to_nsec (valuedouble j)) w = (ns, w')"
        using run r Some by (auto simp: get_timeout_in_nsec_def split: prod.splits)
      from convert_range [OF conv 3(2)] show ?thesis
        using r e c' calm_faulted(2) [OF c] by (auto simp: replied_def)
    qed (use run r Some c' calmD(1) [OF c] in \<open>auto simp: get_timeout_in_nsec_def replied_def run_from_request\<close>)
  qed
qed

lemma checks_timeout:
  assumes "b \<or> dt \<noteq> 0" "\<And>ns. ns \<noteq> 0 \<Longrightarrow> checks P T b request (g ns)"
  shows "checks P T b request (State_Monad.bind (get_timeout_in_nsec request t dt)
    (\<lambda>x. case x of (ns, e) \<Rightarrow> if ns = 0 then ret (Inl e) else g ns))"
  unfolding checks_def
proof (intro allI validI)
  fix w0 w r w'
  assume c: "calm T b w0 w"
    and run: "run_state (State_Monad.bind (get_timeout_in_nsec request t dt)
      (\<lambda>x. case x of (ns, e) \<Rightarrow> if ns = 0 then ret (Inl e) else g ns)) w = (r, w')"
  obtain ns e w1 where m: "run_state (get_timeout_in_nsec request t dt) w = ((ns, e), w1)" by (metis surj_pair)
  note v = validD [OF get_timeout_valid [OF assms(1)] c m]
  show "case r of Inl e \<Rightarrow> replied T b w0 request e w' | Inr x \<Rightarrow> calm T b w0 w' \<and> P x"
  proof (cases "ns = 0")
    case True
    with v run m show ?thesis by auto
  next
    case False
    have "run_state (g ns) w1 = (r, w')" using run m False by simp
    with v assms(2) [OF False] show ?thesis unfolding checks_def using validD by fastforce
  qed
qed

lemma checks_default_timeout:
  assumes "\<And>c ns. ns \<noteq> 0 \<Longrightarrow> checks P T b request (g c ns)"
  shows "checks P T b request (do { c \<leftarrow> gets cfg; ns \<leftarrow> convert_seconds_to_nsec (Finite (routed_messages_timeout c)); g c ns })"
  unfolding checks_def
proof (intro allI validI)
  fix w0 w r w'
  assume c: "calm T b w0 w"
    and run: "run_state (do { c \<leftarrow> gets cfg; ns \<leftarrow> convert_seconds_to_nsec (Finite (routed_messages_timeout c)); g c ns }) w = (r, w')"
  let ?ns = "of_int \<lfloor>routed_messages_timeout (cfg w) * 1000000000\<rfloor> :: 64 word"
  have "run_state (g (cfg w) ?ns) w = (r, w')" "?ns \<noteq> 0"
    using run default_timeout [OF calmD(2) [OF c], of w] by auto
  with assms [of ?ns "cfg w"] c show "case r of Inl e \<Rightarrow> replied T b w0 request e w' | Inr x \<Rightarrow> calm T b w0 w' \<and> P x"
    unfolding checks_def using validD by fastforce
qed

subsection \<open>Fetches\<close>

lemma checks_duplicate:
  assumes "\<And>w. env w = [] \<Longrightarrow> run_state m w = (x, w)" "checks P T b request (f x)"
  shows "checks P T b request (State_Monad.bind m f)"
  by (rule checks_bind_rel [of _ _ _ "\<lambda>y. y = x"]) (use assms calmD(1) in \<open>auto simp: valid_def\<close>)

lemma alloc_fetch_named:
  assumes "\<And>i. jid = Some i \<Longrightarrow> is_id i"
  shows "checks named T b request (alloc_fetch p jid n request)"
proof (cases jid)
  case None
  then show ?thesis unfolding alloc_fetch_def
    by (auto intro!: checks_bind calm_rules answers_rules simp: named_def)
next
  case (Some i)
  then have "checks named T b request (State_Monad.bind (cJSON_Duplicate i) (\<lambda>copy. case copy of
      None \<Rightarrow> fail_with request INVALID_PARAMS ''reason'' ''Could not allocated memory for fetch ID object!''
    | Some copy \<Rightarrow> ret (Inr \<lparr>fetch_id = Some copy, f_peer = p, matcher = replicate n None\<rparr>)))"
    using assms by (intro checks_duplicate [of _ "Some i"]) (auto simp: run_build named_def intro: answers_rules)
  then show ?thesis unfolding alloc_fetch_def
    using Some by (auto intro!: checks_bind calm_rules answers_rules)
qed

lemma add_matchers_named:
  assumes "named f"
  shows "valid (calm T b w0) (add_matchers f path ic) (\<lambda>r w. calm T b w0 w \<and> (\<forall>f. r = Some f \<longrightarrow> named f))"
proof -
  have "keeps (calm T b w0) (add_matchers f path ic)"
    unfolding add_matchers_def by (intro keeps_rules calm_rules)
  moreover have "named g" if "run_state (add_matchers f path ic) w = (Some g, w')" for w w' g
    using assms that by (auto simp: add_matchers_def named_def split: prod.splits)
  ultimately show ?thesis unfolding keeps_def valid_def by (metis prod.collapse)
qed

lemma create_fetch_named:
  assumes "\<And>i. jid = Some i \<Longrightarrow> is_id i"
  shows "checks named T b request (create_fetch p request jid params)"
  unfolding create_fetch_def Let_def
  by (intro answers_rules checks_retry [where P = named] alloc_fetch_named checks_bind [where m = "gets cfg"] keeps_gets
      checks_bind_rel [OF add_matchers_named]; (rule assms)?; simp)


subsection \<open>Operations that notify\<close>

lemma keeps_rel_bind:
  "valid I m (\<lambda>x w. I w \<and> S x) \<Longrightarrow> (\<And>x. S x \<Longrightarrow> keeps I (f x)) \<Longrightarrow> keeps I (State_Monad.bind m f)"
  by (simp add: keeps_valid valid_rel_bind [where S = S])

lemma calm_send: "T m \<Longrightarrow> keeps (calm T b w0) (send_message p m)"
proof (rule keepsI)
  fix w r w'
  assume "T m" "calm T b w0 w" "run_state (send_message p m) w = (r, w')"
  then show "calm T b w0 w'" by (auto simp: calm_def typed_objects_def run_send_message)
qed

lemma get_fetch_named: "valid (calm T b w0) (get_fetch f) (\<lambda>ft w. calm T b w0 w \<and> named ft)"
proof (rule validI)
  fix w ft w'
  assume c: "calm T b w0 w" and run: "run_state (get_fetch f) w = (ft, w')"
  show "calm T b w0 w' \<and> named ft"
    using keepsD [OF calm_get(3) c run] calmD(3) [OF c] run
    by (cases "fetches w f") (auto simp: get_fetch_def deref_def fault_def typed_objects_def named_def no_fetch_def)
qed

lemma calm_add_objects:
  "timed el \<Longrightarrow> keeps (calm T b w0) (modify (\<lambda>w. w\<lparr>elements := (elements w)(e \<mapsto> el)\<rparr>))"
  "named ft \<Longrightarrow> keeps (calm T b w0) (modify (\<lambda>w. w\<lparr>fetches := (fetches w)(f \<mapsto> ft)\<rparr>))"
  by (intro calm_modify; simp add: typed_objects_def)+

lemma fill_access_timed: "timed el \<Longrightarrow> checks timed T b request (fill_access request access el)"
proof -
  have g: "checks timed T b request (fill_group n k put request access e)"
    if "timed e" "\<And>g. timed (put g e)" for n k put e
    using that unfolding fill_group_def Let_def
    by (intro answers_rules checks_bind calm_rules; simp)
  assume "timed el"
  then show ?thesis
    unfolding fill_access_def fill_fetch_groups_def fill_set_groups_def fill_call_groups_def
    by (intro checks_or_fail [where P = timed] answers_rules g; simp add: timed_def)
qed

lemma init_element_timed: "checks timed T b request (init_element request p)"
  unfolding init_element_def Let_def
  by (intro answers_rules checks_default_timeout checks_timeout checks_retry [where P = timed] fill_access_timed
      checks_bind keeps_rules calm_rules; simp add: timed_def)

lemma get_element_states:
  "checks (\<lambda>s. s \<noteq> None) T b request (get_element request f e (Some a))"
  unfolding get_element_def by (intro answers_rules checks_bind calm_rules; simp)

lemma fold_each_states:
  assumes "\<And>x a. checks (\<lambda>s. s \<noteq> None) T b request (g x (Some a))"
  shows "checks (\<lambda>s. s \<noteq> None) T b request (fold_each g xs (Some a))"
proof (induction xs arbitrary: a)
  case Nil
  then show ?case by (simp add: checks_return)
next
  case (Cons x xs)
  have "checks (\<lambda>s. s \<noteq> None) T b request (or_fail (g x (Some a)) (\<lambda>acc. fold_each g xs acc))"
    by (rule checks_or_fail [OF assms]) (use Cons.IH in auto)
  then show ?case by (simp add: or_fail_def)
qed

lemma get_answers: "settles R T b request (get_elements request p)"
proof -
  have in_peer: "checks (\<lambda>s. s \<noteq> None) T b request (get_elements_in_peer request f q (Some a))" for f q a
    unfolding get_elements_in_peer_def by (intro checks_bind calm_rules fold_each_states get_element_states)
  have fold: "checks (\<lambda>s. s \<noteq> None) T b request (fold_each (get_elements_in_peer request f) ps (Some a))" for f ps a
    by (rule fold_each_states) (rule in_peer)
  have states: "valid (calm T b w0) cJSON_CreateArray (\<lambda>r w. calm T b w0 w \<and> r = Some (JArray []))" for w0
    by (auto simp: valid_def run_build calmD(1))
  have result: "settles R T b request (create_result_response_from_request request s ''result'')" if "s \<noteq> None" for s
    using that by (auto simp: settles_def valid_def replied_def calmD(1) run_from_request)
  have collect: "settles R T b request (do { states \<leftarrow> cJSON_CreateArray; ps \<leftarrow> gets peer_list;
      or_return (fold_each (get_elements_in_peer request f) ps states) (\<lambda>states. create_result_response_from_request request states ''result'') })"
    for f
  proof (rule answers_bind_rel [OF states], rule answers_bind [OF keeps_gets])
    fix states ps
    assume "states = Some (JArray [])"
    then show "settles R T b request (or_return (fold_each (get_elements_in_peer request f) ps states)
        (\<lambda>states. create_result_response_from_request request states ''result''))"
      using answers_or_return [OF fold result] by simp
  qed
  have fetch: "checks named T b request (create_fetch p request None params)" for params
    by (rule create_fetch_named) simp
  show ?thesis
    unfolding get_elements_def
    by (intro answers_or_return [OF checks_params(1)] answers_or_return [OF fetch] collect)
qed

lemma info_answers: "settles R T b request (handle_info name version request)"
proof -
  have "\<exists>x. run_state (create_info name version) w = (Some x, w)" if "env w = []" for w
    using that by (simp add: create_info_def run_build)
  then have "valid (calm T b w0) (create_info name version) (\<lambda>r w. calm T b w0 w \<and> r \<noteq> None)" for w0
    using calmD(1) unfolding valid_def by fastforce
  then show ?thesis unfolding handle_info_def
    by (rule answers_bind_rel) (auto simp: settles_def valid_def replied_def calmD(1) run_from_request)
qed

subsection \<open>Set and call\<close>

lemma calm_weaken: "calm T b' w0 w \<Longrightarrow> (b \<Longrightarrow> b') \<Longrightarrow> calm T b w0 w"
  by (auto simp: calm_def)

lemma checks_get_elem:
  assumes "\<And>el b'. b' \<or> timed el \<Longrightarrow> (b \<Longrightarrow> b') \<Longrightarrow> checks P T b' request (f el)"
  shows "checks P T b request (State_Monad.bind (get_elem e) f)"
  unfolding checks_def
proof (intro allI validI)
  fix w0 w r w'
  assume c: "calm T b w0 w" and run: "run_state (State_Monad.bind (get_elem e) f) w = (r, w')"
  obtain el w1 where g: "run_state (get_elem e) w = (el, w1)" by fastforce
  obtain b' where b': "b' \<or> timed el" "b \<Longrightarrow> b'" "calm T b' w0 w1"
  proof (cases "elements w e")
    case None
    with g have "w1 = w\<lparr>faults := faults w @ [Dangling_pointer]\<rparr>" by (auto simp: get_elem_def deref_def fault_def)
    with calm_faulted(1) [OF c] that [of True] show ?thesis by simp
  next
    case (Some x)
    with g have "w1 = w" "el = x" by (auto simp: get_elem_def deref_def)
    with c Some that [of b] show ?thesis by (auto simp: calm_def typed_objects_def)
  qed
  have "run_state (f el) w1 = (r, w')" using run g by simp
  with assms [OF b'(1,2)] b'(3) have "case r of Inl e \<Rightarrow> replied T b' w0 request e w' | Inr x \<Rightarrow> calm T b' w0 w' \<and> P x"
    unfolding checks_def using validD by fastforce
  then show "case r of Inl e \<Rightarrow> replied T b w0 request e w' | Inr x \<Rightarrow> calm T b w0 w' \<and> P x"
    using b'(2) calm_weaken by (auto simp: replied_def split: sum.splits)
qed

lemma setup_checks: "checks any T b request (setup_routing_information e request t q)"
  unfolding setup_routing_information_def
  by (intro checks_get_elem checks_timeout answers_rules checks_bind calm_rules; simp add: timed_def)

lemma answers_setup:
  assumes "checks any T b request m" "\<And>x. settles R T b request (g x)"
  shows "settles R T b request (State_Monad.bind m
    (\<lambda>s. case s of Inl response \<Rightarrow> do { free_request q; ret response } | Inr x \<Rightarrow> g x))"
  unfolding settles_def
proof (intro allI valid_case_bind [where P = any])
  fix w0 e
  show "valid (calm T b w0) m (\<lambda>r w. case r of Inl e \<Rightarrow> replied T b w0 request e w | Inr x \<Rightarrow> calm T b w0 w \<and> True)"
    using assms(1) by (simp add: checks_def)
  show "valid (replied T b w0 request e) (do { free_request q; ret e }) (\<lambda>r w. replied T b w0 request r w \<or> R w0 r w)"
    by (auto simp: valid_def replied_def free_request_def calm_def typed_objects_def)
qed (use assms(2) in \<open>simp add: settles_def\<close>)

lemma answers_freed:
  "settles R T b request (do { response \<leftarrow> create_error_response_from_request request code t r; free_request q; ret response })"
  by (auto simp: settles_def valid_def replied_def free_request_def calm_def typed_objects_def run_from_request)

lemma routed_is_request:
  "valid (calm T b w0) (create_routed_message path what v i) (\<lambda>r w. calm T b w0 w \<and> (\<forall>m. r = Some m \<longrightarrow> is_request m))"
proof -
  have "is_request (routed_message path what v i)"
    by (cases what) (auto simp: routed_message_def is_request_def is_string_def split: option.split)
  then show ?thesis
    using calmD(1) by (fastforce simp: valid_def run_create_routed_message)
qed

lemma answers_routed:
  assumes "\<And>w0 w. calm T b w0 w \<Longrightarrow> R w0 None (w\<lparr>sent := sent w @ [(q, m)]\<rparr>)"
  shows "settles R T b request (do { routed \<leftarrow> send_message q m; if \<not> routed then n else ret None })"
  using assms by (auto simp: settles_def valid_def run_send_message calmD(1))

lemma set_or_call_answers:
  assumes "\<And>w0 w q m. calm T b w0 w \<Longrightarrow> is_request m \<Longrightarrow> R w0 None (w\<lparr>sent := sent w @ [(q, m)]\<rparr>)"
  shows "settles R T b request (set_or_call p request what)"
proof -
  have rendered: "valid (calm T b w0) (cJSON_PrintUnformatted m) (\<lambda>r w. calm T b w0 w \<and> r = Some m)" for w0 m
    by (auto simp: valid_def run_build calmD(1))
  show ?thesis
    unfolding set_or_call_def Let_def
    by (intro answers_freed answers_setup setup_checks answers_bind_rel [OF routed_is_request]
        answers_bind_rel [OF rendered] answers_routed answers_rules answers_bind calm_rules; simp add: assms)
qed

locale speaker =
  fixes T :: "json \<Rightarrow> bool"
  assumes notifications: "is_notification m \<Longrightarrow> T m"
begin

lemma notify: "named f \<Longrightarrow> keeps (calm T b w0) (notify_fetching_peer e f ev)"
proof (rule keepsI)
  fix w r w'
  assume f: "named f" and c: "calm T b w0 w" and run: "run_state (notify_fetching_peer e f ev) w = (r, w')"
  show "calm T b w0 w'"
  proof (cases "fetch_id f")
    case None
    then have "keeps (calm T b w0) (notify_fetching_peer e f ev)"
      unfolding notify_fetching_peer_def by (simp only: option.case) (intro keeps_rules calm_rules)
    then show ?thesis using c run by (rule keepsD)
  next
    case (Some jid)
    then have "T (notification e jid ev)"
      using f by (intro notifications notification_is_notification) (simp add: named_def)
    with c run run_notify_fetching_peer [of w f jid e ev] Some show ?thesis
      by (auto simp: calm_def typed_objects_def)
  qed
qed

lemma notifies [calm_rules]:
  "keeps (calm T b w0) (notify_fetchers e ev)"
  "keeps (calm T b w0) (add_fetch_to_state_and_notify e f)"
  "keeps (calm T b w0) (add_fetch_to_states_in_peer p f)"
  "keeps (calm T b w0) (find_fetchers_for_element e)"
  "keeps (calm T b w0) (remove_element e)"
proof -
  show n: "keeps (calm T b w0) (notify_fetchers e ev)" for e ev
    unfolding notify_fetchers_def by (intro keeps_rules calm_rules keeps_rel_bind [OF get_fetch_named] notify)
  have a: "keeps (calm T b w0) (add_fetch_to_state_and_notify e f)" for e f
    unfolding add_fetch_to_state_and_notify_def
    by (rule keeps_bind, rule calm_rules, rule keeps_rel_bind [OF get_fetch_named]) (intro keeps_rules calm_rules notify; assumption)
  then show "keeps (calm T b w0) (add_fetch_to_state_and_notify e f)" .
  show "keeps (calm T b w0) (add_fetch_to_states_in_peer p f)" "keeps (calm T b w0) (find_fetchers_for_element e)"
    unfolding add_fetch_to_states_in_peer_def find_fetchers_for_element_def find_fetchers_for_element_in_peer_def
    by (intro keeps_rules calm_rules a)+
  show "keeps (calm T b w0) (remove_element e)"
    unfolding remove_element_def by (intro keeps_rules calm_rules n)
qed

text \<open>The handlers, but for set and call.\<close>

lemma config_answers: "settles R T b request (config_peer p request)"
  unfolding config_peer_def set_peer_name_def by (intro answers_rules answers_bind keeps_rules calm_rules)

lemma change_answers: "settles R T b request (change_state p request)"
  unfolding change_state_def by (intro answers_rules answers_bind calm_rules; simp)

lemma remove_answers: "settles R T b request (remove_element_from_peer p request)"
  unfolding remove_element_from_peer_def by (intro answers_rules answers_bind calm_rules)

lemma unfetch_answers: "settles R T b request (remove_fetch_from_peer p request)"
  unfolding remove_fetch_from_peer_def by (intro answers_rules answers_bind calm_rules)

lemma authenticate_answers: "settles R T b request (handle_authentication crypt p request)"
  unfolding handle_authentication_def credentials_ok_def by (intro answers_rules answers_bind keeps_rules calm_rules)

lemma passwd_answers: "settles R T b request (handle_change_password crypt ri rb p request)"
proof -
  have salt: "keeps (calm T b w0) (get_salt_from_passwd ri rb pw)" for w0 pw
    unfolding get_salt_from_passwd_def by (intro keeps_rules calm_rules)
  have wud: "keeps (calm T b w0) write_user_data" for w0
    unfolding write_user_data_def by (intro keeps_rules calm_rules)
  have item: "keeps (calm T b w0) (modify (\<lambda>w. case item of None \<Rightarrow> w | Some item \<Rightarrow> w\<lparr>user_data := f item (user_data w)\<rparr>))"
    for w0 and item :: "json option" and f
    by (rule calm_modify) (simp_all add: typed_objects_def split: option.split)
  show ?thesis
    unfolding handle_change_password_def change_password_def
    by (intro answers_rules answers_bind keeps_gets calm_rules salt wud item)
qed

lemma fetch_answers: "settles R T b request (process_fetch request p)"
proof -
  have "checks any T b request (add_fetch_to_peer p request)"
    unfolding add_fetch_to_peer_def
    by (intro checks_or_fail [OF checks_fetch_id] checks_or_fail [OF create_fetch_named] answers_rules checks_bind
        calm_rules calm_add_objects; simp)
  then show ?thesis
    unfolding process_fetch_def add_fetch_to_states_def
    by (intro answers_rules answers_bind keeps_gets calm_rules keeps_for_each_ok)
qed

lemma add_answers: "settles R T b request (add_element_to_peer p request)"
  unfolding add_element_to_peer_def
  by (intro answers_rules answers_or_return [OF init_element_timed] answers_bind keeps_gets calm_add_objects calm_rules)

lemma method_answers:
  assumes "name = ''set'' \<or> name = ''call'' \<Longrightarrow> \<forall>what. settles R T b request (set_or_call p request what)"
  shows "settles R T b request (handle_method ex request name p)"
proof -
  have "settles R T b request (create_error_response_from_request request METHOD_NOT_FOUND ''reason'' name)"
    by (rule answers_pure)
  then show ?thesis
    unfolding handle_method_def
    using assms change_answers add_answers remove_answers fetch_answers unfetch_answers get_answers config_answers
      info_answers authenticate_answers passwd_answers
    by presburger
qed

end

subsection \<open>Operations that answer for others\<close>

lemma response_is_response:
  assumes "k = ''result'' \<or> k = ''error''"
  shows "valid (calm T b w0) (create_result_response jid (Some x) k) (\<lambda>r w. calm T b w0 w \<and> (\<forall>m. r = Some m \<longrightarrow> is_response m))"
    and "valid (calm T b w0) (create_error_response jid code tag reason) (\<lambda>r w. calm T b w0 w \<and> (\<forall>m. r = Some m \<longrightarrow> is_response m))"
  using assms response_value_response by (auto simp: valid_def run_result_response run_error_response calmD(1))

lemma rendered_is_same: "valid (calm T b w0) (cJSON_PrintUnformatted m) (\<lambda>r w. calm T b w0 w \<and> r = Some m)"
  by (auto simp: valid_def run_build calmD(1))

locale answerer = speaker +
  assumes responses: "is_response m \<Longrightarrow> T m"
begin

lemma sends_response: "is_response m \<Longrightarrow> keeps (calm T b w0) (format_and_send_response p m)"
  unfolding format_and_send_response_def need_def
  by (rule keeps_rel_bind [OF rendered_is_same]) (simp add: calm_send responses)

lemma sends_replies:
  assumes "settles (\<lambda>w0 r w. calm T b w0 w \<and> r = None) T b request m"
  shows "keeps (calm T b w0) (do { response \<leftarrow> m; send_response response p })"
proof (rule keeps_rel_bind [where S = "\<lambda>r. \<forall>x. r = Some x \<longrightarrow> is_response x"])
  show "valid (calm T b w0) m (\<lambda>r w. calm T b w0 w \<and> (\<forall>x. r = Some x \<longrightarrow> is_response x))"
    by (rule valid_post [OF assms [unfolded settles_def, rule_format]]) (auto simp: replied_def is_reply_response)
  show "keeps (calm T b w0) (send_response r p)" if "\<forall>x. r = Some x \<longrightarrow> is_response x" for r
    using that sends_response by (cases r) (simp_all add: send_response_def format_and_send_response_def)
qed

lemma routes_response:
  assumes "k = ''result'' \<or> k = ''error''"
  shows "keeps (calm T b w0) (handle_routing_response j x k p)"
proof -
  have "keeps (calm T b w0) (case r of None \<Rightarrow> ret True
      | Some m \<Rightarrow> do { format_and_send_response q m; ret True })" if "\<forall>m. r = Some m \<longrightarrow> is_response m" for r q
    using that by (intro keeps_rules sends_response) simp
  note answer = keeps_rel_bind [OF response_is_response(1) [OF assms] this]
  show ?thesis
    unfolding handle_routing_response_def by (intro keeps_case_option keeps_return answer keeps_bind calm_rules)
qed

lemma answers_error:
  "(\<And>m. is_response m \<Longrightarrow> keeps (calm T b w0) (f m)) \<Longrightarrow>
   keeps (calm T b w0) (do { r \<leftarrow> create_error_response jid code tag reason; case r of None \<Rightarrow> ret () | Some m \<Rightarrow> f m })"
  by (rule keeps_rel_bind [OF response_is_response(2) [of "''error''"]]) (simp_all split: option.split)

lemma ends_requests [calm_rules]:
  "keeps (calm T b w0) (request_timeout_handler q c)"
  "keeps (calm T b w0) (send_shutdown_response p oid)"
  "keeps (calm T b w0) (clear_routing_entry q)"
proof -
  show "keeps (calm T b w0) (request_timeout_handler q c)"
    unfolding request_timeout_handler_def
    by (intro keeps_if answers_error keeps_case_option keeps_return sends_response keeps_bind calm_rules; assumption)
  show s: "keeps (calm T b w0) (send_shutdown_response p oid)" for p oid
    unfolding send_shutdown_response_def
    by (intro keeps_if answers_error keeps_case_option keeps_return sends_response keeps_bind calm_rules; assumption)
  show "keeps (calm T b w0) (clear_routing_entry q)"
    unfolding clear_routing_entry_def by (intro keeps_rules calm_rules s)
qed

lemma leaves [calm_rules]: "keeps (calm T b w0) (free_peer p)"
proof -
  have entry: "keeps (calm T b w0) (remove_entry p i)" for p i
    unfolding remove_entry_def by (intro keeps_rules calm_rules)
  have t: "keeps (calm T b w0) (remove_peer_from_routing_table q p)" for p q
    unfolding remove_peer_from_routing_table_def by (intro keeps_rules calm_rules entry)
  show ?thesis
    unfolding free_peer_def free_peer_resources_def remove_routing_info_from_peer_def remove_peer_from_routes_def
      remove_all_fetchers_from_peer_def remove_all_elements_from_peer_def
    by (intro keeps_rules calm_rules entry t calm_modify; simp add: typed_objects_def)
qed

end

locale routing_speaker = answerer +
  assumes requests: "is_request m \<Longrightarrow> T m"
begin

lemma serves: "keeps (calm T b w0) (parse_json_rpc ex request p)"
proof -
  have sc: "settles (\<lambda>w0 r w. calm T b w0 w \<and> r = None) T b request (set_or_call p request what)" for what
    by (rule set_or_call_answers) (use requests in \<open>auto simp: calm_def typed_objects_def\<close>)
  have m: "settles (\<lambda>w0 r w. calm T b w0 w \<and> r = None) T b request (handle_method ex request name p)" for name
    by (rule method_answers) (simp add: sc)
  show ?thesis
    unfolding parse_json_rpc_def
    by (intro keeps_case_option sends_replies [where request = request] routes_response answers_rules m; simp)
qed

lemma serves_messages [calm_rules]: "keeps (calm T b w0) (parse_message ex parsed n p)"
proof -
  have "keeps (calm T b w0) (parse_json_array ex batch p)" for batch
    unfolding parse_json_array_def by (intro keeps_for_each_ok keeps_if serves keeps_return)
  then have "keeps (calm T b w0) (case message of JArray _ \<Rightarrow> parse_json_array ex message p
      | JObject _ \<Rightarrow> parse_json_rpc ex message p | _ \<Rightarrow> ret False)" for message
    using serves by (cases message) auto
  then show ?thesis
    unfolding parse_message_def
    by (intro keeps_case_option keeps_case_prod keeps_bind keeps_if keeps_gets keeps_return)
qed

lemma serves_events: "keeps (calm T b w0) (handle_event ex ev)"
proof -
  have "keeps (calm T b w0) (init_peer memory local)" for memory local
    unfolding init_peer_def add_routing_table_def by (intro keeps_rules calm_rules calm_modify; simp add: typed_objects_def)
  moreover have "keeps (calm T b w0) (timer_read q)" for q
    unfolding timer_read_def by (intro keeps_rules calm_rules calm_modify; simp add: typed_objects_def)
  ultimately show ?thesis
    unfolding handle_event_def by (cases ev) (simp_all, (intro keeps_rules calm_rules; assumption)+)
qed

end

interpretation handler: speaker is_notification
  by unfold_locales

interpretation broker: routing_speaker is_json_rpc
  by unfold_locales (simp_all add: is_json_rpc_def)

subsection \<open>What is sent\<close>

lemma reachable_ok_calm:
  assumes "reachable_ok ex (start c groups users) w" "config_ok c"
  shows "calm is_json_rpc False (start c groups users) w"
  using assms(1)
proof induction
  case reachable_ok_start
  then show ?case using assms(2) by (simp add: calm_def start_def typed_objects_def)
next
  case (reachable_ok_step w ev)
  then have "w\<lparr>env := []\<rparr> = w" using calmD(1) by fastforce
  then have "next_state ex ev [] w = snd (run_state (handle_event ex ev) w)" by (simp add: next_state_def)
  with reachable_ok_step.IH broker.serves_events show ?case by (simp add: keeps_def)
qed


definition hello :: world where
  "hello = run_events demo_externals [Connect demo_memory True, message_of 1 (request_of ''info'' [])] demo_start"

lemma hello_reachable: "reachable_ok demo_externals (start demo_config None None) hello"
proof -
  have "all_possible demo_externals [Connect demo_memory True, message_of 1 (request_of ''info'' [])] demo_start"
    by code_simp
  then show ?thesis using reachable_ok_start unfolding hello_def demo_start_def by (intro run_events_reachable_ok)
qed

lemma hello_sent: "map fst (sent hello) = [1]" by code_simp


lemma silent: "calm (\<lambda>_. False) b w0 w \<Longrightarrow> sent w = sent w0"
proof -
  assume "calm (\<lambda>_. False) b w0 w"
  then obtain ms where ms: "sent w = sent w0 @ ms" "\<forall>(p, m)\<in>set ms. False" unfolding calm_def by blast
  then show ?thesis by (cases ms) (auto split: prod.splits)
qed

text \<open>What a handler leaves its caller: a reply after notifications, or a routed request.\<close>

lemma handled_request:
  assumes c: "\<And>T. calm T False w w" and run: "run_state (handle_method ex request name p) w = (r, w1)"
  shows "replied is_notification False w request r w1 \<or>
    (name = ''set'' \<or> name = ''call'') \<and> r = None \<and> env w1 = [] \<and> (\<exists>owner m. is_request m \<and> sent w1 = sent w @ [(owner, m)])"
proof (cases "name = ''set'' \<or> name = ''call''")
  case True
  let ?R = "\<lambda>w0 r w. r = None \<and> env w = [] \<and> (\<exists>owner m. is_request m \<and> sent w = sent w0 @ [(owner, m)])"
  have "settles ?R (\<lambda>_. False) False request (set_or_call p request what)" for what
  proof (rule set_or_call_answers)
    fix w0 w q m
    assume "calm (\<lambda>_. False) False w0 w" "is_request m"
    with silent [OF this(1)] calmD(1) [OF this(1)]
    show "None = None \<and> env (w\<lparr>sent := sent w @ [(q, m)]\<rparr>) = [] \<and>
        (\<exists>owner n. is_request n \<and> sent (w\<lparr>sent := sent w @ [(q, m)]\<rparr>) = sent w0 @ [(owner, n)])"
      by (intro conjI exI [of _ q] exI [of _ m]) simp_all
  qed
  with True have "settles ?R (\<lambda>_. False) False request (handle_method ex request name p)"
    by (elim disjE) (simp_all add: handle_method_def)
  from validD [OF this [unfolded settles_def, rule_format] c run] True silent [of False w w1] show ?thesis
    by (auto simp: replied_def calm_def)
next
  case False
  then have "settles unrouted is_notification False request (handle_method ex request name p)"
    by (intro handler.method_answers) simp
  from validD [OF this [unfolded settles_def, rule_format] c run] show ?thesis by simp
qed


definition unknown_method :: json where
  "unknown_method = request_of ''no such method'' []"

lemma unknown_method_runs:
  "cJSON_GetObjectItem unknown_method ''method'' = Some (JString ''no such method'')"
  "faults (snd (run_state (parse_json_rpc demo_externals unknown_method 1) hello)) = faults hello"
  by code_simp+


end
