(* ===== verification/Ownership.thy ===== *)
theory Ownership
  imports Requests
begin

text \<open>
  What a message cannot touch: the elements and the fetches of other peers.

  \<open>spares p w0 w\<close> relates the state before a message of \<open>p\<close> to the states while it is handled: elements of
  other peers keep everything but their fetcher table, fetches of other peers stay, and of other peers
  themselves only the routing table and the element list may change.  Every handler keeps it, whatever fails.
\<close>

definition unfetched :: "element \<Rightarrow> element" where
  "unfetched el = el\<lparr>fetcher_table := []\<rparr>"

definition private_part :: "peer \<Rightarrow> peer" where
  "private_part pr = pr\<lparr>routing_table := [], element_list := []\<rparr>"

definition foreign :: "peer_ref \<Rightarrow> world \<Rightarrow> elem_ref \<Rightarrow> bool" where
  "foreign p w0 e \<longleftrightarrow> (\<exists>el. elements w0 e = Some el \<and> e_peer el \<noteq> p)"

definition foreign_fetch :: "peer_ref \<Rightarrow> world \<Rightarrow> fetch_ref \<Rightarrow> bool" where
  "foreign_fetch p w0 f \<longleftrightarrow> (\<exists>ft. fetches w0 f = Some ft \<and> f_peer ft \<noteq> p)"

text \<open>The lists of the peer itself hold nothing foreign, and references are given out once.\<close>

definition own_lists :: "peer_ref \<Rightarrow> world \<Rightarrow> peer \<Rightarrow> bool" where
  "own_lists p w0 pr \<longleftrightarrow> (\<forall>e\<in>set (element_list pr). \<not> foreign p w0 e) \<and> (\<forall>f\<in>set (fetch_list pr). \<not> foreign_fetch p w0 f)"

definition spares :: "peer_ref \<Rightarrow> world \<Rightarrow> world \<Rightarrow> bool" where
  "spares p w0 w \<longleftrightarrow>
     (\<forall>e. foreign p w0 e \<longrightarrow> map_option unfetched (elements w e) = map_option unfetched (elements w0 e)) \<and>
     (\<forall>f. foreign_fetch p w0 f \<longrightarrow> fetches w f = fetches w0 f) \<and>
     (\<forall>q. q \<noteq> p \<longrightarrow> map_option private_part (peers w q) = map_option private_part (peers w0 q)) \<and>
     (\<forall>pr. peers w p = Some pr \<longrightarrow> own_lists p w0 pr) \<and>
     next_ref w0 \<le> next_ref w \<and> (\<forall>r. foreign p w0 r \<or> foreign_fetch p w0 r \<longrightarrow> r < next_ref w0)"

lemma sparesD:
  assumes "spares p w0 w"
  shows "foreign p w0 e \<Longrightarrow> map_option unfetched (elements w e) = map_option unfetched (elements w0 e)"
    and "foreign_fetch p w0 f \<Longrightarrow> fetches w f = fetches w0 f"
    and "q \<noteq> p \<Longrightarrow> map_option private_part (peers w q) = map_option private_part (peers w0 q)"
    and "peers w p = Some pr \<Longrightarrow> own_lists p w0 pr"
    and "next_ref w0 \<le> next_ref w"
    and "foreign p w0 r \<or> foreign_fetch p w0 r \<Longrightarrow> r < next_ref w0"
  using assms unfolding spares_def by blast+

lemma spares_refl:
  assumes "consistent w"
  shows "spares p w w"
proof -
  note D = consistent_butD [OF assms]
  have "own_lists p w pr" if "peers w p = Some pr" for pr
    using linkedD(5,6) [OF D(2) that] by (fastforce simp: own_lists_def foreign_def foreign_fetch_def)
  moreover have "r < next_ref w" if "foreign p w r \<or> foreign_fetch p w r" for r
    using that D(10,11) [of r] by (fastforce simp: foreign_def foreign_fetch_def not_le [symmetric])
  ultimately show ?thesis by (simp add: spares_def)
qed

subsection \<open>Operations that touch nothing foreign\<close>

named_theorems own_rules "operations that spare what belongs to other peers"

lemma own_env_only: "env_only m \<Longrightarrow> keeps (spares p w0) m"
  by (rule env_only_keeps) (simp_all add: env_free_def spares_def)

lemmas own_answers [own_rules] = env_only_ask [THEN own_env_only] env_only_build [THEN own_env_only]
  env_only_response [THEN own_env_only] env_only_groups [THEN own_env_only] env_only_element_table_get [THEN own_env_only]

lemma own_modify:
  "(\<And>w. elements (f w) = elements w \<and> fetches (f w) = fetches w \<and> peers (f w) = peers w \<and> next_ref w \<le> next_ref (f w)) \<Longrightarrow>
   keeps (spares p w0) (modify f)"
proof (rule keeps_modify)
  fix w
  assume f: "\<And>w. elements (f w) = elements w \<and> fetches (f w) = fetches w \<and> peers (f w) = peers w \<and> next_ref w \<le> next_ref (f w)"
    and s: "spares p w0 w"
  have "next_ref w0 \<le> next_ref (f w)" using f [of w] sparesD(5) [OF s] by linarith
  with s f [of w] show "spares p w0 (f w)" by (simp add: spares_def)
qed

lemma own_fault [own_rules]: "keeps (spares p w0) (fault x)"
  unfolding fault_def by (rule own_modify) simp

lemma own_deref [own_rules]: "keeps (spares p w0) (deref heap dflt r)"
  unfolding deref_def by (intro keeps_rules own_rules)

lemma own_get [own_rules]:
  "keeps (spares p w0) (get_peer q)" "keeps (spares p w0) (get_elem e)"
  "keeps (spares p w0) (get_fetch f)" "keeps (spares p w0) (get_request r)"
  unfolding get_peer_def get_elem_def get_fetch_def get_request_def by (intro own_rules)+

lemma own_set_peer:
  assumes "\<And>pr. q = p \<Longrightarrow> own_lists p w0 pr \<Longrightarrow> own_lists p w0 (g pr)"
    and "\<And>pr. q \<noteq> p \<Longrightarrow> private_part (g pr) = private_part pr"
  shows "keeps (spares p w0) (set_peer q g)"
proof (rule keepsI)
  fix w r w'
  assume s: "spares p w0 w" and run: "run_state (set_peer q g) w = (r, w')"
  show "spares p w0 w'"
  proof (cases "peers w q")
    case None
    with run keepsD [OF own_fault s] show ?thesis by (simp add: set_peer_def)
  next
    case (Some pr)
    with run have w': "w' = w\<lparr>peers := (peers w)(q \<mapsto> g pr)\<rparr>" by (simp add: set_peer_def)
    show ?thesis
      using s Some assms(1) [of pr] assms(2) [of pr] sparesD(3) [OF s, of q] unfolding w' by (auto simp: spares_def)
  qed
qed

lemma own_lists_simps [simp]:
  "own_lists p w0 (pr\<lparr>routing_table := t\<rparr>) = own_lists p w0 pr" "own_lists p w0 (pr\<lparr>p_name := n\<rparr>) = own_lists p w0 pr"
  "own_lists p w0 (pr\<lparr>p_fetch_groups := g\<rparr>) = own_lists p w0 pr" "own_lists p w0 (pr\<lparr>p_set_groups := g\<rparr>) = own_lists p w0 pr"
  "own_lists p w0 (pr\<lparr>p_call_groups := g\<rparr>) = own_lists p w0 pr" "own_lists p w0 (pr\<lparr>p_user_name := n\<rparr>) = own_lists p w0 pr"
  by (simp_all add: own_lists_def)

lemma own_set_elem:
  assumes "\<not> foreign p w0 e \<or> (\<forall>el. unfetched (g el) = unfetched el)"
  shows "keeps (spares p w0) (set_elem e g)"
proof (rule keepsI)
  fix w r w'
  assume s: "spares p w0 w" and run: "run_state (set_elem e g) w = (r, w')"
  show "spares p w0 w'"
  proof (cases "elements w e")
    case None
    with run keepsD [OF own_fault s] show ?thesis by (simp add: set_elem_def)
  next
    case (Some el)
    with run have w': "w' = w\<lparr>elements := (elements w)(e \<mapsto> g el)\<rparr>" by (simp add: set_elem_def)
    show ?thesis
      using s Some assms sparesD(1) [OF s, of e] unfolding w' by (auto simp: spares_def)
  qed
qed

lemma own_objects:
  "\<not> foreign p w0 e \<Longrightarrow> keeps (spares p w0) (modify (\<lambda>w. w\<lparr>elements := (elements w)(e \<mapsto> el)\<rparr>))"
  "\<not> foreign p w0 e \<Longrightarrow> keeps (spares p w0) (free_element e)"
  "\<not> foreign_fetch p w0 f \<Longrightarrow> keeps (spares p w0) (modify (\<lambda>w. w\<lparr>fetches := (fetches w)(f \<mapsto> ft)\<rparr>))"
  "\<not> foreign_fetch p w0 f \<Longrightarrow> keeps (spares p w0) (modify (\<lambda>w. w\<lparr>fetches := (fetches w)(f := None)\<rparr>))"
  unfolding free_element_def by (rule keeps_modify; auto simp: spares_def)+

lemma new_ref_own:
  "valid (spares p w0) new_ref (\<lambda>r w. spares p w0 w \<and> \<not> foreign p w0 r \<and> \<not> foreign_fetch p w0 r)"
proof (rule validI)
  fix w r w'
  assume s: "spares p w0 w" and "run_state new_ref w = (r, w')"
  then have r: "r = next_ref w" "w' = w\<lparr>next_ref := next_ref w + 1\<rparr>" by (auto simp: run_new_ref)
  with sparesD(5) [OF s] sparesD(6) [OF s, of r] have "\<not> foreign p w0 r \<and> \<not> foreign_fetch p w0 r" by auto
  with s show "spares p w0 w' \<and> \<not> foreign p w0 r \<and> \<not> foreign_fetch p w0 r"
    unfolding r(2) by (auto simp: spares_def)
qed

lemma own_new_ref [own_rules]: "keeps (spares p w0) new_ref"
  by (rule keepsI) (use new_ref_own in \<open>fastforce simp: valid_def\<close>)

lemma get_peer_own: "valid (spares p w0) (get_peer p) (\<lambda>pr w. spares p w0 w \<and> own_lists p w0 pr)"
proof (rule validI)
  fix w pr w'
  assume s: "spares p w0 w" and run: "run_state (get_peer p) w = (pr, w')"
  show "spares p w0 w' \<and> own_lists p w0 pr"
    using keepsD [OF own_get(1) s run] sparesD(4) [OF s] run
    by (cases "peers w p") (auto simp: get_peer_def deref_def fault_def no_peer_def own_lists_def)
qed

lemma get_elem_own: "valid (spares p w0) (get_elem e) (\<lambda>el w. spares p w0 w \<and> (e_peer el = p \<longrightarrow> \<not> foreign p w0 e))"
proof (rule validI)
  fix w el w'
  assume s: "spares p w0 w" and run: "run_state (get_elem e) w = (el, w')"
  have "\<not> foreign p w0 e" if p: "e_peer el = p"
  proof
    assume f: "foreign p w0 e"
    then obtain x where x: "elements w0 e = Some x" "e_peer x \<noteq> p" by (auto simp: foreign_def)
    with sparesD(1) [OF s f] obtain y where y: "elements w e = Some y" "unfetched y = unfetched x" by auto
    with run have "el = y" by (simp add: run_get)
    moreover have "e_peer (unfetched y) = e_peer (unfetched x)" using y(2) by simp
    ultimately show False using x(2) p by (simp add: unfetched_def)
  qed
  with keepsD [OF own_get(2) s run] show "spares p w0 w' \<and> (e_peer el = p \<longrightarrow> \<not> foreign p w0 e)" by blast
qed


subsection \<open>Handlers\<close>

lemma own_or [own_rules]:
  "keeps (spares p w0) m \<Longrightarrow> (\<And>x. keeps (spares p w0) (f x)) \<Longrightarrow> keeps (spares p w0) (or_return m f)"
  "keeps (spares p w0) m \<Longrightarrow> (\<And>x. keeps (spares p w0) (g x)) \<Longrightarrow> keeps (spares p w0) (or_fail m g)"
  by (rule keeps_or_return keeps_or_fail; assumption)+

lemma own_send [own_rules]:
  "keeps (spares p w0) (send_message q m)" "keeps (spares p w0) (format_and_send_response q m)"
  "keeps (spares p w0) (send_response r q)"
proof -
  show m: "keeps (spares p w0) (send_message q m)" for q m
    unfolding send_message_def by (intro keeps_rules own_rules own_modify) simp
  show "keeps (spares p w0) (format_and_send_response q m)" "keeps (spares p w0) (send_response r q)"
    unfolding format_and_send_response_def send_response_def by (intro keeps_rules own_rules m)+
qed

lemma own_tables [own_rules]:
  "keeps (spares p w0) (route_table_put q k r)" "keeps (spares p w0) (route_table_remove q k)"
  "keeps (spares p w0) (element_table_put path e)" "keeps (spares p w0) (element_table_remove path)"
  unfolding route_table_put_def route_table_remove_def element_table_put_def element_table_remove_def Let_def
  by (intro keeps_rules own_rules own_set_peer own_modify; simp add: private_part_def)+

lemma own_timer [own_rules]:
  "keeps (spares p w0) (cjet_timer_init q)" "keeps (spares p w0) (cjet_timer_destroy q)"
  "keeps (spares p w0) (timer_start q ns)" "keeps (spares p w0) (timer_cancel q)" "keeps (spares p w0) (free_request q)"
  unfolding cjet_timer_init_def cjet_timer_destroy_def timer_start_def timer_cancel_def free_request_def
  by (intro keeps_rules own_rules own_modify; simp)+

lemma own_timeout [own_rules]:
  "keeps (spares p w0) (convert_seconds_to_nsec d)"
  "keeps (spares p w0) (get_timeout_in_nsec request t dt)"
proof -
  show "keeps (spares p w0) (convert_seconds_to_nsec d)" for d
    unfolding convert_seconds_to_nsec_def by (cases d) (auto intro!: keeps_rules own_rules)
  then show "keeps (spares p w0) (get_timeout_in_nsec request t dt)"
    unfolding get_timeout_in_nsec_def by (intro keeps_rules own_rules)
qed

lemma own_params [own_rules]:
  "keeps (spares p w0) (get_path_from_params request params)"
  "keeps (spares p w0) (get_fetch_only_from_params request params)"
  "keeps (spares p w0) (get_fetch_id request params)"
  "keeps (spares p w0) (get_string_param request params n c d)"
  unfolding get_path_from_params_def get_fetch_only_from_params_def get_fetch_id_def get_string_param_def Let_def
  by (intro keeps_rules own_rules)+

lemma own_create_fetch [own_rules]: "keeps (spares p w0) (create_fetch q request j params)"
proof -
  have copy: "keeps (spares p w0) (copy_path_elements xs)" for xs
    by (induction xs) (auto intro!: keeps_rules own_rules)
  have cm: "keeps (spares p w0) (create_matcher n m ic)" for n m ic
    unfolding create_matcher_def create_path_matcher_def fill_path_elements_def Let_def
    by (intro keeps_rules own_rules copy)
  have loop: "keeps (spares p w0) (add_matchers_from xs ic i ms)" for xs ic i ms
    by (induction xs ic i ms rule: add_matchers_from.induct) (auto intro!: keeps_rules own_rules cm split: option.split)
  show ?thesis
    unfolding create_fetch_def add_matchers_def alloc_fetch_def Let_def by (intro keeps_rules own_rules loop)
qed

lemma own_matching [own_rules]: "keeps (spares p w0) (state_matches e f)"
proof -
  have "keeps (spares p w0) (matches_from ms path)" for ms path
    by (induction ms path rule: matches_from.induct) (auto intro!: keeps_rules own_rules split: option.split)
  then show ?thesis unfolding state_matches_def by (intro keeps_rules own_rules)
qed

lemma own_notify [own_rules]:
  "keeps (spares p w0) (notify_fetching_peer e f ev)" "keeps (spares p w0) (notify_fetchers r ev)"
  unfolding notify_fetching_peer_def notify_fetchers_def by (intro keeps_rules own_rules)+

lemma own_subscribe [own_rules]:
  "keeps (spares p w0) (add_fetch_to_state_and_notify e f)" "keeps (spares p w0) (add_fetch_to_states_in_peer q f)"
  "keeps (spares p w0) (find_fetchers_for_element e)" "keeps (spares p w0) (remove_fetch_from_states f)"
proof -
  have t: "keeps (spares p w0) (add_fetch_to_state e f)" for e f
    unfolding add_fetch_to_state_def Let_def by (intro keeps_rules own_rules own_set_elem; simp add: unfetched_def)
  show a: "keeps (spares p w0) (add_fetch_to_state_and_notify e f)" for e f
    unfolding add_fetch_to_state_and_notify_def by (intro keeps_rules own_rules t)
  show "keeps (spares p w0) (add_fetch_to_states_in_peer q f)" "keeps (spares p w0) (find_fetchers_for_element e)"
    unfolding add_fetch_to_states_in_peer_def find_fetchers_for_element_def find_fetchers_for_element_in_peer_def
    by (intro keeps_rules own_rules a)+
  show "keeps (spares p w0) (remove_fetch_from_states f)"
    unfolding remove_fetch_from_states_def remove_fetch_from_states_in_peer_def remove_fetch_from_state_def
    by (intro keeps_rules own_rules own_set_elem; simp add: unfetched_def)
qed

lemma own_answers_for_others [own_rules]: "keeps (spares p w0) (handle_routing_response j x k q)"
  unfolding handle_routing_response_def by (intro keeps_rules own_rules)

lemma own_simple_handlers [own_rules]:
  "keeps (spares p w0) (config_peer p request)" "keeps (spares p w0) (handle_info a b request)"
  "keeps (spares p w0) (get_elements request p)" "keeps (spares p w0) (handle_authentication crypt p request)"
  unfolding config_peer_def set_peer_name_def handle_info_def create_info_def
    get_elements_def get_elements_in_peer_def get_element_def handle_authentication_def credentials_ok_def
  by (intro keeps_rules own_rules own_set_peer; simp)+

lemma own_passwd [own_rules]: "keeps (spares p w0) (handle_change_password c ri rb q request)"
proof -
  have salt: "keeps (spares p w0) (get_salt_from_passwd ri rb pw)" for pw
    unfolding get_salt_from_passwd_def by (intro keeps_rules own_rules)
  have wud: "keeps (spares p w0) write_user_data"
    unfolding write_user_data_def by (intro keeps_rules own_rules)
  have item: "keeps (spares p w0) (modify (\<lambda>w. case item of None \<Rightarrow> w | Some item \<Rightarrow> w\<lparr>user_data := f item (user_data w)\<rparr>))"
    for item :: "json option" and f
    by (rule own_modify) (simp split: option.split)
  show ?thesis
    unfolding handle_change_password_def change_password_def by (intro keeps_rules own_rules salt wud item)
qed

lemma own_routing [own_rules]:
  "keeps (spares p w0) (alloc_routing_request q o' j)" "keeps (spares p w0) (set_or_call q request what)"
proof -
  show a: "keeps (spares p w0) (alloc_routing_request q o' j)" for q o' j
    unfolding alloc_routing_request_def calculate_size_for_routed_request_id_def fill_routed_request_id_def
    by (intro keeps_rules own_rules own_modify; simp)
  have c: "keeps (spares p w0) (create_routed_message path what v i)" for path v i
    unfolding create_routed_message_def by (cases what; simp; intro keeps_rules own_rules)
  have r: "keeps (spares p w0) (setup_routing_information e request t r)" for e t r
    unfolding setup_routing_information_def by (intro keeps_rules own_rules)
  show "keeps (spares p w0) (set_or_call q request what)"
    unfolding set_or_call_def Let_def by (intro keeps_rules own_rules a c r)
qed

subsection \<open>Handlers that change what is the peer's own\<close>

lemma keeps_own_bind:
  "valid I m (\<lambda>x w. I w \<and> S x) \<Longrightarrow> (\<And>x. S x \<Longrightarrow> keeps I (f x)) \<Longrightarrow> keeps I (State_Monad.bind m f)"
  unfolding keeps_valid by (rule valid_bind) (auto simp: valid_def)

lemma own_change_state [own_rules]: "keeps (spares p w0) (change_state p request)"
proof -
  have step: "keeps (spares p w0) (do {
      el \<leftarrow> get_elem e;
      if e_peer el \<noteq> p
      then create_error_response_from_request request INVALID_PARAMS ''not owner of state'' path
      else if e_value el = None
      then create_error_response_from_request request INVALID_PARAMS ''change on method not possible'' path
      else do {
        value_copy \<leftarrow> cJSON_Duplicate v;
        case value_copy of
          None \<Rightarrow> create_error_response_from_request request INTERNAL_ERROR ''not enough memory'' path
        | Some value_copy \<Rightarrow> do {
            set_elem e (\<lambda>el. el\<lparr>e_value := Some value_copy\<rparr>);
            notified \<leftarrow> notify_fetchers e ''change'';
            if \<not> notified
            then create_error_response_from_request request INTERNAL_ERROR ''could not notify fetching peer'' path
            else create_success_response_from_request request } } })" for e path v
    by (rule keeps_own_bind [OF get_elem_own]) (intro keeps_rules own_rules own_set_elem; simp)
  show ?thesis
    unfolding change_state_def by (intro step keeps_rules own_rules)
qed

lemma own_fetch [own_rules]: "keeps (spares p w0) (process_fetch request p)"
proof -
  have new: "keeps (spares p w0) (do {
      r \<leftarrow> new_ref;
      modify (\<lambda>w. w\<lparr>fetches := (fetches w)(r \<mapsto> f)\<rparr>);
      set_peer p (\<lambda>pr. pr\<lparr>fetch_list := fetch_list pr @ [r]\<rparr>);
      ret (Inr r :: json option + fetch_ref) })" for f
    by (rule keeps_own_bind [OF new_ref_own]) (intro keeps_rules own_objects own_set_peer; simp add: own_lists_def)
  have find: "keeps (spares p w0) (find_fetch q j)" for q j
  proof -
    have "keeps (spares p w0) (find_fetch_in fs j)" for fs
      by (induction fs) (auto intro!: keeps_rules own_rules)
    then show ?thesis unfolding find_fetch_def by (intro keeps_rules own_rules)
  qed
  show ?thesis
    unfolding process_fetch_def add_fetch_to_peer_def add_fetch_to_states_def
    by (intro keeps_rules own_rules new find)
qed

lemma find_fetch_own: "valid (spares p w0) (find_fetch p j) (\<lambda>r w. spares p w0 w \<and> (\<forall>f. r = Some f \<longrightarrow> \<not> foreign_fetch p w0 f))"
  unfolding find_fetch_def
proof (rule valid_bind [OF get_peer_own])
  fix pr
  have "keeps (spares p w0) (find_fetch_in fs j)" for fs
    by (induction fs) (auto intro!: keeps_rules own_rules)
  then show "valid (\<lambda>w. spares p w0 w \<and> own_lists p w0 pr) (find_fetch_in (fetch_list pr) j)
      (\<lambda>r w. spares p w0 w \<and> (\<forall>f. r = Some f \<longrightarrow> \<not> foreign_fetch p w0 f))"
    using find_fetch_in_list by (fastforce simp: valid_def keeps_def own_lists_def prod_eq_iff)
qed

lemma own_unlink: "\<not> foreign_fetch p w0 f \<Longrightarrow> keeps (spares p w0) (unlink_fetch p f)"
  unfolding unlink_fetch_def
  by (intro keeps_rules own_objects own_set_peer) (auto simp: own_lists_def dest: notin_set_remove1)

lemma own_unfetch [own_rules]: "keeps (spares p w0) (remove_fetch_from_peer p request)"
  unfolding remove_fetch_from_peer_def
  by (intro keeps_or_return own_rules keeps_own_bind [OF find_fetch_own] keeps_case_option keeps_bind own_unlink) simp

lemma find_element_own:
  "own_lists p w0 pr \<Longrightarrow> valid (spares p w0) (find_element_in (element_list pr) path)
     (\<lambda>r w. spares p w0 w \<and> (\<forall>e. r = Some e \<longrightarrow> \<not> foreign p w0 e))"
proof -
  assume own: "own_lists p w0 pr"
  have "keeps (spares p w0) (find_element_in es path)" for es
    by (induction es) (auto intro!: keeps_rules own_rules)
  then show ?thesis
    using find_element_in_list own by (fastforce simp: valid_def keeps_def own_lists_def prod_eq_iff)
qed

lemma own_remove_element: "\<not> foreign p w0 e \<Longrightarrow> keeps (spares p w0) (remove_element e)"
  unfolding remove_element_def
  by (intro keeps_rules own_rules own_objects own_set_peer)
    (auto simp: own_lists_def private_part_def dest: notin_set_remove1)

lemma own_remove [own_rules]: "keeps (spares p w0) (remove_element_from_peer p request)"
  unfolding remove_element_from_peer_def
  by (intro keeps_or_return own_rules keeps_own_bind [OF get_peer_own] keeps_own_bind [OF find_element_own]
      keeps_case_option keeps_bind own_remove_element) simp_all

lemma own_add [own_rules]: "keeps (spares p w0) (add_element_to_peer p request)"
proof -
  have fill: "keeps (spares p w0) (fill_access request access el)" for access el
    unfolding fill_access_def fill_fetch_groups_def fill_set_groups_def fill_call_groups_def fill_group_def Let_def
    by (intro keeps_rules own_rules)
  have init: "keeps (spares p w0) (init_element request p)"
    unfolding init_element_def Let_def by (intro keeps_rules own_rules fill)
  have new: "keeps (spares p w0) (do {
      e \<leftarrow> new_ref;
      modify (\<lambda>w. w\<lparr>elements := (elements w)(e \<mapsto> el)\<rparr>);
      notified \<leftarrow> find_fetchers_for_element e;
      if \<not> notified then do {
        free_element e;
        create_error_response_from_request request INTERNAL_ERROR ''reason'' ''could not notify fetching peer'' }
      else do {
        status \<leftarrow> element_table_put (e_path el) e;
        if status \<noteq> HASHTABLE_SUCCESS then do {
          free_element e;
          create_error_response_from_request request INTERNAL_ERROR ''reason'' ''element table full'' }
        else do {
          set_peer p (\<lambda>pr. pr\<lparr>element_list := element_list pr @ [e]\<rparr>);
          create_success_response_from_request request } } })" for el
    by (rule keeps_own_bind [OF new_ref_own]) (intro keeps_rules own_rules own_objects own_set_peer; simp add: own_lists_def)
  show ?thesis
    unfolding add_element_to_peer_def by (intro keeps_rules own_rules init new)
qed

lemma own_message: "keeps (spares p w0) (parse_message ex parsed n p)"
proof -
  have rpc: "keeps (spares p w0) (parse_json_rpc ex request p)" for request
    unfolding parse_json_rpc_def handle_method_def by (intro keeps_rules own_rules)
  then have "keeps (spares p w0) (parse_json_array ex batch p)" for batch
    unfolding parse_json_array_def by (intro keeps_rules)
  with rpc have "keeps (spares p w0) (case message of JArray _ \<Rightarrow> parse_json_array ex message p
      | JObject _ \<Rightarrow> parse_json_rpc ex message p | _ \<Rightarrow> ret False)" for message
    by (cases message) auto
  then show ?thesis
    unfolding parse_message_def by (intro keeps_rules)
qed

lemma own_leave: "keeps (spares p w0) (free_peer p)"
proof -
  have answer: "keeps (spares p w0) (clear_routing_entry q)" for q
    unfolding clear_routing_entry_def send_shutdown_response_def by (intro keeps_rules own_rules)
  have entry: "keeps (spares p w0) (remove_entry q i)" for q i
    unfolding remove_entry_def by (intro keeps_rules own_rules)
  have routes: "keeps (spares p w0) (remove_peer_from_routing_table q p)" for q
    unfolding remove_peer_from_routing_table_def by (intro keeps_rules own_rules entry answer)
  have each: "keeps (spares p w0) (for_each f xs)" if "\<And>x. x \<in> set xs \<Longrightarrow> keeps (spares p w0) (f x)" for f and xs :: "nat list"
    using that by (induction xs) (auto intro!: keeps_rules)
  have fetches: "keeps (spares p w0) (remove_all_fetchers_from_peer p)"
    unfolding remove_all_fetchers_from_peer_def
    by (rule keeps_own_bind [OF get_peer_own])
      (auto intro!: each keeps_bind own_rules own_unlink simp: own_lists_def)
  have elements: "keeps (spares p w0) (remove_all_elements_from_peer p)"
    unfolding remove_all_elements_from_peer_def
    by (rule keeps_own_bind [OF get_peer_own]) (auto intro!: each own_remove_element simp: own_lists_def)
  have gone: "keeps (spares p w0) (modify (\<lambda>w. w\<lparr>peers := (peers w)(p := None)\<rparr>))"
    by (rule keeps_modify) (simp add: spares_def)
  show ?thesis
    unfolding free_peer_def free_peer_resources_def remove_routing_info_from_peer_def remove_peer_from_routes_def
    by (intro keeps_rules own_rules entry answer routes fetches elements gone own_modify; simp)
qed

subsection \<open>The events of a peer\<close>

fun caused_by :: "peer_ref \<Rightarrow> event \<Rightarrow> bool" where
  "caused_by p (Message q parsed n) \<longleftrightarrow> q = p"
| "caused_by p (Disconnect q) \<longleftrightarrow> q = p"
| "caused_by p _ \<longleftrightarrow> False"

lemma own_events: "caused_by p ev \<Longrightarrow> keeps (spares p w0) (handle_event ex ev)"
  using own_message own_leave unfolding handle_event_def
  by (cases ev) (auto intro!: keeps_bind keeps_return)

lemma unfetched_eq: "unfetched a = unfetched b \<Longrightarrow> \<exists>fs. a = b\<lparr>fetcher_table := fs\<rparr>"
  by (cases a; cases b) (simp add: unfetched_def)

lemma private_part_eq:
  "private_part a = private_part b \<Longrightarrow> a = b\<lparr>routing_table := routing_table a, element_list := element_list a\<rparr>"
  by (cases a; cases b) (simp add: private_part_def)

text \<open>C10: Peers own what they added: whatever a peer sends, even when its connection ends, the states and
  methods of every other peer keep path, value, access groups and timeout and stay in the element table under
  their path, the other peers' fetches stay, and of the other peers themselves (name, user, groups, fetches) only
  the table of pending requests can change, and none of their elements leaves their list.\<close>
theorem peers_own_their_elements:
  assumes "config_ok c" "reachable ex (start c groups users) w" "possible ev w" "caused_by p ev" "q \<noteq> p"
    and "w' = next_state ex ev answers w"
  shows "(\<forall>e el. elements w e = Some el \<and> e_peer el = q \<longrightarrow>
        (\<exists>fs. elements w' e = Some (el\<lparr>fetcher_table := fs\<rparr>)) \<and> lookup_element w' (e_path el) = Some e) \<and>
    (\<forall>f ft. fetches w f = Some ft \<and> f_peer ft = q \<longrightarrow> fetches w' f = Some ft) \<and>
    (\<forall>pr. peers w q = Some pr \<longrightarrow> (\<exists>rt es. set (element_list pr) \<subseteq> set es \<and>
        peers w' q = Some (pr\<lparr>routing_table := rt, element_list := es\<rparr>)))"
proof -
  let ?v = "w\<lparr>env := answers\<rparr>"
  have c: "consistent w" by (rule reachable_consistent [OF assms(1,2)])
  have c': "consistent w'" unfolding assms(6) by (rule reachable_consistent [OF assms(1) reachable_step [OF assms(2,3)]])
  note D = consistent_butD [OF c] and D' = consistent_butD [OF c']
  have "spares p w ?v" using spares_refl [OF c] by (simp add: spares_def)
  then have s: "spares p w w'"
    using keepsD [OF own_events [OF assms(4)]] assms(6) by (metis next_state_def surjective_pairing)
  have el: "\<exists>fs. elements w' e = Some (el\<lparr>fetcher_table := fs\<rparr>)" if "elements w e = Some el" "e_peer el = q" for e el
    using sparesD(1) [OF s, of e] that assms(5) by (fastforce simp: foreign_def intro: unfetched_eq)
  have ft: "fetches w' f = Some ft" if "fetches w f = Some ft" "f_peer ft = q" for f ft
    using sparesD(2) [OF s, of f] that assms(5) by (auto simp: foreign_fetch_def)
  have pr: "\<exists>rt es. set (element_list pr) \<subseteq> set es \<and> peers w' q = Some (pr\<lparr>routing_table := rt, element_list := es\<rparr>)"
    if q: "peers w q = Some pr" for pr
  proof -
    from sparesD(3) [OF s assms(5)] q obtain pr' where pr': "peers w' q = Some pr'" "private_part pr' = private_part pr"
      by auto
    have "e \<in> set (element_list pr')" if "e \<in> set (element_list pr)" for e
    proof -
      from linkedD(5) [OF D(2) q that] obtain el where e: "elements w e = Some el" "e_peer el = q" by blast
      from el [OF e] obtain fs where "elements w' e = Some (el\<lparr>fetcher_table := fs\<rparr>)" by blast
      from D'(5) [OF this] e(2) pr'(1) show ?thesis by auto
    qed
    with pr' private_part_eq [OF pr'(2)] show ?thesis by (metis subsetI)
  qed
  have "lookup_element w' (e_path el) = Some e" if "elements w e = Some el" "e_peer el = q" for e el
    using el [OF that] D'(7) by fastforce
  with el ft pr show ?thesis by blast
qed

text \<open>Peer 2 leaves the demo world and peer 1 keeps its state; the fetch that watched it is gone.\<close>
theorem peers_own_their_elements_witness:
  "(\<exists>fs. elements (next_state demo_externals (Disconnect 2) [] demo_world) 4 = Some (demo_element_object\<lparr>fetcher_table := fs\<rparr>)) \<and>
   lookup_element (next_state demo_externals (Disconnect 2) [] demo_world) ''a/b'' = Some 4"
proof -
  have el: "elements demo_world 4 = Some demo_element_object" "e_peer demo_element_object = 1" "e_path demo_element_object = ''a/b''"
    by (simp_all add: demo_element demo_element_object_def)
  have ev: "possible (Disconnect 2) demo_world" "caused_by 2 (Disconnect 2)" "1 \<noteq> (2 :: nat)"
    using demo_facts(1) by (simp_all add: possible_def)
  from peers_own_their_elements [OF demo_config_ok demo_reachable ev refl, of "[]", THEN conjunct1, rule_format, OF conjI, OF el(1,2)] el(3)
  show ?thesis by simp
qed

end
