(* ===== verification/Buffered_Socket.thy ===== *)
theory Buffered_Socket
  imports Prelude
begin

text \<open>
  Buffered sockets: \<^verbatim>\<open>src/src/buffered_socket.c\<close> and the calls of \<^verbatim>\<open>src/src/posix/socket.c\<close> it makes.

  A buffered socket has a read half (a fixed buffer, a read and a write position in it, the reader that
  runs and the callback it delivers to) and a write half (the bytes the kernel did not take yet).  The
  kernel is part of the state: the chunks that have arrived and what a read returns after them, the
  answers to the next writes, and the bytes written so far.

  The callbacks are code of the client (\<^verbatim>\<open>socket_peer.c\<close>, \<^verbatim>\<open>http_connection.c\<close>, \<^verbatim>\<open>websocket.c\<close>): a
  function from the callback that is called, the bytes and the client's state to the client's reaction.
  A reaction may install another reader, as \<^verbatim>\<open>read_exactly\<close> and \<^verbatim>\<open>read_until\<close> do, and may close.  What
  a client writes meanwhile concerns the write half only, which shares no field with the read half.

  The lemmas show that the read half is a function of the byte stream: which callbacks run, with which
  bytes, does not depend on how the kernel cuts the stream into chunks, on when the event loop wakes
  the socket, or on the position of the data in the buffer.  And the write half is a queue: as long as
  no call fails, the bytes written followed by those buffered are the concatenation of all messages.
\<close>

subsection \<open>State\<close>

text \<open>The reader function and its context: \<^verbatim>\<open>get_read_ptr\<close> with a number, \<^verbatim>\<open>internal_read_until\<close> with a delimiter.\<close>

datatype reader = Get_read_ptr nat | Internal_read_until "8 word list"

record 'cb buffered_socket =
  read_buffer :: "8 word list"
  read_ptr :: nat
  write_ptr :: nat
  bs_reader :: "reader option"
  read_callback :: 'cb
  to_write :: nat
  write_buffer :: "8 word list"

datatype read_end = Would_block | Peer_closed | Read_error

datatype write_answer = Wrote nat | Write_block | Write_error

record kernel =
  chunks :: "8 word list list"
  after_chunks :: read_end
  write_answers :: "write_answer list"
  written :: "8 word list"

definition BS_PEER_CLOSED :: int where "BS_PEER_CLOSED = 0"
definition BS_IO_WOULD_BLOCK :: int where "BS_IO_WOULD_BLOCK = -1"
definition BS_IO_ERROR :: int where "BS_IO_ERROR = -2"
definition BS_IO_TOOMUCHDATA :: int where "BS_IO_TOOMUCHDATA = -3"

definition buffered_socket_init :: "'cb buffered_socket \<Rightarrow> 'cb buffered_socket" where
  "buffered_socket_init bs = bs\<lparr>to_write := 0, read_ptr := 0, write_ptr := 0, bs_reader := None\<rparr>"

subsection \<open>Reading\<close>

text \<open>\<^verbatim>\<open>read\<close> of the kernel: at most \<open>count\<close> bytes, from one chunk; \<open>Inl\<close> is what no data means.\<close>

definition socket_read :: "nat \<Rightarrow> kernel \<Rightarrow> (read_end + 8 word list) \<times> kernel" where
  "socket_read count k =
    (case chunks k of
       [] \<Rightarrow> (Inl (after_chunks k), k)
     | c # cs \<Rightarrow> (Inr (take count c), k\<lparr>chunks := (if length c \<le> count then cs else drop count c # cs)\<rparr>))"

definition free_space :: "'cb buffered_socket \<Rightarrow> nat" where
  "free_space bs = length (read_buffer bs) - write_ptr bs"

definition unread_bytes :: "'cb buffered_socket \<Rightarrow> nat" where
  "unread_bytes bs = write_ptr bs - read_ptr bs"

text \<open>\<^verbatim>\<open>memmove\<close> and \<^verbatim>\<open>memcpy\<close> of bytes to a position of a buffer.\<close>

definition store_at :: "nat \<Rightarrow> 8 word list \<Rightarrow> 8 word list \<Rightarrow> 8 word list" where
  "store_at pos bytes buffer = take pos buffer @ bytes @ drop (pos + length bytes) buffer"

definition unread :: "'cb buffered_socket \<Rightarrow> 8 word list" where
  "unread bs = take (unread_bytes bs) (drop (read_ptr bs) (read_buffer bs))"

definition reorganize_read_buffer :: "'cb buffered_socket \<Rightarrow> 'cb buffered_socket" where
  "reorganize_read_buffer bs =
    (let n = unread_bytes bs
     in if n \<noteq> 0 then bs\<lparr>read_buffer := store_at 0 (unread bs) (read_buffer bs), write_ptr := n, read_ptr := 0\<rparr>
        else bs\<lparr>write_ptr := 0, read_ptr := 0\<rparr>)"

definition fill_buffer :: "nat \<Rightarrow> 'cb buffered_socket \<Rightarrow> kernel \<Rightarrow> int \<times> 'cb buffered_socket \<times> kernel" where
  "fill_buffer count bs k =
    (let bs = (if free_space bs < count then reorganize_read_buffer bs else bs)
     in if free_space bs < count then (BS_IO_TOOMUCHDATA, bs, k)
        else (case socket_read (free_space bs) k of
            (Inl Peer_closed, k) \<Rightarrow> (BS_PEER_CLOSED, bs, k)
          | (Inl Read_error, k) \<Rightarrow> (BS_IO_ERROR, bs, k)
          | (Inl Would_block, k) \<Rightarrow> (BS_IO_WOULD_BLOCK, bs, k)
          | (Inr data, k) \<Rightarrow>
              (int (length data),
               bs\<lparr>read_buffer := store_at (write_ptr bs) data (read_buffer bs), write_ptr := write_ptr bs + length data\<rparr>, k)))"

definition pending_input :: "kernel \<Rightarrow> nat" where
  "pending_input k = length (concat (chunks k))"

text \<open>A read that returns data takes it from the kernel, so the loops below end.\<close>

lemma fill_buffer_pending:
  assumes "fill_buffer count bs k = (n, bs', k')" "0 < n"
  shows "pending_input k' + nat n = pending_input k"
  using assms
  by (cases "chunks k")
    (auto simp: fill_buffer_def socket_read_def pending_input_def Let_def BS_PEER_CLOSED_def BS_IO_ERROR_def
      BS_IO_WOULD_BLOCK_def BS_IO_TOOMUCHDATA_def split: if_splits read_end.splits)

text \<open>The results are the code's: a negative code, or a length with the bytes at \<^verbatim>\<open>*read_ptr\<close>.\<close>

function get_read_ptr :: "nat \<Rightarrow> 'cb buffered_socket \<Rightarrow> kernel \<Rightarrow> int \<times> 8 word list \<times> 'cb buffered_socket \<times> kernel" where
  "get_read_ptr count bs k =
    (if count \<le> unread_bytes bs
     then (int count, take count (drop (read_ptr bs) (read_buffer bs)), bs\<lparr>read_ptr := read_ptr bs + count\<rparr>, k)
     else (case fill_buffer (count - unread_bytes bs) bs k of
         (n, bs, k) \<Rightarrow> if n \<le> 0 then (n, [], bs, k) else get_read_ptr count bs k))"
  by auto
termination
  by (relation "measure (\<lambda>(count, bs, k). pending_input k)") (auto dest: fill_buffer_pending [OF sym])

declare get_read_ptr.simps [simp del]

text \<open>\<^verbatim>\<open>jet_memmem\<close>: the position of the first occurrence.\<close>

fun jet_memmem :: "8 word list \<Rightarrow> 8 word list \<Rightarrow> nat option" where
  "jet_memmem [] needle = (if needle = [] then Some 0 else None)"
| "jet_memmem (c # haystack) needle =
    (if take (length needle) (c # haystack) = needle then Some 0
     else map_option Suc (jet_memmem haystack needle))"

function internal_read_until ::
    "8 word list \<Rightarrow> 'cb buffered_socket \<Rightarrow> kernel \<Rightarrow> int \<times> 8 word list \<times> 'cb buffered_socket \<times> kernel" where
  "internal_read_until needle bs k =
    (case jet_memmem (unread bs) needle of
       Some found \<Rightarrow>
         let diff = found + length needle
         in (int diff, take diff (drop (read_ptr bs) (read_buffer bs)), bs\<lparr>read_ptr := read_ptr bs + diff\<rparr>, k)
     | None \<Rightarrow>
         (case fill_buffer 1 bs k of
            (n, bs, k) \<Rightarrow> if n \<le> 0 then (n, [], bs, k) else internal_read_until needle bs k))"
  by auto
termination
  by (relation "measure (\<lambda>(count, bs, k). pending_input k)") (auto dest: fill_buffer_pending [OF sym])

declare internal_read_until.simps [simp del]

definition run_reader :: "reader \<Rightarrow> 'cb buffered_socket \<Rightarrow> kernel \<Rightarrow> int \<times> 8 word list \<times> 'cb buffered_socket \<times> kernel" where
  "run_reader r = (case r of Get_read_ptr n \<Rightarrow> get_read_ptr n | Internal_read_until d \<Rightarrow> internal_read_until d)"

text \<open>What a callback does: close, or go on, perhaps with another reader and callback.\<close>

datatype ('cb, 's) reaction = Closed 's | Go_on "(reader \<times> 'cb) option" 's

type_synonym ('cb, 's) client = "'cb \<Rightarrow> 8 word list \<Rightarrow> 's \<Rightarrow> ('cb, 's) reaction"

definition install :: "(reader \<times> 'cb) option \<Rightarrow> 'cb buffered_socket \<Rightarrow> 'cb buffered_socket" where
  "install next bs = (case next of None \<Rightarrow> bs | Some (r, cb) \<Rightarrow> bs\<lparr>bs_reader := Some r, read_callback := cb\<rparr>)"

text \<open>The loops end: a delivery takes bytes out of the buffer, and they came from the kernel.\<close>

lemma unread_fill:
  "fill_buffer count bs k = (n, bs', k') \<Longrightarrow> unread_bytes bs' \<le> unread_bytes bs + nat n"
  by (auto simp: fill_buffer_def reorganize_read_buffer_def unread_bytes_def Let_def BS_PEER_CLOSED_def BS_IO_ERROR_def
      BS_IO_WOULD_BLOCK_def BS_IO_TOOMUCHDATA_def split: if_splits read_end.splits sum.splits prod.splits)

lemma get_read_ptr_decreases:
  "get_read_ptr count bs k = (len, buf, bs', k') \<Longrightarrow> 0 < len \<Longrightarrow>
   pending_input k' + unread_bytes bs' < pending_input k + unread_bytes bs"
proof (induction count bs k rule: get_read_ptr.induct)
  case (1 count bs k)
  show ?case
  proof (cases "count \<le> unread_bytes bs")
    case True
    with 1(2,3) show ?thesis by (auto simp: get_read_ptr.simps [of count bs k] unread_bytes_def)
  next
    case False
    obtain n bs1 k1 where f: "fill_buffer (count - unread_bytes bs) bs k = (n, bs1, k1)" by (cases "fill_buffer (count - unread_bytes bs) bs k")
    with False 1(2,3) have n: "0 < n" and r: "get_read_ptr count bs1 k1 = (len, buf, bs', k')"
      by (auto simp: get_read_ptr.simps [of count bs k] split: if_splits)
    have "pending_input k' + unread_bytes bs' < pending_input k1 + unread_bytes bs1"
      using 1(1) [OF False f [symmetric] refl _ r 1(3)] n by simp
    with fill_buffer_pending [OF f n] unread_fill [OF f] n show ?thesis by linarith
  qed
qed

lemma jet_memmem_bound: "jet_memmem h n = Some i \<Longrightarrow> i + length n \<le> length h"
proof (induction h n arbitrary: i rule: jet_memmem.induct)
  case (2 c h n)
  show ?case
  proof (cases "take (length n) (c # h) = n")
    case True
    then have "length n \<le> length (c # h)" by (metis length_take min.cobounded1)
    with True 2(2) show ?thesis by auto
  next
    case False
    with 2 show ?thesis by auto
  qed
qed (auto split: if_splits)

lemma internal_read_until_decreases:
  "internal_read_until needle bs k = (len, buf, bs', k') \<Longrightarrow> 0 < len \<Longrightarrow>
   pending_input k' + unread_bytes bs' < pending_input k + unread_bytes bs"
proof (induction needle bs k rule: internal_read_until.induct)
  case (1 needle bs k)
  show ?case
  proof (cases "jet_memmem (unread bs) needle")
    case (Some i)
    have "i + length needle \<le> unread_bytes bs"
      using jet_memmem_bound [OF Some] by (simp add: unread_def)
    with Some 1(2,3) show ?thesis
      by (auto simp: internal_read_until.simps [of needle bs k] unread_bytes_def Let_def)
  next
    case None
    obtain n bs1 k1 where f: "fill_buffer 1 bs k = (n, bs1, k1)" by (cases "fill_buffer 1 bs k")
    with None 1(2,3) have n: "0 < n" and r: "internal_read_until needle bs1 k1 = (len, buf, bs', k')"
      by (auto simp: internal_read_until.simps [of needle bs k] split: if_splits)
    have "pending_input k' + unread_bytes bs' < pending_input k1 + unread_bytes bs1"
      using 1(1) [OF None f [symmetric] refl _ r 1(3)] n by simp
    with fill_buffer_pending [OF f n] unread_fill [OF f] n show ?thesis by linarith
  qed
qed

lemma run_reader_decreases:
  "run_reader r bs k = (len, buf, bs', k') \<Longrightarrow> 0 < len \<Longrightarrow>
   pending_input k' + unread_bytes bs' < pending_input k + unread_bytes bs"
  by (auto simp: run_reader_def get_read_ptr_decreases internal_read_until_decreases split: reader.splits)

lemma install_same [simp]: "unread_bytes (install next bs) = unread_bytes bs"
  by (simp add: install_def unread_bytes_def split: option.split)

text \<open>Every caller installs a reader before it calls \<^verbatim>\<open>go_reading\<close>, so the first case does not occur.\<close>

function go_reading ::
    "('cb, 's) client \<Rightarrow> 'cb buffered_socket \<Rightarrow> kernel \<Rightarrow> 's \<Rightarrow> int \<times> 'cb buffered_socket \<times> kernel \<times> 's" where
  "go_reading call bs k s =
    (case bs_reader bs of
       None \<Rightarrow> (0, bs, k, s)
     | Some r \<Rightarrow>
        (case run_reader r bs k of
          (len, buffer, bs, k) \<Rightarrow>
            if len < 0 then (len, bs, k, s)
            else (case call (read_callback bs) buffer s of
                Closed s \<Rightarrow> (0, bs, k, s)
              | Go_on next s \<Rightarrow>
                  if len = 0 then (0, install next bs, k, s) else go_reading call (install next bs) k s)))"
  by auto
termination
  by (relation "measure (\<lambda>(call, bs, k, s). pending_input k + unread_bytes bs)")
    (auto dest: run_reader_decreases [OF sym])

declare go_reading.simps [simp del]

datatype eventloop_return = EL_ABORT_LOOP | EL_EVENT_REMOVED | EL_CONTINUE_LOOP

text \<open>The flag says whether \<^verbatim>\<open>error_function\<close> ran, that is, the callback \<^verbatim>\<open>error\<close> of the client.\<close>

definition read_function ::
    "('cb, 's) client \<Rightarrow> 'cb buffered_socket \<Rightarrow> kernel \<Rightarrow> 's \<Rightarrow>
     eventloop_return \<times> bool \<times> 'cb buffered_socket \<times> kernel \<times> 's" where
  "read_function call bs k s =
    (case go_reading call bs k s of
       (ret, bs, k, s) \<Rightarrow>
         (if ret = 0 then EL_EVENT_REMOVED else EL_CONTINUE_LOOP, ret < 0 \<and> ret \<noteq> BS_IO_WOULD_BLOCK, bs, k, s))"

text \<open>\<open>read_exactly\<close> and \<open>read_until\<close>, with the answer of the event loop to the registration.\<close>

definition start_reading ::
    "reader \<Rightarrow> 'cb \<Rightarrow> ('cb, 's) client \<Rightarrow> eventloop_return \<Rightarrow> 'cb buffered_socket \<Rightarrow> kernel \<Rightarrow> 's \<Rightarrow>
     int \<times> bool \<times> 'cb buffered_socket \<times> kernel \<times> 's" where
  "start_reading r cb call add_answer bs k s =
    (let first_run = (bs_reader bs = None);
         bs = install (Some (r, cb)) bs
     in if \<not> first_run then (0, False, bs, k, s)
        else if add_answer = EL_ABORT_LOOP then (-1, False, bs, k, s)
        else (case go_reading call bs k s of
            (ret, bs, k, s) \<Rightarrow> (0, ret < 0 \<and> ret \<noteq> BS_IO_WOULD_BLOCK, bs, k, s)))"

definition buffered_socket_read_exactly where
  "buffered_socket_read_exactly num = start_reading (Get_read_ptr num)"

definition buffered_socket_read_until where
  "buffered_socket_read_until delim = start_reading (Internal_read_until delim)"

subsection \<open>The specification: a client on a byte stream\<close>

datatype item = Item "8 word list" | Not_yet | Too_much

definition next_item :: "nat \<Rightarrow> reader \<Rightarrow> 8 word list \<Rightarrow> item" where
  "next_item cap r st = (case r of
     Get_read_ptr n \<Rightarrow>
       if cap < n then Too_much else if n \<le> length st then Item (take n st) else Not_yet
   | Internal_read_until d \<Rightarrow>
       (case jet_memmem st d of
          Some i \<Rightarrow> if i + length d \<le> cap then Item (take (i + length d) st) else Too_much
        | None \<Rightarrow> if cap \<le> length st then Too_much else Not_yet))"

definition switch :: "(reader \<times> 'cb) option \<Rightarrow> reader \<times> 'cb \<Rightarrow> reader \<times> 'cb" where
  "switch next now = (case next of None \<Rightarrow> now | Some p \<Rightarrow> p)"

function stream_run ::
    "nat \<Rightarrow> ('cb, 's) client \<Rightarrow> reader \<times> 'cb \<Rightarrow> 's \<Rightarrow> 8 word list \<Rightarrow> read_end \<Rightarrow> int \<times> (reader \<times> 'cb) \<times> 's \<times> 8 word list" where
  "stream_run cap call now s st e =
    (case next_item cap (fst now) st of
       Too_much \<Rightarrow> (BS_IO_TOOMUCHDATA, now, s, st)
     | Not_yet \<Rightarrow>
        (case e of
           Would_block \<Rightarrow> (BS_IO_WOULD_BLOCK, now, s, st)
         | Read_error \<Rightarrow> (BS_IO_ERROR, now, s, st)
         | Peer_closed \<Rightarrow>
            (case call (snd now) [] s of Closed s \<Rightarrow> (0, now, s, st) | Go_on next s \<Rightarrow> (0, switch next now, s, st)))
     | Item bytes \<Rightarrow>
        (case call (snd now) bytes s of
           Closed s \<Rightarrow> (0, now, s, drop (length bytes) st)
         | Go_on next s \<Rightarrow>
            if bytes = [] \<or> st = [] then (0, switch next now, s, st)
            else stream_run cap call (switch next now) s (drop (length bytes) st) e))"
  by auto
termination by (relation "measure (\<lambda>(cap, call, now, s, st, e). length st)") auto

declare stream_run.simps [simp del]

subsection \<open>The read half refines the specification\<close>

definition bs_ok :: "'cb buffered_socket \<Rightarrow> bool" where
  "bs_ok bs \<longleftrightarrow> read_ptr bs \<le> write_ptr bs \<and> write_ptr bs \<le> length (read_buffer bs)"

definition byte_stream :: "'cb buffered_socket \<Rightarrow> kernel \<Rightarrow> 8 word list" where
  "byte_stream bs k = unread bs @ concat (chunks k)"

text \<open>What a reader leaves alone, and what it keeps.\<close>

definition reads :: "'cb buffered_socket \<Rightarrow> kernel \<Rightarrow> 'cb buffered_socket \<Rightarrow> kernel \<Rightarrow> bool" where
  "reads bs k bs' k' \<longleftrightarrow> bs_ok bs' \<and> [] \<notin> set (chunks k') \<and> after_chunks k' = after_chunks k \<and>
     bs_reader bs' = bs_reader bs \<and> read_callback bs' = read_callback bs \<and>
     length (read_buffer bs') = length (read_buffer bs)"

definition end_code :: "read_end \<Rightarrow> int" where
  "end_code e = (case e of Would_block \<Rightarrow> BS_IO_WOULD_BLOCK | Peer_closed \<Rightarrow> BS_PEER_CLOSED | Read_error \<Rightarrow> BS_IO_ERROR)"

lemma length_unread: "bs_ok bs \<Longrightarrow> length (unread bs) = unread_bytes bs"
  by (auto simp: bs_ok_def unread_def unread_bytes_def min_def)

lemma length_store_at: "pos + length bytes \<le> length buffer \<Longrightarrow> length (store_at pos bytes buffer) = length buffer"
  by (simp add: store_at_def)

lemma unread_store:
  assumes "bs_ok bs" "write_ptr bs + length data \<le> length (read_buffer bs)"
  shows "unread (bs\<lparr>read_buffer := store_at (write_ptr bs) data (read_buffer bs), write_ptr := write_ptr bs + length data\<rparr>) =
    unread bs @ data"
proof -
  let ?r = "read_ptr bs" and ?w = "write_ptr bs" and ?b = "read_buffer bs"
  have "drop ?r (store_at ?w data ?b) = drop ?r (take ?w ?b) @ data @ drop (?w + length data) ?b"
    using assms by (simp add: store_at_def bs_ok_def)
  moreover have "drop ?r (take ?w ?b) = unread bs" by (simp add: unread_def unread_bytes_def drop_take)
  moreover have "length (unread bs) = ?w - ?r" using length_unread [OF assms(1)] by (simp add: unread_bytes_def)
  moreover have "?w + length data - ?r = (?w - ?r) + length data" using assms(1) by (simp add: bs_ok_def)
  ultimately show ?thesis by (simp add: unread_def unread_bytes_def)
qed

lemma reorganize:
  assumes "bs_ok bs"
  defines "bs' \<equiv> reorganize_read_buffer bs"
  shows "bs_ok bs'" "unread bs' = unread bs" "unread_bytes bs' = unread_bytes bs"
    "free_space bs' = length (read_buffer bs) - unread_bytes bs" "length (read_buffer bs') = length (read_buffer bs)"
    "bs_reader bs' = bs_reader bs" "read_callback bs' = read_callback bs"
proof -
  have len: "length (unread bs) = unread_bytes bs" "unread_bytes bs \<le> length (read_buffer bs)"
    using assms(1) by (auto simp: length_unread) (auto simp: bs_ok_def unread_bytes_def)
  show "bs_ok bs'" "unread bs' = unread bs" "unread_bytes bs' = unread_bytes bs"
    "free_space bs' = length (read_buffer bs) - unread_bytes bs" "length (read_buffer bs') = length (read_buffer bs)"
    "bs_reader bs' = bs_reader bs" "read_callback bs' = read_callback bs"
    using len by (auto simp: bs'_def reorganize_read_buffer_def Let_def bs_ok_def unread_def unread_bytes_def
        free_space_def store_at_def)
qed

lemma make_room:
  fixes count :: nat
  assumes "bs_ok bs"
  defines "bs' \<equiv> if free_space bs < count then reorganize_read_buffer bs else bs"
  shows "bs_ok bs'" "unread bs' = unread bs" "unread_bytes bs' = unread_bytes bs"
    "free_space bs' < count \<longleftrightarrow> length (read_buffer bs) - unread_bytes bs < count"
    "length (read_buffer bs') = length (read_buffer bs)"
    "bs_reader bs' = bs_reader bs" "read_callback bs' = read_callback bs"
proof -
  have "free_space bs \<le> length (read_buffer bs) - unread_bytes bs"
    using assms(1) by (auto simp: bs_ok_def free_space_def unread_bytes_def)
  then show "bs_ok bs'" "unread bs' = unread bs" "unread_bytes bs' = unread_bytes bs"
    "free_space bs' < count \<longleftrightarrow> length (read_buffer bs) - unread_bytes bs < count"
    "length (read_buffer bs') = length (read_buffer bs)"
    "bs_reader bs' = bs_reader bs" "read_callback bs' = read_callback bs"
    using assms(1) by (auto simp: bs'_def reorganize)
qed

text \<open>A fill either reports why there is nothing to read, or appends to what is unread.\<close>

lemma fill_buffer_spec:
  assumes ok: "bs_ok bs" "[] \<notin> set (chunks k)" and c: "1 \<le> count"
    and run: "fill_buffer count bs k = (n, bs', k')"
  shows "reads bs k bs' k'" and "byte_stream bs' k' = byte_stream bs k"
    and "if length (read_buffer bs) - unread_bytes bs < count
         then n = BS_IO_TOOMUCHDATA \<and> unread bs' = unread bs
         else if chunks k = [] then n = end_code (after_chunks k) \<and> unread bs' = unread bs \<and> chunks k' = []
         else 0 < n \<and> (\<exists>data. unread bs' = unread bs @ data)"
proof -
  define bs1 where bs1: "bs1 = (if free_space bs < count then reorganize_read_buffer bs else bs)"
  note room = make_room [OF ok(1), of count, folded bs1]
  have all: "reads bs k bs' k' \<and> byte_stream bs' k' = byte_stream bs k \<and>
      (if length (read_buffer bs) - unread_bytes bs < count
         then n = BS_IO_TOOMUCHDATA \<and> unread bs' = unread bs
         else if chunks k = [] then n = end_code (after_chunks k) \<and> unread bs' = unread bs \<and> chunks k' = []
         else 0 < n \<and> (\<exists>data. unread bs' = unread bs @ data))"
  proof (cases "free_space bs1 < count")
    case True
    with run room(4) have r: "n = BS_IO_TOOMUCHDATA" "bs' = bs1" "k' = k"
      by (simp_all add: fill_buffer_def bs1 [symmetric] Let_def)
    then show ?thesis using room True ok(2) by (simp add: reads_def byte_stream_def)
  next
    case free: False
    show ?thesis
    proof (cases "chunks k")
      case Nil
      with run free have "n = end_code (after_chunks k)" "bs' = bs1" "k' = k"
        by (auto simp: fill_buffer_def bs1 [symmetric] Let_def socket_read_def end_code_def split: read_end.splits)
      then show ?thesis using room free Nil by (simp add: reads_def byte_stream_def)
    next
      case (Cons ch cs)
      define data where data: "data = take (free_space bs1) ch"
      have nonempty: "data \<noteq> []" using ok(2) Cons free c by (auto simp: data)
      have fits: "write_ptr bs1 + length data \<le> length (read_buffer bs1)"
        using room(1) by (auto simp: data free_space_def bs_ok_def)
      from run free Cons have n: "n = int (length data)"
        and bs': "bs' = bs1\<lparr>read_buffer := store_at (write_ptr bs1) data (read_buffer bs1), write_ptr := write_ptr bs1 + length data\<rparr>"
        and k': "k' = k\<lparr>chunks := (if length ch \<le> free_space bs1 then cs else drop (free_space bs1) ch # cs)\<rparr>"
        by (auto simp: fill_buffer_def bs1 [symmetric] Let_def socket_read_def data)
      have un: "unread bs' = unread bs @ data" unfolding bs' by (simp add: unread_store [OF room(1) fits] room(2))
      have "bs_ok bs'" using room(1) fits by (simp add: bs' bs_ok_def length_store_at)
      then have "reads bs k bs' k'" using room ok(2) Cons fits by (simp add: reads_def bs' k' length_store_at)
      moreover have "data @ concat (chunks k') = concat (chunks k)" by (simp add: k' Cons data)
      ultimately show ?thesis using un n nonempty Cons free room(4) by (auto simp: byte_stream_def)
    qed
  qed
  then show "reads bs k bs' k'" and "byte_stream bs' k' = byte_stream bs k"
    and "if length (read_buffer bs) - unread_bytes bs < count
         then n = BS_IO_TOOMUCHDATA \<and> unread bs' = unread bs
         else if chunks k = [] then n = end_code (after_chunks k) \<and> unread bs' = unread bs \<and> chunks k' = []
         else 0 < n \<and> (\<exists>data. unread bs' = unread bs @ data)"
    by simp_all
qed

lemma end_code_le [simp]: "end_code e \<le> 0" "\<not> 0 < end_code e" "\<not> 0 < BS_IO_TOOMUCHDATA"
  by (simp_all add: end_code_def BS_IO_WOULD_BLOCK_def BS_PEER_CLOSED_def BS_IO_ERROR_def BS_IO_TOOMUCHDATA_def split: read_end.split)

text \<open>What a reader returns for the next item of the stream.\<close>

definition reader_result ::
    "nat \<Rightarrow> reader \<Rightarrow> 'cb buffered_socket \<Rightarrow> kernel \<Rightarrow> int \<times> 8 word list \<times> 'cb buffered_socket \<times> kernel \<Rightarrow> bool" where
  "reader_result cap r bs k result \<longleftrightarrow> (case result of (len, buf, bs', k') \<Rightarrow>
     reads bs k bs' k' \<and>
     (case next_item cap r (byte_stream bs k) of
        Item b \<Rightarrow> len = int (length b) \<and> buf = b \<and> byte_stream bs' k' = drop (length b) (byte_stream bs k)
      | Too_much \<Rightarrow> len = BS_IO_TOOMUCHDATA \<and> buf = [] \<and> byte_stream bs' k' = byte_stream bs k
      | Not_yet \<Rightarrow> len = end_code (after_chunks k) \<and> buf = [] \<and> byte_stream bs' k' = byte_stream bs k \<and> chunks k' = []))"

lemma reads_trans: "reads bs k bs1 k1 \<Longrightarrow> reads bs1 k1 bs2 k2 \<Longrightarrow> reads bs k bs2 k2"
  by (simp add: reads_def)

lemma reader_result_step:
  assumes "reads bs k bs1 k1" "byte_stream bs1 k1 = byte_stream bs k" "reader_result cap r bs1 k1 res"
  shows "reader_result cap r bs k res"
  using assms reads_trans [OF assms(1)]
  by (auto simp: reader_result_def reads_def split: prod.splits item.splits)

lemma consume:
  assumes ok: "bs_ok bs" "[] \<notin> set (chunks k)" and n: "n \<le> unread_bytes bs"
  defines "bs' \<equiv> bs\<lparr>read_ptr := read_ptr bs + n\<rparr>"
  shows "reads bs k bs' k" "take n (drop (read_ptr bs) (read_buffer bs)) = take n (byte_stream bs k)"
    "byte_stream bs' k = drop n (byte_stream bs k)"
proof -
  have len: "length (unread bs) = unread_bytes bs" by (rule length_unread [OF ok(1)])
  show "reads bs k bs' k" using ok n by (auto simp: reads_def bs'_def bs_ok_def unread_bytes_def)
  show "take n (drop (read_ptr bs) (read_buffer bs)) = take n (byte_stream bs k)"
    using n len by (simp add: byte_stream_def) (simp add: unread_def min_def)
  have "unread bs' = drop n (unread bs)"
    using n by (simp add: bs'_def unread_def unread_bytes_def drop_take add.commute)
  then show "byte_stream bs' k = drop n (byte_stream bs k)" using n len by (simp add: byte_stream_def)
qed

lemma get_read_ptr_result:
  "bs_ok bs \<Longrightarrow> [] \<notin> set (chunks k) \<Longrightarrow>
   reader_result (length (read_buffer bs)) (Get_read_ptr count) bs k (get_read_ptr count bs k)"
proof (induction count bs k rule: get_read_ptr.induct)
  case (1 count bs k)
  note ok = 1(2,3)
  let ?u = "unread_bytes bs" and ?N = "length (read_buffer bs)"
  have u: "?u \<le> ?N" "length (byte_stream bs k) = ?u + length (concat (chunks k))"
    using ok(1) length_unread [OF ok(1)] by (auto simp: byte_stream_def bs_ok_def unread_bytes_def)
  show ?case
  proof (cases "count \<le> ?u")
    case True
    with u have "next_item ?N (Get_read_ptr count) (byte_stream bs k) = Item (take count (byte_stream bs k))"
      by (simp add: next_item_def)
    with consume [OF ok True] True u show ?thesis
      by (simp add: get_read_ptr.simps [of count bs k] reader_result_def)
  next
    case False
    obtain n bs1 k1 where f: "fill_buffer (count - ?u) bs k = (n, bs1, k1)" by (cases "fill_buffer (count - ?u) bs k")
    have c: "1 \<le> count - ?u" using False by simp
    note spec = fill_buffer_spec [OF ok c f]
    show ?thesis
    proof (cases "0 < n")
      case True
      then have r: "get_read_ptr count bs k = get_read_ptr count bs1 k1"
        using False f by (simp add: get_read_ptr.simps [of count bs k])
      have "reader_result (length (read_buffer bs1)) (Get_read_ptr count) bs1 k1 (get_read_ptr count bs1 k1)"
        using 1(1) [OF False f [symmetric] refl] True spec(1) by (simp add: reads_def)
      with spec(1,2) show ?thesis unfolding r by (intro reader_result_step [of bs k bs1 k1]) (simp_all add: reads_def)
    next
      case no: False
      then have r: "get_read_ptr count bs k = (n, [], bs1, k1)"
        using False f by (simp add: get_read_ptr.simps [of count bs k])
      show ?thesis
      proof (cases "?N - ?u < count - ?u")
        case True
        with u spec(3) have "next_item ?N (Get_read_ptr count) (byte_stream bs k) = Too_much" "n = BS_IO_TOOMUCHDATA"
          by (auto simp: next_item_def)
        with spec(1,2) show ?thesis by (simp add: r reader_result_def)
      next
        case enough: False
        with no spec(3) have "chunks k = []" "n = end_code (after_chunks k)" "chunks k1 = []"
          by (auto split: if_splits)
        moreover from this(1) have "next_item ?N (Get_read_ptr count) (byte_stream bs k) = Not_yet"
          using enough False u by (auto simp: next_item_def)
        ultimately show ?thesis using spec(1,2) by (simp add: r reader_result_def)
      qed
    qed
  qed
qed

text \<open>The first occurrence in a prefix is the first occurrence, if it fits into the prefix.\<close>

lemma memmem_prefix:
  "jet_memmem (take u h) d = (case jet_memmem h d of
     Some i \<Rightarrow> if i + length d \<le> u then Some i else None | None \<Rightarrow> None)"
proof (induction h d arbitrary: u rule: jet_memmem.induct)
  case (1 d)
  then show ?case by simp
next
  case (2 c h d)
  show ?case
  proof (cases u)
    case 0
    show ?thesis
    proof (cases "d = []")
      case False
      then show ?thesis using 0 by (auto split: option.split)
    qed (simp add: 0)
  next
    case (Suc v)
    show ?thesis
    proof (cases "take (length d) (c # h) = d")
      case True
      then have l: "length d \<le> length (c # h)" by (metis length_take min.cobounded1)
      have "take (length d) (take u (c # h)) = d \<longleftrightarrow> length d \<le> u"
      proof
        assume "take (length d) (take u (c # h)) = d"
        then show "length d \<le> u" by (metis length_take min.bounded_iff min.cobounded1)
      next
        assume "length d \<le> u"
        then show "take (length d) (take u (c # h)) = d" using True by (simp only: take_take min_absorb1)
      qed
      moreover have "jet_memmem (take v h) d = None" if "u < length d"
      proof -
        have "length (take v h) < length d" using that Suc by simp
        then show ?thesis using jet_memmem_bound [of "take v h" d] by (cases "jet_memmem (take v h) d") auto
      qed
      ultimately show ?thesis using True Suc by (auto simp: not_le)
    next
      case False
      then have "take (length d) (take u (c # h)) \<noteq> d"
        by (metis length_take min.bounded_iff min.cobounded1 min_absorb1 take_take)
      then show ?thesis using False Suc 2 [OF False, of v] by (auto split: option.splits)
    qed
  qed
qed

lemma internal_read_until_result:
  "bs_ok bs \<Longrightarrow> [] \<notin> set (chunks k) \<Longrightarrow>
   reader_result (length (read_buffer bs)) (Internal_read_until d) bs k (internal_read_until d bs k)"
proof (induction d bs k rule: internal_read_until.induct)
  case (1 d bs k)
  note ok = 1(2,3)
  let ?u = "unread_bytes bs" and ?N = "length (read_buffer bs)"
  have u: "?u \<le> ?N" "length (byte_stream bs k) = ?u + length (concat (chunks k))"
    using ok(1) length_unread [OF ok(1)] by (auto simp: byte_stream_def bs_ok_def unread_bytes_def)
  have prefix: "unread bs = take ?u (byte_stream bs k)"
    using length_unread [OF ok(1)] by (simp add: byte_stream_def)
  note mem = memmem_prefix [of ?u "byte_stream bs k" d, folded prefix]
  show ?case
  proof (cases "jet_memmem (unread bs) d")
    case (Some i)
    with mem have m: "jet_memmem (byte_stream bs k) d = Some i" and i: "i + length d \<le> ?u"
      by (auto split: option.splits if_splits)
    then have "next_item ?N (Internal_read_until d) (byte_stream bs k) = Item (take (i + length d) (byte_stream bs k))"
      using u by (simp add: next_item_def)
    with consume [OF ok i] Some i u show ?thesis
      by (simp add: internal_read_until.simps [of d bs k] reader_result_def Let_def)
  next
    case None
    obtain n bs1 k1 where f: "fill_buffer 1 bs k = (n, bs1, k1)" by (cases "fill_buffer 1 bs k")
    note spec = fill_buffer_spec [OF ok _ f]
    show ?thesis
    proof (cases "0 < n")
      case True
      then have r: "internal_read_until d bs k = internal_read_until d bs1 k1"
        using None f by (simp add: internal_read_until.simps [of d bs k])
      have "reader_result (length (read_buffer bs1)) (Internal_read_until d) bs1 k1 (internal_read_until d bs1 k1)"
        using 1(1) [OF None f [symmetric] refl] True spec(1) by (simp add: reads_def)
      with spec(1,2) show ?thesis unfolding r by (intro reader_result_step [of bs k bs1 k1]) (simp_all add: reads_def)
    next
      case no: False
      then have r: "internal_read_until d bs k = (n, [], bs1, k1)"
        using None f by (simp add: internal_read_until.simps [of d bs k])
      show ?thesis
      proof (cases "?N - ?u < 1")
        case True
        then have full: "?u = ?N" using u by simp
        then have "next_item ?N (Internal_read_until d) (byte_stream bs k) = Too_much"
          using mem None u by (auto simp: next_item_def split: option.splits if_splits)
        moreover have "n = BS_IO_TOOMUCHDATA" using spec(3) True by simp
        ultimately show ?thesis using spec(1,2) by (simp add: r reader_result_def)
      next
        case False
        with no spec(3) have e: "chunks k = []" "n = end_code (after_chunks k)" "chunks k1 = []"
          by (auto split: if_splits)
        then have "byte_stream bs k = unread bs" by (simp add: byte_stream_def)
        with None False u e have "next_item ?N (Internal_read_until d) (byte_stream bs k) = Not_yet"
          by (auto simp: next_item_def)
        with e spec(1,2) show ?thesis by (simp add: r reader_result_def)
      qed
    qed
  qed
qed

lemma run_reader_result:
  "bs_ok bs \<Longrightarrow> [] \<notin> set (chunks k) \<Longrightarrow> reader_result (length (read_buffer bs)) r bs k (run_reader r bs k)"
  by (cases r) (simp_all add: run_reader_def get_read_ptr_result internal_read_until_result)

lemma install_facts [simp]:
  "read_buffer (install next bs) = read_buffer bs" "byte_stream (install next bs) k = byte_stream bs k"
  "bs_ok (install next bs) = bs_ok bs" "unread (install next bs) = unread bs"
  by (simp_all add: install_def byte_stream_def bs_ok_def unread_def unread_bytes_def split: option.split)

definition current :: "'cb buffered_socket \<Rightarrow> reader \<times> 'cb" where
  "current bs = (the (bs_reader bs), read_callback bs)"

lemma current_install: "bs_reader bs \<noteq> None \<Longrightarrow> current (install next bs) = switch next (current bs)"
  "bs_reader bs \<noteq> None \<Longrightarrow> bs_reader (install next bs) \<noteq> None"
  by (auto simp: current_def install_def switch_def split: option.split)

text \<open>\<^verbatim>\<open>go_reading\<close> does what the specification does on the byte stream.\<close>

lemma go_reading_refines:
  assumes "bs_ok bs" "[] \<notin> set (chunks k)" "bs_reader bs \<noteq> None"
    and "go_reading call bs k s = (ret, bs', k', s')"
  shows "stream_run (length (read_buffer bs)) call (current bs) s (byte_stream bs k) (after_chunks k) =
      (ret, current bs', s', byte_stream bs' k') \<and>
    bs_ok bs' \<and> [] \<notin> set (chunks k') \<and> bs_reader bs' \<noteq> None \<and> length (read_buffer bs') = length (read_buffer bs) \<and>
    after_chunks k' = after_chunks k \<and> (ret = BS_IO_WOULD_BLOCK \<longrightarrow> chunks k' = [])"
  using assms
proof (induction call bs k s rule: go_reading.induct)
  case (1 call bs k s)
  note ok = 1(2-4)
  let ?N = "length (read_buffer bs)"
  obtain r where r: "bs_reader bs = Some r" using 1(4) by blast
  obtain len buf bs1 k1 where rd: "run_reader r bs k = (len, buf, bs1, k1)" by (cases "run_reader r bs k")
  have res: "reader_result ?N r bs k (len, buf, bs1, k1)"
    using run_reader_result [OF ok(1,2), of r] rd by simp
  then have reads: "reads bs k bs1 k1" by (simp add: reader_result_def)
  then have r1: "bs_reader bs1 \<noteq> None" "current bs1 = current bs" "read_callback bs1 = read_callback bs"
    using r by (auto simp: reads_def current_def)
  have fst_cur: "fst (current bs) = r" "snd (current bs) = read_callback bs" using r by (simp_all add: current_def)
  note go = 1(5) [unfolded go_reading.simps [of call bs k s] r option.case rd prod.case]
  note spec = stream_run.simps [of ?N call "current bs" s "byte_stream bs k" "after_chunks k", unfolded fst_cur]
  note codes = BS_IO_WOULD_BLOCK_def BS_PEER_CLOSED_def BS_IO_ERROR_def BS_IO_TOOMUCHDATA_def end_code_def
  show ?case
  proof (cases "next_item ?N r (byte_stream bs k)")
    case Not_yet
    with res have e: "len = end_code (after_chunks k)" "buf = []" "byte_stream bs1 k1 = byte_stream bs k" "chunks k1 = []"
      by (simp_all add: reader_result_def)
    show ?thesis
    proof (cases "after_chunks k")
      case Peer_closed
      with e go reads r1(2,3) Not_yet r1(1) show ?thesis
        using current_install [OF r1(1)]
        by (auto simp: spec [unfolded Peer_closed] codes reads_def split: reaction.splits)
    next
      case Would_block
      have "s' = s" "bs' = bs1" "k' = k1" "ret = len" using go e Would_block by (auto simp: codes)
      then show ?thesis using e reads r1 Not_yet Would_block by (auto simp: spec [unfolded Would_block] codes reads_def)
    next
      case Read_error
      have "s' = s" "bs' = bs1" "k' = k1" "ret = len" using go e Read_error by (auto simp: codes)
      then show ?thesis using e reads r1 Not_yet Read_error by (auto simp: spec [unfolded Read_error] codes reads_def)
    qed
  next
    case Too_much
    with res have e: "len = BS_IO_TOOMUCHDATA" "byte_stream bs1 k1 = byte_stream bs k" by (simp_all add: reader_result_def)
    have "s' = s" "bs' = bs1" "k' = k1" "ret = len" using go e by (auto simp: codes)
    then show ?thesis using e reads r1 Too_much by (simp add: spec) (simp add: codes reads_def)
  next
    case (Item b)
    with res have e: "len = int (length b)" "buf = b" "byte_stream bs1 k1 = drop (length b) (byte_stream bs k)"
      by (simp_all add: reader_result_def)
    show ?thesis
    proof (cases "call (read_callback bs) b s")
      case (Closed s1)
      with Item e go reads r1 show ?thesis by (auto simp: spec codes reads_def)
    next
      case (Go_on nxt s1)
      show ?thesis
      proof (cases "b = []")
        case True
        with Item e go reads r1 Go_on show ?thesis
          using current_install [OF r1(1), of nxt] by (auto simp: spec codes reads_def)
      next
        case False
        have pre: "\<exists>m. b = take m (byte_stream bs k)"
          using Item by (auto simp: next_item_def split: reader.splits option.splits if_splits)
        with False have ne: "byte_stream bs k \<noteq> []" by auto
        have "go_reading call (install nxt bs1) k1 s1 = (ret, bs', k', s')"
          using go False e Go_on r1(3) by (simp split: if_splits)
        moreover have "bs_ok (install nxt bs1)" "[] \<notin> set (chunks k1)" "bs_reader (install nxt bs1) \<noteq> None"
          using reads current_install(2) [OF r1(1)] by (auto simp: reads_def)
        ultimately have "stream_run ?N call (current (install nxt bs1)) s1 (byte_stream bs1 k1) (after_chunks k) =
            (ret, current bs', s', byte_stream bs' k') \<and>
          bs_ok bs' \<and> [] \<notin> set (chunks k') \<and> bs_reader bs' \<noteq> None \<and> length (read_buffer bs') = ?N \<and>
          after_chunks k' = after_chunks k \<and> (ret = BS_IO_WOULD_BLOCK \<longrightarrow> chunks k' = [])"
          using 1(1) [OF r rd [symmetric] refl refl, of nxt s1] e False Go_on r1(3) reads
          by (simp add: reads_def)
        then show ?thesis
          using Item Go_on False ne e by (simp add: spec current_install(1) [OF r1(1)] r1(2))
      qed
    qed
  qed
qed

subsection \<open>Wake after wake\<close>

lemma item_prefix: "next_item cap r st = Item b \<Longrightarrow> next_item cap r (st @ extra) = Item b \<and> length b \<le> length st"
proof (cases r)
  case (Get_read_ptr n)
  then show "next_item cap r st = Item b \<Longrightarrow> ?thesis" by (auto simp: next_item_def split: if_splits)
next
  case (Internal_read_until d)
  assume i: "next_item cap r st = Item b"
  then obtain i where m: "jet_memmem st d = Some i" "i + length d \<le> cap" "b = take (i + length d) st"
    using Internal_read_until by (auto simp: next_item_def split: option.splits if_splits)
  have l: "i + length d \<le> length st" by (rule jet_memmem_bound [OF m(1)])
  have "jet_memmem (st @ extra) d = Some i"
    using memmem_prefix [of "length st" "st @ extra" d] m(1) by (auto split: option.splits if_splits)
  with m l Internal_read_until show ?thesis by (simp add: next_item_def)
qed

lemma too_much_prefix:
  assumes t: "next_item cap r st = Too_much"
  shows "next_item cap r (st @ extra) = Too_much"
proof (cases r)
  case (Get_read_ptr n)
  with t show ?thesis by (auto simp: next_item_def split: if_splits)
next
  case (Internal_read_until d)
  note p = memmem_prefix [of "length st" "st @ extra" d]
  show ?thesis
  proof (cases "jet_memmem st d")
    case (Some i)
    with p have "jet_memmem (st @ extra) d = Some i" by (auto split: option.splits if_splits)
    with Some t Internal_read_until show ?thesis by (auto simp: next_item_def split: if_splits)
  next
    case None
    with p t Internal_read_until show ?thesis by (auto simp: next_item_def split: option.splits if_splits)
  qed
qed

text \<open>A run that blocked goes on when more bytes have come as if it had seen them at once.\<close>

lemma stream_run_resume:
  assumes "stream_run cap call now s st Would_block = (ret, now', s', rest)"
  shows "if ret = BS_IO_WOULD_BLOCK
    then stream_run cap call now s (st @ extra) Would_block = stream_run cap call now' s' (rest @ extra) Would_block
    else \<exists>rest'. stream_run cap call now s (st @ extra) Would_block = (ret, now', s', rest')"
  using assms
proof (induction cap call now s st "Would_block" rule: stream_run.induct)
  case (1 cap call now s st)
  note prem = 1(2) [unfolded stream_run.simps [of cap call now s st]]
  note codes = BS_IO_WOULD_BLOCK_def BS_IO_TOOMUCHDATA_def
  show ?case
  proof (cases "next_item cap (fst now) st")
    case Not_yet
    with prem show ?thesis by auto
  next
    case Too_much
    with prem have "ret = BS_IO_TOOMUCHDATA" "now' = now" "s' = s" by simp_all
    with too_much_prefix [OF Too_much, of extra] show ?thesis
      by (simp add: codes stream_run.simps [of cap call now s "st @ extra"])
  next
    case (Item b)
    note p = item_prefix [OF Item, of extra]
    note step = stream_run.simps [of cap call now s "st @ extra"]
    show ?thesis
    proof (cases "call (snd now) b s")
      case (Closed s1)
      with prem Item have "ret = 0" "now' = now" "s' = s1" by simp_all
      with Closed p show ?thesis by (simp add: codes step)
    next
      case (Go_on nxt s1)
      show ?thesis
      proof (cases "b = [] \<or> st = []")
        case True
        with p have b: "b = []" by auto
        with prem Item Go_on have "ret = 0" "now' = switch nxt now" "s' = s1" by simp_all
        with Go_on b p show ?thesis by (simp add: codes step)
      next
        case False
        then have "stream_run cap call (switch nxt now) s1 (drop (length b) st) Would_block = (ret, now', s', rest)"
          using prem Item Go_on by simp
        from 1(1) [OF Item Go_on False this]
        show ?thesis using p False Item Go_on by (simp add: step)
      qed
    qed
  qed
qed

text \<open>
  The event loop: at each wake some chunks have arrived; the read function runs as long as nothing
  ends the connection.
\<close>

fun wakes ::
    "('cb, 's) client \<Rightarrow> 8 word list list list \<Rightarrow> 'cb buffered_socket \<Rightarrow> kernel \<Rightarrow> 's \<Rightarrow> int \<times> 'cb buffered_socket \<times> kernel \<times> 's" where
  "wakes call [] bs k s = (BS_IO_WOULD_BLOCK, bs, k, s)"
| "wakes call (cs # css) bs k s =
    (case go_reading call bs (k\<lparr>chunks := chunks k @ cs\<rparr>) s of
       (ret, bs, k, s) \<Rightarrow> if ret = BS_IO_WOULD_BLOCK then wakes call css bs k s else (ret, bs, k, s))"

lemma byte_stream_more: "byte_stream bs (k\<lparr>chunks := chunks k @ cs\<rparr>) = byte_stream bs k @ concat cs"
  by (simp add: byte_stream_def)

lemma stream_run_blocked:
  "stream_run cap call now s st Would_block = (BS_IO_WOULD_BLOCK, now', s', rest) \<Longrightarrow>
   stream_run cap call now' s' rest Would_block = (BS_IO_WOULD_BLOCK, now', s', rest)"
  using stream_run_resume [of cap call now s st BS_IO_WOULD_BLOCK now' s' rest "[]"] by simp

lemma wakes_refine:
  assumes "bs_ok bs" "bs_reader bs \<noteq> None" "[] \<notin> set (chunks k)" "\<forall>cs\<in>set css. [] \<notin> set cs"
    and "after_chunks k = Would_block" "css \<noteq> []"
    and "wakes call css bs k s = (ret, bs', k', s')"
  shows "\<exists>rest. stream_run (length (read_buffer bs)) call (current bs) s (byte_stream bs k @ concat (concat css)) Would_block =
    (ret, current bs', s', rest)"
  using assms
proof (induction css arbitrary: bs k s)
  case (Cons cs css)
  let ?k = "k\<lparr>chunks := chunks k @ cs\<rparr>"
  obtain ret1 bs1 k1 s1 where go: "go_reading call bs ?k s = (ret1, bs1, k1, s1)" by (cases "go_reading call bs ?k s")
  have "[] \<notin> set (chunks ?k)" using Cons.prems(3,4) by simp
  from go_reading_refines [OF Cons.prems(1) this Cons.prems(2) go] Cons.prems(5)
  have run: "stream_run (length (read_buffer bs)) call (current bs) s (byte_stream bs k @ concat cs) Would_block =
      (ret1, current bs1, s1, byte_stream bs1 k1)"
    and ok: "bs_ok bs1" "[] \<notin> set (chunks k1)" "bs_reader bs1 \<noteq> None" "length (read_buffer bs1) = length (read_buffer bs)"
      "after_chunks k1 = Would_block"
    by (simp_all add: byte_stream_more)
  show ?case
  proof (cases "ret1 = BS_IO_WOULD_BLOCK")
    case True
    have rest: "stream_run (length (read_buffer bs)) call (current bs) s (byte_stream bs k @ concat (concat (cs # css))) Would_block =
        stream_run (length (read_buffer bs)) call (current bs1) s1 (byte_stream bs1 k1 @ concat (concat css)) Would_block"
      using stream_run_resume [OF run, of "concat (concat css)"] True by simp
    show ?thesis
    proof (cases "css = []")
      case True
      with \<open>ret1 = BS_IO_WOULD_BLOCK\<close> Cons.prems(7) go have "ret = BS_IO_WOULD_BLOCK" "bs' = bs1" "s' = s1" by simp_all
      with rest True stream_run_blocked [OF run [unfolded \<open>ret1 = BS_IO_WOULD_BLOCK\<close>]] show ?thesis by simp
    next
      case False
      have "wakes call css bs1 k1 s1 = (ret, bs', k', s')" using Cons.prems(7) go True by simp
      with Cons.IH [OF ok(1,3,2) _ ok(5) False] Cons.prems(4) rest ok(4) show ?thesis by auto
    qed
  next
    case False
    with Cons.prems(7) go have "ret = ret1" "bs' = bs1" "s' = s1" by simp_all
    with stream_run_resume [OF run, of "concat (concat css)"] False show ?thesis by auto
  qed
qed simp

text \<open>C13: What a client sees is a function of the byte stream.  Whatever reader is installed, however the
  kernel cuts the bytes into chunks and spreads them over wakes of the event loop, the callbacks run in
  the same order on the same bytes: the client's final state and the result are those of the
  specification on the concatenation of all chunks.\<close>
theorem reading_is_stream_run:
  assumes "bs_ok bs" "bs_reader bs \<noteq> None" "unread bs = []" "chunks k = []" "after_chunks k = Would_block"
    and "\<forall>cs\<in>set css. [] \<notin> set cs" "css \<noteq> []"
    and "wakes call css bs k s = (ret, bs', k', s')"
  shows "\<exists>rest. stream_run (length (read_buffer bs)) call (current bs) s (concat (concat css)) Would_block =
    (ret, current bs', s', rest)"
  using wakes_refine [of bs k css call s ret bs' k' s'] assms by (simp add: byte_stream_def)

definition demo_client :: "(unit, 8 word list list) client" where
  "demo_client cb bytes s = Go_on None (s @ [bytes])"

definition demo_socket :: "unit buffered_socket" where
  "demo_socket = \<lparr>read_buffer = replicate 4 0, read_ptr = 0, write_ptr = 0, bs_reader = Some (Internal_read_until [10]),
     read_callback = (), to_write = 0, write_buffer = replicate 4 0\<rparr>"

definition demo_kernel :: kernel where
  "demo_kernel = \<lparr>chunks = [], after_chunks = Would_block, write_answers = [], written = []\<rparr>"

lemma demo_wakes: "case wakes demo_client [[[1]], [[2, 10, 3], [10, 10, 4]]] demo_socket demo_kernel [] of (ret, bs, k, s) \<Rightarrow>
    ret = -1 \<and> s = [[1, 2, 10], [3, 10], [10]]"
  by code_simp

theorem reading_is_stream_run_witness:
  "\<exists>now rest. stream_run 4 demo_client (Internal_read_until [10], ()) [] [1, 2, 10, 3, 10, 10, 4] Would_block =
    (-1, now, [[1, 2, 10], [3, 10], [10]], rest)"
proof -
  let ?css = "[[[1]], [[2, 10, 3], [10, 10, 4]]] :: 8 word list list list"
  obtain ret bs' k' s' where w: "wakes demo_client ?css demo_socket demo_kernel [] = (ret, bs', k', s')"
    by (cases "wakes demo_client ?css demo_socket demo_kernel []")
  with demo_wakes have r: "ret = -1" "s' = [[1, 2, 10], [3, 10], [10]]" by simp_all
  have "\<exists>rest. stream_run (length (read_buffer demo_socket)) demo_client (current demo_socket) [] (concat (concat ?css)) Would_block =
      (ret, current bs', s', rest)"
    by (rule reading_is_stream_run [OF _ _ _ _ _ _ _ w])
      (simp_all add: demo_socket_def demo_kernel_def bs_ok_def unread_def unread_bytes_def)
  then show ?thesis unfolding r by (auto simp: demo_socket_def current_def)
qed

subsection \<open>Writing\<close>

text \<open>
  \<^verbatim>\<open>writev\<close> of the kernel on the buffered bytes and the vector: it takes a prefix, or fails with or without
  \<^verbatim>\<open>EAGAIN\<close>.  Without a further answer the write would block.
\<close>

definition socket_writev_with_prefix ::
    "8 word list \<Rightarrow> 8 word list list \<Rightarrow> kernel \<Rightarrow> write_answer \<times> kernel" where
  "socket_writev_with_prefix buf iov k =
    (if buf = [] \<and> iov = [] then (Wrote 0, k)
     else (case write_answers k of
         [] \<Rightarrow> (Write_block, k)
       | Wrote n # answers \<Rightarrow>
           let bytes = buf @ concat iov
           in (Wrote (min n (length bytes)), k\<lparr>write_answers := answers, written := written k @ take n bytes\<rparr>)
       | answer # answers \<Rightarrow> (answer, k\<lparr>write_answers := answers\<rparr>)))"

definition pending :: "'cb buffered_socket \<Rightarrow> 8 word list" where
  "pending bs = take (to_write bs) (write_buffer bs)"

text \<open>The loop of \<^verbatim>\<open>send_buffer\<close>, \<open>ptr\<close> being the offset of \<^verbatim>\<open>write_buffer_ptr\<close>; every round uses up an answer.\<close>

function send_buffer_from :: "nat \<Rightarrow> 'cb buffered_socket \<Rightarrow> kernel \<Rightarrow> int \<times> 'cb buffered_socket \<times> kernel" where
  "send_buffer_from ptr bs k =
    (if to_write bs = 0 then (0, bs, k)
     else let rest = take (to_write bs) (drop ptr (write_buffer bs))
     in (case socket_writev_with_prefix rest [] k of
          (Write_error, k) \<Rightarrow> (-1, bs, k)
        | (Write_block, k) \<Rightarrow> (0, bs\<lparr>write_buffer := store_at 0 rest (write_buffer bs)\<rparr>, k)
        | (Wrote n, k') \<Rightarrow>
            if rest = [] then (0, bs, k)
            else send_buffer_from (ptr + n) (bs\<lparr>to_write := to_write bs - n\<rparr>) k'))"
  by auto
termination
  by (relation "measure (\<lambda>(ptr, bs, k). length (write_answers k))")
    (auto simp: socket_writev_with_prefix_def Let_def split: list.splits write_answer.splits)

declare send_buffer_from.simps [simp del]

definition send_buffer :: "'cb buffered_socket \<Rightarrow> kernel \<Rightarrow> int \<times> 'cb buffered_socket \<times> kernel" where
  "send_buffer = send_buffer_from 0"

text \<open>The flag says whether \<^verbatim>\<open>error_function\<close> ran.\<close>

definition write_function ::
    "'cb buffered_socket \<Rightarrow> kernel \<Rightarrow> eventloop_return \<times> bool \<times> 'cb buffered_socket \<times> kernel" where
  "write_function bs k = (case send_buffer bs k of (ret, bs, k) \<Rightarrow> (EL_CONTINUE_LOOP, ret < 0, bs, k))"

definition copy_single_buffer :: "8 word list \<Rightarrow> 'cb buffered_socket \<Rightarrow> int \<times> 'cb buffered_socket" where
  "copy_single_buffer buf bs =
    (if length (write_buffer bs) - to_write bs < length buf then (-1, bs)
     else (0, bs\<lparr>write_buffer := store_at (to_write bs) buf (write_buffer bs), to_write := to_write bs + length buf\<rparr>))"

fun copy_iovec_to_write_buffer ::
    "8 word list list \<Rightarrow> nat \<Rightarrow> 'cb buffered_socket \<Rightarrow> int \<times> 'cb buffered_socket" where
  "copy_iovec_to_write_buffer [] iovec_written bs = (0, bs)"
| "copy_iovec_to_write_buffer (v # iov) iovec_written bs =
    (if iovec_written < length v
     then (case copy_single_buffer (drop iovec_written v) bs of
         (ret, bs) \<Rightarrow> if ret < 0 then (-1, bs) else copy_iovec_to_write_buffer iov 0 bs)
     else copy_iovec_to_write_buffer iov (iovec_written - length v) bs)"

definition buffered_socket_writev ::
    "8 word list list \<Rightarrow> 'cb buffered_socket \<Rightarrow> kernel \<Rightarrow> int \<times> 'cb buffered_socket \<times> kernel" where
  "buffered_socket_writev iov bs k =
    (let total = to_write bs + sum_list (map length iov)
     in (case socket_writev_with_prefix (pending bs) iov k of
          (Write_error, k) \<Rightarrow> (-1, bs, k)
        | (Write_block, k) \<Rightarrow> (case copy_iovec_to_write_buffer iov 0 bs of (ret, bs) \<Rightarrow> (if ret < 0 then -1 else 0, bs, k))
        | (Wrote n, k) \<Rightarrow>
            if n = total then (0, bs\<lparr>to_write := 0\<rparr>, k)
            else
              (case (if n \<le> to_write bs
                     then (bs\<lparr>to_write := to_write bs - n,
                             write_buffer := store_at 0 (drop n (pending bs)) (write_buffer bs)\<rparr>, 0)
                     else (bs\<lparr>to_write := 0\<rparr>, n - to_write bs)) of
                (bs, iov_written) \<Rightarrow>
                  (case copy_iovec_to_write_buffer iov iov_written bs of
                     (ret, bs) \<Rightarrow> if ret < 0 then (-1, bs, k) else send_buffer bs k))))"

subsection \<open>The write half is a queue\<close>

definition wb_ok :: "'cb buffered_socket \<Rightarrow> bool" where
  "wb_ok bs \<longleftrightarrow> to_write bs \<le> length (write_buffer bs)"

definition outgoing :: "'cb buffered_socket \<times> kernel \<Rightarrow> 8 word list" where
  "outgoing w = written (snd w) @ pending (fst w)"

lemma store_at_length: "pos + length bytes \<le> length buffer \<Longrightarrow> length (store_at pos bytes buffer) = length buffer"
  by (simp add: store_at_def)

lemma take_store_at_0: "take (length bytes) (store_at 0 bytes buffer) = bytes"
  by (simp add: store_at_def)

lemma take_store_at: "pos \<le> length buffer \<Longrightarrow> take (pos + length bytes) (store_at pos bytes buffer) = take pos buffer @ bytes"
  by (simp add: store_at_def)

text \<open>What the kernel takes is a prefix of the buffered bytes and the vector.\<close>

lemma take_min_length: "take (min n (length xs + length ys)) (xs @ ys) = take n (xs @ ys)"
  by (simp add: min_def)

lemma writev_takes:
  assumes "socket_writev_with_prefix buf iov k = (answer, k')"
  shows "case answer of
      Wrote n \<Rightarrow> n \<le> length (buf @ concat iov) \<and> written k' = written k @ take n (buf @ concat iov)
    | _ \<Rightarrow> written k' = written k"
  using assms
  by (auto simp: socket_writev_with_prefix_def Let_def take_min_length simp del: take_append
      split: if_splits list.splits write_answer.splits)

lemma split_slice:
  "n \<le> w \<Longrightarrow> take w (drop p xs) = take n (take w (drop p xs)) @ take (w - n) (drop (p + n) xs)"
  using append_take_drop_id [of n "take w (drop p xs)"] by (simp add: drop_take add.commute)

lemma send_buffer_from_queue:
  assumes "ptr + to_write bs \<le> length (write_buffer bs)"
    and "send_buffer_from ptr bs k = (ret, bs', k')"
  shows "length (write_buffer bs') = length (write_buffer bs) \<and> wb_ok bs' \<and> (ret = 0 \<or> ret = -1) \<and>
    (if ret = 0 then written k' @ pending bs' = written k @ take (to_write bs) (drop ptr (write_buffer bs))
     else \<exists>rest. written k' @ rest = written k @ take (to_write bs) (drop ptr (write_buffer bs)))"
  using assms
proof (induction ptr bs k rule: send_buffer_from.induct)
  case (1 ptr bs k)
  let ?rest = "take (to_write bs) (drop ptr (write_buffer bs))"
  have len: "length ?rest = to_write bs" using 1(2) by simp
  note step = 1(3) [unfolded send_buffer_from.simps [of ptr bs k] Let_def]
  show ?case
  proof (cases "to_write bs = 0")
    case True
    with step show ?thesis by (auto simp: pending_def wb_ok_def)
  next
    case False
    obtain answer k1 where w: "socket_writev_with_prefix ?rest [] k = (answer, k1)"
      by (cases "socket_writev_with_prefix ?rest [] k")
    have ne: "?rest \<noteq> []" using False len by (metis list.size(3))
    note took = writev_takes [OF w]
    show ?thesis
    proof (cases answer)
      case Write_error
      with step w False took show ?thesis using 1(2) by (auto simp: wb_ok_def)
    next
      case Write_block
      with step w False have r: "ret = 0" "bs' = bs\<lparr>write_buffer := store_at 0 ?rest (write_buffer bs)\<rparr>" "k' = k1"
        by auto
      have "pending bs' = ?rest" using take_store_at_0 [of ?rest "write_buffer bs"] len by (simp add: r pending_def)
      moreover have "length (write_buffer bs') = length (write_buffer bs)"
        using store_at_length [of 0 ?rest "write_buffer bs"] len 1(2) by (simp add: r)
      ultimately show ?thesis using r took Write_block 1(2) by (simp add: wb_ok_def)
    next
      case (Wrote n)
      have n: "n \<le> to_write bs" "written k1 = written k @ take n ?rest" using took Wrote len by auto
      have go: "send_buffer_from (ptr + n) (bs\<lparr>to_write := to_write bs - n\<rparr>) k1 = (ret, bs', k')"
        using step w False Wrote ne by simp
      have split_rest: "?rest = take n ?rest @ take (to_write bs - n) (drop (ptr + n) (write_buffer bs))"
        by (rule split_slice [OF n(1)])
      have "(ptr + n) + to_write (bs\<lparr>to_write := to_write bs - n\<rparr>) \<le> length (write_buffer (bs\<lparr>to_write := to_write bs - n\<rparr>))"
        using 1(2) n(1) by simp
      from 1(1) [OF False refl w [symmetric] Wrote ne this go] show ?thesis
        using n(2) split_rest by (auto split: if_splits)
    qed
  qed
qed

lemma copy_iovec_queue:
  assumes "wb_ok bs" "copy_iovec_to_write_buffer iov w bs = (ret, bs')"
  shows "length (write_buffer bs') = length (write_buffer bs) \<and> wb_ok bs' \<and> (ret = 0 \<or> ret = -1) \<and>
    (if ret = 0 then pending bs' = pending bs @ drop w (concat iov)
     else \<exists>rest. pending bs' @ rest = pending bs @ drop w (concat iov))"
  using assms
proof (induction iov w bs rule: copy_iovec_to_write_buffer.induct)
  case (2 v iov w bs)
  show ?case
  proof (cases "w < length v")
    case True
    obtain ret1 bs1 where c: "copy_single_buffer (drop w v) bs = (ret1, bs1)" by (cases "copy_single_buffer (drop w v) bs")
    show ?thesis
    proof (cases "ret1 < 0")
      case neg: True
      with c have "bs1 = bs" by (auto simp: copy_single_buffer_def split: if_splits)
      with c True neg 2(3,4) show ?thesis by auto
    next
      case False
      with c have fits: "to_write bs + length (drop w v) \<le> length (write_buffer bs)"
        and bs1: "bs1 = bs\<lparr>write_buffer := store_at (to_write bs) (drop w v) (write_buffer bs),
          to_write := to_write bs + length (drop w v)\<rparr>"
        using 2(3) by (auto simp: copy_single_buffer_def wb_ok_def split: if_splits)
      have len: "length (write_buffer bs1) = length (write_buffer bs)"
        using store_at_length [OF fits] by (simp add: bs1)
      have ok1: "wb_ok bs1" using fits len by (simp add: wb_ok_def bs1)
      have p1: "pending bs1 = pending bs @ drop w v"
        using take_store_at [of "to_write bs" "write_buffer bs" "drop w v"] 2(3)
        by (simp add: bs1 pending_def wb_ok_def)
      have "copy_iovec_to_write_buffer iov 0 bs1 = (ret, bs')" using 2(4) True c False by simp
      from 2(1) [OF True c [symmetric] False ok1 this] show ?thesis
        using len p1 True by (auto split: if_splits)
    qed
  next
    case False
    with 2(2) [OF False 2(3)] 2(4) show ?thesis by simp
  qed
qed simp

lemma send_buffer_queue:
  assumes "wb_ok bs" "send_buffer bs k = (ret, bs', k')"
  shows "length (write_buffer bs') = length (write_buffer bs) \<and> wb_ok bs' \<and> (ret = 0 \<or> ret = -1) \<and>
    (if ret = 0 then outgoing (bs', k') = outgoing (bs, k) else \<exists>rest. written k' @ rest = outgoing (bs, k))"
  using send_buffer_from_queue [of 0 bs k ret bs' k'] assms
  by (auto simp: send_buffer_def wb_ok_def outgoing_def pending_def split: if_splits)

lemma pending_length: "wb_ok bs \<Longrightarrow> length (pending bs) = to_write bs"
  by (simp add: wb_ok_def pending_def)

lemma buffered_socket_writev_queue:
  assumes ok: "wb_ok bs" and w: "buffered_socket_writev iov bs k = (ret, bs', k')"
  shows "length (write_buffer bs') = length (write_buffer bs) \<and> wb_ok bs' \<and> (ret = 0 \<or> ret = -1) \<and>
    (if ret = 0 then outgoing (bs', k') = outgoing (bs, k) @ concat iov
     else \<exists>rest. written k' @ rest = outgoing (bs, k) @ concat iov)"
proof -
  obtain answer k1 where a: "socket_writev_with_prefix (pending bs) iov k = (answer, k1)"
    by (cases "socket_writev_with_prefix (pending bs) iov k")
  note took = writev_takes [OF a] and len = pending_length [OF ok]
  note step = w [unfolded buffered_socket_writev_def Let_def a prod.case]
  show ?thesis
  proof (cases answer)
    case Write_error
    with step took ok show ?thesis by (auto simp: outgoing_def)
  next
    case Write_block
    obtain r1 bs1 where c: "copy_iovec_to_write_buffer iov 0 bs = (r1, bs1)" by (cases "copy_iovec_to_write_buffer iov 0 bs")
    with step Write_block have "ret = (if r1 < 0 then -1 else 0)" "bs' = bs1" "k' = k1" by auto
    with copy_iovec_queue [OF ok c] took Write_block show ?thesis by (auto simp: outgoing_def split: if_splits)
  next
    case (Wrote n)
    note wrote = took [unfolded Wrote write_answer.case]
    show ?thesis
    proof (cases "n = to_write bs + sum_list (map length iov)")
      case True
      with step Wrote have "ret = 0" "bs' = bs\<lparr>to_write := 0\<rparr>" "k' = k1" by simp_all
      with wrote True len show ?thesis by (simp add: outgoing_def pending_def wb_ok_def length_concat)
    next
      case False
      define rest where "rest = (if n \<le> to_write bs
        then (bs\<lparr>to_write := to_write bs - n, write_buffer := store_at 0 (drop n (pending bs)) (write_buffer bs)\<rparr>, 0)
        else (bs\<lparr>to_write := 0\<rparr>, n - to_write bs))"
      obtain bs1 w1 where r: "rest = (bs1, w1)" by (cases rest)
      obtain r2 bs2 where c: "copy_iovec_to_write_buffer iov w1 bs1 = (r2, bs2)" by (cases "copy_iovec_to_write_buffer iov w1 bs1")
      have lenb1: "length (write_buffer bs1) = length (write_buffer bs)" and ok1: "wb_ok bs1"
        and p1: "pending bs1 = drop n (pending bs)" and w1: "w1 = n - to_write bs"
        using r ok len store_at_length [of 0 "drop n (pending bs)" "write_buffer bs"]
          take_store_at_0 [of "drop n (pending bs)" "write_buffer bs"]
        by (auto simp: rest_def wb_ok_def pending_def split: if_splits)
      have whole: "written k1 @ drop n (pending bs) @ drop (n - to_write bs) (concat iov) = outgoing (bs, k) @ concat iov"
        using wrote len append_take_drop_id [of n "pending bs @ concat iov"] by (simp add: outgoing_def)
      have go: "(if r2 < 0 then (-1, bs2, k1) else send_buffer bs2 k1) = (ret, bs', k')"
        using step Wrote False r c by (simp add: rest_def)
      note copied = copy_iovec_queue [OF ok1 c]
      show ?thesis
      proof (cases "r2 < 0")
        case True
        with go have "ret = -1" "bs' = bs2" "k' = k1" by simp_all
        with copied lenb1 whole show ?thesis by auto
      next
        case f: False
        with copied have r2: "r2 = 0" "pending bs2 = drop n (pending bs) @ drop (n - to_write bs) (concat iov)" "wb_ok bs2"
          using p1 w1 by (auto split: if_splits)
        have s: "send_buffer bs2 k1 = (ret, bs', k')" using go f by simp
        have "outgoing (bs2, k1) = outgoing (bs, k) @ concat iov" using r2(2) whole by (simp add: outgoing_def)
        with send_buffer_queue [OF r2(3) s] copied lenb1 show ?thesis by (auto split: if_splits)
      qed
    qed
  qed
qed

text \<open>What the clients rely on: \<^verbatim>\<open>writev\<close> of \<^verbatim>\<open>struct buffered_reader\<close>, and the wake of the event loop.\<close>

datatype write_op = Writev "8 word list list" | Wake

fun vectors :: "write_op list \<Rightarrow> 8 word list" where
  "vectors [] = []"
| "vectors (Writev iov # ops) = concat iov @ vectors ops"
| "vectors (Wake # ops) = vectors ops"

text \<open>Writes and wakes in a row, up to the first that fails.\<close>

fun run_writes :: "('w \<Rightarrow> write_op \<Rightarrow> int \<times> 'w) \<Rightarrow> write_op list \<Rightarrow> 'w \<Rightarrow> int \<times> 'w" where
  "run_writes act [] w = (0, w)"
| "run_writes act (op # ops) w = (case act w op of (ret, w) \<Rightarrow> if ret < 0 then (ret, w) else run_writes act ops w)"

locale byte_queue =
  fixes act :: "'w \<Rightarrow> write_op \<Rightarrow> int \<times> 'w"
    and sent :: "'w \<Rightarrow> 8 word list"
    and queued :: "'w \<Rightarrow> 8 word list"
    and ok :: "'w \<Rightarrow> bool"
  assumes do_ok: "ok w \<Longrightarrow> act w op = (ret, w') \<Longrightarrow> ok w'"
    and do_queue: "ok w \<Longrightarrow> act w op = (ret, w') \<Longrightarrow> 0 \<le> ret \<Longrightarrow> sent w' @ queued w' = sent w @ queued w @ vectors [op]"
    and do_prefix: "ok w \<Longrightarrow> act w op = (ret, w') \<Longrightarrow> ret < 0 \<Longrightarrow> \<exists>rest. sent w' @ rest = sent w @ queued w @ vectors [op]"
begin

lemma vectors_Cons: "vectors (op # ops) = vectors [op] @ vectors ops"
  by (cases op) auto

lemma run_writes_queue:
  assumes "ok w" "run_writes act ops w = (ret, w')"
  shows "ok w' \<and>
    (if 0 \<le> ret then sent w' @ queued w' = sent w @ queued w @ vectors ops
     else \<exists>rest. sent w' @ rest = sent w @ queued w @ vectors ops)"
  using assms
proof (induction ops arbitrary: w)
  case (Cons op ops)
  obtain r1 w1 where d: "act w op = (r1, w1)" by (cases "act w op")
  show ?case
  proof (cases "r1 < 0")
    case True
    with Cons.prems(2) d have "ret = r1" "w' = w1" by auto
    with True do_prefix [OF Cons.prems(1) d True] do_ok [OF Cons.prems(1) d] show ?thesis
      using vectors_Cons [of op ops] by (metis append.assoc linorder_not_less)
  next
    case False
    with Cons.prems(2) d have go: "run_writes act ops w1 = (ret, w')" by simp
    show ?thesis
      using Cons.IH [OF do_ok [OF Cons.prems(1) d] go] do_queue [OF Cons.prems(1) d] False vectors_Cons [of op ops]
      by (auto split: if_splits simp flip: append_assoc)
  qed
qed simp

end

definition socket_do :: "'cb buffered_socket \<times> kernel \<Rightarrow> write_op \<Rightarrow> int \<times> 'cb buffered_socket \<times> kernel" where
  "socket_do w op = (case w of (bs, k) \<Rightarrow> (case op of Writev iov \<Rightarrow> buffered_socket_writev iov bs k | Wake \<Rightarrow> send_buffer bs k))"

interpretation socket_queue: byte_queue socket_do "\<lambda>w. written (snd w)" "\<lambda>w. pending (fst w)" "\<lambda>w. wb_ok (fst w)"
proof unfold_locales
  fix w w' :: "'b buffered_socket \<times> kernel" and op :: write_op and ret :: int
  obtain bs k bs' k' where w: "w = (bs, k)" "w' = (bs', k')" by (metis surj_pair)
  assume ok: "wb_ok (fst w)" and d: "socket_do w op = (ret, w')"
  have all: "wb_ok bs' \<and> (ret = 0 \<or> ret = -1) \<and>
    (if ret = 0 then outgoing (bs', k') = outgoing (bs, k) @ vectors [op]
     else \<exists>rest. written k' @ rest = outgoing (bs, k) @ vectors [op])"
  proof (cases op)
    case (Writev iov)
    with d w have "buffered_socket_writev iov bs k = (ret, bs', k')" by (simp add: socket_do_def)
    with buffered_socket_writev_queue [of bs iov k ret bs' k'] ok w Writev show ?thesis by simp
  next
    case Wake
    with d w have "send_buffer bs k = (ret, bs', k')" by (simp add: socket_do_def)
    with send_buffer_queue [of bs k ret bs' k'] ok w Wake show ?thesis by simp
  qed
  show "wb_ok (fst w')" using all w by simp
  show "0 \<le> ret \<Longrightarrow> written (snd w') @ pending (fst w') = written (snd w) @ pending (fst w) @ vectors [op]"
    using all w by (auto simp: outgoing_def split: if_splits)
  show "ret < 0 \<Longrightarrow> \<exists>rest. written (snd w') @ rest = written (snd w) @ pending (fst w) @ vectors [op]"
    using all w by (auto simp: outgoing_def split: if_splits)
qed

text \<open>C14: The write half is a queue.  After any sequence of writev calls and wakes of the event loop that
  all succeed, however little the kernel takes each time, the bytes written followed by the bytes still
  buffered are the earlier ones followed by all vectors in order; and after a sequence whose last call
  fails, what was written is still a prefix of that.  The buffer never overflows.\<close>
theorem writing_is_a_queue:
  fixes bs bs' :: "'cb buffered_socket"
  assumes "to_write bs \<le> length (write_buffer bs)"
    and "run_writes socket_do ops (bs, k) = (ret, bs', k')"
  shows "to_write bs' \<le> length (write_buffer bs') \<and>
    (if 0 \<le> ret then written k' @ pending bs' = written k @ pending bs @ vectors ops
     else \<exists>rest. written k' @ rest = written k @ pending bs @ vectors ops)"
  using socket_queue.run_writes_queue [of "(bs, k)" ops ret "(bs', k')"] assms
  by (auto simp: wb_ok_def split: if_splits)

definition slow_kernel :: kernel where
  "slow_kernel = \<lparr>chunks = [], after_chunks = Would_block, write_answers = [Wrote 1, Write_block, Wrote 2, Write_block], written = []\<rparr>"

theorem writing_is_a_queue_witness:
  "case run_writes socket_do [Writev [[1, 2], [3]], Wake, Writev [[4]]] (demo_socket, slow_kernel) of
     (ret, bs, k) \<Rightarrow> 0 \<le> ret \<and> to_write bs = 1 \<and> written k @ pending bs = [1, 2, 3, 4]"
proof -
  let ?run = "run_writes socket_do [Writev [[1, 2], [3]], Wake, Writev [[4]]] (demo_socket, slow_kernel)"
  have r: "fst ?run = 0" "to_write (fst (snd ?run)) = 1" by code_simp+
  obtain ret bs k where run: "?run = (ret, bs, k)" by (metis surj_pair)
  show ?thesis
    using writing_is_a_queue [OF _ run] r run by (simp add: demo_socket_def slow_kernel_def pending_def)
qed

text \<open>C39: A kernel that takes at least one byte at each call empties the buffer: one wake writes everything
  out, in as many calls as there are bytes at most.\<close>
theorem send_buffer_drains:
  assumes "to_write bs \<le> length (write_buffer bs)"
    and "write_answers k = map Wrote ns" "\<forall>n\<in>set ns. 0 < n" "to_write bs \<le> length ns"
  shows "\<exists>bs' k'. send_buffer bs k = (0, bs', k') \<and> to_write bs' = 0 \<and> written k' = written k @ pending bs"
proof -
  have "ptr + to_write bs \<le> length (write_buffer bs) \<Longrightarrow> write_answers k = map Wrote ns \<Longrightarrow> to_write bs \<le> length ns \<Longrightarrow>
      \<exists>bs' k'. send_buffer_from ptr bs k = (0, bs', k') \<and> to_write bs' = 0" for ptr
    using assms(3)
  proof (induction ns arbitrary: ptr bs k)
    case Nil
    then show ?case by (simp add: send_buffer_from.simps)
  next
    case (Cons n ns)
    show ?case
    proof (cases "to_write bs = 0")
      case True
      then show ?thesis by (simp add: send_buffer_from.simps)
    next
      case False
      let ?rest = "take (to_write bs) (drop ptr (write_buffer bs))"
      have len: "length ?rest = to_write bs" using Cons.prems(1) by simp
      then have ne: "?rest \<noteq> []" using False by (metis list.size(3))
      let ?m = "min n (to_write bs)"
      let ?k = "k\<lparr>write_answers := map Wrote ns, written := written k @ take n ?rest\<rparr>"
      have w: "socket_writev_with_prefix ?rest [] k = (Wrote ?m, ?k)"
        using Cons.prems(2) ne len by (simp add: socket_writev_with_prefix_def)
      have "ptr + ?m + (to_write bs - ?m) \<le> length (write_buffer bs)" "to_write bs - ?m \<le> length ns"
        using Cons.prems by auto
      with Cons.IH [of "ptr + ?m" "bs\<lparr>to_write := to_write bs - ?m\<rparr>" ?k] Cons.prems(4)
      show ?thesis using False w ne by (simp add: send_buffer_from.simps [of ptr bs k])
    qed
  qed
  from this [of 0] assms obtain bs' k' where s: "send_buffer bs k = (0, bs', k')" "to_write bs' = 0"
    by (auto simp: send_buffer_def)
  with send_buffer_queue [of bs k 0 bs' k'] assms(1) show ?thesis
    by (auto simp: wb_ok_def outgoing_def pending_def)
qed

theorem send_buffer_drains_witness:
  "\<exists>bs' k'. send_buffer (demo_socket\<lparr>to_write := 2\<rparr>) (demo_kernel\<lparr>write_answers := [Wrote 1, Wrote 5]\<rparr>) = (0, bs', k') \<and>
    to_write bs' = 0 \<and> written k' = [0, 0]"
  using send_buffer_drains [of "demo_socket\<lparr>to_write := 2\<rparr>" "demo_kernel\<lparr>write_answers := [Wrote 1, Wrote 5]\<rparr>" "[1, 5]"]
  by (simp add: demo_socket_def demo_kernel_def pending_def numeral_2_eq_2)

end
