(* ===== verification/Jet_Endian.thy ===== *)
theory Jet_Endian
  imports Main "HOL-Library.Word"
begin

text \<open>
  Byte order: \<^verbatim>\<open>src/src/linux/jet_endian.c\<close>, on a little-endian host.

  \<^verbatim>\<open>memcpy\<close> between an integer and its bytes is \<open>le_bytes\<close> and \<open>le_value\<close>.  The conversions reverse the
  bytes; the lemmas say that after \<^verbatim>\<open>memcpy\<close> and conversion an integer is the big-endian value of the
  bytes on the wire, and back.
\<close>

fun le_value :: "8 word list \<Rightarrow> int" where
  "le_value [] = 0"
| "le_value (b # bs) = uint b + 256 * le_value bs"

fun le_bytes :: "nat \<Rightarrow> int \<Rightarrow> 8 word list" where
  "le_bytes 0 v = []"
| "le_bytes (Suc n) v = word_of_int v # le_bytes n (v div 256)"

definition jet_be16toh :: "16 word \<Rightarrow> 16 word" where
  "jet_be16toh w = word_of_int (le_value (rev (le_bytes 2 (uint w))))"

definition jet_be32toh :: "32 word \<Rightarrow> 32 word" where
  "jet_be32toh w = word_of_int (le_value (rev (le_bytes 4 (uint w))))"

definition jet_be64toh :: "64 word \<Rightarrow> 64 word" where
  "jet_be64toh w = word_of_int (le_value (rev (le_bytes 8 (uint w))))"

definition jet_htobe16 :: "16 word \<Rightarrow> 16 word" where
  "jet_htobe16 w = word_of_int (le_value (rev (le_bytes 2 (uint w))))"

definition jet_htobe32 :: "32 word \<Rightarrow> 32 word" where
  "jet_htobe32 w = word_of_int (le_value (rev (le_bytes 4 (uint w))))"

definition jet_htobe64 :: "64 word \<Rightarrow> 64 word" where
  "jet_htobe64 w = word_of_int (le_value (rev (le_bytes 8 (uint w))))"

subsection \<open>Bytes and values\<close>

lemma byte_range: "0 \<le> uint (b :: 8 word)" "uint b < 256"
  using unsigned_less [of b, where ?'a = int] by simp_all

lemma uint_byte: "uint (word_of_int v :: 8 word) = v mod 256"
  by (simp add: uint_word_of_int)

lemma le_bytes_length [simp]: "length (le_bytes n v) = n"
  by (induction n v rule: le_bytes.induct) auto

lemma le_value_nonneg: "0 \<le> le_value bs"
  by (induction bs) (use byte_range in auto)

lemma le_value_bound: "le_value bs < 256 ^ length bs"
proof (induction bs)
  case (Cons b bs)
  have "uint b < 256" by (rule byte_range)
  with Cons show ?case by simp
qed simp

lemma le_bytes_value: "le_bytes (length bs) (le_value bs) = bs"
proof (induction bs)
  case (Cons b bs)
  have b: "0 \<le> uint b" "uint b < 256" by (rule byte_range)+
  then have "(uint b + 256 * le_value bs) div 256 = le_value bs" by simp
  moreover have "(word_of_int (uint b + 256 * le_value bs) :: 8 word) = b"
    by (rule unsigned_word_eqI [where ?'a = int]) (use b in \<open>simp add: uint_byte del: of_int_add of_int_mult\<close>)
  ultimately show ?case using Cons by simp
qed simp

lemma le_value_bytes: "le_value (le_bytes n v) = v mod 256 ^ n"
proof (induction n v rule: le_bytes.induct)
  case (2 n v)
  then show ?case by (simp add: uint_byte zmod_zmult2_eq)
qed simp

text \<open>The big-endian value of the bytes on the wire.\<close>

definition be_value :: "8 word list \<Rightarrow> int" where
  "be_value bs = le_value (rev bs)"

definition be_bytes :: "nat \<Rightarrow> int \<Rightarrow> 8 word list" where
  "be_bytes n v = rev (le_bytes n v)"

lemma be_bytes_length [simp]: "length (be_bytes n v) = n"
  by (simp add: be_bytes_def)

lemma be_bytes_Nil [simp]: "be_bytes n v = [] \<longleftrightarrow> n = 0"
  by (metis be_bytes_length length_0_conv)

lemma be_value_bytes: "0 \<le> v \<Longrightarrow> v < 256 ^ n \<Longrightarrow> be_value (be_bytes n v) = v"
  by (simp add: be_value_def be_bytes_def le_value_bytes)

lemma be_bytes_value: "length bs = n \<Longrightarrow> be_bytes n (be_value bs) = bs"
  using le_bytes_value [of "rev bs"] by (simp add: be_value_def be_bytes_def)

lemma be_value_bound: "0 \<le> be_value bs" "be_value bs < 256 ^ length bs"
  using le_value_bound [of "rev bs"] le_value_nonneg [of "rev bs"] by (simp_all add: be_value_def)

text \<open>What the receiver computes from the bytes it read.\<close>

lemma uint_of_bytes:
  "256 ^ length bs \<le> (2::int) ^ LENGTH('a::len) \<Longrightarrow> uint (word_of_int (le_value bs) :: 'a word) = le_value bs"
  using le_value_bound [of bs] le_value_nonneg [of bs]
  by (simp add: uint_word_of_int take_bit_int_eq_self_iff flip: take_bit_eq_mod)

lemma uint_swapped:
  assumes "length bs = n" "256 ^ n = (2::int) ^ LENGTH('a::len)"
  shows "uint (word_of_int (le_value (rev (le_bytes n (uint (word_of_int (le_value bs) :: 'a word))))) :: 'a word) = be_value bs"
proof -
  have "le_bytes n (uint (word_of_int (le_value bs) :: 'a word)) = bs"
    using uint_of_bytes [of bs, where ?'a = 'a] assms le_bytes_value [of bs] by simp
  then show ?thesis
    using uint_of_bytes [of "rev bs", where ?'a = 'a] assms by (simp add: be_value_def)
qed

lemma be16toh_bytes: "length bs = 2 \<Longrightarrow> uint (jet_be16toh (word_of_int (le_value bs))) = be_value bs"
  unfolding jet_be16toh_def by (rule uint_swapped) simp_all

lemma be32toh_bytes: "length bs = 4 \<Longrightarrow> uint (jet_be32toh (word_of_int (le_value bs))) = be_value bs"
  unfolding jet_be32toh_def by (rule uint_swapped) simp_all

lemma be64toh_bytes: "length bs = 8 \<Longrightarrow> uint (jet_be64toh (word_of_int (le_value bs))) = be_value bs"
  unfolding jet_be64toh_def by (rule uint_swapped) simp_all

text \<open>What the sender puts on the wire.\<close>

lemma swapped_bytes:
  assumes "256 ^ n = (2::int) ^ LENGTH('a::len)"
  shows "le_bytes n (uint (word_of_int (le_value (rev (le_bytes n (uint (w :: 'a word))))) :: 'a word)) = be_bytes n (uint w)"
proof -
  let ?bs = "rev (le_bytes n (uint w))"
  have "uint (word_of_int (le_value ?bs) :: 'a word) = le_value ?bs"
    by (rule uint_of_bytes) (simp add: assms)
  then show ?thesis using le_bytes_value [of ?bs] by (simp add: be_bytes_def)
qed

lemma htobe16_bytes: "le_bytes 2 (uint (jet_htobe16 w)) = be_bytes 2 (uint w)"
  unfolding jet_htobe16_def by (rule swapped_bytes) simp

lemma htobe32_bytes: "le_bytes 4 (uint (jet_htobe32 w)) = be_bytes 4 (uint w)"
  unfolding jet_htobe32_def by (rule swapped_bytes) simp

lemma htobe64_bytes: "le_bytes 8 (uint (jet_htobe64 w)) = be_bytes 8 (uint w)"
  unfolding jet_htobe64_def by (rule swapped_bytes) simp

end
