(* ===== verification/Socket_Peer.thy ===== *)
theory Socket_Peer
  imports Scenario Buffered_Socket Jet_Endian
begin

text \<open>
  Peers on a stream socket: \<^verbatim>\<open>src/src/socket_peer.c\<close>.

  A message travels as a 32 bit big-endian length and that many bytes.  The receiving side is a client
  of the buffered socket with two callbacks, \<open>Read_msg_length\<close> and \<open>Read_msg\<close>; what it does with a
  message is \<^verbatim>\<open>parse_message\<close>, and with a connection that ends \<^verbatim>\<open>free_jet_peer\<close>.  The callbacks are
  written for any such pair of functions (\<open>handle\<close>, \<open>free\<close>); \<open>broker_peer\<close> takes the broker's.  The JSON
  parser that \<^verbatim>\<open>parse_message\<close> calls is the argument \<open>parser\<close>.

  The lemmas show that the receiver handles exactly the messages the sender sent, in order, however the
  stream is cut into chunks, up to the first that ends the connection.
\<close>

datatype peer_callback = Read_msg_length | Read_msg

definition read_msg ::
    "(8 word list \<Rightarrow> 's \<Rightarrow> bool \<times> 's) \<Rightarrow> ('s \<Rightarrow> 's) \<Rightarrow> 8 word list \<Rightarrow> 's \<Rightarrow> (peer_callback, 's) reaction" where
  "read_msg handle free buf s =
    (if buf = [] then Closed (free s)
     else (case handle buf s of
         (accepted, s) \<Rightarrow>
           if \<not> accepted then Closed (free s) else Go_on (Some (Get_read_ptr 4, Read_msg_length)) s))"

definition read_msg_length ::
    "('s \<Rightarrow> 's) \<Rightarrow> 8 word list \<Rightarrow> 's \<Rightarrow> (peer_callback, 's) reaction" where
  "read_msg_length free buf s =
    (if buf = [] then Closed (free s)
     else let message_length = jet_be32toh (word_of_int (le_value buf))
       in if message_length = 0 then Go_on None s
          else Go_on (Some (Get_read_ptr (unat message_length), Read_msg)) s)"

fun peer_client ::
    "(8 word list \<Rightarrow> 's \<Rightarrow> bool \<times> 's) \<Rightarrow> ('s \<Rightarrow> 's) \<Rightarrow> (peer_callback, 's) client" where
  "peer_client handle free Read_msg_length = read_msg_length free"
| "peer_client handle free Read_msg = read_msg handle free"

definition socket_send_message ::
    "8 word list \<Rightarrow> 'cb buffered_socket \<Rightarrow> kernel \<Rightarrow> int \<times> 'cb buffered_socket \<times> kernel" where
  "socket_send_message rendered bs k =
    (if 2 ^ 32 - 1 < int (length rendered) then (-1, bs, k)
     else let message_length = jet_htobe32 (word_of_nat (length rendered))
       in buffered_socket_writev [le_bytes 4 (uint message_length), rendered] bs k)"

text \<open>\<^verbatim>\<open>init_socket_peer\<close> starts with the length of the first message; the read callbacks run at once.\<close>

definition init_socket_peer ::
    "(8 word list \<Rightarrow> 's \<Rightarrow> bool \<times> 's) \<Rightarrow> ('s \<Rightarrow> 's) \<Rightarrow> eventloop_return \<Rightarrow>
     peer_callback buffered_socket \<Rightarrow> kernel \<Rightarrow> 's \<Rightarrow> int \<times> bool \<times> peer_callback buffered_socket \<times> kernel \<times> 's" where
  "init_socket_peer handle free = buffered_socket_read_exactly 4 Read_msg_length (peer_client handle free)"

text \<open>The broker behind the callbacks, for the peer \<open>p\<close>.\<close>

definition broker_handle ::
    "externals \<Rightarrow> (8 word list \<Rightarrow> (json \<times> nat) option) \<Rightarrow> peer_ref \<Rightarrow> 8 word list \<Rightarrow> world \<Rightarrow> bool \<times> world" where
  "broker_handle ex parser p msg = run_state (parse_message ex (parser msg) (length msg) p)"

definition broker_free :: "peer_ref \<Rightarrow> world \<Rightarrow> world" where
  "broker_free p w = snd (run_state (free_peer p) w)"

definition broker_peer ::
    "externals \<Rightarrow> (8 word list \<Rightarrow> (json \<times> nat) option) \<Rightarrow> peer_ref \<Rightarrow> (peer_callback, world) client" where
  "broker_peer ex parser p = peer_client (broker_handle ex parser p) (broker_free p)"

subsection \<open>Frames\<close>

definition msg_frame :: "8 word list \<Rightarrow> 8 word list" where
  "msg_frame msg = be_bytes 4 (int (length msg)) @ msg"

text \<open>What the receiver does with a list of messages: it handles them up to the first it does not accept.\<close>

fun handle_all ::
    "(8 word list \<Rightarrow> 's \<Rightarrow> bool \<times> 's) \<Rightarrow> ('s \<Rightarrow> 's) \<Rightarrow> 8 word list list \<Rightarrow> 's \<Rightarrow> bool \<times> 's" where
  "handle_all handle free [] s = (True, s)"
| "handle_all handle free (m # ms) s =
    (if m = [] then handle_all handle free ms s
     else (case handle m s of (accepted, s) \<Rightarrow> if accepted then handle_all handle free ms s else (False, free s)))"

lemma read_length_of_frame:
  assumes "n < 2 ^ 32"
  shows "read_msg_length free (be_bytes 4 (int n)) s =
    (if n = 0 then Go_on None s else Go_on (Some (Get_read_ptr n, Read_msg)) s)"
proof -
  let ?len = "jet_be32toh (word_of_int (le_value (be_bytes 4 (int n))))"
  have "uint ?len = int n"
    using be32toh_bytes [of "be_bytes 4 (int n)"] be_value_bytes [of "int n" 4] assms by simp
  then have "unat ?len = n" by (metis nat_int unat_eq_nat_uint)
  moreover from this have "?len = 0 \<longleftrightarrow> n = 0" by (metis unat_eq_zero unsigned_0)
  ultimately show ?thesis by (simp add: read_msg_length_def Let_def)
qed

abbreviation waiting :: "reader \<times> peer_callback" where
  "waiting \<equiv> (Get_read_ptr 4, Read_msg_length)"

lemma stream_run_frame:
  fixes handle free
  defines "call \<equiv> peer_client handle free"
  assumes "length m \<le> cap" "length m < 2 ^ 32" "4 \<le> cap"
  shows "stream_run cap call waiting s (msg_frame m @ tail) e =
    (if m = [] then stream_run cap call waiting s tail e
     else (case handle m s of (accepted, s') \<Rightarrow>
       if accepted then stream_run cap call waiting s' tail e
       else (0, (Get_read_ptr (length m), Read_msg), free s', tail)))"
proof -
  have header: "stream_run cap call waiting s (msg_frame m @ tail) e =
      stream_run cap call (if m = [] then waiting else (Get_read_ptr (length m), Read_msg)) s (m @ tail) e"
    using assms(3,4)
    by (subst stream_run.simps) (simp add: next_item_def msg_frame_def call_def read_length_of_frame switch_def)
  show ?thesis
  proof (cases "m = []")
    case False
    have "stream_run cap call (Get_read_ptr (length m), Read_msg) s (m @ tail) e =
      (case handle m s of (accepted, s') \<Rightarrow>
         if accepted then stream_run cap call waiting s' tail e
         else (0, (Get_read_ptr (length m), Read_msg), free s', tail))"
      using False assms(2)
      by (subst stream_run.simps) (simp add: next_item_def call_def read_msg_def switch_def split: prod.split)
    with header False show ?thesis by simp
  qed (use header in simp)
qed

lemma stream_run_frames:
  assumes "4 \<le> cap" "\<forall>m\<in>set msgs. length m \<le> cap \<and> length m < 2 ^ 32"
    and "handle_all handle free msgs s = (accepted, s')"
  shows "if accepted
    then stream_run cap (peer_client handle free) waiting s (concat (map msg_frame msgs) @ tail) e =
      stream_run cap (peer_client handle free) waiting s' tail e
    else \<exists>now rest. stream_run cap (peer_client handle free) waiting s (concat (map msg_frame msgs) @ tail) e =
      (0, now, s', rest)"
  using assms(2,3)
proof (induction msgs arbitrary: s)
  case (Cons m ms)
  have m: "length m \<le> cap" "length m < 2 ^ 32" using Cons.prems by simp_all
  note frame = stream_run_frame [OF m assms(1), of handle free s "concat (map msg_frame ms) @ tail" e]
  show ?case
  proof (cases "m = []")
    case True
    with frame Cons.IH [of s] Cons.prems show ?thesis by (auto split: if_splits)
  next
    case False
    obtain ok s1 where h: "handle m s = (ok, s1)" by (cases "handle m s")
    with False frame Cons.IH [of s1] Cons.prems show ?thesis by (cases ok) (auto split: if_splits)
  qed
qed simp

subsection \<open>Receiving\<close>

text \<open>A length above the size of the read buffer ends the reading; the event loop then runs the error callback.\<close>

lemma stream_run_too_long:
  assumes "4 \<le> cap" "cap < n" "n < 2 ^ 32"
  shows "stream_run cap (peer_client handle free) waiting s (be_bytes 4 (int n) @ tail) e =
    (BS_IO_TOOMUCHDATA, (Get_read_ptr n, Read_msg), s, tail)"
proof -
  have "stream_run cap (peer_client handle free) waiting s (be_bytes 4 (int n) @ tail) e =
      stream_run cap (peer_client handle free) (Get_read_ptr n, Read_msg) s tail e"
    using assms(1-3) by (subst stream_run.simps) (simp add: next_item_def read_length_of_frame switch_def)
  then show ?thesis using assms(2) by (simp add: stream_run.simps next_item_def)
qed

lemma stream_run_empty:
  "4 \<le> cap \<Longrightarrow> stream_run cap (peer_client handle free) waiting s [] Would_block = (BS_IO_WOULD_BLOCK, waiting, s, [])"
  by (simp add: stream_run.simps next_item_def)

text \<open>A socket as \<^verbatim>\<open>init_socket_peer\<close> leaves it: empty, and waiting for a length.\<close>

definition idle :: "peer_callback buffered_socket \<Rightarrow> kernel \<Rightarrow> bool" where
  "idle bs k \<longleftrightarrow> bs_ok bs \<and> bs_reader bs = Some (Get_read_ptr 4) \<and> read_callback bs = Read_msg_length \<and>
    unread bs = [] \<and> chunks k = [] \<and> after_chunks k = Would_block \<and> 4 \<le> length (read_buffer bs)"

lemma receive_stream:
  assumes "idle bs k" "\<forall>cs\<in>set css. [] \<notin> set cs" "css \<noteq> []"
    and "wakes call css bs k s = (r, bs', k', s')"
  shows "\<exists>rest. stream_run (length (read_buffer bs)) call waiting s (concat (concat css)) Would_block =
    (r, current bs', s', rest)"
  using wakes_refine [of bs k css call s r bs' k' s'] assms by (simp add: idle_def byte_stream_def current_def)

lemma framed_messages:
  assumes "idle bs k" "\<forall>cs\<in>set css. [] \<notin> set cs" "css \<noteq> []"
    and "concat (concat css) = concat (map msg_frame msgs)"
    and "\<forall>m\<in>set msgs. length m \<le> length (read_buffer bs) \<and> length m < 2 ^ 32"
    and "wakes (broker_peer ex parser p) css bs k w = (r, bs', k', w')"
  shows "handle_all (broker_handle ex parser p) (broker_free p) msgs w = (r = BS_IO_WOULD_BLOCK, w') \<and>
    (r = BS_IO_WOULD_BLOCK \<or> r = 0)"
proof -
  let ?cap = "length (read_buffer bs)"
  have cap: "4 \<le> ?cap" using assms(1) by (simp add: idle_def)
  obtain accepted w1 where h: "handle_all (broker_handle ex parser p) (broker_free p) msgs w = (accepted, w1)"
    by (cases "handle_all (broker_handle ex parser p) (broker_free p) msgs w")
  from receive_stream [OF assms(1-3,6)] obtain rest where
    "stream_run ?cap (broker_peer ex parser p) waiting w (concat (map msg_frame msgs)) Would_block =
      (r, current bs', w', rest)"
    unfolding assms(4) by blast
  with stream_run_frames [OF cap assms(5) h, of "[]" Would_block] 
    stream_run_empty [OF cap, of "broker_handle ex parser p" "broker_free p" w1] h show ?thesis
    by (cases accepted) (auto simp: broker_peer_def BS_IO_WOULD_BLOCK_def)
qed


text \<open>A message longer than the read buffer ends the connection: after the messages before it have been
  handled the reading stops with BS_IO_TOOMUCHDATA, and no byte of the long message reaches the broker.\<close>
theorem peer_refuses_long_message:
  assumes "idle bs k" "\<forall>cs\<in>set css. [] \<notin> set cs" "css \<noteq> []"
    and "concat (concat css) = concat (map msg_frame msgs) @ be_bytes 4 (int n) @ tail"
    and "\<forall>m\<in>set msgs. length m \<le> length (read_buffer bs) \<and> length m < 2 ^ 32"
    and "length (read_buffer bs) < n" "n < 2 ^ 32"
    and "handle_all (broker_handle ex parser p) (broker_free p) msgs w = (True, w1)"
    and "wakes (broker_peer ex parser p) css bs k w = (r, bs', k', w')"
  shows "r = BS_IO_TOOMUCHDATA \<and> w' = w1"
proof -
  let ?cap = "length (read_buffer bs)"
  have cap: "4 \<le> ?cap" using assms(1) by (simp add: idle_def)
  from receive_stream [OF assms(1-3,9)] obtain rest where
    "stream_run ?cap (broker_peer ex parser p) waiting w (concat (map msg_frame msgs) @ be_bytes 4 (int n) @ tail) Would_block =
      (r, current bs', w', rest)"
    unfolding assms(4) by blast
  with stream_run_frames [OF cap assms(5,8), of "be_bytes 4 (int n) @ tail" Would_block]
    stream_run_too_long [OF cap assms(6,7), of "broker_handle ex parser p" "broker_free p" w1 tail Would_block]
  show ?thesis by (simp add: broker_peer_def)
qed

subsection \<open>Sending\<close>

lemma vectors_of_frame:
  assumes "length m < 2 ^ 32"
  shows "socket_send_message m bs k = socket_do (bs, k) (Writev [be_bytes 4 (int (length m)), m])"
  using assms htobe32_bytes [of "word_of_nat (length m)"] take_bit_nat_eq_self [of "length m" 32]
  by (simp add: socket_send_message_def socket_do_def unsigned_of_nat)

fun send_messages ::
    "8 word list list \<Rightarrow> 'cb buffered_socket \<Rightarrow> kernel \<Rightarrow> int \<times> 'cb buffered_socket \<times> kernel" where
  "send_messages [] bs k = (0, bs, k)"
| "send_messages (m # ms) bs k =
    (case socket_send_message m bs k of (r, bs, k) \<Rightarrow> if r < 0 then (r, bs, k) else send_messages ms bs k)"

lemma send_messages_run:
  assumes "\<forall>m\<in>set msgs. length m < 2 ^ 32"
  shows "send_messages msgs bs k = run_writes socket_do (map (\<lambda>m. Writev [be_bytes 4 (int (length m)), m]) msgs) (bs, k)"
  using assms by (induction msgs arbitrary: bs k) (auto simp: vectors_of_frame split: prod.split)

lemma vectors_of_frames:
  "vectors (map (\<lambda>m. Writev [be_bytes 4 (int (length m)), m]) msgs) = concat (map msg_frame msgs)"
  by (induction msgs) (simp_all add: msg_frame_def)


subsection \<open>At work\<close>

definition peer_socket :: "peer_callback buffered_socket" where
  "peer_socket = \<lparr>read_buffer = replicate 8 0, read_ptr = 0, write_ptr = 0, bs_reader = Some (Get_read_ptr 4),
     read_callback = Read_msg_length, to_write = 0, write_buffer = replicate 8 0\<rparr>"

lemma peer_socket_idle: "idle peer_socket demo_kernel"
  by (simp add: idle_def peer_socket_def demo_kernel_def bs_ok_def unread_def unread_bytes_def)

definition demo_parser :: "8 word list \<Rightarrow> (json \<times> nat) option" where
  "demo_parser msg = (if msg = [1] then Some (demo_add, 1) else None)"

definition demo_wire :: "8 word list list list" where
  "demo_wire = [[[0, 0]], [[0, 1, 1, 0, 0, 0], [0, 0, 0], [0, 1, 2]]]"


theorem peer_refuses_long_message_witness:
  "\<exists>bs k. wakes (broker_peer demo_externals demo_parser 1) [[[0, 0, 0, 9, 1]]] peer_socket demo_kernel demo_world =
    (BS_IO_TOOMUCHDATA, bs, k, demo_world)"
proof -
  let ?css = "[[[0, 0, 0, 9, 1]]] :: 8 word list list list"
  obtain r bs k w where run: "wakes (broker_peer demo_externals demo_parser 1) ?css peer_socket demo_kernel demo_world =
      (r, bs, k, w)" by (metis surj_pair)
  have "concat (concat ?css) = concat (map msg_frame []) @ be_bytes 4 (int 9) @ [1]" "length (read_buffer peer_socket) = 8"
    by (simp_all add: be_bytes_def peer_socket_def numeral_eq_Suc)
  with peer_refuses_long_message [OF peer_socket_idle _ _ _ _ _ _ _ run, of "[]" 9 "[1]" demo_world] run show ?thesis
    by simp
qed


definition logging_client :: "(peer_callback, 8 word list list) client" where
  "logging_client = peer_client (\<lambda>m s. (True, s @ [m])) (\<lambda>s. s)"

text \<open>A send that fails for lack of buffer space leaves the connection in use but out of frame.  The
  header is already in the buffer when the payload does not fit, so send_message reports the failure
  and the next messages go out behind a header without its payload: the receiver then gets a message
  nobody sent.\<close>
theorem failed_send_breaks_framing:
  "case socket_send_message [1, 2, 3, 4, 5, 6] peer_socket demo_kernel of (r1, bs1, k1) \<Rightarrow>
    case send_messages [[7], [8, 9]] bs1 (k1\<lparr>write_answers := [Wrote 99, Wrote 99]\<rparr>) of (r2, bs2, k2) \<Rightarrow>
      r1 = -1 \<and> r2 = 0 \<and> to_write bs2 = 0 \<and>
      (case wakes logging_client [[written k2]] peer_socket demo_kernel [] of (r, bs, k, received) \<Rightarrow>
        received = [[0, 0, 0, 1, 7, 0]])"
  by code_simp

end
