(* ===== verification/Json_Text.thy ===== *)
theory Json_Text
  imports Json "HOL-Library.Word"
begin

text \<open>
  JSON as text: the printer and the parser of \<^verbatim>\<open>src/src/json/cJSON.c\<close>.

  A text is a list of characters; the parser works on what its buffer still holds, the last character of
  which is the terminating zero that \<^verbatim>\<open>cJSON_ParseWithOpts\<close> counts in.  Strings are C strings: what an escape
  makes of a zero ends the string.  \<open>c_numbers\<close> holds the conversions of the C library between doubles and
  their decimal form; \<open>strtod\<close> gives the value and the number of characters taken.  Memory is always there.

  The parser's recursion is bounded by an argument, the fuel; it answers \<open>Starved\<close> when that runs out, and
  one theorem shows that one more than the length of the text is always enough.  The others: what was printed, with or without
  formatting, is parsed as what it was, and neither side writes behind the memory it measured out.
\<close>

abbreviation char_code :: "char \<Rightarrow> nat" where
  "char_code c \<equiv> of_char c"

record c_numbers =
  sprintf_15g :: "rat \<Rightarrow> string"
  sprintf_17g :: "rat \<Rightarrow> string"
  strtod :: "string \<Rightarrow> double \<times> nat"

subsection \<open>Printing\<close>

definition DQUOTE :: char where "DQUOTE = CHR 0x22"
definition BACKSLASH :: char where "BACKSLASH = CHR 0x5C"

definition escape_count :: "char \<Rightarrow> nat" where
  "escape_count c =
    (if c = DQUOTE \<or> c = BACKSLASH \<or> char_code c \<in> {8, 9, 10, 12, 13} then 1
     else if char_code c < 32 then 5 else 0)"

definition hex_char :: "nat \<Rightarrow> char" where
  "hex_char n = char_of (if n < 10 then n + 48 else n + 87)"

definition escape_char :: "char \<Rightarrow> string" where
  "escape_char c =
    (if 31 < char_code c \<and> c \<noteq> DQUOTE \<and> c \<noteq> BACKSLASH then [c]
     else BACKSLASH #
       (if c = BACKSLASH then [BACKSLASH]
        else if c = DQUOTE then [DQUOTE]
        else if char_code c = 8 then ''b''
        else if char_code c = 12 then ''f''
        else if char_code c = 10 then ''n''
        else if char_code c = 13 then ''r''
        else if char_code c = 9 then ''t''
        else CHR ''u'' # map (\<lambda>k. hex_char (char_code c div 16 ^ k mod 16)) [3, 2, 1, 0]))"

definition output_length :: "string \<Rightarrow> nat" where
  "output_length input = length input + sum_list (map escape_count input)"

text \<open>The closing quote is stored at the index that was computed before.\<close>

definition print_string_ptr :: "string \<Rightarrow> string" where
  "print_string_ptr input =
    (if sum_list (map escape_count input) = 0 then DQUOTE # input @ [DQUOTE]
     else take (output_length input + 1) (DQUOTE # concat (map escape_char input)) @ [DQUOTE])"

text \<open>
  In exact arithmetic, which the doubles have here but for products below the normal numbers; the difference of
  two equal infinities is not a number and compares false.
\<close>

definition compare_double :: "double \<Rightarrow> double \<Rightarrow> bool" where
  "compare_double a b =
    (case (a, b) of
       (Finite x, Finite y) \<Rightarrow> \<bar>x - y\<bar> \<le> max \<bar>x\<bar> \<bar>y\<bar> / 2 ^ 52
     | (x, y) \<Rightarrow> x \<noteq> y)"

definition print_number :: "c_numbers \<Rightarrow> double \<Rightarrow> string option" where
  "print_number N d =
    (let str = (case d of
         Finite q \<Rightarrow>
           let short = sprintf_15g N q; (test, taken) = strtod N short
           in if taken = 0 \<or> \<not> compare_double test d then sprintf_17g N q else short
       | _ \<Rightarrow> ''null'')
     in if 25 < length str then None else Some str)"

fun print_value :: "c_numbers \<Rightarrow> bool \<Rightarrow> nat \<Rightarrow> json \<Rightarrow> string option"
  and print_elements :: "c_numbers \<Rightarrow> bool \<Rightarrow> nat \<Rightarrow> json list \<Rightarrow> string option"
  and print_members :: "c_numbers \<Rightarrow> bool \<Rightarrow> nat \<Rightarrow> (string \<times> json) list \<Rightarrow> string option" where
  "print_value N fmt depth JNull = Some ''null''"
| "print_value N fmt depth JFalse = Some ''false''"
| "print_value N fmt depth JTrue = Some ''true''"
| "print_value N fmt depth (JNumber i d) = print_number N d"
| "print_value N fmt depth (JString s) = Some (print_string_ptr s)"
| "print_value N fmt depth (JArray xs) =
    map_option (\<lambda>str. ''['' @ str @ '']'') (print_elements N fmt (depth + 1) xs)"
| "print_value N fmt depth (JObject kvs) =
    map_option (\<lambda>str. ''{'' @ (if fmt then [CHR 0x0A] else []) @ str @ (if fmt then replicate depth (CHR 0x09) else []) @ ''}'')
      (print_members N fmt (depth + 1) kvs)"
| "print_elements N fmt depth [] = Some []"
| "print_elements N fmt depth (x # xs) =
    (case print_value N fmt depth x of
       None \<Rightarrow> None
     | Some str \<Rightarrow>
        map_option (\<lambda>more_str. str @ (if xs = [] then [] else if fmt then '', '' else '','') @ more_str)
          (print_elements N fmt depth xs))"
| "print_members N fmt depth [] = Some []"
| "print_members N fmt depth ((k, x) # kvs) =
    (case print_value N fmt depth x of
       None \<Rightarrow> None
     | Some str \<Rightarrow>
        map_option (\<lambda>more_str. (if fmt then replicate depth (CHR 0x09) else []) @ print_string_ptr k @ '':''
            @ (if fmt then [CHR 0x09] else []) @ str @ (if kvs = [] then [] else '','') @ (if fmt then [CHR 0x0A] else []) @ more_str)
          (print_members N fmt depth kvs))"

subsection \<open>Parsing\<close>

datatype 'a parsed = Done 'a string | Refused | Starved

definition is_blank :: "char \<Rightarrow> bool" where
  "is_blank c \<longleftrightarrow> char_code c \<le> 32"

text \<open>At the end of the buffer the offset goes back by one.\<close>

definition buffer_skip_whitespace :: "string \<Rightarrow> string" where
  "buffer_skip_whitespace rest =
    (let after = dropWhile is_blank rest in if after = [] \<and> rest \<noteq> [] then [last rest] else after)"

definition skip_utf8_bom :: "string \<Rightarrow> string" where
  "skip_utf8_bom rest =
    (if 4 < length rest \<and> map char_code (take 3 rest) = [0xEF, 0xBB, 0xBF] then drop 3 rest else rest)"

definition is_number_char :: "char \<Rightarrow> bool" where
  "is_number_char c \<longleftrightarrow> c \<in> set ''0123456789+-eE.''"

definition parse_number :: "c_numbers \<Rightarrow> string \<Rightarrow> json parsed" where
  "parse_number N rest =
    (let (number, taken) = strtod N (takeWhile is_number_char (take 63 rest))
     in if taken = 0 then Refused else Done (json_number number) (drop taken rest))"

definition hex_value :: "char \<Rightarrow> nat option" where
  "hex_value c =
    (let n = char_code c
     in if 48 \<le> n \<and> n \<le> 57 then Some (n - 48)
        else if 65 \<le> n \<and> n \<le> 70 then Some (10 + n - 65)
        else if 97 \<le> n \<and> n \<le> 102 then Some (10 + n - 97)
        else None)"

fun parse_hex :: "nat \<Rightarrow> string \<Rightarrow> nat" where
  "parse_hex h [] = h"
| "parse_hex h (c # cs) = (case hex_value c of None \<Rightarrow> 0 | Some v \<Rightarrow> parse_hex (h * 16 + v) cs)"

definition parse_hex4 :: "string \<Rightarrow> nat" where
  "parse_hex4 input = parse_hex 0 (take 4 input)"

definition utf8_of :: "nat \<Rightarrow> string" where
  "utf8_of codepoint = map char_of
    (if codepoint < 0x80 then [codepoint]
     else if codepoint < 0x800 then [0xC0 + codepoint div 64, 0x80 + codepoint mod 64]
     else if codepoint < 0x10000 then [0xE0 + codepoint div 4096, 0x80 + codepoint div 64 mod 64, 0x80 + codepoint mod 64]
     else [0xF0 + codepoint div 262144, 0x80 + codepoint div 4096 mod 64, 0x80 + codepoint div 64 mod 64, 0x80 + codepoint mod 64])"

text \<open>The characters made of the literal and the length of the literal; \<open>None\<close> for the result zero.\<close>

definition utf16_literal_to_utf8 :: "string \<Rightarrow> (string \<times> nat) option" where
  "utf16_literal_to_utf8 input =
    (if length input < 6 then None
     else
       let first_code = parse_hex4 (drop 2 input)
       in if 0xDC00 \<le> first_code \<and> first_code \<le> 0xDFFF then None
          else if 0xD800 \<le> first_code \<and> first_code \<le> 0xDBFF then
            let second = drop 6 input
            in if length second < 6 then None
               else if second ! 0 \<noteq> BACKSLASH \<or> second ! 1 \<noteq> CHR ''u'' then None
               else
                 let second_code = parse_hex4 (drop 2 second)
                 in if second_code < 0xDC00 \<or> 0xDFFF < second_code then None
                    else Some (utf8_of (0x10000 + (first_code mod 1024 * 1024 + second_code mod 1024)), 12)
          else Some (utf8_of first_code, 6))"

text \<open>The first loop of \<^verbatim>\<open>parse_string\<close>: how many characters to the closing quote, and how many of them are skipped.\<close>

fun scan_string :: "string \<Rightarrow> (nat \<times> nat) option" where
  "scan_string [] = None"
| "scan_string (c # cs) =
    (if c = DQUOTE then Some (0, 0)
     else if c = BACKSLASH
     then (case cs of [] \<Rightarrow> None | _ # cs \<Rightarrow> map_option (\<lambda>(n, skipped). (n + 2, skipped + 1)) (scan_string cs))
     else map_option (\<lambda>(n, skipped). (n + 1, skipped)) (scan_string cs))"

definition simple_escape :: "char \<Rightarrow> char option" where
  "simple_escape c =
    (if c = CHR ''b'' then Some (char_of (8 :: nat))
     else if c = CHR ''f'' then Some (char_of (12 :: nat))
     else if c = CHR ''n'' then Some (char_of (10 :: nat))
     else if c = CHR ''r'' then Some (char_of (13 :: nat))
     else if c = CHR ''t'' then Some (char_of (9 :: nat))
     else if c = DQUOTE \<or> c = BACKSLASH \<or> c = CHR ''/'' then Some c
     else None)"

text \<open>
  The second loop, on the characters between the quotes.  A malformed literal can leave a backslash at their end,
  which then takes the closing quote as what it escapes.
\<close>

function unescape :: "string \<Rightarrow> string option" where
  "unescape [] = Some []"
| "unescape (c # cs) =
    (if c \<noteq> BACKSLASH then map_option (Cons c) (unescape cs)
     else (case cs of
         [] \<Rightarrow> Some [DQUOTE]
       | e # rest \<Rightarrow>
          if e = CHR ''u''
          then (case utf16_literal_to_utf8 (c # cs) of
              None \<Rightarrow> None
            | Some (out, n) \<Rightarrow> map_option ((@) out) (unescape (drop (n - 1) cs)))
          else (case simple_escape e of None \<Rightarrow> None | Some out \<Rightarrow> map_option (Cons out) (unescape rest))))"
  by pat_completeness auto
termination by (relation "measure length") auto

definition c_string :: "string \<Rightarrow> string" where
  "c_string = takeWhile (\<lambda>c. char_code c \<noteq> 0)"

definition parse_string :: "string \<Rightarrow> string parsed" where
  "parse_string rest =
    (case rest of
       [] \<Rightarrow> Refused
     | c # cs \<Rightarrow>
        if c \<noteq> DQUOTE then Refused
        else (case scan_string cs of
            None \<Rightarrow> Refused
          | Some (n, skipped) \<Rightarrow>
             (case unescape (take n cs) of None \<Rightarrow> Refused | Some out \<Rightarrow> Done (c_string out) (drop (n + 1) cs))))"

definition CJSON_NESTING_LIMIT :: nat where
  "CJSON_NESTING_LIMIT = 1000"

definition starts :: "string \<Rightarrow> string \<Rightarrow> bool" where
  "starts word rest \<longleftrightarrow> take (length word) rest = word"

definition next_is :: "char \<Rightarrow> string \<Rightarrow> bool" where
  "next_is c rest \<longleftrightarrow> rest \<noteq> [] \<and> hd rest = c"

text \<open>
  The loops of \<^verbatim>\<open>parse_array\<close> and \<^verbatim>\<open>parse_object\<close>, for any parser \<open>pv\<close> of the elements, start behind the
  bracket or a comma; the step back before the first element is undone by the loop's first step.
\<close>

fun parse_elements :: "(string \<Rightarrow> json parsed) \<Rightarrow> nat \<Rightarrow> json list \<Rightarrow> string \<Rightarrow> json parsed" where
  "parse_elements pv 0 acc rest = Starved"
| "parse_elements pv (Suc fuel) acc rest =
    (case pv (buffer_skip_whitespace rest) of
       Refused \<Rightarrow> Refused
     | Starved \<Rightarrow> Starved
     | Done x rest \<Rightarrow>
        let rest = buffer_skip_whitespace rest
        in if next_is (CHR '','') rest then parse_elements pv fuel (acc @ [x]) (tl rest)
           else if next_is (CHR '']'') rest then Done (JArray (acc @ [x])) (tl rest)
           else Refused)"

definition parse_array :: "(string \<Rightarrow> json parsed) \<Rightarrow> nat \<Rightarrow> nat \<Rightarrow> string \<Rightarrow> json parsed" where
  "parse_array pv fuel depth rest =
    (if CJSON_NESTING_LIMIT \<le> depth then Refused
     else
       let rest = buffer_skip_whitespace (tl rest)
       in if next_is (CHR '']'') rest then Done (JArray []) (tl rest)
          else if rest = [] then Refused
          else parse_elements pv fuel [] rest)"

fun parse_members :: "(string \<Rightarrow> json parsed) \<Rightarrow> nat \<Rightarrow> (string \<times> json) list \<Rightarrow> string \<Rightarrow> json parsed" where
  "parse_members pv 0 acc rest = Starved"
| "parse_members pv (Suc fuel) acc rest =
    (case parse_string (buffer_skip_whitespace rest) of
       Refused \<Rightarrow> Refused
     | Starved \<Rightarrow> Starved
     | Done k rest \<Rightarrow>
        let rest = buffer_skip_whitespace rest
        in if \<not> next_is (CHR '':'') rest then Refused
           else (case pv (buffer_skip_whitespace (tl rest)) of
               Refused \<Rightarrow> Refused
             | Starved \<Rightarrow> Starved
             | Done x rest \<Rightarrow>
                let rest = buffer_skip_whitespace rest
                in if next_is (CHR '','') rest then parse_members pv fuel (acc @ [(k, x)]) (tl rest)
                   else if next_is (CHR ''}'') rest then Done (JObject (acc @ [(k, x)])) (tl rest)
                   else Refused))"

definition parse_object :: "(string \<Rightarrow> json parsed) \<Rightarrow> nat \<Rightarrow> nat \<Rightarrow> string \<Rightarrow> json parsed" where
  "parse_object pv fuel depth rest =
    (if CJSON_NESTING_LIMIT \<le> depth then Refused
     else
       let rest = buffer_skip_whitespace (tl rest)
       in if next_is (CHR ''}'') rest then Done (JObject []) (tl rest)
          else if rest = [] then Refused
          else parse_members pv fuel [] rest)"

primrec parse_value :: "c_numbers \<Rightarrow> nat \<Rightarrow> nat \<Rightarrow> string \<Rightarrow> json parsed" where
  "parse_value N 0 = (\<lambda>depth rest. Starved)"
| "parse_value N (Suc fuel) = (\<lambda>depth rest.
    if starts ''null'' rest then Done JNull (drop 4 rest)
    else if starts ''false'' rest then Done JFalse (drop 5 rest)
    else if starts ''true'' rest then Done JTrue (drop 4 rest)
    else if next_is DQUOTE rest
      then (case parse_string rest of Done s rest \<Rightarrow> Done (JString s) rest | Refused \<Rightarrow> Refused | Starved \<Rightarrow> Starved)
    else if rest \<noteq> [] \<and> (hd rest = CHR ''-'' \<or> 48 \<le> char_code (hd rest) \<and> char_code (hd rest) \<le> 57) then parse_number N rest
    else if next_is (CHR ''['') rest then parse_array (parse_value N fuel (depth + 1)) fuel depth rest
    else if next_is (CHR ''{'') rest then parse_object (parse_value N fuel (depth + 1)) fuel depth rest
    else Refused)"

definition fuel_for :: "string \<Rightarrow> nat" where
  "fuel_for buffer = length buffer + 1"

text \<open>\<^verbatim>\<open>cJSON_ParseWithLengthOpts\<close>: the value and where it ended.\<close>

definition cJSON_ParseWithLengthOpts :: "c_numbers \<Rightarrow> string \<Rightarrow> bool \<Rightarrow> (json \<times> nat) option" where
  "cJSON_ParseWithLengthOpts N buffer require_null_terminated =
    (if buffer = [] then None
     else (case parse_value N (fuel_for buffer) 0 (buffer_skip_whitespace (skip_utf8_bom buffer)) of
         Done item rest \<Rightarrow>
           if require_null_terminated then
             let rest = buffer_skip_whitespace rest
             in if next_is (char_of (0 :: nat)) rest then Some (item, length buffer - length rest) else None
           else Some (item, length buffer - length rest)
       | _ \<Rightarrow> None))"

definition cJSON_ParseWithOpts :: "c_numbers \<Rightarrow> string \<Rightarrow> bool \<Rightarrow> (json \<times> nat) option" where
  "cJSON_ParseWithOpts N memory = cJSON_ParseWithLengthOpts N (c_string memory @ [char_of (0 :: nat)])"

text \<open>What \<^verbatim>\<open>parse_message\<close> parses: the message and whatever lies behind it in the read buffer, up to a zero.\<close>

definition message_parser :: "c_numbers \<Rightarrow> 8 word list \<Rightarrow> 8 word list \<Rightarrow> (json \<times> nat) option" where
  "message_parser N behind msg = cJSON_ParseWithOpts N (map (\<lambda>b. char_of (unat b)) (msg @ behind)) False"

text \<open>\<^verbatim>\<open>cJSON_PrintUnformatted\<close> and \<^verbatim>\<open>cJSON_Print\<close>.\<close>

definition cJSON_PrintUnformatted_text :: "c_numbers \<Rightarrow> json \<Rightarrow> string option" where
  "cJSON_PrintUnformatted_text N item = print_value N False 0 item"

definition cJSON_Print :: "c_numbers \<Rightarrow> json \<Rightarrow> string option" where
  "cJSON_Print N item = print_value N True 0 item"

subsection \<open>The fuel is enough\<close>

lemma length_skip: "length (buffer_skip_whitespace rest) \<le> length rest"
  using length_dropWhile_le [of is_blank rest] by (auto simp: buffer_skip_whitespace_def Let_def Suc_le_eq)

lemma length_skip_tl: "rest \<noteq> [] \<Longrightarrow> length (buffer_skip_whitespace (tl rest)) < length rest"
  using length_skip [of "tl rest"] by (cases rest) simp_all

lemma next_is_not_Nil: "next_is c rest \<Longrightarrow> rest \<noteq> []"
  by (simp add: next_is_def)

lemma parse_string_consumes: "parse_string rest = Done s rest' \<Longrightarrow> length rest' < length rest"
  by (auto simp: parse_string_def split: list.splits option.splits if_splits)

lemma parse_string_not_starved: "parse_string rest \<noteq> Starved"
  by (auto simp: parse_string_def split: list.splits option.splits)

lemma parse_number_consumes: "parse_number N rest = Done x rest' \<Longrightarrow> rest \<noteq> [] \<Longrightarrow> length rest' < length rest"
  by (auto simp: parse_number_def Let_def split: prod.splits if_splits)

definition consuming :: "(string \<Rightarrow> json parsed) \<Rightarrow> bool" where
  "consuming pv \<longleftrightarrow> (\<forall>r x r'. pv r = Done x r' \<longrightarrow> length r' < length r)"

lemma consuming_step:
  assumes "consuming pv" "pv (buffer_skip_whitespace rest) = Done x r" "r' = buffer_skip_whitespace r"
  shows "length r' < length rest" "length (tl r') < length rest"
proof -
  have "length r < length (buffer_skip_whitespace rest)" using assms(1,2) by (simp add: consuming_def)
  then show "length r' < length rest" unfolding assms(3) using length_skip [of rest] length_skip [of r] by linarith
  then show "length (tl r') < length rest" by simp
qed

lemma parse_elements_consumes:
  "consuming pv \<Longrightarrow> parse_elements pv fuel acc rest = Done x rest' \<Longrightarrow> length rest' < length rest"
proof (induction pv fuel acc rest rule: parse_elements.induct)
  case (2 pv fuel acc rest)
  obtain y r where y: "pv (buffer_skip_whitespace rest) = Done y r" using 2(3) by (auto split: parsed.splits)
  note less = consuming_step [OF 2(2) y refl]
  show ?case
  proof (cases "next_is (CHR '','') (buffer_skip_whitespace r)")
    case True
    with 2 y have "length rest' < length (tl (buffer_skip_whitespace r))" by (auto simp: Let_def)
    with less show ?thesis by linarith
  next
    case False
    with 2(3) y less show ?thesis by (auto simp: Let_def split: if_splits)
  qed
qed simp

lemma parse_members_consumes:
  "consuming pv \<Longrightarrow> parse_members pv fuel acc rest = Done x rest' \<Longrightarrow> length rest' < length rest"
proof (induction pv fuel acc rest rule: parse_members.induct)
  case (2 pv fuel acc rest)
  obtain k r where k: "parse_string (buffer_skip_whitespace rest) = Done k r" using 2(3) by (auto split: parsed.splits)
  let ?r = "buffer_skip_whitespace r"
  have r: "length r < length rest" using parse_string_consumes [OF k] length_skip [of rest] by linarith
  have colon: "next_is (CHR '':'') ?r" using 2(3) k by (auto simp: Let_def split: if_splits)
  obtain y r2 where y: "pv (buffer_skip_whitespace (tl ?r)) = Done y r2"
    using 2(3) k colon by (auto simp: Let_def split: parsed.splits)
  note less = consuming_step [OF 2(2) y refl]
  have tl: "length (tl ?r) < length rest" using length_skip [of r] r by simp
  show ?case
  proof (cases "next_is (CHR '','') (buffer_skip_whitespace r2)")
    case True
    with 2 k colon y have "length rest' < length (tl (buffer_skip_whitespace r2))" by (auto simp: Let_def)
    with less tl show ?thesis by linarith
  next
    case False
    with 2(3) k colon y less tl show ?thesis by (auto simp: Let_def split: if_splits)
  qed
qed simp

lemma parse_value_consumes: "parse_value N fuel depth rest = Done x rest' \<Longrightarrow> length rest' < length rest"
proof (induction fuel arbitrary: depth rest x rest')
  case (Suc fuel)
  have pv: "consuming (parse_value N fuel (depth + 1))" using Suc.IH by (simp add: consuming_def)
  have arr: "length rest' < length rest"
    if "parse_array (parse_value N fuel (depth + 1)) fuel depth rest = Done x rest' \<or>
      parse_object (parse_value N fuel (depth + 1)) fuel depth rest = Done x rest'" "rest \<noteq> []"
    using that(1) length_skip_tl [OF that(2)]
      parse_elements_consumes [OF pv, of fuel "[]" "buffer_skip_whitespace (tl rest)" x rest']
      parse_members_consumes [OF pv, of fuel "[]" "buffer_skip_whitespace (tl rest)" x rest']
    by (auto simp: parse_array_def parse_object_def Let_def split: if_splits)
  have word: "length (drop k rest) < length rest" if "starts w rest" "w \<noteq> []" "k = length w" for w k
    using that by (cases rest) (auto simp: starts_def)
  from Suc.prems show ?case
    using parse_number_consumes [of N rest x rest'] arr word [of "''null''" 4] word [of "''true''" 4] word [of "''false''" 5]
    by (auto simp: next_is_def dest: parse_string_consumes split: if_splits parsed.splits)
qed simp

lemma consuming_parse_value: "consuming (parse_value N fuel depth)"
  using parse_value_consumes by (simp add: consuming_def)

lemma parse_elements_fed:
  assumes "consuming pv" "\<And>r. length r \<le> m \<Longrightarrow> pv r \<noteq> Starved"
  shows "length rest \<le> m \<Longrightarrow> length rest < fuel \<Longrightarrow> parse_elements pv fuel acc rest \<noteq> Starved"
proof (induction fuel arbitrary: acc rest)
  case (Suc fuel)
  have "pv (buffer_skip_whitespace rest) \<noteq> Starved" using assms(2) length_skip [of rest] Suc.prems(1) by (meson order_trans)
  then show ?case
  proof (cases "pv (buffer_skip_whitespace rest)")
    case (Done y r)
    have "length (tl (buffer_skip_whitespace r)) < length rest" by (rule consuming_step [OF assms(1) Done refl])
    with Suc.IH [of "tl (buffer_skip_whitespace r)"] Suc.prems Done show ?thesis by (simp add: Let_def)
  qed simp_all
qed simp

lemma parse_members_fed:
  assumes "consuming pv" "\<And>r. length r \<le> m \<Longrightarrow> pv r \<noteq> Starved"
  shows "length rest \<le> m \<Longrightarrow> length rest < fuel \<Longrightarrow> parse_members pv fuel acc rest \<noteq> Starved"
proof (induction fuel arbitrary: acc rest)
  case (Suc fuel)
  show ?case
  proof (cases "parse_string (buffer_skip_whitespace rest)")
    case (Done k r)
    let ?r = "buffer_skip_whitespace r"
    have "length r < length rest" using parse_string_consumes [OF Done] length_skip [of rest] by linarith
    then have less: "length (tl ?r) < length rest" using length_skip [of r] by simp
    have "pv (buffer_skip_whitespace (tl ?r)) \<noteq> Starved"
      using assms(2) length_skip [of "tl ?r"] less Suc.prems(1) by (meson order_trans less_imp_le)
    then show ?thesis
    proof (cases "pv (buffer_skip_whitespace (tl ?r))")
      case y: (Done y r2)
      have "length (tl (buffer_skip_whitespace r2)) < length (tl ?r)" by (rule consuming_step [OF assms(1) y refl])
      with less Suc.IH [of "tl (buffer_skip_whitespace r2)"] Suc.prems Done y show ?thesis by (simp add: Let_def)
    qed (use Done in \<open>simp_all add: Let_def\<close>)
  qed (simp_all add: parse_string_not_starved)
qed simp

lemma parse_value_fed: "length rest < fuel \<Longrightarrow> parse_value N fuel depth rest \<noteq> Starved"
proof (induction fuel arbitrary: depth rest)
  case (Suc fuel)
  let ?pv = "parse_value N fuel (depth + 1)" and ?r = "buffer_skip_whitespace (tl rest)"
  have pv: "?pv r \<noteq> Starved" if "length r \<le> length ?r" "rest \<noteq> []" for r
  proof (rule Suc.IH)
    show "length r < fuel" using Suc.prems length_skip_tl [OF that(2)] that(1) by linarith
  qed
  have "length ?r < fuel" if "rest \<noteq> []" using length_skip_tl [OF that] Suc.prems by linarith
  with parse_elements_fed [where pv = ?pv and m = "length ?r", OF consuming_parse_value pv]
    parse_members_fed [where pv = ?pv and m = "length ?r", OF consuming_parse_value pv]
  have "parse_array ?pv fuel depth rest \<noteq> Starved" "parse_object ?pv fuel depth rest \<noteq> Starved" if "rest \<noteq> []"
    using that by (simp_all add: parse_array_def parse_object_def Let_def)
  then show ?case
    by (auto simp: next_is_def parse_number_def Let_def parse_string_not_starved split: parsed.split prod.split)
qed simp

text \<open>C22: The parser ends on every text.  Whatever the buffer holds, one unit of fuel more than its characters is
  enough: the recursion of values, arrays and objects always comes to an answer.\<close>
theorem json_parser_terminates:
  shows "parse_value N (fuel_for buffer) 0 (buffer_skip_whitespace (skip_utf8_bom buffer)) \<noteq> Starved"
proof (rule parse_value_fed)
  have "length (skip_utf8_bom buffer) \<le> length buffer" by (simp add: skip_utf8_bom_def)
  then show "length (buffer_skip_whitespace (skip_utf8_bom buffer)) < fuel_for buffer"
    using length_skip [of "skip_utf8_bom buffer"] by (simp add: fuel_for_def)
qed

subsection \<open>Strings\<close>

lemma code_char_of [simp]: "n < 256 \<Longrightarrow> char_code (char_of n) = n"
  by simp

lemma char_cases_small:
  assumes "char_code c < 32"
  obtains n where "n < 32" "c = char_of (n :: nat)"
  using assms by (metis char_of_char)

lemma escape_plain: "escape_count c = 0 \<Longrightarrow> escape_char c = [c]"
  by (auto simp: escape_count_def escape_char_def split: if_splits)

lemma length_escape: "length (escape_char c) = 1 + escape_count c"
  by (auto simp: escape_char_def escape_count_def)

lemma length_escapes: "length (concat (map escape_char s)) = output_length s"
  by (induction s) (simp_all add: output_length_def length_escape)

lemma print_string_text: "print_string_ptr s = DQUOTE # concat (map escape_char s) @ [DQUOTE]"
proof (cases "sum_list (map escape_count s) = 0")
  case True
  then have "concat (map escape_char s) = s" by (induction s) (simp_all add: escape_plain)
  with True show ?thesis by (simp add: print_string_ptr_def)
next
  case False
  show ?thesis unfolding print_string_ptr_def if_not_P [OF False] using length_escapes [of s] by simp
qed

definition literal_digits :: "nat \<Rightarrow> string" where
  "literal_digits n = map (\<lambda>k. hex_char (n div 16 ^ k mod 16)) [3, 2, 1, 0]"

lemma hex_char_facts:
  assumes "n < 16"
  shows "hex_value (hex_char n) = Some n" "hex_char n \<noteq> DQUOTE" "hex_char n \<noteq> BACKSLASH"
proof -
  have code: "char_code (hex_char n) = (if n < 10 then n + 48 else n + 87)" using assms by (simp add: hex_char_def)
  then show "hex_value (hex_char n) = Some n" using assms by (simp add: hex_value_def Let_def)
  have "char_code (hex_char n) \<noteq> 34" "char_code (hex_char n) \<noteq> 92" using code assms by auto
  then show "hex_char n \<noteq> DQUOTE" "hex_char n \<noteq> BACKSLASH" by (auto simp: DQUOTE_def BACKSLASH_def)
qed

lemma small_literals:
  assumes "n < 256"
  shows "parse_hex 0 (literal_digits n) = n \<and> length (literal_digits n) = 4 \<and>
     DQUOTE \<notin> set (literal_digits n) \<and> BACKSLASH \<notin> set (literal_digits n)"
proof -
  have "n div 16 mod 16 = n div 16" using assms by simp
  then show ?thesis
    using assms hex_char_facts(1) [of "n div 4096 mod 16"] hex_char_facts(1) [of "n div 256 mod 16"]
      hex_char_facts(1) [of "n div 16"] hex_char_facts(1) [of "n mod 16"]
    by (auto simp: literal_digits_def hex_char_facts(2,3) [THEN not_sym])
qed

lemma small_literal:
  assumes "char_code c < 32" "char_code c \<noteq> 0" "char_code c \<notin> {8, 9, 10, 12, 13}"
  obtains h where "escape_char c = BACKSLASH # CHR ''u'' # h" "parse_hex 0 h = char_code c" "length h = 4"
    "DQUOTE \<notin> set h" "BACKSLASH \<notin> set h"
proof -
  have "char_code c < 256" using assms(1) by simp
  moreover have "c \<noteq> DQUOTE" "c \<noteq> BACKSLASH" using assms(1) by (auto simp: DQUOTE_def BACKSLASH_def)
  then have "escape_char c = BACKSLASH # CHR ''u'' # literal_digits (char_code c)"
    using assms by (simp add: escape_char_def literal_digits_def)
  ultimately show thesis using small_literals that by blast
qed

lemma scan_plain: "DQUOTE \<notin> set h \<Longrightarrow> BACKSLASH \<notin> set h \<Longrightarrow>
    scan_string (h @ t) = map_option (\<lambda>(n, k). (n + length h, k)) (scan_string t)"
  by (induction h; cases "scan_string t") auto

lemma scan_escape:
  assumes "char_code c \<noteq> 0"
  shows "\<exists>j. scan_string (escape_char c @ t) = map_option (\<lambda>(n, k). (n + length (escape_char c), k + j)) (scan_string t)"
proof (cases "char_code c < 32 \<and> char_code c \<notin> {8, 9, 10, 12, 13}")
  case True
  with assms obtain h where h: "escape_char c = BACKSLASH # CHR ''u'' # h" "length h = 4" "DQUOTE \<notin> set h" "BACKSLASH \<notin> set h"
    by (auto intro: small_literal)
  have "BACKSLASH \<noteq> DQUOTE" by (simp add: BACKSLASH_def DQUOTE_def)
  with h scan_plain [of h t] show ?thesis
    by (intro exI [of _ 1]) (cases "scan_string t"; auto)
next
  case False
  have neq: "BACKSLASH \<noteq> DQUOTE" by (simp add: BACKSLASH_def DQUOTE_def)
  consider "escape_char c = [c]" "c \<noteq> DQUOTE" "c \<noteq> BACKSLASH" | e where "escape_char c = [BACKSLASH, e]"
  proof (cases "31 < char_code c \<and> c \<noteq> DQUOTE \<and> c \<noteq> BACKSLASH")
    case True
    then show ?thesis using that(1) by (simp add: escape_char_def)
  next
    case plain: False
    have "c = BACKSLASH \<or> c = DQUOTE \<or> char_code c \<in> {8, 9, 10, 12, 13}" using False plain by force
    then have "\<exists>e. escape_char c = [BACKSLASH, e]" unfolding escape_char_def if_not_P [OF plain] by auto
    then show ?thesis using that(2) by blast
  qed
  then show ?thesis
  proof cases
    case 1
    then show ?thesis by (intro exI [of _ 0]) simp
  next
    case (2 e)
    with neq show ?thesis by (intro exI [of _ 1]) simp
  qed
qed

lemma scan_escapes:
  "\<forall>c\<in>set s. char_code c \<noteq> 0 \<Longrightarrow>
   \<exists>k. scan_string (concat (map escape_char s) @ DQUOTE # rest) = Some (length (concat (map escape_char s)), k)"
proof (induction s)
  case (Cons c s)
  then obtain k where k: "scan_string (concat (map escape_char s) @ DQUOTE # rest) = Some (length (concat (map escape_char s)), k)"
    by auto
  obtain j where "scan_string (escape_char c @ concat (map escape_char s) @ DQUOTE # rest) =
      map_option (\<lambda>(n, k). (n + length (escape_char c), k + j)) (scan_string (concat (map escape_char s) @ DQUOTE # rest))"
    using scan_escape Cons.prems by (metis list.set_intros(1))
  with k show ?case by simp
qed simp

lemma unescape_escape:
  assumes "char_code c \<noteq> 0"
  shows "unescape (escape_char c @ t) = map_option (Cons c) (unescape t)"
proof (cases "char_code c < 32 \<and> char_code c \<notin> {8, 9, 10, 12, 13}")
  case True
  with assms obtain h where h: "escape_char c = BACKSLASH # CHR ''u'' # h" "parse_hex 0 h = char_code c" "length h = 4"
    by (auto intro: small_literal)
  have "utf16_literal_to_utf8 (escape_char c @ t) = Some ([c], 6)"
    using h True by (simp add: utf16_literal_to_utf8_def parse_hex4_def utf8_of_def)
  then show ?thesis using h by (cases "unescape t") simp_all
next
  case False
  then show ?thesis
  proof (cases "escape_char c = [c]")
    case True
    then have "c \<noteq> BACKSLASH" by (auto simp: escape_char_def split: if_splits)
    with True show ?thesis by simp
  next
    case plain: False
    have e: "c = char_of (8 :: nat) \<or> c = char_of (9 :: nat) \<or> c = char_of (10 :: nat) \<or> c = char_of (12 :: nat) \<or> c = char_of (13 :: nat)
        \<or> c = DQUOTE \<or> c = BACKSLASH"
    proof -
      have code: "char_code c = n \<Longrightarrow> c = char_of n" for n by (metis char_of_char)
      show ?thesis using plain False code [of 8] code [of 9] code [of 10] code [of 12] code [of 13]
        by (auto simp: escape_char_def split: if_splits)
    qed
    then show ?thesis
      by (elim disjE) (simp_all add: escape_char_def simple_escape_def BACKSLASH_def DQUOTE_def)
  qed
qed

lemma unescape_escapes: "\<forall>c\<in>set s. char_code c \<noteq> 0 \<Longrightarrow> unescape (concat (map escape_char s)) = Some s"
  by (induction s) (simp_all add: unescape_escape del: unescape.simps(2))

lemma parse_printed_string:
  assumes "\<forall>c\<in>set s. char_code c \<noteq> 0"
  shows "parse_string (print_string_ptr s @ rest) = Done s rest"
proof -
  obtain k where "scan_string (concat (map escape_char s) @ DQUOTE # rest) = Some (length (concat (map escape_char s)), k)"
    using scan_escapes [OF assms] by blast
  moreover have "c_string s = s" using assms by (simp add: c_string_def takeWhile_eq_all_conv)
  ultimately show ?thesis
    using unescape_escapes [OF assms] by (simp add: print_string_text parse_string_def)
qed

text \<open>What the characters between two quotes need, by the first loop's count.\<close>

fun budget :: "string \<Rightarrow> nat" where
  "budget [] = 0"
| "budget (c # cs) = Suc (if c = BACKSLASH then budget (tl cs) else budget cs)"

lemma budget_tl: "budget (tl s) \<le> budget s \<and> budget s \<le> Suc (budget (tl s))"
proof (induction s rule: budget.induct)
  case (2 c cs)
  then show ?case by (cases "c = BACKSLASH"; cases cs) auto
qed simp

lemma budget_drop: "budget (drop n s) \<le> budget s"
proof (induction n arbitrary: s)
  case (Suc n)
  have "budget (drop (Suc n) s) \<le> budget (tl s)" using Suc [of "tl s"] by (simp add: drop_Suc)
  then show ?case using budget_tl [of s] by linarith
qed simp

lemma budget_plain: "BACKSLASH \<notin> set h \<Longrightarrow> budget (h @ t) = length h + budget t"
  by (induction h) auto

lemma scan_budget: "scan_string cs = Some (n, skipped) \<Longrightarrow> skipped \<le> n \<and> budget (take n cs) = n - skipped"
proof (induction cs arbitrary: n skipped rule: scan_string.induct)
  case (2 c cs)
  then show ?case
    by (cases "c = DQUOTE"; cases "c = BACKSLASH"; cases cs) (fastforce simp: Suc_diff_le intro: le_SucI)+
qed simp

lemma parse_hex_plain: "parse_hex h cs \<noteq> 0 \<Longrightarrow> BACKSLASH \<notin> set cs"
proof (induction cs arbitrary: h)
  case (Cons c cs)
  have "hex_value BACKSLASH = None" by (simp add: hex_value_def BACKSLASH_def)
  with Cons show ?case by (auto split: option.splits)
qed simp

lemma parse_hex_bound: "parse_hex h cs < (h + 1) * 16 ^ length cs"
proof (induction cs arbitrary: h)
  case (Cons c cs)
  show ?case
  proof (cases "hex_value c")
    case (Some v)
    then have "v < 16" by (auto simp: hex_value_def Let_def split: if_splits)
    then have "(h * 16 + v + 1) * 16 ^ length cs \<le> (h + 1) * 16 * 16 ^ length cs" by (intro mult_right_mono) auto
    with Cons [of "h * 16 + v"] have "parse_hex (h * 16 + v) cs < (h + 1) * 16 * 16 ^ length cs" by linarith
    with Some show ?thesis by (simp add: distrib_right)
  qed simp
qed simp

lemma literal_budget:
  assumes "6 \<le> length s" "hd s = BACKSLASH" "parse_hex4 (drop 2 s) \<noteq> 0" "s ! 1 \<noteq> BACKSLASH"
  shows "budget s = 5 + budget (drop 6 s)"
proof -
  obtain u h t where s: "s = BACKSLASH # u # h @ t" "length h = 4"
  proof -
    have "s = BACKSLASH # s ! 1 # take 4 (drop 2 s) @ drop 6 s"
      using assms(1,2) by (cases s; cases "tl s") (auto simp: add.commute)
    then show thesis using that [of "s ! 1" "take 4 (drop 2 s)" "drop 6 s"] assms(1) by simp
  qed
  then have "BACKSLASH \<notin> set h" using assms(3) parse_hex_plain [of 0 h] by (simp add: parse_hex4_def)
  with s show ?thesis by (simp add: budget_plain)
qed


lemma length_utf8_of: "length (utf8_of n) \<le> 4" "n < 0x10000 \<Longrightarrow> length (utf8_of n) \<le> 3" "n < 0x80 \<Longrightarrow> length (utf8_of n) = 1"
  by (simp_all add: utf8_of_def)

lemma literal_fits:
  assumes "utf16_literal_to_utf8 s = Some (out, n)" "hd s = BACKSLASH" "s ! 1 = CHR ''u''"
  shows "length out + budget (drop n s) \<le> budget s \<and> 6 \<le> n"
proof -
  have u: "s ! 1 \<noteq> BACKSLASH" using assms(3) by (simp add: BACKSLASH_def)
  let ?first = "parse_hex4 (drop 2 s)" and ?t = "drop 6 s"
  have len: "6 \<le> length s" using assms(1) by (auto simp: utf16_literal_to_utf8_def split: if_splits)
  have bound: "?first < 0x10000" using parse_hex_bound [of 0 "take 4 (drop 2 s)"] len by (simp add: parse_hex4_def)
  have one: "budget s = 5 + budget ?t" if "?first \<noteq> 0" using literal_budget [OF len assms(2) that u] .
  show ?thesis
  proof (cases "0xD800 \<le> ?first \<and> ?first \<le> 0xDBFF")
    case False
    then have r: "out = utf8_of ?first" "n = 6"
      using assms(1) len by (auto simp: utf16_literal_to_utf8_def Let_def split: if_splits)
    show ?thesis
    proof (cases "?first = 0")
      case True
      have "s \<noteq> []" using len by auto
      then have "budget s = Suc (budget (tl (tl s)))" using assms(2) by (cases s) simp_all
      moreover have "budget (drop 6 s) \<le> budget (tl (tl s))" using budget_drop [of 4 "tl (tl s)"] by (simp add: drop_Suc numeral_eq_Suc)
      ultimately show ?thesis using r True length_utf8_of(3) [of 0] by simp
    next
      case False
      with r one length_utf8_of(2) [OF bound] show ?thesis by simp
    qed
  next
    case True
    then have second: "6 \<le> length ?t" "?t ! 0 = BACKSLASH" "?t ! 1 = CHR ''u''" "0xDC00 \<le> parse_hex4 (drop 2 ?t)"
      and n: "n = 12" and out: "\<exists>m. out = utf8_of m"
      using assms(1) len by (auto simp: utf16_literal_to_utf8_def Let_def split: if_splits)
    have "budget ?t = 5 + budget (drop 6 ?t)"
      using second by (intro literal_budget) (auto simp: BACKSLASH_def hd_conv_nth)
    then have "budget s = 10 + budget (drop n s)" using one True n by simp
    moreover have "length out \<le> 4" using out length_utf8_of(1) by blast
    ultimately show ?thesis using n by simp
  qed
qed

lemma unescape_fits: "unescape s = Some out \<Longrightarrow> length out \<le> budget s"
proof (induction s arbitrary: out rule: unescape.induct)
  case (2 c cs)
  show ?case
  proof (cases "c = BACKSLASH")
    case False
    with 2 show ?thesis by fastforce
  next
    case c: True
    show ?thesis
    proof (cases cs)
      case Nil
      then show ?thesis using 2(4) c by auto
    next
      case cs: (Cons e rest)
      show ?thesis
      proof (cases "e = CHR ''u''")
        case True
        obtain o1 n o2 where o: "utf16_literal_to_utf8 (c # cs) = Some (o1, n)" "unescape (drop (n - 1) cs) = Some o2" "out = o1 @ o2"
          using 2(4) c cs True by (auto split: option.splits)
        have fits: "length o1 + budget (drop n (c # cs)) \<le> budget (c # cs) \<and> 6 \<le> n"
          using literal_fits [OF o(1)] c cs True by simp
        then have "drop n (c # cs) = drop (n - 1) cs" by (cases n) simp_all
        moreover have "length o2 \<le> budget (drop (n - 1) cs)"
          by (rule 2(2) [OF _ _ True]) (use c cs o in auto)
        ultimately show ?thesis using fits o(3) by simp
      next
        case False
        then obtain x o2 where "simple_escape e = Some x" "unescape rest = Some o2" "out = x # o2"
          using 2(4) c cs by (auto split: option.splits)
        moreover from this have "length o2 \<le> budget rest" using 2(3) [OF _ _ False] c cs by simp
        ultimately show ?thesis using c cs by simp
      qed
    qed
  qed
qed simp




subsection \<open>What was printed is parsed as what it was\<close>

definition nul_free :: "string \<Rightarrow> bool" where
  "nul_free s \<longleftrightarrow> (\<forall>c\<in>set s. char_code c \<noteq> 0)"

text \<open>The C library takes back the number that it printed.\<close>

definition number_ok :: "c_numbers \<Rightarrow> int \<Rightarrow> double \<Rightarrow> bool" where
  "number_ok N i d =
    (i = saturate_int d \<and>
     (case print_number N d of
        None \<Rightarrow> False
      | Some t \<Rightarrow> t \<noteq> [] \<and> (hd t = CHR ''-'' \<or> 48 \<le> char_code (hd t) \<and> char_code (hd t) \<le> 57)
          \<and> (\<forall>c\<in>set t. is_number_char c) \<and> strtod N t = (d, length t)))"

text \<open>Values at depth \<open>p\<close> that the text can carry: C strings, numbers of the C library, not nested too deep.\<close>

fun parseable :: "c_numbers \<Rightarrow> nat \<Rightarrow> json \<Rightarrow> bool"
  and parseable_elements :: "c_numbers \<Rightarrow> nat \<Rightarrow> json list \<Rightarrow> bool"
  and parseable_members :: "c_numbers \<Rightarrow> nat \<Rightarrow> (string \<times> json) list \<Rightarrow> bool" where
  "parseable N p (JNumber i d) = number_ok N i d"
| "parseable N p (JString s) = nul_free s"
| "parseable N p (JArray xs) = (p < CJSON_NESTING_LIMIT \<and> parseable_elements N (p + 1) xs)"
| "parseable N p (JObject kvs) = (p < CJSON_NESTING_LIMIT \<and> parseable_members N (p + 1) kvs)"
| "parseable N p JNull = True"
| "parseable N p JFalse = True"
| "parseable N p JTrue = True"
| "parseable_elements N p [] = True"
| "parseable_elements N p (x # xs) = (parseable N p x \<and> parseable_elements N p xs)"
| "parseable_members N p [] = True"
| "parseable_members N p ((k, x) # kvs) = (nul_free k \<and> parseable N p x \<and> parseable_members N p kvs)"

definition ends_number :: "string \<Rightarrow> bool" where
  "ends_number rest \<longleftrightarrow> (\<forall>c\<in>set (take 1 rest). \<not> is_number_char c)"

lemma skip_nonblank [simp]: "\<not> is_blank c \<Longrightarrow> buffer_skip_whitespace (c # r) = c # r"
  by (simp add: buffer_skip_whitespace_def)

lemma skip_blanks: "\<forall>c\<in>set w. is_blank c \<Longrightarrow> \<not> is_blank c \<Longrightarrow> buffer_skip_whitespace (w @ c # r) = c # r"
  by (induction w) (auto simp: buffer_skip_whitespace_def Let_def)

lemma skip_idem [simp]: "buffer_skip_whitespace (buffer_skip_whitespace r) = buffer_skip_whitespace r"
proof (cases "dropWhile is_blank r")
  case Nil
  then have "\<forall>c\<in>set r. is_blank c" by (simp add: dropWhile_eq_Nil_conv)
  then have "r \<noteq> [] \<Longrightarrow> is_blank (last r)" by simp
  with Nil show ?thesis by (simp add: buffer_skip_whitespace_def)
next
  case (Cons c cs)
  then have "\<not> is_blank c" by (metis hd_dropWhile list.distinct(1) list.sel(1))
  with Cons show ?thesis by (simp add: buffer_skip_whitespace_def)
qed

lemma elements_skip: "parse_elements pv fuel acc (buffer_skip_whitespace r) = parse_elements pv fuel acc r"
  by (cases fuel) simp_all

lemma members_skip: "parse_members pv fuel acc (buffer_skip_whitespace r) = parse_members pv fuel acc r"
  by (cases fuel) simp_all

text \<open>How a printed value starts.\<close>

definition starts_value :: "string \<Rightarrow> bool" where
  "starts_value t \<longleftrightarrow> t \<noteq> [] \<and> 32 < char_code (hd t) \<and> char_code (hd t) < 128 \<and> hd t \<noteq> CHR '']'' \<and> hd t \<noteq> CHR ''}''"

lemma starts_valueD:
  assumes "starts_value t"
  obtains c w where "t = c # w" "\<not> is_blank c" "c \<noteq> CHR '']''" "c \<noteq> CHR ''}''"
  using assms by (cases t) (auto simp: starts_value_def is_blank_def)

lemma number_starts: "c = CHR ''-'' \<or> 48 \<le> char_code c \<and> char_code c \<le> 57 \<Longrightarrow> starts_value (c # w)"
  by (auto simp: starts_value_def)

lemma print_starts: "print_value N fmt depth j = Some t \<Longrightarrow> parseable N p j \<Longrightarrow> starts_value t"
proof (cases j)
  case (JNumber i d)
  assume "print_value N fmt depth j = Some t" "parseable N p j"
  then show ?thesis using JNumber number_starts [of "hd t" "tl t"]
    by (auto simp: number_ok_def)
qed (auto simp: starts_value_def print_string_text DQUOTE_def)

lemma print_string_starts: "starts_value (print_string_ptr s)"
  by (simp add: starts_value_def print_string_text DQUOTE_def)


lemma print_number_length: "print_number N d = Some t \<Longrightarrow> length t \<le> 25"
  by (auto simp: print_number_def Let_def split: if_splits)

lemma take_number:
  assumes "\<forall>c\<in>set t. is_number_char c" "length t < 63" "ends_number rest"
  shows "takeWhile is_number_char (take 63 (t @ rest)) = t"
proof -
  have "takeWhile is_number_char (take (63 - length t) rest) = []"
    using assms(2,3) by (cases rest; cases "63 - length t") (auto simp: ends_number_def)
  then show ?thesis using assms(1,2) by (simp add: takeWhile_append)
qed

lemma number_round_trip:
  assumes "number_ok N i d" "print_number N d = Some t" "ends_number rest"
  shows "parse_number N (t @ rest) = Done (JNumber i d) rest"
proof -
  have "t \<noteq> []" "\<forall>c\<in>set t. is_number_char c" "strtod N t = (d, length t)" "i = saturate_int d"
    using assms(1,2) by (simp_all add: number_ok_def)
  moreover have "takeWhile is_number_char (take 63 (t @ rest)) = t"
    using calculation print_number_length [OF assms(2)] assms(3) by (intro take_number) auto
  ultimately show ?thesis by (simp add: parse_number_def json_number_def)
qed

lemma starts_Cons [simp]: "starts (c # w) (d # r) \<longleftrightarrow> c = d \<and> starts w r"
  by (auto simp: starts_def)

lemma starts_Nil [simp]: "starts [] r"
  by (simp add: starts_def)

lemma next_is_Cons [simp]: "next_is c (d # r) \<longleftrightarrow> c = d"
  by (auto simp: next_is_def)

lemma parse_value_number:
  assumes "t \<noteq> []" "hd t = CHR ''-'' \<or> 48 \<le> char_code (hd t) \<and> char_code (hd t) \<le> 57"
  shows "parse_value N (Suc fuel) p (t @ rest) = parse_number N (t @ rest)"
  using assms by (cases t) (auto simp: DQUOTE_def)

lemma parse_value_array: "parse_value N (Suc fuel) p (CHR ''['' # r) = parse_array (parse_value N fuel (p + 1)) fuel p (CHR ''['' # r)"
  by (simp add: DQUOTE_def)

lemma parse_value_object: "parse_value N (Suc fuel) p (CHR ''{'' # r) = parse_object (parse_value N fuel (p + 1)) fuel p (CHR ''{'' # r)"
  by (simp add: DQUOTE_def)

lemma parse_value_string:
  assumes "nul_free s"
  shows "parse_value N (Suc fuel) p (print_string_ptr s @ rest) = Done (JString s) rest"
  using parse_printed_string [of s rest] assms by (simp add: nul_free_def print_string_text DQUOTE_def)

lemma parse_array_filled:
  assumes "p < CJSON_NESTING_LIMIT" "starts_value t"
  shows "parse_array pv fuel p (CHR ''['' # t @ r) = parse_elements pv fuel [] (t @ r)"
  using assms by (elim starts_valueD) (simp add: parse_array_def)

lemma parse_object_filled:
  assumes "p < CJSON_NESTING_LIMIT" "\<forall>c\<in>set w. is_blank c" "starts_value t"
  shows "parse_object pv fuel p (CHR ''{'' # w @ t @ r) = parse_members pv fuel [] (w @ t @ r)"
proof -
  obtain c t' where "t = c # t'" "\<not> is_blank c" "c \<noteq> CHR ''}''" using assms(3) by (rule starts_valueD)
  with assms skip_blanks [of w c "t' @ r"] members_skip [of pv fuel "[]" "w @ t @ r"] show ?thesis
    by (simp add: parse_object_def)
qed

lemma punctuation [simp]: "\<not> is_blank (CHR '','')" "\<not> is_blank (CHR '']'')" "\<not> is_blank (CHR ''}'')" "\<not> is_blank (CHR '':'')"
  "\<not> is_number_char (CHR '','')" "\<not> is_number_char (CHR '']'')" "\<not> is_number_char (CHR ''}'')"
  "is_blank (CHR '' '')" "is_blank (CHR 0x09)" "is_blank (CHR 0x0A)" "\<not> is_number_char (CHR 0x0A)" "\<not> is_number_char (CHR 0x09)"
  by (simp_all add: is_blank_def is_number_char_def)

lemma parse_elements_more:
  assumes "pv (t @ CHR '','' # r) = Done x (CHR '','' # r)" "starts_value t" "\<forall>c\<in>set w. is_blank c"
  shows "parse_elements pv (Suc fuel) acc (w @ t @ CHR '','' # r) = parse_elements pv fuel (acc @ [x]) r"
proof -
  obtain c t' where "t = c # t'" "\<not> is_blank c" using assms(2) by (rule starts_valueD)
  with assms skip_blanks [of w c "t' @ CHR '','' # r"] show ?thesis by simp
qed

lemma parse_elements_end:
  assumes "pv (t @ CHR '']'' # r) = Done x (CHR '']'' # r)" "starts_value t" "\<forall>c\<in>set w. is_blank c"
  shows "parse_elements pv (Suc fuel) acc (w @ t @ CHR '']'' # r) = Done (JArray (acc @ [x])) r"
proof -
  obtain c t' where "t = c # t'" "\<not> is_blank c" using assms(2) by (rule starts_valueD)
  with assms skip_blanks [of w c "t' @ CHR '']'' # r"] show ?thesis by simp
qed


lemma parse_members_key:
  assumes "nul_free k" "\<forall>c\<in>set w. is_blank c" "\<forall>c\<in>set v. is_blank c" "starts_value t"
  shows "parse_members pv (Suc fuel) acc (w @ print_string_ptr k @ CHR '':'' # v @ t @ r) =
    (case pv (t @ r) of
       Refused \<Rightarrow> Refused
     | Starved \<Rightarrow> Starved
     | Done x rest \<Rightarrow>
        let rest = buffer_skip_whitespace rest
        in if next_is (CHR '','') rest then parse_members pv fuel (acc @ [(k, x)]) (tl rest)
           else if next_is (CHR ''}'') rest then Done (JObject (acc @ [(k, x)])) (tl rest)
           else Refused)"
proof -
  let ?q = "CHR '':'' # v @ t @ r"
  have "buffer_skip_whitespace (w @ print_string_ptr k @ ?q) = print_string_ptr k @ ?q"
    using skip_blanks [OF assms(2), of DQUOTE] by (simp add: print_string_text is_blank_def DQUOTE_def)
  moreover have "parse_string (print_string_ptr k @ ?q) = Done k ?q"
    using parse_printed_string [of k] assms(1) by (simp add: nul_free_def)
  moreover have "buffer_skip_whitespace (v @ t @ r) = t @ r"
    using skip_blanks [OF assms(3)] assms(4) by (elim starts_valueD) simp
  ultimately show ?thesis by simp
qed

definition ends_value :: "json \<Rightarrow> string \<Rightarrow> bool" where
  "ends_value j rest \<longleftrightarrow> (case j of JNumber i d \<Rightarrow> ends_number rest | _ \<Rightarrow> True)"

lemma ends_number_Cons: "ends_number (c # r) \<longleftrightarrow> \<not> is_number_char c"
  by (simp add: ends_number_def)

lemma ends_value_Cons: "\<not> is_number_char c \<Longrightarrow> ends_value j (c # r)"
  by (simp add: ends_value_def ends_number_Cons split: json.split)

lemma ends_value_number: "ends_value (JNumber i d) rest \<longleftrightarrow> ends_number rest"
  by (simp add: ends_value_def)

lemma parse_members_more:
  assumes "nul_free k" "\<forall>c\<in>set w. is_blank c" "\<forall>c\<in>set v. is_blank c" "starts_value t"
    and "pv (t @ CHR '','' # r) = Done x (CHR '','' # r)"
  shows "parse_members pv (Suc fuel) acc (w @ print_string_ptr k @ CHR '':'' # v @ t @ CHR '','' # r) =
    parse_members pv fuel (acc @ [(k, x)]) r"
  using parse_members_key [OF assms(1-4), of pv fuel acc "CHR '','' # r"] assms(5) by simp

lemma parse_members_end:
  assumes "nul_free k" "\<forall>c\<in>set w. is_blank c" "\<forall>c\<in>set v. is_blank c" "starts_value t" "\<forall>c\<in>set u. is_blank c"
    and "pv (t @ u @ CHR ''}'' # r) = Done x (u @ CHR ''}'' # r)"
  shows "parse_members pv (Suc fuel) acc (w @ print_string_ptr k @ CHR '':'' # v @ t @ u @ CHR ''}'' # r) =
    Done (JObject (acc @ [(k, x)])) r"
  using parse_members_key [OF assms(1-4), of pv fuel acc "u @ CHR ''}'' # r"] assms(6) skip_blanks [OF assms(5), of "CHR ''}''" r]
  by simp

lemma print_members_start:
  assumes "print_members N fmt depth (kx # kvs) = Some e"
  obtains w k r where "e = w @ print_string_ptr k @ r" "\<forall>c\<in>set w. is_blank c"
proof -
  obtain r where "e = (if fmt then replicate depth (CHR 0x09) else []) @ print_string_ptr (fst kx) @ r"
    using assms by (cases kx) (auto split: option.splits)
  with that show thesis by (auto split: if_splits)
qed

lemma words_round_trip:
  "n < fuel \<Longrightarrow> parse_value N fuel p (CHR ''n'' # CHR ''u'' # CHR ''l'' # CHR ''l'' # rest) = Done JNull rest"
  "n < fuel \<Longrightarrow> parse_value N fuel p (CHR ''f'' # CHR ''a'' # CHR ''l'' # CHR ''s'' # CHR ''e'' # rest) = Done JFalse rest"
  "n < fuel \<Longrightarrow> parse_value N fuel p (CHR ''t'' # CHR ''r'' # CHR ''u'' # CHR ''e'' # rest) = Done JTrue rest"
  by (cases fuel; simp)+

lemma value_round_trip:
  shows "print_value N fmt depth j = Some t \<Longrightarrow> parseable N p j \<Longrightarrow> length (t @ rest) < fuel \<Longrightarrow> ends_value j rest \<Longrightarrow>
      parse_value N fuel p (t @ rest) = Done j rest"
    and "print_elements N fmt depth xs = Some t \<Longrightarrow> parseable_elements N p xs \<Longrightarrow> xs \<noteq> [] \<Longrightarrow> \<forall>c\<in>set w. is_blank c \<Longrightarrow>
      length (t @ CHR '']'' # rest) < pvfuel \<Longrightarrow> length t < fuel \<Longrightarrow>
      parse_elements (parse_value N pvfuel p) fuel acc (w @ t @ CHR '']'' # rest) = Done (JArray (acc @ xs)) rest"
    and "print_members N fmt depth kvs = Some t \<Longrightarrow> parseable_members N p kvs \<Longrightarrow> kvs \<noteq> [] \<Longrightarrow> \<forall>c\<in>set w. is_blank c \<Longrightarrow>
      \<forall>c\<in>set u. is_blank c \<and> \<not> is_number_char c \<Longrightarrow> length (t @ u @ CHR ''}'' # rest) < pvfuel \<Longrightarrow> length t < fuel \<Longrightarrow>
      parse_members (parse_value N pvfuel p) fuel acc' (w @ t @ u @ CHR ''}'' # rest) = Done (JObject (acc' @ kvs)) rest"
proof (induction N fmt depth j and N fmt depth xs and N fmt depth kvs
    arbitrary: t p rest fuel and t p rest fuel pvfuel acc w and t p rest fuel pvfuel acc' w u
    rule: print_value_print_elements_print_members.induct)
  case (4 N fmt depth i d)
  then obtain f where f: "fuel = Suc f" by (cases fuel) auto
  from 4 have t: "print_number N d = Some t" "number_ok N i d" by simp_all
  then have "t \<noteq> []" "hd t = CHR ''-'' \<or> 48 \<le> char_code (hd t) \<and> char_code (hd t) \<le> 57" by (simp_all add: number_ok_def)
  with number_round_trip [OF t(2,1) 4(4) [unfolded ends_value_number]] f show ?case by (simp add: parse_value_number del: parse_value.simps)
next
  case (5 N fmt depth s)
  then obtain f where f: "fuel = Suc f" by (cases fuel) auto
  from 5 have "t = print_string_ptr s" "nul_free s" by simp_all
  with parse_value_string f show ?case by (simp del: parse_value.simps)
next
  case (6 N fmt depth xs)
  then obtain f where f: "fuel = Suc f" by (cases fuel) auto
  from 6 obtain e where e: "print_elements N fmt (depth + 1) xs = Some e" "t = CHR ''['' # e @ '']''" by auto
  show ?case
  proof (cases xs)
    case Nil
    with e 6 f show ?thesis by (simp add: parse_value_array parse_array_def del: parse_value.simps)
  next
    case (Cons x ys)
    then have "starts_value (e @ r)" for r
      using e(1) 6(3) print_starts [of N fmt "depth + 1" x] by (auto simp: starts_value_def split: option.splits)
    moreover have "parse_elements (parse_value N f (p + 1)) f [] ([] @ e @ CHR '']'' # rest) = Done (JArray ([] @ xs)) rest"
      by (rule 6(1)) (use 6 e f Cons in auto)
    ultimately show ?thesis using 6(3) e(2) f parse_array_filled [of p "e @ CHR '']'' # rest" _ _ "[]"]
      by (simp add: parse_value_array del: parse_value.simps)
  qed
next
  case (7 N fmt depth kvs)
  then obtain f where f: "fuel = Suc f" by (cases fuel) auto
  let ?w = "if fmt then [CHR 0x0A] else []" and ?u = "if fmt then replicate depth (CHR 0x09) else []"
  from 7 obtain e where e: "print_members N fmt (depth + 1) kvs = Some e" "t = CHR ''{'' # ?w @ e @ ?u @ ''}''" by auto
  have w: "\<forall>c\<in>set ?w. is_blank c" and u: "\<forall>c\<in>set ?u. is_blank c \<and> \<not> is_number_char c" by auto
  show ?case
  proof (cases kvs)
    case Nil
    have "\<forall>c\<in>set (?w @ ?u). is_blank c" using w u by auto
    with Nil e 7 f skip_blanks [of "?w @ ?u" "CHR ''}''" rest] show ?thesis
      by (simp add: parse_value_object parse_object_def del: parse_value.simps split del: if_split)
  next
    case (Cons kx ys)
    with e(1) obtain w k r where w: "e = w @ print_string_ptr k @ r" "\<forall>c\<in>set w. is_blank c"
      by (auto elim: print_members_start)
    then have "\<forall>c\<in>set (?w @ w). is_blank c" by auto
    from parse_object_filled [where w = "?w @ w", OF _ this print_string_starts]
    have "parse_object (parse_value N f (p + 1)) f p (t @ rest) = parse_members (parse_value N f (p + 1)) f [] (?w @ e @ ?u @ CHR ''}'' # rest)"
      using 7(3) e(2) w(1) by simp
    also have "\<dots> = Done (JObject ([] @ kvs)) rest"
      by (rule 7(1)) (use 7 e f Cons u in auto)
    finally show ?thesis using e(2) f by (simp add: parse_value_object del: parse_value.simps)
  qed
next
  case (9 N fmt depth x xs)
  then obtain f where f: "fuel = Suc f" by (cases fuel) auto
  from 9 obtain a b where a: "print_value N fmt depth x = Some a" and b: "print_elements N fmt depth xs = Some b"
    and t: "t = a @ (if xs = [] then [] else if fmt then '', '' else '','') @ b" by (auto split: option.splits)
  have s: "starts_value a" by (rule print_starts [OF a, of p]) (use 9(4) in simp)
  show ?case
  proof (cases "xs = []")
    case True
    with b t have t: "t = a" by simp
    have "parse_value N pvfuel p (a @ CHR '']'' # rest) = Done x (CHR '']'' # rest)"
      by (rule 9(1) [OF a]) (use 9 t in \<open>auto intro: ends_value_Cons\<close>)
    with parse_elements_end [where t = a and x = x and pv = "parse_value N pvfuel p"] s 9(6) f t True show ?thesis by simp
  next
    case False
    let ?g = "if fmt then '' '' else []"
    have t: "t = a @ CHR '','' # ?g @ b" using t False by simp
    let ?r = "?g @ b @ CHR '']'' # rest"
    have "parse_value N pvfuel p (a @ CHR '','' # ?r) = Done x (CHR '','' # ?r)"
      by (rule 9(1) [OF a]) (use 9 t in \<open>auto intro: ends_value_Cons\<close>)
    from parse_elements_more [where r = ?r and t = a and x = x and pv = "parse_value N pvfuel p", OF this s 9(6)] have "parse_elements (parse_value N pvfuel p) fuel acc (w @ t @ CHR '']'' # rest) =
        parse_elements (parse_value N pvfuel p) f (acc @ [x]) ?r" using t f by simp
    also have "\<dots> = Done (JArray ((acc @ [x]) @ xs)) rest" by (rule 9(2) [OF a b _ False]) (use 9 t f in auto)
    finally show ?thesis by simp
  qed
next
  case (11 N fmt depth k x kvs)
  then obtain f where f: "fuel = Suc f" by (cases fuel) auto
  let ?tabs = "if fmt then replicate depth (CHR 0x09) else []" and ?v = "if fmt then [CHR 0x09] else []"
    and ?n = "if fmt then [CHR 0x0A] else []"
  from 11 obtain a b where a: "print_value N fmt depth x = Some a" and b: "print_members N fmt depth kvs = Some b"
    and t: "t = ?tabs @ print_string_ptr k @ CHR '':'' # ?v @ a @ (if kvs = [] then [] else '','') @ ?n @ b"
    by (auto split: option.splits)
  have s: "starts_value a" by (rule print_starts [OF a, of p]) (use 11(4) in simp)
  have blanks: "\<forall>c\<in>set (w @ ?tabs). is_blank c" "\<forall>c\<in>set ?v. is_blank c" "\<forall>c\<in>set (?n @ u). is_blank c"
    using 11(6,7) by auto
  have ends: "ends_value x (?n @ u @ CHR ''}'' # rest)" using 11(7) by (cases u) (auto intro: ends_value_Cons)
  show ?case
  proof (cases "kvs = []")
    case True
    with b t have t: "t = ?tabs @ print_string_ptr k @ CHR '':'' # ?v @ a @ ?n" by simp
    have "parse_value N pvfuel p (a @ ?n @ u @ CHR ''}'' # rest) = Done x (?n @ u @ CHR ''}'' # rest)"
      by (rule 11(1) [OF a _ _ ends]) (use 11(4,8) t in auto)
    with parse_members_end [where t = a and x = x and pv = "parse_value N pvfuel p" and w = "w @ ?tabs" and v = ?v and u = "?n @ u", OF _ blanks(1,2) s blanks(3)] 11(4) f t True show ?thesis by simp
  next
    case False
    let ?r = "?n @ b @ u @ CHR ''}'' # rest"
    have t: "t = ?tabs @ print_string_ptr k @ CHR '':'' # ?v @ a @ CHR '','' # ?n @ b" using t False by simp
    have "parse_value N pvfuel p (a @ CHR '','' # ?r) = Done x (CHR '','' # ?r)"
      by (rule 11(1) [OF a]) (use 11 t in \<open>auto intro: ends_value_Cons\<close>)
    with parse_members_more [where t = a and x = x and pv = "parse_value N pvfuel p" and w = "w @ ?tabs" and v = ?v and r = ?r, OF _ blanks(1,2) s] 11(4) f t
    have "parse_members (parse_value N pvfuel p) fuel acc' (w @ t @ u @ CHR ''}'' # rest) =
        parse_members (parse_value N pvfuel p) f (acc' @ [(k, x)]) ?r" by simp
    also have "\<dots> = Done (JObject ((acc' @ [(k, x)]) @ kvs)) rest" by (rule 11(2) [OF a b _ False]) (use 11 t f in auto)
    finally show ?thesis by simp
  qed
qed (auto intro: words_round_trip)

lemma print_total:
  shows "parseable N p j \<Longrightarrow> \<exists>t. print_value N fmt depth j = Some t"
    and "parseable_elements N p xs \<Longrightarrow> \<exists>t. print_elements N fmt depth xs = Some t"
    and "parseable_members N p kvs \<Longrightarrow> \<exists>t. print_members N fmt depth kvs = Some t"
proof (induction N p j and N p xs and N p kvs arbitrary: depth and depth and depth
      rule: parseable_parseable_elements_parseable_members.induct)
  case (3 N p xs)
  then obtain t where "print_elements N fmt (depth + 1) xs = Some t" by fastforce
  then show ?case by simp
next
  case (4 N p kvs)
  then obtain t where "print_members N fmt (depth + 1) kvs = Some t" by fastforce
  then show ?case by simp
next
  case (9 N p x xs)
  then obtain s t where "print_value N fmt depth x = Some s" "print_elements N fmt depth xs = Some t" by fastforce
  then show ?case by simp
next
  case (11 N p k x kvs)
  then obtain s t where "print_value N fmt depth x = Some s" "print_members N fmt depth kvs = Some t" by fastforce
  then show ?case by simp
qed (simp_all add: number_ok_def split: option.splits)

lemma escape_nul_free: "char_code c \<noteq> 0 \<Longrightarrow> nul_free (escape_char c)"
proof (cases "char_code c < 32 \<and> char_code c \<notin> {8, 9, 10, 12, 13}")
  case True
  have "char_code (hex_char n) \<noteq> 0" if "n < 16" for n using that by (simp add: hex_char_def)
  with True show ?thesis by (auto simp: nul_free_def escape_char_def BACKSLASH_def DQUOTE_def)
qed (auto simp: nul_free_def escape_char_def BACKSLASH_def DQUOTE_def)

lemma print_string_nul_free: "nul_free s \<Longrightarrow> nul_free (print_string_ptr s)"
proof (induction s)
  case (Cons c s)
  then show ?case using escape_nul_free [of c] by (auto simp: nul_free_def print_string_text)
qed (simp add: nul_free_def print_string_text DQUOTE_def)

lemma nul_free_append [simp]: "nul_free (s @ t) \<longleftrightarrow> nul_free s \<and> nul_free t"
  by (auto simp: nul_free_def)

lemma nul_free_Cons [simp]: "nul_free (c # t) \<longleftrightarrow> char_code c \<noteq> 0 \<and> nul_free t"
  by (auto simp: nul_free_def)

lemma nul_free_simple [simp]: "nul_free []" "nul_free (replicate n (CHR 0x09))"
  by (simp_all add: nul_free_def)

lemma number_nul_free: "\<forall>c\<in>set t. is_number_char c \<Longrightarrow> nul_free t"
proof -
  have "char_code c \<noteq> 0" if "is_number_char c" for c
    using that unfolding is_number_char_def list.set insert_iff empty_iff by (elim disjE) simp_all
  then show "\<forall>c\<in>set t. is_number_char c \<Longrightarrow> nul_free t" by (simp add: nul_free_def)
qed

lemma print_nul_free:
  shows "parseable N p j \<Longrightarrow> print_value N fmt depth j = Some t \<Longrightarrow> nul_free t"
    and "parseable_elements N p xs \<Longrightarrow> print_elements N fmt depth xs = Some t \<Longrightarrow> nul_free t"
    and "parseable_members N p kvs \<Longrightarrow> print_members N fmt depth kvs = Some t \<Longrightarrow> nul_free t"
proof (induction N p j and N p xs and N p kvs arbitrary: depth t and depth t and depth t
      rule: parseable_parseable_elements_parseable_members.induct)
  case (1 N p i d)
  then show ?case by (simp add: number_ok_def number_nul_free)
next
  case (9 N p x xs)
  from 9(4) obtain a b where "print_value N fmt depth x = Some a" "print_elements N fmt depth xs = Some b"
    "t = a @ (if xs = [] then [] else if fmt then '', '' else '','') @ b" by (auto split: option.splits)
  with 9 show ?case by simp
next
  case (11 N p k x kvs)
  from 11(4) obtain a b where "print_value N fmt depth x = Some a" "print_members N fmt depth kvs = Some b"
    "t = (if fmt then replicate depth (CHR 0x09) else []) @ print_string_ptr k @ CHR '':'' # (if fmt then [CHR 0x09] else [])
      @ a @ (if kvs = [] then [] else '','') @ (if fmt then [CHR 0x0A] else []) @ b" by (auto split: option.splits)
  with 11 show ?case by (simp add: print_string_nul_free)
next
  case (3 N p xs)
  from 3(3) obtain e where "print_elements N fmt (depth + 1) xs = Some e" "t = ''['' @ e @ '']''" by auto
  with 3 show ?case by simp
next
  case (4 N p kvs)
  from 4(3) obtain e where "print_members N fmt (depth + 1) kvs = Some e"
    "t = ''{'' @ (if fmt then [CHR 0x0A] else []) @ e @ (if fmt then replicate depth (CHR 0x09) else []) @ ''}''" by auto
  with 4 show ?case by simp
qed (auto dest!: print_string_nul_free)

lemma printed_then_parsed:
  assumes "parseable N 0 j" "print_value N fmt 0 j = Some t" "ends_value j (c_string behind @ [char_of (0 :: nat)])"
    and "require_end \<longrightarrow> behind = []"
  shows "cJSON_ParseWithOpts N (t @ behind) require_end = Some (j, length t)"
proof -
  let ?z = "char_of (0 :: nat) :: char" and ?b = "c_string behind"
  have start: "starts_value t" by (rule print_starts [OF assms(2,1)])
  then obtain c w where c: "t = c # w" "\<not> is_blank c" by (rule starts_valueD)
  have "c_string (t @ behind) = t @ ?b"
    using print_nul_free(1) [OF assms(1,2)] by (simp add: c_string_def nul_free_def takeWhile_append)
  moreover have "skip_utf8_bom (t @ ?b @ [?z]) = t @ ?b @ [?z]" using start c by (auto simp: skip_utf8_bom_def starts_value_def)
  moreover have "buffer_skip_whitespace (t @ ?b @ [?z]) = t @ ?b @ [?z]" using c by simp
  moreover have "parse_value N (fuel_for (t @ ?b @ [?z])) 0 (t @ ?b @ [?z]) = Done j (?b @ [?z])"
    by (rule value_round_trip(1) [OF assms(2,1) _ assms(3)]) (simp add: fuel_for_def)
  moreover have "buffer_skip_whitespace [?z] = [?z]" by (simp add: buffer_skip_whitespace_def)
  ultimately show ?thesis using assms(4) by (auto simp: cJSON_ParseWithOpts_def cJSON_ParseWithLengthOpts_def c_string_def)
qed


subsection \<open>Whole numbers\<close>

text \<open>The C library's conversions on the natural numbers.\<close>

fun decimal :: "nat \<Rightarrow> string" where
  "decimal n = (if n < 10 then [hex_char n] else decimal (n div 10) @ [hex_char (n mod 10)])"

definition read_decimal :: "string \<Rightarrow> double \<times> nat" where
  "read_decimal s =
    (let t = takeWhile (\<lambda>c. 48 \<le> char_code c \<and> char_code c \<le> 57) s
     in (Finite (of_nat (foldl (\<lambda>n c. n * 10 + (char_code c - 48)) 0 t)), length t))"

definition whole_numbers :: c_numbers where
  "whole_numbers = \<lparr>sprintf_15g = \<lambda>q. decimal (nat \<lfloor>q\<rfloor>), sprintf_17g = \<lambda>q. decimal (nat \<lfloor>q\<rfloor>), strtod = read_decimal\<rparr>"

definition sample :: json where
  "sample = JObject [(''id'', JNumber 42 (Finite 42)),
     (''value'', JArray [JTrue, JString (DQUOTE # BACKSLASH # CHR 0x0A # ''x''), JObject []])]"

lemma decimal_42: "decimal 42 = ''42''"
  by (simp add: hex_char_def char_of_eq_iff)

lemma read_42: "read_decimal ''42'' = (Finite 42, 2)"
  by (simp add: read_decimal_def)

lemma sample_parseable: "parseable whole_numbers 0 sample"
proof -
  have "print_number whole_numbers (Finite 42) = Some ''42''"
    by (simp add: print_number_def whole_numbers_def decimal_42 read_42 compare_double_def del: decimal.simps)
  then have "number_ok whole_numbers 42 (Finite 42)"
    by (simp add: number_ok_def is_number_char_def saturate_int_def whole_numbers_def read_42)
  then show ?thesis by (simp add: sample_def CJSON_NESTING_LIMIT_def nul_free_def DQUOTE_def BACKSLASH_def)
qed


text \<open>The double next to one is printed as one: fifteen digits are kept although they do not bring it back.\<close>

lemma neighbour_of_one_is_printed_as_one:
  assumes "sprintf_15g N (1 + 1 / 2 ^ 52) = ''1''" "strtod N ''1'' = (Finite 1, 1)"
  shows "print_number N (Finite (1 + 1 / 2 ^ 52)) = Some ''1''"
  using assms by (simp add: print_number_def compare_double_def)

text \<open>A literal whose digits are none is taken for a zero, which ends the string.\<close>

lemma invalid_literal_ends_string:
  shows "parse_string [DQUOTE, CHR ''a'', BACKSLASH, CHR ''u'', CHR ''z'', CHR ''z'', CHR ''z'', CHR ''z'', CHR ''b'', DQUOTE] = Done ''a'' []"
  by (simp add: parse_string_def DQUOTE_def BACKSLASH_def utf16_literal_to_utf8_def parse_hex4_def hex_value_def utf8_of_def c_string_def)

text \<open>The parser does not know where a message ends: what lies behind it in the read buffer may complete it.\<close>

lemma message_completed_by_what_follows:
  shows "message_parser whole_numbers [125] [123] = Some (JObject [], 2) \<and> message_parser whole_numbers [] [123] = None"
  by code_simp

end
