(* ===== verification/Json_Peer.thy ===== *)
theory Json_Peer
  imports Json_Text Socket_Peer
begin

text \<open>
  The JSON text printer and parser under the broker's socket peers: what one side prints and frames is what
  the other side's \<^verbatim>\<open>parse_message\<close> is given.
\<close>

definition message_bytes :: "string \<Rightarrow> 8 word list" where
  "message_bytes = map (\<lambda>c. word_of_nat (char_code c))"

lemma message_parser_text:
  "message_parser N behind (message_bytes t) =
   cJSON_ParseWithOpts N (t @ map (\<lambda>b. char_of (unat b)) behind) False"
proof -
  have "char_of (unat (word_of_nat (char_code c) :: 8 word)) = c" for c
    by (simp add: unat_of_nat take_bit_eq_mod)
  then have "map (\<lambda>b. char_of (unat b)) (message_bytes t) = t" by (simp add: message_bytes_def comp_def)
  then show ?thesis by (simp add: message_parser_def)
qed

lemma length_message_bytes [simp]: "length (message_bytes t) = length t"
  by (simp add: message_bytes_def)

lemma message_bytes_Nil [simp]: "message_bytes t = [] \<longleftrightarrow> t = []"
  by (simp add: message_bytes_def)

lemma printed_message_is_parsed:
  assumes "parseable N 0 j" "print_value N fmt 0 j = Some t" "is_array j \<or> is_object j"
  shows "message_parser N behind (message_bytes t) = Some (j, length (message_bytes t))"
proof -
  have "ends_value j rest" for rest using assms(3) by (cases j) (auto simp: ends_value_def is_array_def is_object_def)
  from printed_then_parsed [OF assms(1,2) this] show ?thesis by (simp add: message_parser_text)
qed

text \<open>A parser of messages whose read buffer holds anything behind them.\<close>

definition parses_with :: "c_numbers \<Rightarrow> (8 word list \<Rightarrow> (json \<times> nat) option) \<Rightarrow> bool" where
  "parses_with N parser \<longleftrightarrow> (\<forall>msg. \<exists>behind. parser msg = message_parser N behind msg)"

text \<open>The broker's handling of JSON values, without texts, lengths and buffers.\<close>

fun handle_values :: "externals \<Rightarrow> peer_ref \<Rightarrow> json list \<Rightarrow> world \<Rightarrow> bool \<times> world" where
  "handle_values ex p [] w = (True, w)"
| "handle_values ex p (j # js) w =
    (case run_state (if is_array j then parse_json_array ex j p else parse_json_rpc ex j p) w of
       (ok, w) \<Rightarrow> if ok then handle_values ex p js w else (False, broker_free p w))"

definition printed :: "c_numbers \<Rightarrow> json list \<Rightarrow> string list \<Rightarrow> bool" where
  "printed N js ts \<longleftrightarrow> list_all2 (\<lambda>j t. (is_array j \<or> is_object j) \<and> parseable N 0 j \<and> (\<exists>fmt. print_value N fmt 0 j = Some t)) js ts"

lemma broker_handle_printed:
  assumes "parses_with N parser" "parseable N 0 j" "print_value N fmt 0 j = Some t" "is_array j \<or> is_object j"
  shows "broker_handle ex parser p (message_bytes t) w =
    run_state (if is_array j then parse_json_array ex j p else parse_json_rpc ex j p) w"
proof -
  have "parser (message_bytes t) = Some (j, length (message_bytes t))"
    using assms(1) printed_message_is_parsed [OF assms(2-4)] unfolding parses_with_def by metis
  then show ?thesis using assms(4)
    by (cases j) (simp_all add: broker_handle_def parse_message_def is_array_def is_object_def gets_def)
qed

lemma handle_all_printed:
  assumes "parses_with N parser" "printed N js ts"
  shows "handle_all (broker_handle ex parser p) (broker_free p) (map message_bytes ts) w = handle_values ex p js w"
  using assms(2)
proof (induction js ts arbitrary: w rule: list_induct2')
  case (4 j js t ts)
  then obtain fmt where j: "parseable N 0 j" "print_value N fmt 0 j = Some t" "is_array j \<or> is_object j" "printed N js ts"
    by (auto simp: printed_def)
  have "t \<noteq> []" using print_starts [OF j(2,1)] by (simp add: starts_value_def)
  then show ?case
    using broker_handle_printed [OF assms(1) j(1-3)] 4(1) [OF j(4)] by (simp split: prod.split)
qed (simp_all add: printed_def)



end
