(* ===== verification/Utf8_Checker.thy ===== *)
theory Utf8_Checker
  imports Prelude
begin

unbundle bit_operations_syntax

text \<open>
  The checker for UTF-8 text: \<^verbatim>\<open>src/src/utf8_checker.c\<close>.

  The checker is a state machine that is fed byte by byte and can stop anywhere; \<open>checker\<close> is its state,
  every function returns its verdict and the new state.  The functions for words read the machine's
  memory in little-endian order, as the code does on the platforms the daemon is built for, and skip
  a word that a mask shows to be valid.

  The lemmas show that the byte-wise functions accept exactly the sequences that are encodings of
  Unicode scalar values, in whatever fragments they arrive; that the word-wise functions accept all of
  them; and that they accept more, since one of the masks compares two fields at once.
\<close>

record checker =
  start_byte :: "8 word"
  c_length :: "8 word"
  next_byte :: "8 word"

definition UC_FINISH :: "8 word" where "UC_FINISH = 0xFF"

definition cjet_init_checker :: checker where
  "cjet_init_checker = \<lparr>start_byte = UC_FINISH, c_length = 1, next_byte = 1\<rparr>"

text \<open>The cases of the outer switch: verdict, whether the character is finished, and the state.\<close>

definition first_byte :: "checker \<Rightarrow> 8 word \<Rightarrow> bool \<times> bool \<times> checker" where
  "first_byte c byte =
    (let c = c\<lparr>start_byte := byte\<rparr>
     in if byte \<le> 0x7F then (True, True, c)
        else if byte \<le> 0xC1 then (False, False, c)
        else if byte \<le> 0xDF then (True, False, c\<lparr>c_length := 2\<rparr>)
        else if byte \<le> 0xEF then (True, False, c\<lparr>c_length := 3\<rparr>)
        else if byte \<le> 0xF4 then (True, False, c\<lparr>c_length := 4\<rparr>)
        else (False, False, c))"

definition second_byte :: "checker \<Rightarrow> 8 word \<Rightarrow> bool \<times> bool \<times> checker" where
  "second_byte c byte =
    (let ret = (byte AND 0xC0 = 0x80);
         ret = (if start_byte c = 0xE0 then if byte < 0xA0 \<or> 0xBF < byte then False else ret
                else if start_byte c = 0xED then if byte < 0x80 \<or> 0x9F < byte then False else ret
                else if start_byte c = 0xF0 then if byte < 0x90 \<or> 0xBF < byte then False else ret
                else if start_byte c = 0xF4 then if byte < 0x80 \<or> 0x8F < byte then False else ret
                else ret)
     in (ret, c_length c = 2, c))"

definition is_byte_valid :: "checker \<Rightarrow> 8 word \<Rightarrow> bool \<times> checker" where
  "is_byte_valid c byte =
    (let (ret, finished, c) =
       (if next_byte c = 1 then first_byte c byte
        else if next_byte c = 2 then second_byte c byte
        else if next_byte c = 3 then
          (if byte AND 0xC0 \<noteq> 0x80 then (False, True, c) else (True, c_length c = 3, c))
        else if next_byte c = 4 then (byte AND 0xC0 = 0x80, True, c)
        else (False, False, c))
     in if finished \<or> \<not> ret
        then (ret, c\<lparr>start_byte := UC_FINISH, c_length := 1, next_byte := 1\<rparr>)
        else (ret, c\<lparr>next_byte := next_byte c + 1\<rparr>))"

text \<open>The loops stop at the first invalid byte.\<close>

fun check_bytes :: "checker \<Rightarrow> 8 word list \<Rightarrow> bool \<times> checker" where
  "check_bytes c [] = (True, c)"
| "check_bytes c (b # bs) =
    (let (ret, c) = is_byte_valid c b in if \<not> ret then (False, c) else check_bytes c bs)"

definition cjet_is_text_valid :: "checker \<Rightarrow> 8 word list \<Rightarrow> bool \<Rightarrow> bool \<times> checker" where
  "cjet_is_text_valid c text is_complete =
    (let (ret, c) = check_bytes c text
     in if \<not> ret then (False, c)
        else if is_complete \<and> start_byte c \<noteq> UC_FINISH then (False, c) else (ret, c))"

definition complete_check :: "bool \<Rightarrow> bool \<times> checker \<Rightarrow> bool \<times> checker" where
  "complete_check is_complete r =
    (case r of (ret, c) \<Rightarrow>
       if \<not> ret then (False, c)
       else if is_complete \<and> start_byte c \<noteq> UC_FINISH then (False, cjet_init_checker) else (ret, c))"

definition cjet_is_byte_sequence_valid :: "checker \<Rightarrow> 8 word list \<Rightarrow> bool \<Rightarrow> bool \<times> checker" where
  "cjet_is_byte_sequence_valid c sequence is_complete = complete_check is_complete (check_bytes c sequence)"

subsection \<open>Words\<close>

definition bytes32 :: "32 word \<Rightarrow> 8 word list" where
  "bytes32 tmp = map (\<lambda>j. ucast (drop_bit (j * 8) tmp AND 0xFF)) [0, 1, 2, 3]"

definition bytes64 :: "64 word \<Rightarrow> 8 word list" where
  "bytes64 tmp = map (\<lambda>j. ucast (drop_bit (j * 8) tmp AND 0xFF)) [0, 1, 2, 3, 4, 5, 6, 7]"

definition fast32 :: "32 word \<Rightarrow> bool" where
  "fast32 tmp \<longleftrightarrow> tmp AND 0x80808080 = 0
     \<or> tmp AND 0x8080C0E0 = 0x80C0 \<and> tmp AND 0x1F > 0x01
     \<or> tmp AND 0x80C0E080 = 0x80C000 \<and> tmp AND 0x1F00 > 0x0100
     \<or> tmp AND 0xC0E08080 = 0x80C00000 \<and> tmp AND 0x1F0000 > 0x010000
     \<or> tmp AND 0xC0E0C0E0 = 0x80C080C0 \<and> tmp AND 0x1F001F > 0x010001"

definition fast64 :: "64 word \<Rightarrow> bool" where
  "fast64 tmp \<longleftrightarrow> tmp AND 0x8080808080808080 = 0
     \<or> tmp AND 0xC0E0C0E0C0E0C0E0 = 0x80C080C080C080C0 \<and> tmp AND 0x001F001F001F001F > 0x0001000100010001"

fun check_words :: "('a \<Rightarrow> bool) \<Rightarrow> ('a \<Rightarrow> 8 word list) \<Rightarrow> checker \<Rightarrow> 'a list \<Rightarrow> bool \<times> checker" where
  "check_words fast bytes c [] = (True, c)"
| "check_words fast bytes c (w # ws) =
    (if next_byte c = 1 \<and> fast w then check_words fast bytes c ws
     else let (ret, c) = check_bytes c (bytes w)
          in if \<not> ret then (False, c) else check_words fast bytes c ws)"

definition cjet_is_word_sequence_valid :: "checker \<Rightarrow> 32 word list \<Rightarrow> bool \<Rightarrow> bool \<times> checker" where
  "cjet_is_word_sequence_valid c sequence is_complete =
     complete_check is_complete (check_words fast32 bytes32 c sequence)"

definition cjet_is_word64_sequence_valid :: "checker \<Rightarrow> 64 word list \<Rightarrow> bool \<Rightarrow> bool \<times> checker" where
  "cjet_is_word64_sequence_valid c sequence is_complete =
     complete_check is_complete (check_words fast64 bytes64 c sequence)"

text \<open>The 64-bit word that lies at a byte sequence's start, in little-endian order.\<close>

fun load64 :: "8 word list \<Rightarrow> 64 word" where
  "load64 [] = 0"
| "load64 (b # bs) = ucast b OR push_bit 8 (load64 bs)"

fun words64 :: "nat \<Rightarrow> 8 word list \<Rightarrow> 64 word list" where
  "words64 0 bs = []"
| "words64 (Suc n) bs = load64 (take 8 bs) # words64 n (drop 8 bs)"

text \<open>
  \<^verbatim>\<open>uint_fast16_t\<close> has 8 bytes on the 64-bit platforms of the daemon, so the case of width 8 and the
  default are what runs; \<open>address\<close> is the address of the sequence.
\<close>

definition cjet_is_word_sequence_valid_auto_alligned ::
    "checker \<Rightarrow> nat \<Rightarrow> 8 word list \<Rightarrow> bool \<Rightarrow> bool \<times> checker" where
  "cjet_is_word_sequence_valid_auto_alligned c address sequence is_complete =
    (let byte_length = length sequence;
         (ret, c) =
           (if byte_length < 8 then cjet_is_byte_sequence_valid c sequence is_complete
            else
              let pre_length = 8 - address mod 8;
                  main_length = (byte_length - pre_length) div 8;
                  (ret, c) = cjet_is_byte_sequence_valid c (take pre_length sequence) False;
                  (ret2, c) = cjet_is_word64_sequence_valid c (words64 main_length (drop pre_length sequence)) False;
                  (ret3, c) = cjet_is_byte_sequence_valid c (drop (pre_length + main_length * 8) sequence) False
              in (ret \<and> ret2 \<and> ret3, c))
     in if is_complete \<and> start_byte c \<noteq> UC_FINISH then (False, cjet_init_checker) else (ret, c))"

subsection \<open>The specification\<close>

text \<open>Unicode scalar values and their encoding form UTF-8.\<close>

definition scalar :: "nat \<Rightarrow> bool" where
  "scalar n \<longleftrightarrow> n < 0x110000 \<and> \<not> (0xD800 \<le> n \<and> n < 0xE000)"

definition byte :: "nat \<Rightarrow> 8 word" where
  "byte n = of_nat n"

definition utf8_encode :: "nat \<Rightarrow> 8 word list" where
  "utf8_encode n = map byte
    (if n < 0x80 then [n]
     else if n < 0x800 then [0xC0 + n div 64, 0x80 + n mod 64]
     else if n < 0x10000 then [0xE0 + n div 4096, 0x80 + n div 64 mod 64, 0x80 + n mod 64]
     else [0xF0 + n div 262144, 0x80 + n div 4096 mod 64, 0x80 + n div 64 mod 64, 0x80 + n mod 64])"

definition is_utf8 :: "8 word list \<Rightarrow> bool" where
  "is_utf8 bs \<longleftrightarrow> (\<exists>cps. (\<forall>n\<in>set cps. scalar n) \<and> bs = concat (map utf8_encode cps))"

lemma is_utf8_Nil [simp]: "is_utf8 []"
  unfolding is_utf8_def by (rule exI [of _ "[]"]) simp

lemma is_utf8_append: "is_utf8 as \<Longrightarrow> is_utf8 bs \<Longrightarrow> is_utf8 (as @ bs)"
  unfolding is_utf8_def by (metis concat_append map_append set_append Un_iff)

lemma is_utf8_encode: "scalar n \<Longrightarrow> is_utf8 (utf8_encode n)"
  unfolding is_utf8_def by (rule exI [of _ "[n]"]) simp

subsection \<open>The machine accepts what the specification allows\<close>

definition accepts :: "checker \<Rightarrow> 8 word list \<Rightarrow> bool" where
  "accepts c bs \<longleftrightarrow> (case check_bytes c bs of (ret, c') \<Rightarrow> ret \<and> start_byte c' = UC_FINISH)"

definition continuation :: "8 word \<Rightarrow> bool" where
  "continuation b \<longleftrightarrow> b AND 0xC0 = 0x80"

lemma unat_high_bits: "unat (b AND NOT (mask n)) = unat (b :: 8 word) div 2 ^ n * 2 ^ n"
proof -
  have "unat b div 2 ^ n * 2 ^ n \<le> unat b" by (rule div_times_less_eq_dividend)
  also have "unat b < 256" using unsigned_less [of b, where ?'a = nat] by simp
  finally have "unat b div 2 ^ n * 2 ^ n < 256" .
  then have "push_bit n (drop_bit n (unat b)) < 2 ^ 8" by (simp add: push_bit_eq_mult drop_bit_eq_div)
  moreover have "b AND NOT (mask n) = push_bit n (drop_bit n b)"
    by (rule bit_word_eqI) (auto simp: bit_simps)
  then have "unat (b AND NOT (mask n)) = take_bit 8 (push_bit n (drop_bit n (unat b)))"
    using unsigned_less [of b, where ?'a = nat]
    by (simp only: unsigned_push_bit_eq unsigned_drop_bit_eq) (simp add: take_bit_nat_eq_self)
  ultimately show ?thesis by (simp only: take_bit_nat_eq_self) (simp only: push_bit_eq_mult drop_bit_eq_div)
qed

lemma high_masks: "(0xC0 :: 8 word) = NOT (mask 6)" "(0xE0 :: 8 word) = NOT (mask 5)" "(0x80 :: 8 word) = NOT (mask 7)"
  by code_simp+

lemma div_eq_range: "0 < k \<Longrightarrow> x div k * k = q * k \<longleftrightarrow> q * k \<le> x \<and> x < (q + 1) * (k :: nat)"
proof -
  assume k: "0 < k"
  then have "x div k * k = q * k \<longleftrightarrow> q \<le> x div k \<and> x div k < q + 1" by auto
  then show ?thesis using k by (simp only: less_eq_div_iff_mult_less_eq div_less_iff_less_mult)
qed

lemma continuation_range: "continuation b \<longleftrightarrow> 0x80 \<le> unat b \<and> unat b < 0xC0"
  using div_eq_range [of 64 "unat b" 2] unat_high_bits [of b 6, unfolded high_masks(1) [symmetric]]
  by (simp add: continuation_def word_unat_eq_iff)

lemma lead_range: "b AND 0xE0 = 0xC0 \<longleftrightarrow> 0xC0 \<le> unat (b :: 8 word) \<and> unat b \<le> 0xDF"
  using div_eq_range [of 32 "unat b" 6] unat_high_bits [of b 5, unfolded high_masks(2) [symmetric]]
  by (auto simp: word_unat_eq_iff)

lemma ascii_range: "b AND 0x80 = 0 \<longleftrightarrow> unat (b :: 8 word) \<le> 0x7F"
  using div_eq_range [of 128 "unat b" 0] unat_high_bits [of b 7, unfolded high_masks(3) [symmetric]]
  by (auto simp: word_unat_eq_iff)

lemma accepts_Nil [simp]: "accepts c [] \<longleftrightarrow> start_byte c = UC_FINISH"
  by (simp add: accepts_def)

lemma accepts_Cons:
  "accepts c (b # bs) \<longleftrightarrow> (case is_byte_valid c b of (ret, c') \<Rightarrow> ret \<and> accepts c' bs)"
  by (auto simp: accepts_def split: prod.splits)

definition second_ok :: "8 word \<Rightarrow> 8 word \<Rightarrow> bool" where
  "second_ok s b \<longleftrightarrow> continuation b \<and> (s = 0xE0 \<longrightarrow> 0xA0 \<le> unat b) \<and> (s = 0xED \<longrightarrow> unat b \<le> 0x9F) \<and>
     (s = 0xF0 \<longrightarrow> 0x90 \<le> unat b) \<and> (s = 0xF4 \<longrightarrow> unat b \<le> 0x8F)"

abbreviation "inside s n k \<equiv> \<lparr>start_byte = s, c_length = n, next_byte = k\<rparr>"

lemma second_byte_ok: "fst (second_byte (inside s n k) b) \<longleftrightarrow> second_ok s b"
  by (auto simp: second_byte_def second_ok_def continuation_def [symmetric] continuation_range Let_def
      word_less_nat_alt split: if_splits)

text \<open>What the machine accepts from each of its states.\<close>

lemma accepts_inside:
  "accepts (inside s 4 4) (b # bs) \<longleftrightarrow> continuation b \<and> accepts cjet_init_checker bs"
  "accepts (inside s 3 3) (b # bs) \<longleftrightarrow> continuation b \<and> accepts cjet_init_checker bs"
  "accepts (inside s 4 3) (b # bs) \<longleftrightarrow> continuation b \<and> accepts (inside s 4 4) bs"
  "accepts (inside s 2 2) (b # bs) \<longleftrightarrow> second_ok s b \<and> accepts cjet_init_checker bs"
  "accepts (inside s 3 2) (b # bs) \<longleftrightarrow> second_ok s b \<and> accepts (inside s 3 3) bs"
  "accepts (inside s 4 2) (b # bs) \<longleftrightarrow> second_ok s b \<and> accepts (inside s 4 3) bs"
  using second_byte_ok [of s 2 2 b] second_byte_ok [of s 3 2 b] second_byte_ok [of s 4 2 b]
  by (auto simp: accepts_Cons is_byte_valid_def cjet_init_checker_def continuation_def second_byte_def Let_def
      split: prod.splits if_splits)

lemma accepts_first:
  "accepts cjet_init_checker (b # bs) \<longleftrightarrow>
    (if unat b \<le> 0x7F then accepts cjet_init_checker bs
     else if unat b \<le> 0xC1 then False
     else if unat b \<le> 0xDF then accepts (inside b 2 2) bs
     else if unat b \<le> 0xEF then accepts (inside b 3 2) bs
     else if unat b \<le> 0xF4 then accepts (inside b 4 2) bs
     else False)"
  by (simp add: accepts_Cons is_byte_valid_def cjet_init_checker_def first_byte_def word_le_nat_alt Let_def)

lemma unat_byte [simp]: "n < 256 \<Longrightarrow> unat (byte n) = n"
  by (simp add: byte_def unsigned_of_nat take_bit_nat_eq_self)

lemma byte_unat [simp]: "byte (unat b) = b"
  by (simp add: byte_def)

lemma second_ok_range:
  "second_ok s b \<longleftrightarrow> 0x80 \<le> unat b \<and> unat b < 0xC0 \<and> (unat s = 0xE0 \<longrightarrow> 0xA0 \<le> unat b) \<and>
     (unat s = 0xED \<longrightarrow> unat b \<le> 0x9F) \<and> (unat s = 0xF0 \<longrightarrow> 0x90 \<le> unat b) \<and> (unat s = 0xF4 \<longrightarrow> unat b \<le> 0x8F)"
  by (auto simp: second_ok_def continuation_range word_unat_eq_iff)

lemma sum64:
  "n = n div 4096 * 4096 + n div 64 mod 64 * 64 + n mod (64 :: nat)"
  "n = n div 262144 * 262144 + n div 4096 mod 64 * 4096 + n div 64 mod 64 * 64 + n mod (64 :: nat)"
proof -
  have d: "n div 4096 = n div 64 div 64" "n div 262144 = n div 64 div 64 div 64"
    by (simp_all add: div_mult2_eq [symmetric])
  note m = div_mult_mod_eq [of n 64, symmetric] div_mult_mod_eq [of "n div 64" 64]
    div_mult_mod_eq [of "n div 64 div 64" 64]
  show "n = n div 4096 * 4096 + n div 64 mod 64 * 64 + n mod (64 :: nat)"
    "n = n div 262144 * 262144 + n div 4096 mod 64 * 4096 + n div 64 mod 64 * 64 + n mod (64 :: nat)"
    unfolding d using m by linarith+
qed

lemma accepts_encode:
  assumes "scalar n"
  shows "accepts cjet_init_checker (utf8_encode n @ bs) \<longleftrightarrow> accepts cjet_init_checker bs"
proof -
  have tail: "0x80 + k mod 64 < (0xC0 :: nat)" for k by simp
  consider "n < 0x80" | "0x80 \<le> n" "n < 0x800" | "0x800 \<le> n" "n < 0x10000" | "0x10000 \<le> n" "n < 0x110000"
    using assms unfolding scalar_def by linarith
  then show ?thesis
  proof cases
    case 1
    then show ?thesis by (simp add: utf8_encode_def accepts_first)
  next
    case 2
    have "unat (byte (0xC0 + n div 64)) = 0xC0 + n div 64" using 2 by (intro unat_byte) auto
    moreover have "0xC2 \<le> 0xC0 + n div 64" "0xC0 + n div 64 \<le> 0xDF" using 2 by auto
    ultimately show ?thesis using 2 tail [of n]
      by (simp add: utf8_encode_def accepts_first accepts_inside second_ok_range)
  next
    case 3
    have "unat (byte (0xE0 + n div 4096)) = 0xE0 + n div 4096" using 3 by (intro unat_byte) auto
    moreover have "0xE0 + n div 4096 \<le> 0xEF" using 3 by auto
    moreover have "n div 4096 = 0 \<Longrightarrow> 0x20 \<le> n div 64 mod 64" "n div 4096 = 13 \<Longrightarrow> n div 64 mod 64 < 0x20"
      using 3 assms sum64(1) [of n] tail [of n] unfolding scalar_def by linarith+
    ultimately show ?thesis using 3 tail [of n] tail [of "n div 64"]
      by (auto simp: utf8_encode_def accepts_first accepts_inside second_ok_range continuation_range)
  next
    case 4
    have "unat (byte (0xF0 + n div 262144)) = 0xF0 + n div 262144" using 4 by (intro unat_byte) auto
    moreover have "0xF0 + n div 262144 \<le> 0xF4" using 4 by auto
    moreover have "n div 262144 = 0 \<Longrightarrow> 0x10 \<le> n div 4096 mod 64" "n div 262144 = 4 \<Longrightarrow> n div 4096 mod 64 < 0x10"
      using 4 sum64(2) [of n] tail [of n] tail [of "n div 64"] by linarith+
    ultimately show ?thesis using 4 tail [of n] tail [of "n div 64"] tail [of "n div 4096"]
      by (auto simp: utf8_encode_def accepts_first accepts_inside second_ok_range continuation_range)
  qed
qed

lemma digit64:
  assumes "b < 64"
  shows "(a * 64 + b) div 64 = (a :: nat)" "(a * 64 + b) mod 64 = b"
  using assms by simp_all

lemma digits64:
  assumes "b < 64" "c < 64" "d < (64 :: nat)"
  shows "(a * 64 + b) div 64 = a" "(a * 64 + b) mod 64 = b"
    "(a * 4096 + b * 64 + c) div 4096 = a" "(a * 4096 + b * 64 + c) div 64 mod 64 = b"
    "(a * 4096 + b * 64 + c) mod 64 = c"
    "(a * 262144 + b * 4096 + c * 64 + d) div 262144 = a" "(a * 262144 + b * 4096 + c * 64 + d) div 4096 mod 64 = b"
    "(a * 262144 + b * 4096 + c * 64 + d) div 64 mod 64 = c" "(a * 262144 + b * 4096 + c * 64 + d) mod 64 = d"
proof -
  have 3: "a * 4096 + b * 64 + c = (a * 64 + b) * 64 + c" by simp
  have 4: "a * 262144 + b * 4096 + c * 64 + d = ((a * 64 + b) * 64 + c) * 64 + d" by simp
  have d2: "n div 4096 = n div 64 div 64" "n div 262144 = n div 64 div 64 div 64" for n :: nat
    by (simp_all add: div_mult2_eq [symmetric])
  show "(a * 64 + b) div 64 = a" "(a * 64 + b) mod 64 = b" using assms by (simp_all only: digit64)
  show "(a * 4096 + b * 64 + c) div 4096 = a" "(a * 4096 + b * 64 + c) div 64 mod 64 = b"
    "(a * 4096 + b * 64 + c) mod 64 = c"
    using assms by (simp_all only: 3 d2 digit64)
  show "(a * 262144 + b * 4096 + c * 64 + d) div 262144 = a" "(a * 262144 + b * 4096 + c * 64 + d) div 4096 mod 64 = b"
    "(a * 262144 + b * 4096 + c * 64 + d) div 64 mod 64 = c" "(a * 262144 + b * 4096 + c * 64 + d) mod 64 = d"
    using assms by (simp_all only: 4 d2 digit64)
qed

lemma byte_sub [simp]: "k \<le> unat b \<Longrightarrow> byte (k + (unat b - k)) = b"
  by simp

lemma accepts_decode:
  assumes "accepts cjet_init_checker (b # bs)"
  shows "\<exists>n rest. scalar n \<and> b # bs = utf8_encode n @ rest \<and> accepts cjet_init_checker rest"
proof -
  note rules = accepts_first accepts_inside second_ok_range continuation_range UC_FINISH_def word_unat_eq_iff
  let ?x = "unat b"
  consider "?x \<le> 0x7F" | "0xC2 \<le> ?x" "?x \<le> 0xDF" | "0xE0 \<le> ?x" "?x \<le> 0xEF" | "0xF0 \<le> ?x" "?x \<le> 0xF4"
    using assms by (fastforce simp: rules split: if_splits)
  then show ?thesis
  proof cases
    case 1
    with assms show ?thesis
      by (intro exI [of _ ?x] exI [of _ bs]) (simp add: rules scalar_def utf8_encode_def)
  next
    case 2
    then obtain b2 rest where bs: "bs = b2 # rest" using assms by (cases bs) (auto simp: rules)
    define x y where x: "x = ?x - 0xC0" and y: "y = unat b2 - 0x80"
    have facts: "accepts cjet_init_checker rest" "0x80 \<le> unat b2" "y < 64" using assms 2 by (auto simp: bs rules y)
    have xb: "byte (0xC0 + x) = b" "byte (0x80 + y) = b2" using 2 facts by (simp_all add: x y)
    have "2 \<le> x" "x < 32" using 2 by (auto simp: x)
    with facts have "scalar (x * 64 + y)" "utf8_encode (x * 64 + y) = [b, b2]"
      by (simp_all add: scalar_def utf8_encode_def digits64 xb)
    with facts bs show ?thesis by (intro exI [of _ "x * 64 + y"] exI [of _ rest]) simp
  next
    case 3
    then obtain b2 bs2 where bs2: "bs = b2 # bs2" using assms by (cases bs) (auto simp: rules)
    then obtain b3 rest where bs: "bs2 = b3 # rest" using assms 3 by (cases bs2) (auto simp: rules)
    define x y z where x: "x = ?x - 0xE0" and y: "y = unat b2 - 0x80" and z: "z = unat b3 - 0x80"
    have facts: "accepts cjet_init_checker rest" "0x80 \<le> unat b2" "0x80 \<le> unat b3" "y < 64" "z < 64"
      "x = 0 \<longrightarrow> 32 \<le> y" "x = 13 \<longrightarrow> y < 32"
      using assms 3 by (auto simp: bs bs2 rules x y z)
    have xb: "byte (0xE0 + x) = b" "byte (0x80 + y) = b2" "byte (0x80 + z) = b3" using 3 facts by (simp_all add: x y z)
    define n where n: "n = x * 4096 + y * 64 + z"
    have "x < 16" using 3 by (auto simp: x)
    then have "0x800 \<le> n" "n < 0x10000" using facts unfolding n by (cases "x = 0"; linarith)+
    moreover have "n < 0xD800 \<or> 0xE000 \<le> n"
    proof -
      consider "x \<le> 12" | "x = 13" | "14 \<le> x" by linarith
      then show ?thesis using facts unfolding n by cases linarith+
    qed
    ultimately have "0x800 \<le> n" "n < 0x10000" "scalar n" by (auto simp: scalar_def)
    with facts have "utf8_encode n = [b, b2, b3]"
      by (simp add: utf8_encode_def) (simp add: n digits64 xb)
    with facts bs bs2 \<open>scalar n\<close> show ?thesis by (intro exI [of _ n] exI [of _ rest]) simp
  next
    case 4
    then obtain b2 bs2 where bs2: "bs = b2 # bs2" using assms by (cases bs) (auto simp: rules)
    then obtain b3 bs3 where bs3: "bs2 = b3 # bs3" using assms 4 by (cases bs2) (auto simp: rules)
    then obtain b4 rest where bs: "bs3 = b4 # rest" using assms 4 bs2 by (cases bs3) (auto simp: rules)
    define x y z u where x: "x = ?x - 0xF0" and y: "y = unat b2 - 0x80" and z: "z = unat b3 - 0x80"
      and u: "u = unat b4 - 0x80"
    have facts: "accepts cjet_init_checker rest" "0x80 \<le> unat b2" "0x80 \<le> unat b3" "0x80 \<le> unat b4"
      "y < 64" "z < 64" "u < 64" "x = 0 \<longrightarrow> 16 \<le> y" "x = 4 \<longrightarrow> y < 16"
      using assms 4 by (auto simp: bs bs2 bs3 rules x y z u)
    have xb: "byte (0xF0 + x) = b" "byte (0x80 + y) = b2" "byte (0x80 + z) = b3" "byte (0x80 + u) = b4"
      using 4 facts by (simp_all add: x y z u)
    define n where n: "n = x * 262144 + y * 4096 + z * 64 + u"
    have x5: "x < 5" using 4 by (auto simp: x)
    have "0x10000 \<le> n" using facts x5 unfolding n by (cases "x = 0"; linarith)
    moreover have "n < 0x110000" using facts x5 unfolding n by (cases "x = 4"; linarith)
    ultimately have "utf8_encode n = [b, b2, b3, b4] \<and> scalar n"
      using facts(5-7) by (simp add: utf8_encode_def scalar_def) (simp add: n digits64 xb)
    with facts bs bs2 bs3 show ?thesis by (intro exI [of _ n] exI [of _ rest]) simp
  qed
qed

lemma accepts_is_utf8: "accepts cjet_init_checker bs \<longleftrightarrow> is_utf8 bs"
proof
  show "accepts cjet_init_checker bs \<Longrightarrow> is_utf8 bs"
  proof (induction bs rule: length_induct)
    case (1 bs)
    show ?case
    proof (cases bs)
      case (Cons b bs')
      from accepts_decode [OF 1(2) [unfolded Cons]] obtain n rest
        where n: "scalar n" "bs = utf8_encode n @ rest" "accepts cjet_init_checker rest" unfolding Cons by blast
      have "utf8_encode n \<noteq> []" by (simp add: utf8_encode_def)
      then have "length rest < length bs" by (simp add: n(2))
      with 1(1) n(3) have "is_utf8 rest" by blast
      with n show ?thesis by (simp add: is_utf8_append is_utf8_encode)
    qed simp
  qed
next
  assume "is_utf8 bs"
  then obtain cps where "\<forall>n\<in>set cps. scalar n" "bs = concat (map utf8_encode cps)" by (auto simp: is_utf8_def)
  then show "accepts cjet_init_checker bs"
    by (induction cps arbitrary: bs) (auto simp: accepts_encode, simp add: cjet_init_checker_def)
qed

subsection \<open>Fragments\<close>

text \<open>Between two characters the checker is in its initial state, inside a character it never is.\<close>

definition checker_ok :: "checker \<Rightarrow> bool" where
  "checker_ok c \<longleftrightarrow> c = cjet_init_checker \<or> start_byte c \<noteq> UC_FINISH \<and> next_byte c \<noteq> 1"

lemma checker_ok_init [simp]: "checker_ok cjet_init_checker"
  by (simp add: checker_ok_def)

lemma is_byte_valid_ok:
  assumes "checker_ok c" "is_byte_valid c b = (ret, c')"
  shows "checker_ok c'" and "\<not> ret \<Longrightarrow> c' = cjet_init_checker"
  using assms
  by (auto simp: checker_ok_def is_byte_valid_def first_byte_def second_byte_def cjet_init_checker_def
      UC_FINISH_def Let_def word_le_nat_alt split: if_splits)

lemma check_bytes_ok:
  "checker_ok c \<Longrightarrow> check_bytes c bs = (ret, c') \<Longrightarrow> checker_ok c' \<and> (\<not> ret \<longrightarrow> c' = cjet_init_checker)"
proof (induction c bs rule: check_bytes.induct)
  case (2 c b bs)
  obtain r c1 where r: "is_byte_valid c b = (r, c1)" by fastforce
  with 2 is_byte_valid_ok [OF 2(2) r] show ?case by (auto split: if_splits)
qed simp

lemma check_bytes_append:
  "check_bytes c (as @ bs) = (case check_bytes c as of (ret, c') \<Rightarrow> if ret then check_bytes c' bs else (False, c'))"
  by (induction c as rule: check_bytes.induct) (auto split: prod.splits)

lemma complete_check_accepts:
  assumes "checker_ok c"
  shows "complete_check True (check_bytes c bs) = (accepts c bs, cjet_init_checker)"
proof -
  obtain ret c' where r: "check_bytes c bs = (ret, c')" by fastforce
  from check_bytes_ok [OF assms r] show ?thesis
    by (auto simp: complete_check_def accepts_def r checker_ok_def)
qed

lemma complete_check_False [simp]: "complete_check False (ret, c) = (ret, c)"
  by (cases ret) (simp_all add: complete_check_def)

text \<open>Feeding a text in fragments, the last one marked complete, as the websocket layer does.\<close>

fun feed :: "checker \<Rightarrow> 8 word list list \<Rightarrow> bool" where
  "feed c [] = True"
| "feed c (f # fs) =
    (case cjet_is_byte_sequence_valid c f (fs = []) of (ret, c') \<Rightarrow> if fs = [] then ret else ret \<and> feed c' fs)"

lemma feed_accepts: "checker_ok c \<Longrightarrow> fs \<noteq> [] \<Longrightarrow> feed c fs \<longleftrightarrow> accepts c (concat fs)"
proof (induction fs arbitrary: c)
  case (Cons f fs)
  show ?case
  proof (cases "fs = []")
    case True
    with Cons.prems show ?thesis
      by (simp add: cjet_is_byte_sequence_valid_def complete_check_accepts)
  next
    case False
    obtain ret c' where r: "check_bytes c f = (ret, c')" by fastforce
    with Cons.IH [of c'] check_bytes_ok [OF Cons.prems(1) r] False show ?thesis
      by (auto simp: cjet_is_byte_sequence_valid_def accepts_def check_bytes_append)
  qed
qed simp

text \<open>C15: The byte checker is the UTF-8 specification.  In whatever fragments a text arrives, it is accepted
  exactly when it is the concatenation of the encodings of Unicode scalar values: no overlong form, no
  surrogate, nothing above 10FFFF, no truncated character; the checker is ready for the next text.\<close>
theorem utf8_checker_is_utf8:
  assumes "fs \<noteq> []"
  shows "(feed cjet_init_checker fs \<longleftrightarrow> is_utf8 (concat fs)) \<and>
    cjet_is_byte_sequence_valid cjet_init_checker bs True = (is_utf8 bs, cjet_init_checker)"
  using assms
  by (simp add: feed_accepts accepts_is_utf8 cjet_is_byte_sequence_valid_def complete_check_accepts)

theorem utf8_checker_is_utf8_witness: "is_utf8 (concat [[0xE2, 0x82], [0xAC]])"
proof -
  have "feed cjet_init_checker [[0xE2, 0x82], [0xAC]]" by code_simp
  then show ?thesis using utf8_checker_is_utf8 [of "[[0xE2, 0x82], [0xAC]]" "[]"] by simp
qed

subsection \<open>Words\<close>

definition byte_of :: "nat \<Rightarrow> 'a::len word \<Rightarrow> 8 word" where
  "byte_of j w = ucast (drop_bit (j * 8) w AND 0xFF)"

lemma byte_of_and: "byte_of j (v AND w) = byte_of j v AND byte_of j w"
  by (rule bit_word_eqI) (auto simp: byte_of_def bit_simps)

lemma bytes32_of: "bytes32 w = [byte_of 0 w, byte_of 1 w, byte_of 2 w, byte_of 3 w]"
  by (simp add: bytes32_def byte_of_def)

lemma bytes64_of: "bytes64 w = [byte_of 0 w, byte_of 1 w, byte_of 2 w, byte_of 3 w, byte_of 4 w, byte_of 5 w,
    byte_of 6 w, byte_of 7 w]"
  by (simp add: bytes64_def byte_of_def)

lemma overlong_rejected: "check_bytes c bs = (True, c') \<Longrightarrow> set bs \<inter> {0xC0, 0xC1} = {}"
proof (induction c bs rule: check_bytes.induct)
  case (2 c b bs)
  obtain r c1 where r: "is_byte_valid c b = (r, c1)" by fastforce
  have "b \<noteq> 0xC0 \<and> b \<noteq> 0xC1"
    using r 2(2) by (auto simp: is_byte_valid_def first_byte_def second_byte_def Let_def split: if_splits)
  with 2 r show ?case by (auto split: if_splits)
qed simp

text \<open>
  What a word-wise check promises when it skips words that a mask accepts: on text without the bytes
  C0 and C1, which no UTF-8 text contains, it does what the byte-wise check does.
\<close>

locale word_check =
  fixes fast :: "'w \<Rightarrow> bool" and bytes :: "'w \<Rightarrow> 8 word list"
  assumes fast_skips: "fast w \<Longrightarrow> set (bytes w) \<inter> {0xC0, 0xC1} = {} \<Longrightarrow>
    check_bytes cjet_init_checker (bytes w) = (True, cjet_init_checker)"
begin

lemma check_words_bytes:
  "checker_ok c \<Longrightarrow> set (concat (map bytes ws)) \<inter> {0xC0, 0xC1} = {} \<Longrightarrow>
   check_words fast bytes c ws = check_bytes c (concat (map bytes ws))"
proof (induction ws arbitrary: c)
  case (Cons w ws)
  have w: "set (bytes w) \<inter> {0xC0, 0xC1} = {}" and ws: "set (concat (map bytes ws)) \<inter> {0xC0, 0xC1} = {}"
    using Cons.prems(2) by auto
  show ?case
  proof (cases "next_byte c = 1 \<and> fast w")
    case True
    then have "c = cjet_init_checker" using Cons.prems(1) by (auto simp: checker_ok_def)
    with True fast_skips [of w] w Cons.IH [OF Cons.prems(1) ws] show ?thesis by (simp add: check_bytes_append)
  next
    case False
    obtain r c1 where r: "check_bytes c (bytes w) = (r, c1)" by fastforce
    with Cons.IH [of c1] check_bytes_ok [OF Cons.prems(1) r] ws False show ?thesis
      by (auto simp: check_bytes_append)
  qed
qed simp

lemma check_words_accepts_valid:
  assumes "checker_ok c" "check_bytes c (concat (map bytes ws)) = (True, c')"
  shows "check_words fast bytes c ws = (True, c')"
  using check_words_bytes [OF assms(1)] overlong_rejected [OF assms(2)] assms(2) by simp

end

text \<open>A run of complete characters leads from the initial state to itself.\<close>

definition skips :: "8 word list \<Rightarrow> bool" where
  "skips bs \<longleftrightarrow> check_bytes cjet_init_checker bs = (True, cjet_init_checker)"

lemma skips_append: "skips as \<Longrightarrow> skips bs \<Longrightarrow> skips (as @ bs)"
  by (simp add: skips_def check_bytes_append)

lemma skips_ascii: "b AND 0x80 = 0 \<Longrightarrow> skips [b]"
  by (simp add: ascii_range skips_def is_byte_valid_def cjet_init_checker_def first_byte_def word_le_nat_alt UC_FINISH_def Let_def)

lemma skips_pair:
  assumes "a AND 0xE0 = 0xC0" "b AND 0xC0 = 0x80" "a \<noteq> 0xC0" "a \<noteq> 0xC1"
  shows "skips [a, b]"
proof -
  have "unat a \<noteq> 0xC0" "unat a \<noteq> 0xC1" using assms(3,4) by (auto simp: word_unat_eq_iff)
  with assms(1) have "0xC2 \<le> unat a" "unat a \<le> 0xDF" by (auto simp: lead_range)
  then show ?thesis
    using assms(2) by (simp add: skips_def is_byte_valid_def cjet_init_checker_def first_byte_def second_byte_def
        word_le_nat_alt word_unat_eq_iff UC_FINISH_def Let_def)
qed

lemma mask32: "w AND m = v \<Longrightarrow> map2 (AND) (bytes32 w) (bytes32 m) = bytes32 v"
  by (auto simp: bytes32_of byte_of_and)

lemma mask64: "w AND m = v \<Longrightarrow> map2 (AND) (bytes64 w) (bytes64 m) = bytes64 v"
  by (auto simp: bytes64_of byte_of_and)

lemma masks:
  "bytes32 0x80808080 = [0x80, 0x80, 0x80, 0x80]" "bytes32 0 = [0, 0, 0, 0]"
  "bytes32 0x8080C0E0 = [0xE0, 0xC0, 0x80, 0x80]" "bytes32 0x80C0 = [0xC0, 0x80, 0, 0]"
  "bytes32 0x80C0E080 = [0x80, 0xE0, 0xC0, 0x80]" "bytes32 0x80C000 = [0, 0xC0, 0x80, 0]"
  "bytes32 0xC0E08080 = [0x80, 0x80, 0xE0, 0xC0]" "bytes32 0x80C00000 = [0, 0, 0xC0, 0x80]"
  "bytes32 0xC0E0C0E0 = [0xE0, 0xC0, 0xE0, 0xC0]" "bytes32 0x80C080C0 = [0xC0, 0x80, 0xC0, 0x80]"
  "bytes64 0x8080808080808080 = [0x80, 0x80, 0x80, 0x80, 0x80, 0x80, 0x80, 0x80]"
  "bytes64 0 = [0, 0, 0, 0, 0, 0, 0, 0]"
  "bytes64 0xC0E0C0E0C0E0C0E0 = [0xE0, 0xC0, 0xE0, 0xC0, 0xE0, 0xC0, 0xE0, 0xC0]"
  "bytes64 0x80C080C080C080C0 = [0xC0, 0x80, 0xC0, 0x80, 0xC0, 0x80, 0xC0, 0x80]"
  by code_simp+

interpretation w32: word_check fast32 bytes32
proof unfold_locales
  fix w :: "32 word"
  assume fast: "fast32 w" and no: "set (bytes32 w) \<inter> {0xC0, 0xC1} = {}"
  obtain a b c d where bs: "bytes32 w = [a, b, c, d]" by (simp add: bytes32_def)
  have no': "a \<noteq> 0xC0" "a \<noteq> 0xC1" "b \<noteq> 0xC0" "b \<noteq> 0xC1" "c \<noteq> 0xC0" "c \<noteq> 0xC1" using no by (auto simp: bs)
  have "skips [a, b, c, d]"
    using fast unfolding fast32_def
  proof (elim disjE conjE)
    assume "w AND 0x80808080 = 0"
    from mask32 [OF this] have "skips [a]" "skips [b]" "skips [c]" "skips [d]"
      by (simp_all add: bs masks skips_ascii)
    then show ?thesis using skips_append [of "[a]"] skips_append [of "[b]"] skips_append [of "[c]"] by fastforce
  next
    assume "w AND 0x8080C0E0 = 0x80C0"
    from mask32 [OF this] have "skips [a, b]" "skips [c]" "skips [d]"
      using no' by (simp_all add: bs masks skips_ascii skips_pair)
    then show ?thesis using skips_append [of "[a, b]"] skips_append [of "[c]"] by fastforce
  next
    assume "w AND 0x80C0E080 = 0x80C000"
    from mask32 [OF this] have "skips [a]" "skips [b, c]" "skips [d]"
      using no' by (simp_all add: bs masks skips_ascii skips_pair)
    then show ?thesis using skips_append [of "[a]"] skips_append [of "[b, c]"] by fastforce
  next
    assume "w AND 0xC0E08080 = 0x80C00000"
    from mask32 [OF this] have "skips [a]" "skips [b]" "skips [c, d]"
      using no' by (simp_all add: bs masks skips_ascii skips_pair)
    then show ?thesis using skips_append [of "[a]"] skips_append [of "[b]"] by fastforce
  next
    assume "w AND 0xC0E0C0E0 = 0x80C080C0"
    from mask32 [OF this] have "skips [a, b]" "skips [c, d]"
      using no' by (simp_all add: bs masks skips_pair)
    then show ?thesis using skips_append [of "[a, b]"] by fastforce
  qed
  then show "check_bytes cjet_init_checker (bytes32 w) = (True, cjet_init_checker)" by (simp add: skips_def bs)
qed

interpretation w64: word_check fast64 bytes64
proof unfold_locales
  fix w :: "64 word"
  assume fast: "fast64 w" and no: "set (bytes64 w) \<inter> {0xC0, 0xC1} = {}"
  obtain a b c d e f g h where bs: "bytes64 w = [a, b, c, d, e, f, g, h]" by (simp add: bytes64_def)
  have no': "a \<noteq> 0xC0" "a \<noteq> 0xC1" "c \<noteq> 0xC0" "c \<noteq> 0xC1" "e \<noteq> 0xC0" "e \<noteq> 0xC1" "g \<noteq> 0xC0" "g \<noteq> 0xC1"
    using no by (auto simp: bs)
  have "skips [a, b] \<and> skips [c, d] \<and> skips [e, f] \<and> skips [g, h]"
    using fast unfolding fast64_def
  proof (elim disjE conjE)
    assume "w AND 0x8080808080808080 = 0"
    from mask64 [OF this] show ?thesis
      using skips_append [OF skips_ascii skips_ascii] by (simp add: bs masks)
  next
    assume "w AND 0xC0E0C0E0C0E0C0E0 = 0x80C080C080C080C0"
    from mask64 [OF this] show ?thesis
      using no' by (simp add: bs masks skips_pair)
  qed
  then have "skips ([a, b] @ [c, d] @ [e, f] @ [g, h])" by (intro skips_append) simp_all
  then show "check_bytes cjet_init_checker (bytes64 w) = (True, cjet_init_checker)" by (simp add: skips_def bs)
qed

lemma bit_255: "bit (0xFF :: 'a::len word) n \<longleftrightarrow> n < LENGTH('a) \<and> n < 8"
proof -
  have "(0xFF :: 'a word) = mask 8" by (simp add: mask_eq_exp_minus_1)
  then show ?thesis by (simp only: bit_mask_iff) simp
qed

lemma bit_255_int: "bit (0xFF :: int) n \<longleftrightarrow> n < 8"
proof -
  have "(0xFF :: int) = mask 8" by (simp add: mask_eq_exp_minus_1)
  then show ?thesis by (simp only: bit_mask_iff) simp
qed

lemma bit_byte: "8 \<le> n \<Longrightarrow> \<not> bit (b :: 8 word) n"
  using bit_imp_le_length [of b n] by auto

lemma bytes64_load64:
  assumes "length bs = 8"
  shows "bytes64 (load64 bs) = bs"
proof -
  obtain a b c d e f g h where bs: "bs = [a, b, c, d, e, f, g, h]"
    using assms by (auto simp: numeral_eq_Suc length_Suc_conv)
  show ?thesis
    unfolding bs bytes64_of byte_of_def
    by (simp, intro conjI; rule bit_word_eqI; simp add: bit_simps bit_255 bit_255_int bit_byte)
qed

lemma bytes64_words64: "8 * n \<le> length bs \<Longrightarrow> concat (map bytes64 (words64 n bs)) = take (8 * n) bs"
proof (induction n arbitrary: bs)
  case (Suc n)
  have "take 8 bs @ take (8 * n) (drop 8 bs) = take (8 * Suc n) bs"
    by (simp add: take_add [symmetric])
  with Suc show ?case by (simp add: bytes64_load64)
qed simp

text \<open>The three parts of an aligned check, when the words are checked like their bytes.\<close>

lemma auto_alligned_bytes:
  assumes "8 \<le> length sequence"
    and pre: "pre = 8 - address mod 8" and main: "main = (length sequence - pre) div 8"
    and words: "\<And>c. checker_ok c \<Longrightarrow> check_words fast64 bytes64 c (words64 main (drop pre sequence)) =
      check_bytes c (take (8 * main) (drop pre sequence))"
  shows "cjet_is_word_sequence_valid_auto_alligned cjet_init_checker address sequence True =
    (accepts cjet_init_checker sequence, cjet_init_checker)"
proof -
  let ?a = "take pre sequence" and ?b = "take (8 * main) (drop pre sequence)" and ?c = "drop (pre + main * 8) sequence"
  have parts: "sequence = ?a @ ?b @ ?c"
    by (metis append_take_drop_id drop_drop mult.commute add.commute)
  obtain r1 c1 where 1: "check_bytes cjet_init_checker ?a = (r1, c1)" by fastforce
  obtain r2 c2 where 2: "check_bytes c1 ?b = (r2, c2)" by fastforce
  obtain r3 c3 where 3: "check_bytes c2 ?c = (r3, c3)" by fastforce
  have ok1: "checker_ok c1" using check_bytes_ok [OF checker_ok_init 1] by simp
  have ok3: "checker_ok c3" using check_bytes_ok [OF _ 3] check_bytes_ok [OF ok1 2] by simp
  have "accepts cjet_init_checker sequence \<longleftrightarrow> r1 \<and> r2 \<and> r3 \<and> start_byte c3 = UC_FINISH"
    unfolding accepts_def by (subst parts) (auto simp: check_bytes_append 1 2 3)
  with 1 2 3 words [OF ok1] ok3 assms(1) show ?thesis
    by (auto simp: cjet_is_word_sequence_valid_auto_alligned_def cjet_is_byte_sequence_valid_def
        cjet_is_word64_sequence_valid_def Let_def pre [symmetric] main [symmetric] checker_ok_def)
qed

lemma auto_alligned_no_overlong:
  assumes "set sequence \<inter> {0xC0, 0xC1} = {}"
  shows "cjet_is_word_sequence_valid_auto_alligned cjet_init_checker address sequence True =
    (is_utf8 sequence, cjet_init_checker)"
proof (cases "length sequence < 8")
  case True
  have "complete_check True (check_bytes cjet_init_checker sequence) = (is_utf8 sequence, cjet_init_checker)"
    by (simp add: complete_check_accepts accepts_is_utf8)
  with True show ?thesis
    by (simp add: cjet_is_word_sequence_valid_auto_alligned_def cjet_is_byte_sequence_valid_def cjet_init_checker_def)
next
  case False
  define pre main where d: "pre = 8 - address mod 8" "main = (length sequence - pre) div 8"
  have "8 * main \<le> length (drop pre sequence)" by (simp add: d(2))
  then have bytes: "concat (map bytes64 (words64 main (drop pre sequence))) = take (8 * main) (drop pre sequence)"
    by (rule bytes64_words64)
  have "set (take (8 * main) (drop pre sequence)) \<subseteq> set sequence"
    by (meson order_trans set_drop_subset set_take_subset)
  then have "check_words fast64 bytes64 c (words64 main (drop pre sequence)) =
      check_bytes c (take (8 * main) (drop pre sequence))" if "checker_ok c" for c
    using w64.check_words_bytes [OF that, of "words64 main (drop pre sequence)"] assms unfolding bytes by blast
  with False show ?thesis
    using auto_alligned_bytes [of sequence pre address main] d by (simp add: accepts_is_utf8)
qed

lemma is_utf8_no_overlong: "is_utf8 bs \<Longrightarrow> set bs \<inter> {0xC0, 0xC1} = {}"
  using overlong_rejected [of cjet_init_checker bs] unfolding accepts_is_utf8 [symmetric] accepts_def
  by (auto split: prod.splits)

text \<open>C16: The word-wise checker agrees with the specification, wherever in memory the text lies, on every
  text without the bytes C0 and C1; so every valid text is accepted.\<close>
theorem utf8_auto_aligned:
  assumes "set sequence \<inter> {0xC0, 0xC1} = {} \<or> is_utf8 sequence"
  shows "cjet_is_word_sequence_valid_auto_alligned cjet_init_checker address sequence True =
    (is_utf8 sequence, cjet_init_checker)"
  using assms by (auto intro: auto_alligned_no_overlong dest: is_utf8_no_overlong)

theorem utf8_auto_aligned_witness:
  "cjet_is_word_sequence_valid_auto_alligned cjet_init_checker 3 (replicate 20 0x41) True =
    (is_utf8 (replicate 20 0x41), cjet_init_checker)"
  by (rule utf8_auto_aligned) (simp add: set_replicate_conv_if)

text \<open>The word-wise checkers accept an overlong form.  The mask for two two-byte characters compares
  both leads as one number, so a large second lead hides the first: C0 80 C2 80 passes, as does the
  corresponding 64-bit word, although no UTF-8 text holds the byte C0 and the byte-wise check refuses it.\<close>
theorem utf8_words_accept_overlong:
  "fst (cjet_is_word_sequence_valid cjet_init_checker [0x80C280C0] True) \<and>
   fst (cjet_is_word_sequence_valid_auto_alligned cjet_init_checker 0
     (replicate 8 0x41 @ [0xC0, 0x80, 0xC2, 0x80, 0xC2, 0x80, 0xC2, 0x80]) True) \<and>
   \<not> fst (cjet_is_byte_sequence_valid cjet_init_checker (bytes32 0x80C280C0) True) \<and>
   \<not> is_utf8 (bytes32 0x80C280C0)"
proof -
  have "0xC0 \<in> set (bytes32 0x80C280C0)" by code_simp
  then have "\<not> is_utf8 (bytes32 0x80C280C0)" using is_utf8_no_overlong by blast
  moreover have "fst (cjet_is_word_sequence_valid cjet_init_checker [0x80C280C0] True)" by code_simp
  moreover have "fst (cjet_is_word_sequence_valid_auto_alligned cjet_init_checker 0
     (replicate 8 0x41 @ [0xC0, 0x80, 0xC2, 0x80, 0xC2, 0x80, 0xC2, 0x80]) True)" by code_simp
  moreover have "\<not> fst (cjet_is_byte_sequence_valid cjet_init_checker (bytes32 0x80C280C0) True)" by code_simp
  ultimately show ?thesis by blast
qed

end
