(* ===== verification/Masking.thy ===== *)
theory Masking
  imports Utf8_Checker
begin

unbundle bit_operations_syntax

text \<open>
  Masking of websocket payloads: \<^verbatim>\<open>unmask_payload\<close> of \<^verbatim>\<open>src/src/websocket.c\<close>, where \<^verbatim>\<open>uint_fast32_t\<close> has
  eight bytes and the host is little-endian.

  The routine handles the bytes before the first aligned address one by one, then whole words, then the
  rest; \<open>align\<close> is the address of the buffer.  The lemmas show that it is the masking of RFC 6455 byte by
  byte, whatever the address, and that masking twice gives the payload back.
\<close>

fun xor_from :: "nat \<Rightarrow> 8 word list \<Rightarrow> 8 word list \<Rightarrow> 8 word list" where
  "xor_from i key [] = []"
| "xor_from i key (b # bs) = (b XOR key ! (i mod 4)) # xor_from (Suc i) key bs"

fun xor_words :: "64 word \<Rightarrow> nat \<Rightarrow> 8 word list \<Rightarrow> 8 word list" where
  "xor_words aligned_mask 0 buffer = []"
| "xor_words aligned_mask (Suc n) buffer =
    bytes64 (load64 (take 8 buffer) XOR aligned_mask) @ xor_words aligned_mask n (drop 8 buffer)"

definition unmask_payload :: "nat \<Rightarrow> 8 word list \<Rightarrow> 8 word list \<Rightarrow> 8 word list" where
  "unmask_payload align buffer key =
    (if length buffer < 8 then xor_from 0 key buffer
     else
       let pre_length = (8 - align mod 8) mod 8;
           main_length = (length buffer - pre_length) div 8;
           post_length = length buffer - pre_length - main_length * 8;
           aligned_mask = load64 (map (\<lambda>i. key ! ((i + pre_length) mod 4)) [0..<8])
       in xor_from 0 key (take pre_length buffer)
          @ xor_words aligned_mask main_length (drop pre_length buffer)
          @ xor_from (length buffer - post_length) key (drop (length buffer - post_length) buffer))"

subsection \<open>Byte by byte\<close>

lemma length_xor_from [simp]: "length (xor_from i key bs) = length bs"
  by (induction i key bs rule: xor_from.induct) simp_all

lemma xor_from_append: "xor_from i key (as @ bs) = xor_from i key as @ xor_from (i + length as) key bs"
  by (induction as arbitrary: i) simp_all

lemma xor_from_involution [simp]: "xor_from i key (xor_from i key bs) = bs"
  by (induction i key bs rule: xor_from.induct) (simp_all add: xor.assoc)

lemma xor_from_Nil [simp]: "xor_from i key bs = [] \<longleftrightarrow> bs = []"
  by (cases bs) simp_all

lemma xor_from_period: "i mod 4 = j mod 4 \<Longrightarrow> xor_from i key bs = xor_from j key bs"
proof (induction bs arbitrary: i j)
  case (Cons b bs)
  have "Suc i mod 4 = Suc j mod 4" using Cons.prems by presburger
  then have "xor_from (Suc i) key bs = xor_from (Suc j) key bs" by (rule Cons.IH)
  then show ?case by (simp only: xor_from.simps Cons.prems)
qed simp

lemma byte_of_xor: "byte_of j (v XOR w :: 64 word) = byte_of j v XOR byte_of j w"
proof (rule bit_word_eqI)
  fix n
  assume "n < LENGTH(8)"
  then show "bit (byte_of j (v XOR w)) n = bit (byte_of j v XOR byte_of j w) n"
    by (simp add: byte_of_def bit_simps bit_255 bit_255_int)
qed

lemma bytes64_xor: "bytes64 (v XOR w) = map2 (XOR) (bytes64 v) (bytes64 w)"
  by (simp add: bytes64_of byte_of_xor)

lemma xor_from_8:
  assumes "length bs = 8"
  shows "xor_from i key bs = map2 (XOR) bs (map (\<lambda>j. key ! ((j + i) mod 4)) [0..<8])"
proof -
  obtain a b c d e f g h where bs: "bs = [a, b, c, d, e, f, g, h]"
    using assms by (auto simp: numeral_eq_Suc length_Suc_conv)
  show ?thesis unfolding bs by (simp add: upt_conv_Cons del: upt_Suc)
qed

lemma xor_words_bytes:
  "8 * n \<le> length bs \<Longrightarrow>
   xor_words (load64 (map (\<lambda>j. key ! ((j + i) mod 4)) [0..<8])) n bs = xor_from i key (take (8 * n) bs)"
proof (induction n arbitrary: bs)
  case (Suc n)
  have len: "length (take 8 bs) = 8" using Suc.prems by simp
  have first: "bytes64 (load64 (take 8 bs) XOR load64 (map (\<lambda>j. key ! ((j + i) mod 4)) [0..<8])) = xor_from i key (take 8 bs)"
    unfolding bytes64_xor bytes64_load64 [OF len] xor_from_8 [OF len]
    by (subst bytes64_load64) (simp_all del: upt_Suc)
  have split: "take (8 * Suc n) bs = take 8 bs @ take (8 * n) (drop 8 bs)"
    by (simp add: take_add)
  have "xor_from i key (take (8 * Suc n) bs) = xor_from i key (take 8 bs) @ xor_from (i + 8) key (take (8 * n) (drop 8 bs))"
    unfolding split xor_from_append len ..
  moreover have "xor_from (i + 8) key (take (8 * n) (drop 8 bs)) = xor_from i key (take (8 * n) (drop 8 bs))"
    by (rule xor_from_period) presburger
  ultimately show ?case using Suc first by (simp del: take_append)
qed simp

lemma unmask_payload_xor: "unmask_payload align buffer key = xor_from 0 key buffer"
proof (cases "length buffer < 8")
  case False
  define pre where "pre = (8 - align mod 8) mod 8"
  define main where "main = (length buffer - pre) div 8"
  have pre: "pre < 8" by (simp add: pre_def)
  have main: "8 * main \<le> length buffer - pre" by (simp add: main_def)
  have start: "length buffer - (length buffer - pre - main * 8) = pre + 8 * main"
    using main pre False by linarith
  have l: "length (take pre buffer) = pre" "length (take (8 * main) (drop pre buffer)) = 8 * main"
    using main pre False by auto
  have "buffer = take pre buffer @ take (8 * main) (drop pre buffer) @ drop (pre + 8 * main) buffer"
    by (metis append_take_drop_id drop_drop add.commute)
  then have "xor_from 0 key buffer =
      xor_from 0 key (take pre buffer @ take (8 * main) (drop pre buffer) @ drop (pre + 8 * main) buffer)"
    by (rule arg_cong)
  also have "\<dots> = xor_from 0 key (take pre buffer) @ xor_from pre key (take (8 * main) (drop pre buffer))
      @ xor_from (pre + 8 * main) key (drop (pre + 8 * main) buffer)"
    unfolding xor_from_append l by simp
  finally have "xor_from 0 key buffer = \<dots>" .
  moreover have "xor_words (load64 (map (\<lambda>j. key ! ((j + pre) mod 4)) [0..<8])) main (drop pre buffer) =
      xor_from pre key (take (8 * main) (drop pre buffer))"
    using main by (intro xor_words_bytes) simp
  ultimately show ?thesis
    using False start by (simp add: unmask_payload_def Let_def pre_def [symmetric] main_def [symmetric])
qed (simp add: unmask_payload_def)

lemma xor_from_map2: "xor_from i key bs = map2 (XOR) bs (map (\<lambda>j. key ! (j mod 4)) [i..<i + length bs])"
  by (induction i key bs rule: xor_from.induct) (simp_all add: upt_conv_Cons del: upt_Suc)

text \<open>C19: The word-wise masking routine is the byte-wise one and its own inverse: for every address of the
  buffer, every length and every mask, each byte is combined with the mask byte of its own position, and
  masking the result again, at any other address, gives the payload back.\<close>
theorem masking_is_bytewise:
  "unmask_payload align buffer key = map2 (XOR) buffer (map (\<lambda>i. key ! (i mod 4)) [0..<length buffer]) \<and>
   unmask_payload align' (unmask_payload align buffer key) key = buffer"
proof
  show "unmask_payload align buffer key = map2 (XOR) buffer (map (\<lambda>i. key ! (i mod 4)) [0..<length buffer])"
    unfolding unmask_payload_xor using xor_from_map2 [of 0 key buffer] by (simp del: upt_Suc)
  show "unmask_payload align' (unmask_payload align buffer key) key = buffer"
    by (simp add: unmask_payload_xor)
qed

end
