(* ===== verification/Compression.thy ===== *)
theory Compression
  imports Main "HOL-Library.Word"
begin

unbundle bit_operations_syntax

text \<open>
  Per-message compression of websocket payloads: \<^verbatim>\<open>src/src/compression.c\<close>.

  zlib is an argument: \<open>inflate_all\<close> and \<open>deflate_all\<close> run a stream on some input until it stops and
  return the output, the input left over and the stream's next state, or \<open>None\<close> for a zlib error.
  What is modelled is the code around it: the tail that is cut off and put back, and the buffer in which
  the fragments of a compressed message are collected, a block whose first four bytes hold its own size.
  A \<^verbatim>\<open>memcpy\<close> that would leave the block is the fault \<open>Heap_overflow\<close>.

  The lemmas say when the buffer holds the concatenation of the fragments, and that one fragment which
  is larger than the doubled block overflows it.
\<close>

datatype websocket_callback_return = WS_CLOSED | WS_ERROR | WS_OK

datatype ws_fault = Heap_overflow | Null_dereference | Null_callback

record 'z zlib =
  inflate_all :: "bool \<Rightarrow> 'z \<Rightarrow> 8 word list \<Rightarrow> (8 word list \<times> nat \<times> 'z) option"
  deflate_all :: "bool \<Rightarrow> 'z \<Rightarrow> 8 word list \<Rightarrow> (8 word list \<times> 'z) option"

text \<open>\<^verbatim>\<open>strm_decomp\<close> while it collects fragments: \<open>next_in\<close> is \<open>None\<close> when no block was ever stored.\<close>

record decomp =
  next_in :: "8 word list option"
  avail_in :: "32 word"

definition write_int_to_array :: "8 word list \<Rightarrow> 32 word \<Rightarrow> 8 word list" where
  "write_int_to_array array num = map (\<lambda>i. ucast (drop_bit (i * 8) num AND 0xFF)) [0, 1, 2, 3] @ drop 4 array"

definition read_int_from_array :: "8 word list \<Rightarrow> 32 word" where
  "read_int_from_array array =
    (ucast (array ! 0) AND 0xFF) OR (push_bit 8 (ucast (array ! 1)) AND 0xFF00)
    OR (push_bit 16 (ucast (array ! 2)) AND 0xFF0000) OR (push_bit 24 (ucast (array ! 3)) AND 0xFF000000)"

text \<open>\<^verbatim>\<open>malloc\<close> and \<^verbatim>\<open>realloc\<close> of a block: what is new in it is zero here, and never read before it is written.\<close>

definition resize :: "32 word \<Rightarrow> 8 word list \<Rightarrow> 8 word list" where
  "resize n block = take (unat n) (block @ replicate (unat n - length block) 0)"

definition reassemble :: "bool \<Rightarrow> 8 word list \<Rightarrow> decomp \<Rightarrow> (ws_fault + bool) \<times> decomp" where
  "reassemble memory_left msg d =
    (if msg = [] then (Inr True, d)
     else
       let len = word_of_nat (length msg);
           memory = len * 3 + 4;
           fresh = (avail_in d = 0)
       in if fresh \<and> \<not> memory_left then (Inr False, d\<lparr>next_in := None, avail_in := 0\<rparr>)
          else
            let d = (if fresh
                     then \<lparr>next_in = Some (write_int_to_array (resize memory []) memory), avail_in = memory - 4\<rparr>
                     else d)
            in (case next_in d of
                None \<Rightarrow> (Inl Null_dereference, d)
              | Some block \<Rightarrow>
                  let small = (avail_in d \<le> len + 4);
                      next_size = read_int_from_array block * 2
                  in if small \<and> \<not> memory_left then (Inr False, d\<lparr>next_in := None, avail_in := 0\<rparr>)
                     else
                       let block = (if small then write_int_to_array (resize next_size block) next_size else block);
                           avail = (if small then avail_in d + next_size div 2 else avail_in d);
                           write_offset = unat (read_int_from_array block - avail)
                       in if length block < write_offset + length msg
                          then (Inl Heap_overflow, \<lparr>next_in = Some block, avail_in = avail\<rparr>)
                          else (Inr True,
                            \<lparr>next_in = Some (take write_offset block @ msg @ drop (write_offset + length msg) block),
                             avail_in = avail - len\<rparr>)))"

text \<open>The collected bytes, as \<^verbatim>\<open>text_frame_received_comp\<close> takes them out at the last fragment.\<close>

definition collected :: "decomp \<Rightarrow> 8 word list option" where
  "collected d = map_option (\<lambda>block. take (unat (read_int_from_array block - avail_in d - 4)) (drop 4 block)) (next_in d)"

subsection \<open>Inflating and deflating a message\<close>

definition private_decompress ::
    "'z zlib \<Rightarrow> bool \<Rightarrow> bool \<Rightarrow> 'z \<Rightarrow> 8 word list \<Rightarrow> (8 word list \<times> 'z) option" where
  "private_decompress z memory_left client_no_context_takeover strm msg =
    (if \<not> memory_left then None
     else (case inflate_all z client_no_context_takeover strm (msg @ [0, 0, 0xFF, 0xFF]) of
         None \<Rightarrow> None
       | Some (out, left, strm) \<Rightarrow> if left \<noteq> 0 then None else Some (out, strm)))"

text \<open>
  \<^verbatim>\<open>websocket_compress\<close>: the output buffer has twice the length of the message, the tail of four bytes
  is taken off the number of bytes written, which is unsigned; the result is returned as \<^verbatim>\<open>int\<close>.
\<close>

definition websocket_compress ::
    "'z zlib \<Rightarrow> nat \<Rightarrow> bool \<Rightarrow> 'z \<Rightarrow> 8 word list \<Rightarrow> int \<times> 8 word list \<times> 'z" where
  "websocket_compress z compression_level server_no_context_takeover strm src =
    (if compression_level = 0 then (int (length src), src, strm)
     else (case deflate_all z server_no_context_takeover strm src of
         None \<Rightarrow> (-1, [], strm)
       | Some (out, strm) \<Rightarrow>
           let dest = take (length src * 2) out;
               have = (word_of_nat (length dest) :: 32 word)
           in (sint (have - 4), dest, strm)))"

subsection \<open>The buffer of fragments\<close>

lemma length_write_int [simp]: "4 \<le> length array \<Longrightarrow> length (write_int_to_array array num) = length array"
  by (simp add: write_int_to_array_def)

lemma byte_bits: "8 \<le> n \<Longrightarrow> \<not> bit (b :: 8 word) n"
  using bit_imp_le_length [of b n] by auto

lemma byte_masks:
  "bit (0xFF :: int) n \<longleftrightarrow> n < 8" "bit (0xFF00 :: int) n \<longleftrightarrow> 8 \<le> n \<and> n < 16"
  "bit (0xFF0000 :: int) n \<longleftrightarrow> 16 \<le> n \<and> n < 24" "bit (0xFF000000 :: int) n \<longleftrightarrow> 24 \<le> n \<and> n < 32"
proof -
  have m: "(0xFF :: int) = mask 8" "(0xFF00 :: int) = push_bit 8 (mask 8)" "(0xFF0000 :: int) = push_bit 16 (mask 8)"
    "(0xFF000000 :: int) = push_bit 24 (mask 8)"
    by (simp_all add: mask_eq_exp_minus_1 push_bit_eq_mult)
  show "bit (0xFF :: int) n \<longleftrightarrow> n < 8" unfolding m(1) by (simp only: bit_mask_iff) simp
  show "bit (0xFF00 :: int) n \<longleftrightarrow> 8 \<le> n \<and> n < 16"
    unfolding m(2) by (simp only: bit_push_bit_iff bit_mask_iff) auto
  show "bit (0xFF0000 :: int) n \<longleftrightarrow> 16 \<le> n \<and> n < 24"
    unfolding m(3) by (simp only: bit_push_bit_iff bit_mask_iff) auto
  show "bit (0xFF000000 :: int) n \<longleftrightarrow> 24 \<le> n \<and> n < 32"
    unfolding m(4) by (simp only: bit_push_bit_iff bit_mask_iff) auto
qed

lemma read_write_int [simp]: "read_int_from_array (write_int_to_array array num) = num"
proof (rule bit_word_eqI)
  fix n
  assume "n < LENGTH(32)"
  then consider "n < 8" | "8 \<le> n" "n < 16" | "16 \<le> n" "n < 24" | "24 \<le> n" "n < 32" by fastforce
  then show "bit (read_int_from_array (write_int_to_array array num)) n = bit num n"
    unfolding read_int_from_array_def write_int_to_array_def
    by cases (auto simp: bit_simps byte_masks)
qed

lemma length_resize [simp]: "length (resize n block) = unat n"
  by (simp add: resize_def)

lemma take_resize: "k \<le> length block \<Longrightarrow> k \<le> unat n \<Longrightarrow> take k (resize n block) = take k block"
  by (simp add: resize_def min_absorb1)

lemma of_nat_le: "a < 2 ^ 32 \<Longrightarrow> b < 2 ^ 32 \<Longrightarrow> (word_of_nat a :: 32 word) \<le> word_of_nat b \<longleftrightarrow> a \<le> b"
  by (simp add: of_nat_word_less_eq_iff take_bit_nat_eq_self)

lemma unat_of_small: "a < 2 ^ 32 \<Longrightarrow> unat (word_of_nat a :: 32 word) = a"
  by (simp add: unsigned_of_nat take_bit_nat_eq_self)

lemma of_nat_eq_0: "a < 2 ^ 32 \<Longrightarrow> (word_of_nat a :: 32 word) = 0 \<longleftrightarrow> a = 0"
  using unat_of_small [of a] unat_eq_zero [of "word_of_nat a :: 32 word"] by simp

text \<open>A block of size \<open>n\<close> that holds \<open>content\<close>.\<close>

definition holds :: "decomp \<Rightarrow> nat \<Rightarrow> 8 word list \<Rightarrow> bool" where
  "holds d n content \<longleftrightarrow> (\<exists>block. next_in d = Some block \<and> length block = n \<and> read_int_from_array block = word_of_nat n \<and>
     length content + 4 < n \<and> avail_in d = word_of_nat (n - 4 - length content) \<and>
     take (length content) (drop 4 block) = content)"

lemma holds_collected: "holds d n content \<Longrightarrow> n < 2 ^ 32 \<Longrightarrow> collected d = Some content"
proof -
  assume h: "holds d n content" and n: "n < 2 ^ 32"
  then obtain block where b: "next_in d = Some block" "read_int_from_array block = word_of_nat n"
    "length content + 4 < n" "avail_in d = word_of_nat (n - 4 - length content)"
    "take (length content) (drop 4 block) = content" by (auto simp: holds_def)
  have "(word_of_nat n :: 32 word) - word_of_nat (n - 4 - length content) - 4 = word_of_nat (length content)"
    using b(3) by (simp add: of_nat_diff)
  with b n show ?thesis by (simp add: collected_def unat_of_small)
qed

lemma write_int_drop: "drop 4 (write_int_to_array array num) = drop 4 array"
  by (simp add: write_int_to_array_def)

lemma reassemble_appends:
  assumes h: "holds d n content" and ne: "msg \<noteq> []" and big: "2 * n < 2 ^ 32" "length msg + 4 < 2 ^ 32"
    and fits: "length msg < n"
  shows "\<exists>d' n'. reassemble True msg d = (Inr True, d') \<and> holds d' n' (content @ msg) \<and> n \<le> n' \<and>
    (n' \<noteq> n \<longrightarrow> n' = 2 * n \<and> n' \<le> 2 * (length (content @ msg) + 8))"
proof -
  obtain block where b: "next_in d = Some block" "length block = n" "read_int_from_array block = word_of_nat n"
    "length content + 4 < n" "avail_in d = word_of_nat (n - 4 - length content)"
    "take (length content) (drop 4 block) = content" using h by (auto simp: holds_def)
  let ?a = "n - 4 - length content"
  have small: "?a < 2 ^ 32" "?a \<noteq> 0" using b(4) big by simp_all
  have a: "avail_in d \<noteq> 0" unfolding b(5) using of_nat_eq_0 [OF small(1)] small(2) by blast
  have le: "avail_in d \<le> word_of_nat (length msg) + 4 \<longleftrightarrow> ?a \<le> length msg + 4"
    using of_nat_le [of ?a "length msg + 4"] b(5) big by simp
  show ?thesis
  proof (cases "?a \<le> length msg + 4")
    case True
    define block' where "block' = write_int_to_array (resize (word_of_nat n * 2) block) (word_of_nat n * 2)"
    have two: "(word_of_nat n * 2 :: 32 word) = word_of_nat (2 * n)" by simp
    have len': "length block' = 2 * n" unfolding block'_def two using big b(4) by (simp add: unat_of_small del: of_nat_mult)
    have half: "(word_of_nat n * 2 :: 32 word) div 2 = word_of_nat n"
      unfolding two using big by (simp add: word_arith_nat_div unat_of_small del: of_nat_mult)
    have offset: "(word_of_nat n * 2 :: 32 word) - (avail_in d + word_of_nat n) = word_of_nat (length content + 4)"
      using b(4,5) by (simp add: of_nat_diff)
    have size': "read_int_from_array block' = word_of_nat n * 2" by (simp add: block'_def)
    have offset': "(word_of_nat n :: 32 word) - avail_in d = word_of_nat (length content + 4)"
      using b(4,5) by (simp add: of_nat_diff)
    have off: "unat (word_of_nat (length content + 4) :: 32 word) = length content + 4"
      using b(4) big by (intro unat_of_small) simp
    have content': "take (length content) (drop 4 block') = content"
    proof -
      have "take (length content) (drop 4 block') = drop 4 (take (length content + 4) (resize (word_of_nat n * 2) block))"
        unfolding block'_def write_int_drop by (simp add: drop_take)
      also have "\<dots> = drop 4 (take (length content + 4) block)"
        unfolding two using b(2,4) big by (subst take_resize) (simp_all add: unat_of_small del: of_nat_mult)
      finally show ?thesis using b(6) by (simp add: drop_take)
    qed
    let ?d = "\<lparr>next_in = Some (take (length content + 4) block' @ msg @ drop (length content + 4 + length msg) block'),
      avail_in = avail_in d + word_of_nat n - word_of_nat (length msg)\<rparr>"
    have run: "reassemble True msg d = (Inr True, ?d)"
      using ne a le True b(1,3,4) len' fits size'
      by (simp add: reassemble_def Let_def block'_def [symmetric] half offset offset' off del: of_nat_add)
    have "holds ?d (2 * n) (content @ msg)"
      unfolding holds_def
    proof (intro exI conjI)
      let ?b = "take (length content + 4) block' @ msg @ drop (length content + 4 + length msg) block'"
      show "next_in ?d = Some ?b" by simp
      show "length ?b = 2 * n" using len' b(4) fits by simp
      show "read_int_from_array ?b = word_of_nat (2 * n)"
      proof -
        have "?b ! i = block' ! i" if "i < 4" for i using that len' b(4) by (simp add: nth_append)
        then have "read_int_from_array ?b = read_int_from_array block'" by (simp add: read_int_from_array_def)
        then show ?thesis by (simp add: block'_def two del: of_nat_mult)
      qed
      show "length (content @ msg) + 4 < 2 * n" using b(4) fits by simp
      show "avail_in ?d = word_of_nat (2 * n - 4 - length (content @ msg))"
        using b(4,5) fits by (simp add: of_nat_diff)
      show "take (length (content @ msg)) (drop 4 ?b) = content @ msg"
        using content' len' b(4) by (simp add: drop_take [of 4 "length content + 4", simplified])
    qed
    with run True b(4) show ?thesis by (intro exI [of _ ?d] exI [of _ "2 * n"]) auto
  next
    case False
    have offset: "(word_of_nat n :: 32 word) - avail_in d = word_of_nat (length content + 4)"
      using b(4,5) by (simp add: of_nat_diff)
    have off: "unat (word_of_nat (length content + 4) :: 32 word) = length content + 4"
      using b(4) big by (intro unat_of_small) simp
    let ?b = "take (length content + 4) block @ msg @ drop (length content + 4 + length msg) block"
    let ?d = "\<lparr>next_in = Some ?b, avail_in = avail_in d - word_of_nat (length msg)\<rparr>"
    have run: "reassemble True msg d = (Inr True, ?d)"
      using ne a le False b(1-4) by (simp add: reassemble_def Let_def offset off del: of_nat_add)
    have "holds ?d n (content @ msg)"
      unfolding holds_def
    proof (intro exI conjI)
      show "next_in ?d = Some ?b" by simp
      show "length ?b = n" using False b(2,4) by simp
      have "?b ! i = block ! i" if "i < 4" for i using that b(2,4) by (simp add: nth_append)
      then show "read_int_from_array ?b = word_of_nat n" using b(3) by (simp add: read_int_from_array_def)
      show "length (content @ msg) + 4 < n" using False by simp
      show "avail_in ?d = word_of_nat (n - 4 - length (content @ msg))"
        using False b(4,5) by (simp add: of_nat_diff)
      show "take (length (content @ msg)) (drop 4 ?b) = content @ msg"
        using b(2,4,6) by (simp add: drop_take [of 4 "length content + 4", simplified])
    qed
    with run show ?thesis by (intro exI [of _ ?d] exI [of _ n]) auto
  qed
qed

lemma reassemble_fresh:
  assumes "avail_in d = 0" "msg \<noteq> []" "3 * length msg + 4 < 2 ^ 32"
  shows "\<exists>d1. holds d1 (3 * length msg + 4) [] \<and> avail_in d1 \<noteq> 0 \<and> reassemble True msg d = reassemble True msg d1"
proof -
  let ?m = "word_of_nat (3 * length msg + 4) :: 32 word"
  let ?d1 = "\<lparr>next_in = Some (write_int_to_array (resize ?m []) ?m), avail_in = ?m - 4\<rparr>"
  have m: "word_of_nat (length msg) * 3 + 4 = ?m" by simp
  have len: "unat ?m = 3 * length msg + 4" by (rule unat_of_small [OF assms(3)])
  have avail: "?m - 4 = word_of_nat (3 * length msg)" by simp
  have nz: "?m - 4 \<noteq> 0"
    unfolding avail using of_nat_eq_0 [of "3 * length msg"] assms(2,3) by (metis length_0_conv less_add_same_cancel1 less_trans mult_eq_0_iff zero_less_numeral zero_neq_numeral)
  have "holds ?d1 (3 * length msg + 4) []"
    unfolding holds_def using assms(2) len by (intro exI [of _ "write_int_to_array (resize ?m []) ?m"]) simp
  moreover have "reassemble True msg d = reassemble True msg ?d1"
    unfolding reassemble_def Let_def m using assms(1,2) nz by simp
  ultimately show ?thesis using nz by (intro exI [of _ ?d1]) simp
qed

fun collect_fragments :: "8 word list list \<Rightarrow> decomp \<Rightarrow> (ws_fault + bool) \<times> decomp" where
  "collect_fragments [] d = (Inr True, d)"
| "collect_fragments (f # fs) d = (case reassemble True f d of
     (Inr True, d) \<Rightarrow> collect_fragments fs d
   | result \<Rightarrow> result)"

lemma collect_rest:
  assumes "holds d n content" "content \<noteq> []" "\<forall>f\<in>set fs. length f < n" "n \<le> 6 * length content + 8"
    and "length content + length (concat fs) < 2 ^ 28"
  shows "\<exists>d' n'. collect_fragments fs d = (Inr True, d') \<and> holds d' n' (content @ concat fs) \<and> n' < 2 ^ 32"
  using assms
proof (induction fs arbitrary: d n content)
  case Nil
  then show ?case by (intro exI [of _ d] exI [of _ n]) simp
next
  case (Cons f fs)
  show ?case
  proof (cases "f = []")
    case True
    with Cons.IH [of d n content] Cons.prems show ?thesis by (simp add: reassemble_def)
  next
    case False
    have "2 * n < 2 ^ 32" "length f + 4 < 2 ^ 32" "length f < n" using Cons.prems by simp_all
    from reassemble_appends [OF Cons.prems(1) False this] obtain d1 n1 where
      r: "reassemble True f d = (Inr True, d1)" and h: "holds d1 n1 (content @ f)" and n: "n \<le> n1"
      and n1: "n1 \<noteq> n \<longrightarrow> n1 \<le> 2 * (length (content @ f) + 8)" by blast
    have "0 < length f" "0 < length content" using False Cons.prems(2) by simp_all
    then have two: "2 \<le> length (content @ f)" by (simp only: length_append)
    have grow: "n1 \<le> 6 * length (content @ f) + 8"
    proof (cases "n1 = n")
      case True
      with Cons.prems(4) show ?thesis by simp
    next
      case False
      with n1 have "n1 \<le> 2 * (length (content @ f) + 8)" by blast
      with two show ?thesis by presburger
    qed
    have "content @ f \<noteq> []" "\<forall>g\<in>set fs. length g < n1" using Cons.prems(2,3) n by fastforce+
    from Cons.IH [OF h this grow] Cons.prems(5) r show ?thesis by simp
  qed
qed

lemma collect_first:
  assumes "avail_in d = 0" "f \<noteq> []" "length f < 2 ^ 28"
  shows "\<exists>d1 n1. reassemble True f d = (Inr True, d1) \<and> holds d1 n1 f \<and> 3 * length f + 4 \<le> n1 \<and> n1 \<le> 6 * length f + 8"
proof -
  from reassemble_fresh [OF assms(1,2)] assms(3) obtain d0 where
    h: "holds d0 (3 * length f + 4) []" and r: "reassemble True f d = reassemble True f d0" by auto
  from reassemble_appends [OF h assms(2)] assms(3) obtain d1 n1 where
    "reassemble True f d0 = (Inr True, d1)" "holds d1 n1 f" "3 * length f + 4 \<le> n1"
    "n1 \<noteq> 3 * length f + 4 \<longrightarrow> n1 = 2 * (3 * length f + 4)" by auto
  with r show ?thesis by (intro exI [of _ d1] exI [of _ n1]) auto
qed

text \<open>The fragments of a compressed message are collected in order.  As long as memory lasts and no
  fragment is more than three times as long as the first, nothing is written outside the block and the
  collected bytes are the concatenation of the fragments.\<close>
theorem fragments_are_collected:
  assumes "avail_in d = 0" "f \<noteq> []" "\<forall>g\<in>set fs. length g \<le> 3 * length f" "length (concat (f # fs)) < 2 ^ 28"
  shows "\<exists>d'. collect_fragments (f # fs) d = (Inr True, d') \<and> collected d' = Some (concat (f # fs))"
proof -
  from collect_first [OF assms(1,2)] assms(4) obtain d1 n1 where
    r: "reassemble True f d = (Inr True, d1)" and h: "holds d1 n1 f" and n1: "3 * length f + 4 \<le> n1" "n1 \<le> 6 * length f + 8"
    by auto
  have "\<forall>g\<in>set fs. length g < n1" using assms(3) n1(1) by fastforce
  from collect_rest [OF h assms(2) this n1(2)] assms(4) obtain d' n' where
    "collect_fragments fs d1 = (Inr True, d')" "holds d' n' (f @ concat fs)" "n' < 2 ^ 32" by auto
  with r holds_collected show ?thesis by auto
qed

definition empty_decomp :: decomp where
  "empty_decomp = \<lparr>next_in = None, avail_in = 0\<rparr>"

theorem fragments_are_collected_witness:
  "\<exists>d'. collect_fragments [[1, 2], [], [3, 4, 5]] empty_decomp = (Inr True, d') \<and> collected d' = Some [1, 2, 3, 4, 5]"
  using fragments_are_collected [of empty_decomp "[1, 2]" "[[], [3, 4, 5]]"] by (simp add: empty_decomp_def)

text \<open>A fragment that is much longer than the first one overflows the block.  The block is doubled once,
  whatever the length of the fragment, and then the fragment is copied: if it is longer than what a
  doubled block has left, the copy runs past the end of the heap block.\<close>
theorem long_fragment_overflows:
  assumes "avail_in d = 0" "f \<noteq> []" "11 * length f + 12 < length g" "length g < 2 ^ 28"
  shows "\<exists>d'. collect_fragments [f, g] d = (Inl Heap_overflow, d')"
proof -
  from collect_first [OF assms(1,2)] assms(3,4) obtain d1 n where
    r: "reassemble True f d = (Inr True, d1)" and h: "holds d1 n f" and n: "3 * length f + 4 \<le> n" "n \<le> 6 * length f + 8"
    by auto
  obtain block where b: "next_in d1 = Some block" "length block = n" "read_int_from_array block = word_of_nat n"
    "length f + 4 < n" "avail_in d1 = word_of_nat (n - 4 - length f)"
    using h by (auto simp: holds_def)
  let ?a = "n - 4 - length f"
  have small: "?a < 2 ^ 32" "?a \<noteq> 0" "n < 2 ^ 32" "2 * n < 2 ^ 32" using b(4) n assms(3,4) by simp_all
  have a: "avail_in d1 \<noteq> 0" unfolding b(5) using of_nat_eq_0 [OF small(1)] small(2) by blast
  have le: "avail_in d1 \<le> word_of_nat (length g) + 4"
    using of_nat_le [OF small(1), of "length g + 4"] b(5) n assms(3,4) by simp
  have two: "(word_of_nat n * 2 :: 32 word) = word_of_nat (2 * n)" by simp
  have half: "(word_of_nat n * 2 :: 32 word) div 2 = word_of_nat n"
    unfolding two using small by (simp add: word_arith_nat_div unat_of_small del: of_nat_mult)
  let ?block = "write_int_to_array (resize (word_of_nat n * 2) block) (word_of_nat n * 2)"
  have len: "length ?block = 2 * n" unfolding two using small(4) n by (simp add: unat_of_small del: of_nat_mult)
  have offset: "(word_of_nat n :: 32 word) - avail_in d1 = word_of_nat (length f + 4)"
    "(word_of_nat n * 2 :: 32 word) - (avail_in d1 + word_of_nat n) = word_of_nat (length f + 4)"
    using b(4,5) by (simp_all add: of_nat_diff)
  have off: "unat (word_of_nat (length f + 4) :: 32 word) = length f + 4"
    using assms(3,4) by (intro unat_of_small) simp
  have over: "2 * n < length f + 4 + length g" using n assms(3) by linarith
  have ne: "g \<noteq> []" using assms(3) by auto
  have "reassemble True g d1 = (Inl Heap_overflow, \<lparr>next_in = Some ?block, avail_in = avail_in d1 + word_of_nat n\<rparr>)"
    using a le ne b(1,3) len over by (simp add: reassemble_def Let_def half offset off del: of_nat_add)
  with r show ?thesis by simp
qed

theorem long_fragment_overflows_witness:
  "\<exists>d'. collect_fragments [[1], replicate 24 0] empty_decomp = (Inl Heap_overflow, d')"
  using long_fragment_overflows [of empty_decomp "[1]" "replicate 24 0"] by (simp add: empty_decomp_def)

text \<open>Short compressed messages are sent wrong.  When the deflated message and its tail do not fit into
  twice the length of the message, deflate stops at the end of the buffer and the four bytes that are cut
  off are not the tail; for a message of one byte the length computed is negative.\<close>
theorem one_byte_message_has_negative_length:
  assumes "level \<noteq> 0" "deflate_all z noctx strm [b] = Some (out, strm')" "2 \<le> length out"
  shows "fst (websocket_compress z level noctx strm [b]) = -2"
proof -
  have len: "length (take 2 out) = 2" using assms(3) by simp
  have "sint ((2 :: 32 word) - 4) = -2" by simp
  then show ?thesis using assms len by (simp add: websocket_compress_def Let_def)
qed

definition stored_block :: "unit zlib" where
  "stored_block = \<lparr>inflate_all = (\<lambda>fin s bytes. Some (bytes, 0, s)), deflate_all = (\<lambda>fin s bytes. Some (bytes @ [0, 0, 0xFF, 0xFF], s))\<rparr>"

theorem one_byte_message_has_negative_length_witness:
  "fst (websocket_compress stored_block 1 False () [65]) = -2"
  by (rule one_byte_message_has_negative_length [where out = "[65, 0, 0, 0xFF, 0xFF]"]) (simp_all add: stored_block_def)

end
