(* ===== verification/Websocket.thy ===== *)
theory Websocket
  imports Buffered_Socket Jet_Endian Masking Compression
begin

text \<open>
  Websocket framing: \<^verbatim>\<open>src/src/websocket.c\<close> after the upgrade, with the callers of \<^verbatim>\<open>compression.c\<close>.

  \<open>ws_state\<close> is \<^verbatim>\<open>struct websocket\<close> with what its code reaches: the application behind the callbacks and
  the connection it writes to (\<open>app\<close>), how often \<^verbatim>\<open>free_connection\<close> ran (\<open>closes\<close>) and what C leaves
  undefined (\<open>ws_faults\<close>).  \<open>ws_env\<close> holds the callbacks a user installs, \<^verbatim>\<open>writev\<close> of the buffered reader,
  zlib, the random bytes for masks, and where the payload buffer lies in memory.

  The reading side is a client of the buffered socket: one callback per field of a frame header.  The
  lemmas show that it takes a frame of RFC 6455 from the stream whatever the chunks, that what
  \<open>send_frame\<close> writes is such a frame, which frames are refused, and that the connection is closed exactly
  once.
\<close>

record ('z, 'a) ws_state =
  is_server :: bool
  upgrade_complete :: bool
  fin :: bool
  rsv :: "8 word"
  opcode :: "8 word"
  masked :: bool
  frag_opcode :: "8 word"
  is_fragmented :: bool
  is_frag_compressed :: bool
  ws_length :: "64 word"
  mask_key :: "8 word list"
  compression_level :: nat
  client_max_window_bits :: nat
  client_no_context_takeover :: bool
  server_max_window_bits :: nat
  server_no_context_takeover :: bool
  ext_response :: "string option"
  accepted :: bool
  deflate_stream :: 'z
  inflate_stream :: 'z
  fragments :: decomp
  draws :: nat
  app :: 'a
  closes :: nat
  ws_faults :: "ws_fault list"

record ('z, 'a) ws_env =
  writev_fn :: "8 word list list \<Rightarrow> 'a \<Rightarrow> int \<times> 'a"
  zlib_of :: "'z zlib"
  random_mask :: "nat \<Rightarrow> 8 word list"
  buffer_address :: nat
  memory_left :: bool
  on_error :: "'a \<Rightarrow> 'a"
  text_message_received :: "(8 word list \<Rightarrow> 'a \<Rightarrow> websocket_callback_return \<times> 'a) option"
  text_frame_received :: "(8 word list \<Rightarrow> bool \<Rightarrow> 'a \<Rightarrow> websocket_callback_return \<times> 'a) option"
  binary_message_received :: "(8 word list \<Rightarrow> 'a \<Rightarrow> websocket_callback_return \<times> 'a) option"
  binary_frame_received :: "(8 word list \<Rightarrow> bool \<Rightarrow> 'a \<Rightarrow> websocket_callback_return \<times> 'a) option"
  ping_received :: "(8 word list \<Rightarrow> 'a \<Rightarrow> websocket_callback_return \<times> 'a) option"
  pong_received :: "(8 word list \<Rightarrow> 'a \<Rightarrow> websocket_callback_return \<times> 'a) option"
  close_received :: "(16 word \<Rightarrow> 'a \<Rightarrow> 'a) option"

definition WS_CONTINUATION_FRAME :: "8 word" where "WS_CONTINUATION_FRAME = 0"
definition WS_TEXT_FRAME :: "8 word" where "WS_TEXT_FRAME = 1"
definition WS_BINARY_FRAME :: "8 word" where "WS_BINARY_FRAME = 2"
definition WS_CLOSE_FRAME :: "8 word" where "WS_CLOSE_FRAME = 8"
definition WS_PING_FRAME :: "8 word" where "WS_PING_FRAME = 9"
definition WS_PONG_FRAME :: "8 word" where "WS_PONG_FRAME = 10"

definition WS_CLOSE_NORMAL :: "16 word" where "WS_CLOSE_NORMAL = 1000"
definition WS_CLOSE_GOING_AWAY :: "16 word" where "WS_CLOSE_GOING_AWAY = 1001"
definition WS_CLOSE_PROTOCOL_ERROR :: "16 word" where "WS_CLOSE_PROTOCOL_ERROR = 1002"
definition WS_CLOSE_UNSUPPORTED :: "16 word" where "WS_CLOSE_UNSUPPORTED = 1003"
definition WS_CLOSE_UNSUPPORTED_DATA :: "16 word" where "WS_CLOSE_UNSUPPORTED_DATA = 1007"
definition WS_CLOSE_INTERNAL_ERROR :: "16 word" where "WS_CLOSE_INTERNAL_ERROR = 1011"
definition WS_CLOSE_RESERVED_LOWER_BOUND :: "16 word" where "WS_CLOSE_RESERVED_LOWER_BOUND = 3000"
definition WS_CLOSE_RESERVED_UPPER_BOUND :: "16 word" where "WS_CLOSE_RESERVED_UPPER_BOUND = 4999"
definition WS_SMALL_FRAME_SIZE :: nat where "WS_SMALL_FRAME_SIZE = 125"
definition PER_MESSAGE_COMPRESSED_BIT :: "8 word" where "PER_MESSAGE_COMPRESSED_BIT = 4"

definition ws_fault :: "ws_fault \<Rightarrow> ('z, 'a) ws_state \<Rightarrow> ('z, 'a) ws_state" where
  "ws_fault f s = s\<lparr>ws_faults := ws_faults s @ [f]\<rparr>"

subsection \<open>Sending\<close>

text \<open>
  A compressed length that is negative becomes a huge \<^verbatim>\<open>size_t\<close>: \<^verbatim>\<open>writev\<close> refuses it, and a client
  runs over the end of the buffer when it masks.
\<close>

definition length_fields_of :: "int \<Rightarrow> 8 word list \<times> 8 word" where
  "length_fields_of len =
    (if len < 126 then ([], word_of_int len)
     else if len < 65536 then (le_bytes 2 (uint (jet_htobe16 (word_of_int len))), 126)
     else (le_bytes 8 (uint (jet_htobe64 (word_of_int len))), 127))"

definition send_frame :: "('z, 'a) ws_env \<Rightarrow> 8 word list \<Rightarrow> 8 word \<Rightarrow> ('z, 'a) ws_state \<Rightarrow> int \<times> ('z, 'a) ws_state" where
  "send_frame E payload type s =
    (let compress = (accepted s \<and> type < WS_CLOSE_FRAME);
         (len, data, strm) =
           (if compress
            then websocket_compress (zlib_of E) (compression_level s) (server_no_context_takeover s) (deflate_stream s) payload
            else (int (length payload), payload, deflate_stream s));
         s = s\<lparr>deflate_stream := strm\<rparr>
     in if len < 0 then (-1, if is_server s then s else ws_fault Heap_overflow s)
        else
          let data = take (nat len) data;
              rsv_bit = (if compress then 0x40 else 0);
              (ext_len, first_len) = length_fields_of len;
              first = type OR 0x80 OR rsv_bit;
              (key, data, first_len, s) =
                (if is_server s then ([], data, first_len, s)
                 else let key = random_mask E (draws s)
                   in (key, unmask_payload (buffer_address E) data key, first_len OR 0x80, s\<lparr>draws := draws s + 1\<rparr>));
              (r, a) = writev_fn E [[first, first_len] @ ext_len @ key, data] (app s)
          in (r, s\<lparr>app := a\<rparr>))"

definition websocket_send_binary_frame where
  "websocket_send_binary_frame E payload s = send_frame E payload WS_BINARY_FRAME s"

definition websocket_send_text_frame where
  "websocket_send_text_frame E payload s = send_frame E payload WS_TEXT_FRAME s"

definition websocket_send_ping_frame where
  "websocket_send_ping_frame E payload s = send_frame E payload WS_PING_FRAME s"

definition websocket_send_pong_frame where
  "websocket_send_pong_frame E payload s = send_frame E payload WS_PONG_FRAME s"

definition websocket_send_close_frame ::
    "('z, 'a) ws_env \<Rightarrow> 16 word \<Rightarrow> ('z, 'a) ws_state \<Rightarrow> int \<times> ('z, 'a) ws_state" where
  "websocket_send_close_frame E status_code s = send_frame E (le_bytes 2 (uint (jet_htobe16 status_code))) WS_CLOSE_FRAME s"

text \<open>\<^verbatim>\<open>free_connection\<close> and the release of the zlib streams give memory back only.\<close>

definition websocket_close :: "('z, 'a) ws_env \<Rightarrow> 16 word \<Rightarrow> ('z, 'a) ws_state \<Rightarrow> ('z, 'a) ws_state" where
  "websocket_close E status_code s =
    (let s = (if upgrade_complete s then snd (websocket_send_close_frame E status_code s) else s)
     in s\<lparr>closes := closes s + 1\<rparr>)"

definition handle_error :: "('z, 'a) ws_env \<Rightarrow> 16 word \<Rightarrow> ('z, 'a) ws_state \<Rightarrow> ('z, 'a) ws_state" where
  "handle_error E status_code s = (let s = websocket_close E status_code s in s\<lparr>app := on_error E (app s)\<rparr>)"

subsection \<open>Delivering, with decompression\<close>

definition call_back ::
    "('a \<Rightarrow> websocket_callback_return \<times> 'a) option \<Rightarrow> ('z, 'a) ws_state \<Rightarrow> websocket_callback_return \<times> ('z, 'a) ws_state" where
  "call_back f s = (case f of
     None \<Rightarrow> (WS_ERROR, ws_fault Null_callback s)
   | Some f \<Rightarrow> (case f (app s) of (ret, a) \<Rightarrow> (ret, s\<lparr>app := a\<rparr>)))"

text \<open>\<^verbatim>\<open>text_received_comp\<close> and \<^verbatim>\<open>binary_received_comp\<close> are the same but for the type of the message.\<close>

definition received_comp ::
    "('z, 'a) ws_env \<Rightarrow> bool \<Rightarrow> 8 word list \<Rightarrow> (8 word list \<Rightarrow> 'a \<Rightarrow> websocket_callback_return \<times> 'a) option \<Rightarrow>
     ('z, 'a) ws_state \<Rightarrow> websocket_callback_return \<times> ('z, 'a) ws_state" where
  "received_comp E is_compressed msg message_received s =
    (if is_compressed \<and> compression_level s \<noteq> 0
     then (case private_decompress (zlib_of E) (memory_left E) (client_no_context_takeover s) (inflate_stream s) msg of
         None \<Rightarrow> (WS_ERROR, s)
       | Some (out, strm) \<Rightarrow> call_back (map_option (\<lambda>f. f out) message_received) (s\<lparr>inflate_stream := strm\<rparr>))
     else call_back (map_option (\<lambda>f. f msg) message_received) s)"

definition frame_received_comp ::
    "('z, 'a) ws_env \<Rightarrow> bool \<Rightarrow> 8 word list \<Rightarrow> bool \<Rightarrow>
     (8 word list \<Rightarrow> bool \<Rightarrow> 'a \<Rightarrow> websocket_callback_return \<times> 'a) option \<Rightarrow>
     ('z, 'a) ws_state \<Rightarrow> websocket_callback_return \<times> ('z, 'a) ws_state" where
  "frame_received_comp E is_compressed msg is_last_frame frame_received s =
    (if is_compressed \<and> compression_level s \<noteq> 0
     then (case reassemble (memory_left E) msg (fragments s) of
         (Inl fault, d) \<Rightarrow> (WS_ERROR, ws_fault fault (s\<lparr>fragments := d\<rparr>))
       | (Inr False, d) \<Rightarrow> (WS_ERROR, s\<lparr>fragments := d\<rparr>)
       | (Inr True, d) \<Rightarrow>
          if \<not> is_last_frame then (WS_OK, s\<lparr>fragments := d\<rparr>)
          else (case collected d of
              None \<Rightarrow> (WS_ERROR, ws_fault Null_dereference s)
            | Some whole \<Rightarrow>
               (case private_decompress (zlib_of E) (memory_left E) (client_no_context_takeover s) (inflate_stream s) whole of
                 None \<Rightarrow> (WS_ERROR, s)
               | Some (out, strm) \<Rightarrow>
                   call_back (map_option (\<lambda>f. f out is_last_frame) frame_received)
                     (s\<lparr>inflate_stream := strm, fragments := d\<lparr>avail_in := 0\<rparr>\<rparr>))))
     else call_back (map_option (\<lambda>f. f msg is_last_frame) frame_received) s)"

subsection \<open>Receiving\<close>

definition is_status_code_invalid :: "16 word \<Rightarrow> bool" where
  "is_status_code_invalid status_code =
    (let r = True;
         r = (if WS_CLOSE_NORMAL \<le> status_code \<and> status_code \<le> WS_CLOSE_UNSUPPORTED then False else r);
         r = (if WS_CLOSE_UNSUPPORTED_DATA \<le> status_code \<and> status_code \<le> WS_CLOSE_INTERNAL_ERROR then False else r);
         r = (if WS_CLOSE_RESERVED_LOWER_BOUND \<le> status_code \<and> status_code \<le> WS_CLOSE_RESERVED_UPPER_BOUND then False else r)
     in r)"

text \<open>The checks before the switch: \<open>None\<close> is \<^verbatim>\<open>WS_CLOSE_PROTOCOL_ERROR\<close>; otherwise the compression bit and the flags.\<close>

definition check_flags :: "('z, 'a) ws_state \<Rightarrow> (bool \<times> ('z, 'a) ws_state) option" where
  "check_flags s =
    (if rsv s \<noteq> 0 \<and> \<not> (accepted s \<and> rsv s = PER_MESSAGE_COMPRESSED_BIT \<and> opcode s < WS_CLOSE_FRAME) then None
     else
       let compression_bit_set = (rsv s \<noteq> 0)
       in if \<not> fin s \<and> WS_CLOSE_FRAME \<le> opcode s then None
          else if \<not> fin s \<and> opcode s \<noteq> 0 \<and> is_fragmented s then None
          else if \<not> fin s \<and> opcode s = 0 \<and> rsv s \<noteq> 0 then None
          else if \<not> fin s \<and> opcode s = 0 \<and> \<not> is_fragmented s then None
          else
            let s = (if \<not> fin s \<and> opcode s \<noteq> 0
                     then s\<lparr>is_fragmented := True,
                            is_frag_compressed := (is_frag_compressed s \<or> compression_bit_set),
                            frag_opcode := opcode s, opcode := WS_CONTINUATION_FRAME\<rparr>
                     else s)
            in if is_fragmented s \<and> opcode s < WS_CLOSE_FRAME \<and> 0 < opcode s then None
               else Some (compression_bit_set, s))"

definition handle_close_frame ::
    "('z, 'a) ws_env \<Rightarrow> 8 word list \<Rightarrow> ('z, 'a) ws_state \<Rightarrow> websocket_callback_return \<times> ('z, 'a) ws_state" where
  "handle_close_frame E frame s =
    (let status_code = (if 2 \<le> length frame then jet_be16toh (word_of_int (le_value (take 2 frame))) else WS_CLOSE_NORMAL)
     in if 2 < length frame \<and> \<not> fst (cjet_is_byte_sequence_valid cjet_init_checker (drop 2 frame) True)
        then (WS_CLOSED, handle_error E WS_CLOSE_UNSUPPORTED_DATA s)
        else if length frame = 1 \<or> WS_SMALL_FRAME_SIZE < length frame \<or> is_status_code_invalid status_code
        then (WS_CLOSED, handle_error E WS_CLOSE_PROTOCOL_ERROR s)
        else
          let s = websocket_close E WS_CLOSE_NORMAL s
          in (WS_CLOSED, case close_received E of None \<Rightarrow> s | Some f \<Rightarrow> s\<lparr>app := f status_code (app s)\<rparr>))"

definition ws_handle_frame ::
    "('z, 'a) ws_env \<Rightarrow> 8 word list \<Rightarrow> ('z, 'a) ws_state \<Rightarrow> websocket_callback_return \<times> ('z, 'a) ws_state" where
  "ws_handle_frame E frame s =
    (case check_flags s of
       None \<Rightarrow> (WS_CLOSED, handle_error E WS_CLOSE_PROTOCOL_ERROR s)
     | Some (compression_bit_set, s) \<Rightarrow>
        if opcode s = WS_CONTINUATION_FRAME then
          if frag_opcode s = WS_BINARY_FRAME \<or> frag_opcode s = WS_TEXT_FRAME then
            let (ret, s) =
              (if frag_opcode s = WS_BINARY_FRAME
               then frame_received_comp E (is_frag_compressed s) frame (fin s) (binary_frame_received E) s
               else frame_received_comp E (is_frag_compressed s) frame (fin s) (text_frame_received E) s)
            in if frag_opcode s = WS_TEXT_FRAME \<and> ret = WS_CLOSED then (ret, handle_error E WS_CLOSE_UNSUPPORTED_DATA s)
               else (ret,
                 if fin s then s\<lparr>is_fragmented := False, is_frag_compressed := False, frag_opcode := WS_CONTINUATION_FRAME\<rparr>
                 else s)
          else (WS_CLOSED, handle_error E WS_CLOSE_PROTOCOL_ERROR s)
        else if opcode s = WS_BINARY_FRAME then
          (case binary_message_received E of
             Some f \<Rightarrow> received_comp E compression_bit_set frame (Some f) s
           | None \<Rightarrow> (WS_CLOSED, handle_error E WS_CLOSE_UNSUPPORTED s))
        else if opcode s = WS_TEXT_FRAME then
          (case text_message_received E of
             Some f \<Rightarrow>
               (case received_comp E compression_bit_set frame (Some f) s of
                  (ret, s) \<Rightarrow> (ret, if ret = WS_CLOSED then handle_error E WS_CLOSE_UNSUPPORTED_DATA s else s))
           | None \<Rightarrow> (WS_CLOSED, handle_error E WS_CLOSE_UNSUPPORTED s))
        else if opcode s = WS_PING_FRAME then
          if WS_SMALL_FRAME_SIZE < length frame then (WS_CLOSED, handle_error E WS_CLOSE_PROTOCOL_ERROR s)
          else
            (case websocket_send_pong_frame E frame s of
               (pong_ret, s) \<Rightarrow>
                 if pong_ret < 0 then (WS_ERROR, s)
                 else (case ping_received E of None \<Rightarrow> (WS_OK, s) | Some f \<Rightarrow> call_back (Some (f frame)) s))
        else if opcode s = WS_PONG_FRAME then
          if WS_SMALL_FRAME_SIZE < length frame then (WS_CLOSED, handle_error E WS_CLOSE_PROTOCOL_ERROR s)
          else (case pong_received E of None \<Rightarrow> (WS_OK, s) | Some f \<Rightarrow> call_back (Some (f frame)) s)
        else if opcode s = WS_CLOSE_FRAME then handle_close_frame E frame s
        else (WS_CLOSED, handle_error E WS_CLOSE_PROTOCOL_ERROR s))"

text \<open>The read callbacks, in the order of the fields of a frame.\<close>

datatype ws_callback = Ws_get_header | Ws_get_first_length | Ws_get_length16 | Ws_get_length64 | Ws_get_mask | Ws_get_payload

type_synonym ('z, 'a) ws_reaction = "(ws_callback, ('z, 'a) ws_state) reaction"

definition ws_get_payload :: "('z, 'a) ws_env \<Rightarrow> 8 word list \<Rightarrow> ('z, 'a) ws_state \<Rightarrow> ('z, 'a) ws_reaction" where
  "ws_get_payload E buf s =
    (if buf = [] \<and> ws_length s \<noteq> 0 then Closed (handle_error E WS_CLOSE_GOING_AWAY s)
     else if is_server s \<and> \<not> masked s then Closed (handle_error E WS_CLOSE_PROTOCOL_ERROR s)
     else
       let buf = (if masked s then unmask_payload (buffer_address E) buf (mask_key s) else buf)
       in (case ws_handle_frame E buf s of
           (WS_OK, s) \<Rightarrow> Go_on (Some (Get_read_ptr 1, Ws_get_header)) s
         | (WS_CLOSED, s) \<Rightarrow> Closed s
         | (WS_ERROR, s) \<Rightarrow> Closed (handle_error E WS_CLOSE_INTERNAL_ERROR s)))"

definition ws_get_mask :: "('z, 'a) ws_env \<Rightarrow> 8 word list \<Rightarrow> ('z, 'a) ws_state \<Rightarrow> ('z, 'a) ws_reaction" where
  "ws_get_mask E buf s =
    (if buf = [] then Closed (handle_error E WS_CLOSE_GOING_AWAY s)
     else
       let s = s\<lparr>mask_key := take 4 buf\<rparr>
       in if 0 < ws_length s then Go_on (Some (Get_read_ptr (unat (ws_length s)), Ws_get_payload)) s
          else ws_get_payload E [] s)"

definition read_mask_or_payload :: "('z, 'a) ws_env \<Rightarrow> ('z, 'a) ws_state \<Rightarrow> ('z, 'a) ws_reaction" where
  "read_mask_or_payload E s =
    (if masked s then Go_on (Some (Get_read_ptr 4, Ws_get_mask)) s
     else if 0 < ws_length s then Go_on (Some (Get_read_ptr (unat (ws_length s)), Ws_get_payload)) s
     else ws_get_payload E [] s)"

definition ws_get_length16 :: "('z, 'a) ws_env \<Rightarrow> 8 word list \<Rightarrow> ('z, 'a) ws_state \<Rightarrow> ('z, 'a) ws_reaction" where
  "ws_get_length16 E buf s =
    (if buf = [] then Closed (handle_error E WS_CLOSE_GOING_AWAY s)
     else read_mask_or_payload E (s\<lparr>ws_length := ucast (jet_be16toh (word_of_int (le_value buf)))\<rparr>))"

definition ws_get_length64 :: "('z, 'a) ws_env \<Rightarrow> 8 word list \<Rightarrow> ('z, 'a) ws_state \<Rightarrow> ('z, 'a) ws_reaction" where
  "ws_get_length64 E buf s =
    (if buf = [] then Closed (handle_error E WS_CLOSE_GOING_AWAY s)
     else read_mask_or_payload E (s\<lparr>ws_length := jet_be64toh (word_of_int (le_value buf))\<rparr>))"

definition ws_get_first_length :: "('z, 'a) ws_env \<Rightarrow> 8 word list \<Rightarrow> ('z, 'a) ws_state \<Rightarrow> ('z, 'a) ws_reaction" where
  "ws_get_first_length E buf s =
    (if buf = [] then Closed (handle_error E WS_CLOSE_GOING_AWAY s)
     else
       let field = hd buf;
           s = s\<lparr>masked := (field AND 0x80 = 0x80)\<rparr>;
           field = field AND NOT 0x80
       in if field < 126 then read_mask_or_payload E (s\<lparr>ws_length := ucast field\<rparr>)
          else if field = 126 then Go_on (Some (Get_read_ptr 2, Ws_get_length16)) s
          else Go_on (Some (Get_read_ptr 8, Ws_get_length64)) s)"

definition ws_get_header :: "('z, 'a) ws_env \<Rightarrow> 8 word list \<Rightarrow> ('z, 'a) ws_state \<Rightarrow> ('z, 'a) ws_reaction" where
  "ws_get_header E buf s =
    (if buf = [] then Closed (handle_error E WS_CLOSE_GOING_AWAY s)
     else
       let field = hd buf
       in Go_on (Some (Get_read_ptr 1, Ws_get_first_length))
            (s\<lparr>fin := (field AND 0x80 = 0x80), rsv := drop_bit 4 (field AND 0x70), opcode := field AND 0x0F\<rparr>))"

fun ws_client :: "('z, 'a) ws_env \<Rightarrow> (ws_callback, ('z, 'a) ws_state) client" where
  "ws_client E Ws_get_header = ws_get_header E"
| "ws_client E Ws_get_first_length = ws_get_first_length E"
| "ws_client E Ws_get_length16 = ws_get_length16 E"
| "ws_client E Ws_get_length64 = ws_get_length64 E"
| "ws_client E Ws_get_mask = ws_get_mask E"
| "ws_client E Ws_get_payload = ws_get_payload E"

subsection \<open>Header bytes\<close>

lemma small_bits:
  assumes "unat (w :: 8 word) < 2 ^ k" "k \<le> n"
  shows "\<not> bit w n"
proof -
  have "take_bit k (unat w) = unat w" using assms(1) by (rule take_bit_nat_eq_self)
  then have "\<not> bit (unat w) n" using assms(2) by (metis bit_take_bit_iff linorder_not_less)
  then show ?thesis by (auto simp: bit_unsigned_iff)
qed

lemma header_byte_eqI:
  assumes "\<And>n. n \<in> {0, 1, 2, 3, 4, 5, 6, 7} \<Longrightarrow> bit (a :: 8 word) n = bit b n"
  shows "a = b"
proof (rule bit_word_eqI)
  fix n assume "n < LENGTH(8)"
  then have "n \<in> {0, 1, 2, 3, 4, 5, 6, 7}" by auto
  then show "bit a n = bit b n" by (rule assms)
qed

lemma top_bit: "(b :: 8 word) AND 0x80 = 0x80 \<longleftrightarrow> bit b 7"
proof
  assume "bit b 7"
  show "b AND 0x80 = 0x80"
    by (rule header_byte_eqI) (use \<open>bit b 7\<close> in \<open>auto simp: bit_simps\<close>)
next
  assume "b AND 0x80 = 0x80"
  then have "bit (b AND 0x80) 7 = bit (0x80 :: 8 word) 7" by simp
  then show "bit b 7" by (simp add: bit_simps)
qed

lemma first_header_byte:
  fixes rsv opcode :: "8 word" and fin :: bool
  assumes "rsv < 8" "opcode < 16"
  defines "b \<equiv> (if fin then 0x80 else 0) OR push_bit 4 rsv OR opcode"
  shows "b AND 0x80 = 0x80 \<longleftrightarrow> fin" "drop_bit 4 (b AND 0x70) = rsv" "b AND 0x0F = opcode"
proof -
  have r: "\<not> bit rsv n" if "3 \<le> n" for n using small_bits [of rsv 3 n] assms(1) that by (simp add: word_less_nat_alt)
  have o: "\<not> bit opcode n" if "4 \<le> n" for n using small_bits [of opcode 4 n] assms(2) that by (simp add: word_less_nat_alt)
  show "b AND 0x80 = 0x80 \<longleftrightarrow> fin"
    unfolding top_bit b_def by (auto simp: bit_simps r o)
  show "drop_bit 4 (b AND 0x70) = rsv"
    by (rule header_byte_eqI) (auto simp: b_def bit_simps r o)
  show "b AND 0x0F = opcode"
    by (rule header_byte_eqI) (auto simp: b_def bit_simps r o)
qed

lemma second_header_byte:
  fixes len :: "8 word" and m :: bool
  assumes "len < 128"
  defines "b \<equiv> (if m then 0x80 else 0) OR len"
  shows "b AND 0x80 = 0x80 \<longleftrightarrow> m" "b AND NOT 0x80 = len"
proof -
  have l: "\<not> bit len n" if "7 \<le> n" for n using small_bits [of len 7 n] assms(1) that by (simp add: word_less_nat_alt)
  show "b AND 0x80 = 0x80 \<longleftrightarrow> m" unfolding top_bit b_def by (auto simp: bit_simps l)
  show "b AND NOT 0x80 = len" by (rule header_byte_eqI) (auto simp: b_def bit_simps l)
qed
subsection \<open>Frames of RFC 6455\<close>

record ws_frame =
  f_fin :: bool
  f_rsv :: "8 word"
  f_opcode :: "8 word"
  f_mask :: "8 word list option"
  f_payload :: "8 word list"

definition frame_ok :: "ws_frame \<Rightarrow> bool" where
  "frame_ok f \<longleftrightarrow> f_rsv f < 8 \<and> f_opcode f < 16 \<and> length (f_payload f) < 2 ^ 63 \<and>
    (case f_mask f of None \<Rightarrow> True | Some key \<Rightarrow> length key = 4)"

definition encode_length :: "nat \<Rightarrow> 8 word \<times> 8 word list" where
  "encode_length n =
    (if n < 126 then (word_of_nat n, []) else if n < 65536 then (126, be_bytes 2 (int n)) else (127, be_bytes 8 (int n)))"

definition wire_payload :: "ws_frame \<Rightarrow> 8 word list" where
  "wire_payload f = (case f_mask f of None \<Rightarrow> f_payload f | Some key \<Rightarrow> xor_from 0 key (f_payload f))"

definition wire_key :: "ws_frame \<Rightarrow> 8 word list" where
  "wire_key f = (case f_mask f of None \<Rightarrow> [] | Some key \<Rightarrow> key)"

definition encode_frame :: "ws_frame \<Rightarrow> 8 word list" where
  "encode_frame f =
    [(if f_fin f then 0x80 else 0) OR push_bit 4 (f_rsv f) OR f_opcode f,
     (if f_mask f \<noteq> None then 0x80 else 0) OR fst (encode_length (length (f_payload f)))]
    @ snd (encode_length (length (f_payload f))) @ wire_key f @ wire_payload f"

text \<open>The state after the header fields have been read, and the reaction to the payload.\<close>

definition header_of :: "ws_frame \<Rightarrow> ('z, 'a) ws_state \<Rightarrow> ('z, 'a) ws_state" where
  "header_of f s = s\<lparr>fin := f_fin f, rsv := f_rsv f, opcode := f_opcode f, masked := (f_mask f \<noteq> None),
     ws_length := word_of_nat (length (f_payload f)),
     mask_key := (case f_mask f of None \<Rightarrow> mask_key s | Some key \<Rightarrow> key)\<rparr>"

definition receive_frame :: "('z, 'a) ws_env \<Rightarrow> ws_frame \<Rightarrow> ('z, 'a) ws_state \<Rightarrow> ('z, 'a) ws_reaction" where
  "receive_frame E f s = ws_get_payload E (wire_payload f) (header_of f s)"

abbreviation at_header :: "reader \<times> ws_callback" where
  "at_header \<equiv> (Get_read_ptr 1, Ws_get_header)"

text \<open>A run that ends with the reaction, or goes on with the next frame.\<close>

definition follows ::
    "nat \<Rightarrow> ('z, 'a) ws_env \<Rightarrow> read_end \<Rightarrow> 8 word list \<Rightarrow> ('z, 'a) ws_reaction \<Rightarrow>
     int \<times> (reader \<times> ws_callback) \<times> ('z, 'a) ws_state \<times> 8 word list \<Rightarrow> bool" where
  "follows cap E e tail reaction run = (case reaction of
     Closed s \<Rightarrow> \<exists>now rest. run = (0, now, s, rest)
   | Go_on next s \<Rightarrow> run = stream_run cap (ws_client E) at_header s tail e)"

lemma stream_run_bytes:
  assumes "0 < n" "n \<le> cap" "n = length bytes"
  shows "stream_run cap call (Get_read_ptr n, cb) s (bytes @ tail) e =
    (case call cb bytes s of
       Closed s \<Rightarrow> (0, (Get_read_ptr n, cb), s, tail)
     | Go_on next s \<Rightarrow> stream_run cap call (switch next (Get_read_ptr n, cb)) s tail e)"
  using assms by (subst stream_run.simps) (auto simp: next_item_def split: reaction.split)

lemma payload_follows:
  assumes "ws_length s = word_of_nat (length p)" "length p \<le> cap" "p \<noteq> []"
  shows "follows cap E e tail (ws_get_payload E p s) (stream_run cap (ws_client E) (Get_read_ptr (length p), Ws_get_payload) s (p @ tail) e)"
proof -
  have run: "stream_run cap (ws_client E) (Get_read_ptr (length p), Ws_get_payload) s (p @ tail) e =
      (case ws_get_payload E p s of
         Closed s \<Rightarrow> (0, (Get_read_ptr (length p), Ws_get_payload), s, tail)
       | Go_on next s \<Rightarrow> stream_run cap (ws_client E) (switch next (Get_read_ptr (length p), Ws_get_payload)) s tail e)"
    using stream_run_bytes [of "length p" cap p "ws_client E" Ws_get_payload s tail e] assms(2,3) by simp
  show ?thesis
    unfolding run
    by (auto simp: follows_def ws_get_payload_def switch_def Let_def split: prod.splits websocket_callback_return.splits)
qed

lemma empty_payload_follows:
  "(case ws_get_payload E [] s of
      Closed s \<Rightarrow> (0, now, s, tail) | Go_on next s \<Rightarrow> stream_run cap (ws_client E) (switch next now) s tail e) = run \<Longrightarrow>
   follows cap E e tail (ws_get_payload E [] s) run"
  by (auto simp: follows_def ws_get_payload_def switch_def Let_def split: prod.splits websocket_callback_return.splits)

lemma length_word: "n < 2 ^ 63 \<Longrightarrow> unat (word_of_nat n :: 64 word) = n"
  by (simp add: unsigned_of_nat take_bit_nat_eq_self)

lemma length_word_pos: "n < 2 ^ 63 \<Longrightarrow> 0 < (word_of_nat n :: 64 word) \<longleftrightarrow> n \<noteq> 0"
  using length_word [of n] by (metis unat_eq_zero word_neq_0_conv)

definition continue ::
    "nat \<Rightarrow> ('z, 'a) ws_env \<Rightarrow> read_end \<Rightarrow> reader \<times> ws_callback \<Rightarrow> 8 word list \<Rightarrow> ('z, 'a) ws_reaction \<Rightarrow>
     int \<times> (reader \<times> ws_callback) \<times> ('z, 'a) ws_state \<times> 8 word list" where
  "continue cap E e now tail reaction = (case reaction of
     Closed s \<Rightarrow> (0, now, s, tail) | Go_on next s \<Rightarrow> stream_run cap (ws_client E) (switch next now) s tail e)"

lemma stream_run_continue:
  "0 < n \<Longrightarrow> n \<le> cap \<Longrightarrow> n = length bytes \<Longrightarrow>
   stream_run cap (ws_client E) (Get_read_ptr n, cb) s (bytes @ tail) e =
     continue cap E e (Get_read_ptr n, cb) tail (ws_client E cb bytes s)"
  by (simp add: stream_run_bytes continue_def)

lemma continue_Go_on: "continue cap E e now tail (Go_on (Some next) s) = stream_run cap (ws_client E) next s tail e"
  by (simp add: continue_def switch_def)

lemma payload_or_empty_follows:
  assumes "ws_length s = word_of_nat (length p)" "length p < 2 ^ 63" "length p \<le> cap"
  shows "follows cap E e tail (ws_get_payload E p s)
    (continue cap E e now (p @ tail)
      (if 0 < ws_length s then Go_on (Some (Get_read_ptr (unat (ws_length s)), Ws_get_payload)) s else ws_get_payload E [] s))"
proof (cases "p = []")
  case True
  with assms(1) empty_payload_follows [where E = E and s = s and now = now and tail = tail and cap = cap and e = e] show ?thesis by (simp add: continue_def)
next
  case False
  have "0 < ws_length s" "unat (ws_length s) = length p"
    using assms(1,2) False length_word_pos [of "length p"] length_word [of "length p"] by simp_all
  with payload_follows [OF assms(1,3) False] show ?thesis by (simp add: continue_Go_on)
qed

lemma mask_follows:
  assumes "ws_length s = word_of_nat (length p)" "length p < 2 ^ 63" "length p \<le> cap" "4 \<le> cap"
    and "masked s = (key \<noteq> None)" "case key of None \<Rightarrow> True | Some k \<Rightarrow> length k = 4"
  shows "follows cap E e tail (ws_get_payload E p (case key of None \<Rightarrow> s | Some k \<Rightarrow> s\<lparr>mask_key := k\<rparr>))
    (continue cap E e now ((case key of None \<Rightarrow> [] | Some k \<Rightarrow> k) @ p @ tail) (read_mask_or_payload E s))"
proof (cases key)
  case None
  have "read_mask_or_payload E s = (if 0 < ws_length s
      then Go_on (Some (Get_read_ptr (unat (ws_length s)), Ws_get_payload)) s else ws_get_payload E [] s)"
    using assms(5) None by (simp add: read_mask_or_payload_def)
  with payload_or_empty_follows [OF assms(1-3), of E e tail now] show ?thesis
    unfolding None option.case append_Nil by (simp only:)
next
  case (Some k)
  with assms(6) have k: "length k = 4" by simp
  then have ne: "k \<noteq> []" by auto
  let ?s = "s\<lparr>mask_key := k\<rparr>"
  have "continue cap E e now (k @ p @ tail) (read_mask_or_payload E s) =
      continue cap E e (Get_read_ptr 4, Ws_get_mask) (p @ tail) (ws_get_mask E k s)"
    using stream_run_continue [OF _ assms(4) k [symmetric], of E Ws_get_mask s "p @ tail" e] assms(5) Some
    by (simp add: read_mask_or_payload_def continue_Go_on)
  moreover have "ws_get_mask E k s = (if 0 < ws_length ?s
      then Go_on (Some (Get_read_ptr (unat (ws_length ?s)), Ws_get_payload)) ?s else ws_get_payload E [] ?s)"
    unfolding ws_get_mask_def Let_def using k ne by simp
  ultimately have run: "continue cap E e now (k @ p @ tail) (read_mask_or_payload E s) =
      continue cap E e (Get_read_ptr 4, Ws_get_mask) (p @ tail) (if 0 < ws_length ?s
        then Go_on (Some (Get_read_ptr (unat (ws_length ?s)), Ws_get_payload)) ?s else ws_get_payload E [] ?s)" by simp
  have "follows cap E e tail (ws_get_payload E p ?s) (continue cap E e now (k @ p @ tail) (read_mask_or_payload E s))"
    unfolding run by (rule payload_or_empty_follows) (use assms(1-3) in simp_all)
  then show ?thesis unfolding Some option.case .
qed

lemma first_length_of: "fst (encode_length n) < 128"
  "n < 126 \<Longrightarrow> ucast (word_of_nat n :: 8 word) = (word_of_nat n :: 64 word) \<and> (word_of_nat n :: 8 word) < 126"
proof -
  have small: "unat (word_of_nat n :: 8 word) = n" if "n < 126" for n
    using that by (simp add: unsigned_of_nat take_bit_nat_eq_self)
  show "fst (encode_length n) < 128"
    using small [of n] by (auto simp: encode_length_def word_less_nat_alt)
  show "n < 126 \<Longrightarrow> ucast (word_of_nat n :: 8 word) = (word_of_nat n :: 64 word) \<and> (word_of_nat n :: 8 word) < 126"
    using small [of n] by (simp add: word_less_nat_alt unsigned_ucast_eq word_unat_eq_iff unsigned_of_nat take_bit_nat_eq_self)
qed

lemma length_fields:
  "n < 65536 \<Longrightarrow> ucast (jet_be16toh (word_of_int (le_value (be_bytes 2 (int n))))) = (word_of_nat n :: 64 word)"
  "n < 2 ^ 63 \<Longrightarrow> jet_be64toh (word_of_int (le_value (be_bytes 8 (int n)))) = word_of_nat n"
proof -
  assume n: "n < 65536"
  have "uint (jet_be16toh (word_of_int (le_value (be_bytes 2 (int n))))) = int n"
    using be16toh_bytes [of "be_bytes 2 (int n)"] be_value_bytes [of "int n" 2] n by simp
  then show "ucast (jet_be16toh (word_of_int (le_value (be_bytes 2 (int n))))) = (word_of_nat n :: 64 word)"
    by (metis of_int_of_nat_eq ucast_eq)
next
  assume n: "n < 2 ^ 63"
  have "uint (jet_be64toh (word_of_int (le_value (be_bytes 8 (int n))))) = int n"
    using be64toh_bytes [of "be_bytes 8 (int n)"] be_value_bytes [of "int n" 8] n by simp
  then show "jet_be64toh (word_of_int (le_value (be_bytes 8 (int n)))) = word_of_nat n"
    by (metis of_int_of_nat_eq word_of_int_uint)
qed

lemma length_follows:
  assumes "length p < 2 ^ 63" "length p \<le> cap" "8 \<le> cap"
    and "masked s = (key \<noteq> None)" "case key of None \<Rightarrow> True | Some k \<Rightarrow> length k = 4"
  defines "s1 \<equiv> s\<lparr>ws_length := word_of_nat (length p)\<rparr>"
  shows "follows cap E e tail (ws_get_payload E p (case key of None \<Rightarrow> s1 | Some k \<Rightarrow> s1\<lparr>mask_key := k\<rparr>))
    (continue cap E e now (snd (encode_length (length p)) @ (case key of None \<Rightarrow> [] | Some k \<Rightarrow> k) @ p @ tail)
      (if fst (encode_length (length p)) < 126 then read_mask_or_payload E (s\<lparr>ws_length := ucast (fst (encode_length (length p)))\<rparr>)
       else if fst (encode_length (length p)) = 126 then Go_on (Some (Get_read_ptr 2, Ws_get_length16)) s
       else Go_on (Some (Get_read_ptr 8, Ws_get_length64)) s))"
proof -
  let ?n = "length p" and ?rest = "(case key of None \<Rightarrow> [] | Some k \<Rightarrow> k) @ p @ tail"
  have m: "follows cap E e tail (ws_get_payload E p (case key of None \<Rightarrow> s1 | Some k \<Rightarrow> s1\<lparr>mask_key := k\<rparr>))
      (continue cap E e now' ?rest (read_mask_or_payload E s1))" for now'
    using mask_follows [of s1 p cap key E e tail now'] assms by simp
  consider "?n < 126" | "126 \<le> ?n" "?n < 65536" | "65536 \<le> ?n" by linarith
  then show ?thesis
  proof cases
    case 1
    with first_length_of(2) [of ?n] m [of now] show ?thesis by (simp add: encode_length_def s1_def)
  next
    case 2
    have "continue cap E e now (be_bytes 2 (int ?n) @ ?rest) (Go_on (Some (Get_read_ptr 2, Ws_get_length16)) s) =
        continue cap E e (Get_read_ptr 2, Ws_get_length16) ?rest (read_mask_or_payload E s1)"
      using stream_run_continue [of 2 cap "be_bytes 2 (int ?n)" E Ws_get_length16 s ?rest e] assms(3) 2
      by (simp add: continue_Go_on ws_get_length16_def length_fields s1_def)
    with 2 m [of "(Get_read_ptr 2, Ws_get_length16)"] show ?thesis by (simp add: encode_length_def)
  next
    case 3
    have "continue cap E e now (be_bytes 8 (int ?n) @ ?rest) (Go_on (Some (Get_read_ptr 8, Ws_get_length64)) s) =
        continue cap E e (Get_read_ptr 8, Ws_get_length64) ?rest (read_mask_or_payload E s1)"
      using stream_run_continue [of 8 cap "be_bytes 8 (int ?n)" E Ws_get_length64 s ?rest e] assms(1,3)
      by (simp add: continue_Go_on ws_get_length64_def length_fields s1_def)
    with 3 m [of "(Get_read_ptr 8, Ws_get_length64)"] show ?thesis by (simp add: encode_length_def)
  qed
qed

lemma frame_follows:
  assumes "frame_ok f" "length (f_payload f) \<le> cap" "8 \<le> cap"
  shows "follows cap E e tail (receive_frame E f s) (stream_run cap (ws_client E) at_header s (encode_frame f @ tail) e)"
proof -
  let ?n = "length (f_payload f)"
  let ?b0 = "(if f_fin f then 0x80 else 0) OR push_bit 4 (f_rsv f) OR f_opcode f"
  let ?b1 = "(if f_mask f \<noteq> None then 0x80 else 0) OR fst (encode_length ?n)"
  let ?s0 = "s\<lparr>fin := f_fin f, rsv := f_rsv f, opcode := f_opcode f\<rparr>"
  let ?rest = "snd (encode_length ?n) @ wire_key f @ wire_payload f @ tail"
  have r: "f_rsv f < 8" "f_opcode f < 16" using assms(1) by (simp_all add: frame_ok_def)
  have len: "length (wire_payload f) = ?n" by (simp add: wire_payload_def split: option.split)
  have hd: "stream_run cap (ws_client E) at_header s (encode_frame f @ tail) e =
      stream_run cap (ws_client E) (Get_read_ptr 1, Ws_get_first_length) ?s0 ([?b1] @ ?rest) e"
    using stream_run_continue [of 1 cap "[?b0]" E Ws_get_header s "[?b1] @ ?rest" e] assms(3)
      first_header_byte [OF r, of "f_fin f"]
    by (simp add: encode_frame_def ws_get_header_def continue_Go_on Let_def)
  let ?now = "(Get_read_ptr 1, Ws_get_first_length)"
  have fl: "\<dots> = continue cap E e ?now ?rest (ws_get_first_length E [?b1] ?s0)"
    using stream_run_continue [of 1 cap "[?b1]" E Ws_get_first_length ?s0 ?rest e] assms(3) by simp
  have ok: "length (wire_payload f) < 2 ^ 63" "length (wire_payload f) \<le> cap" "case f_mask f of None \<Rightarrow> True | Some k \<Rightarrow> length k = 4"
    using assms len by (simp_all add: frame_ok_def)
  have b1: "hd [?b1] AND 0x80 = 0x80 \<longleftrightarrow> f_mask f \<noteq> None" "hd [?b1] AND NOT 0x80 = fst (encode_length ?n)"
    using second_header_byte [OF first_length_of(1), of "f_mask f \<noteq> None" ?n] by (simp_all only: list.sel)
  have first: "ws_get_first_length E [?b1] ?s0 =
    (if fst (encode_length ?n) < 126
     then read_mask_or_payload E (?s0\<lparr>masked := (f_mask f \<noteq> None), ws_length := ucast (fst (encode_length ?n))\<rparr>)
     else if fst (encode_length ?n) = 126 then Go_on (Some (Get_read_ptr 2, Ws_get_length16)) (?s0\<lparr>masked := (f_mask f \<noteq> None)\<rparr>)
     else Go_on (Some (Get_read_ptr 8, Ws_get_length64)) (?s0\<lparr>masked := (f_mask f \<noteq> None)\<rparr>))"
    unfolding ws_get_first_length_def Let_def b1 by simp
  have "receive_frame E f s = ws_get_payload E (wire_payload f) (case f_mask f of
      None \<Rightarrow> ?s0\<lparr>masked := (f_mask f \<noteq> None), ws_length := word_of_nat ?n\<rparr>
    | Some k \<Rightarrow> ?s0\<lparr>masked := (f_mask f \<noteq> None), ws_length := word_of_nat ?n, mask_key := k\<rparr>)"
    by (cases "f_mask f") (simp_all add: receive_frame_def header_of_def)
  with length_follows [OF ok(1,2) assms(3) _ ok(3), of "?s0\<lparr>masked := (f_mask f \<noteq> None)\<rparr>" E e tail ?now, unfolded len]
  show ?thesis unfolding hd fl first by (simp add: wire_key_def)
qed

text \<open>Frames in a row: the flag says whether the connection is still open.\<close>

fun receive_frames :: "('z, 'a) ws_env \<Rightarrow> ws_frame list \<Rightarrow> ('z, 'a) ws_state \<Rightarrow> bool \<times> ('z, 'a) ws_state" where
  "receive_frames E [] s = (True, s)"
| "receive_frames E (f # fs) s = (case receive_frame E f s of
     Closed s \<Rightarrow> (False, s) | Go_on next s \<Rightarrow> receive_frames E fs s)"

lemma receive_frames_append:
  "receive_frames E (fs @ gs) s = (case receive_frames E fs s of (True, s) \<Rightarrow> receive_frames E gs s | (False, s) \<Rightarrow> (False, s))"
  by (induction fs arbitrary: s) (auto split: reaction.split)

lemma frames_follow:
  assumes "8 \<le> cap" "\<forall>f\<in>set fs. frame_ok f \<and> length (f_payload f) \<le> cap"
    and "receive_frames E fs s = (open, s')"
  shows "if open
    then stream_run cap (ws_client E) at_header s (concat (map encode_frame fs) @ tail) e = stream_run cap (ws_client E) at_header s' tail e
    else \<exists>now rest. stream_run cap (ws_client E) at_header s (concat (map encode_frame fs) @ tail) e = (0, now, s', rest)"
  using assms(2,3)
proof (induction fs arbitrary: s)
  case (Cons f fs)
  have f: "frame_ok f" "length (f_payload f) \<le> cap" using Cons.prems(1) by simp_all
  note step = frame_follows [OF f assms(1), of E e "concat (map encode_frame fs) @ tail" s]
  show ?case
  proof (cases "receive_frame E f s")
    case (Closed s1)
    with step Cons.prems(2) show ?thesis by (auto simp: follows_def)
  next
    case (Go_on nxt s1)
    with step Cons.IH [of s1] Cons.prems show ?thesis by (cases "open") (simp_all add: follows_def)
  qed
qed simp

lemma stream_run_at_header:
  "1 \<le> cap \<Longrightarrow> stream_run cap (ws_client E) at_header s [] Would_block = (BS_IO_WOULD_BLOCK, at_header, s, [])"
  by (simp add: stream_run.simps next_item_def)

text \<open>A socket after the upgrade: everything read, waiting for a header.\<close>

definition ws_idle :: "ws_callback buffered_socket \<Rightarrow> kernel \<Rightarrow> bool" where
  "ws_idle bs k \<longleftrightarrow> bs_ok bs \<and> bs_reader bs = Some (Get_read_ptr 1) \<and> read_callback bs = Ws_get_header \<and>
    unread bs = [] \<and> chunks k = [] \<and> after_chunks k = Would_block \<and> 8 \<le> length (read_buffer bs)"

lemma ws_receive_stream:
  assumes "ws_idle bs k" "\<forall>cs\<in>set css. [] \<notin> set cs" "css \<noteq> []"
    and "concat (concat css) = concat (map encode_frame fs)"
    and "\<forall>f\<in>set fs. frame_ok f \<and> length (f_payload f) \<le> length (read_buffer bs)"
    and "wakes (ws_client E) css bs k s = (r, bs', k', s')"
  shows "receive_frames E fs s = (r = BS_IO_WOULD_BLOCK, s') \<and> (r = BS_IO_WOULD_BLOCK \<or> r = 0)"
proof -
  let ?cap = "length (read_buffer bs)"
  have cap: "8 \<le> ?cap" "1 \<le> ?cap" using assms(1) by (simp_all add: ws_idle_def)
  obtain is_open s1 where r: "receive_frames E fs s = (is_open, s1)" by (cases "receive_frames E fs s")
  from wakes_refine [of bs k css "ws_client E" s r bs' k' s'] assms(1-3,6) obtain rest where
    "stream_run ?cap (ws_client E) at_header s (concat (map encode_frame fs)) Would_block = (r, current bs', s', rest)"
    unfolding assms(4) [symmetric] by (auto simp: ws_idle_def byte_stream_def current_def)
  with frames_follow [OF cap(1) assms(5) r, of "[]" Would_block] stream_run_at_header [OF cap(2), of E s1] r show ?thesis
    by (cases is_open) (auto simp: BS_IO_WOULD_BLOCK_def)
qed

text \<open>C25: Websocket frames reach the handler as RFC 6455 encodes them.  If the bytes that arrive are the
  encodings of a sequence of frames, with any payload lengths the read buffer can hold, masked or not, then
  however the kernel cuts and spreads them, the socket ends in the state of handling the frames in order,
  up to the first that closes the connection.\<close>
theorem frames_reach_the_handler:
  assumes "ws_idle bs k" "\<forall>cs\<in>set css. [] \<notin> set cs" "css \<noteq> []"
    and "concat (concat css) = concat (map encode_frame fs)"
    and "\<forall>f\<in>set fs. frame_ok f \<and> length (f_payload f) \<le> length (read_buffer bs)"
    and "wakes (ws_client E) css bs k s = (r, bs', k', s')"
  shows "receive_frames E fs s = (r = BS_IO_WOULD_BLOCK, s') \<and> (r = BS_IO_WOULD_BLOCK \<or> r = 0)"
  by (rule ws_receive_stream [OF assms])

subsection \<open>What is sent\<close>

definition sent_frame :: "('z, 'a) ws_env \<Rightarrow> 8 word list \<Rightarrow> 8 word \<Rightarrow> ('z, 'a) ws_state \<Rightarrow> ws_frame" where
  "sent_frame E payload type s =
    \<lparr>f_fin = True, f_rsv = 0, f_opcode = type,
     f_mask = (if is_server s then None else Some (random_mask E (draws s))), f_payload = payload\<rparr>"

lemma send_frame_writes:
  assumes "\<not> accepted s" "length payload < 2 ^ 63"
  obtains iov where "concat iov = encode_frame (sent_frame E payload type s)"
    and "send_frame E payload type s = (fst (writev_fn E iov (app s)),
      s\<lparr>draws := (if is_server s then draws s else draws s + 1), app := snd (writev_fn E iov (app s))\<rparr>)"
proof -
  let ?n = "length payload"
  let ?key = "random_mask E (draws s)"
  let ?ext = "snd (encode_length ?n)" and ?first = "fst (encode_length ?n)"
  have ext: "length_fields_of (int ?n) = (?ext, ?first)"
  proof -
    have "uint (word_of_nat ?n :: 16 word) = int ?n" if "?n < 65536"
      using that take_bit_nat_eq_self [of ?n 16] by (simp add: unsigned_of_nat)
    moreover have "uint (word_of_nat ?n :: 64 word) = int ?n"
      using assms(2) take_bit_nat_eq_self [of ?n 64] by (simp add: unsigned_of_nat)
    ultimately show ?thesis by (simp add: length_fields_of_def encode_length_def htobe16_bytes htobe64_bytes)
  qed
  define iov where "iov = (if is_server s then [[type OR 0x80, ?first] @ ?ext, payload]
    else [[type OR 0x80, ?first OR 0x80] @ ?ext @ ?key, unmask_payload (buffer_address E) payload ?key])"
  have "concat iov = encode_frame (sent_frame E payload type s)"
    by (simp add: iov_def encode_frame_def sent_frame_def wire_key_def wire_payload_def unmask_payload_xor or.commute)
  moreover have "send_frame E payload type s = (fst (writev_fn E iov (app s)),
      s\<lparr>draws := (if is_server s then draws s else draws s + 1), app := snd (writev_fn E iov (app s))\<rparr>)"
    using assms(1) unfolding send_frame_def Let_def iov_def
    by (simp add: ext split: prod.split)
  ultimately show ?thesis by (rule that)
qed

subsection \<open>Text messages, sent and received\<close>

fun send_texts :: "('z, 'a) ws_env \<Rightarrow> 8 word list list \<Rightarrow> ('z, 'a) ws_state \<Rightarrow> ('z, 'a) ws_state" where
  "send_texts E [] s = s"
| "send_texts E (m # ms) s = send_texts E ms (snd (websocket_send_text_frame E m s))"

lemma header_of_simps [simp]:
  "fin (header_of f s) = f_fin f" "rsv (header_of f s) = f_rsv f" "opcode (header_of f s) = f_opcode f"
  "masked (header_of f s) = (f_mask f \<noteq> None)" "ws_length (header_of f s) = word_of_nat (length (f_payload f))"
  "is_server (header_of f s) = is_server s" "accepted (header_of f s) = accepted s"
  "is_fragmented (header_of f s) = is_fragmented s" "frag_opcode (header_of f s) = frag_opcode s"
  "is_frag_compressed (header_of f s) = is_frag_compressed s" "app (header_of f s) = app s"
  "closes (header_of f s) = closes s" "ws_faults (header_of f s) = ws_faults s"
  "upgrade_complete (header_of f s) = upgrade_complete s" "compression_level (header_of f s) = compression_level s"
  "mask_key (header_of f s) = (case f_mask f of None \<Rightarrow> mask_key s | Some key \<Rightarrow> key)"
  by (simp_all add: header_of_def)

lemma unmask_wire_payload:
  "(if f_mask f \<noteq> None then unmask_payload a (wire_payload f) (case f_mask f of None \<Rightarrow> k | Some key \<Rightarrow> key) else wire_payload f) = f_payload f"
  by (cases "f_mask f") (simp_all add: wire_payload_def unmask_payload_xor)

text \<open>What a frame does once it is read: the payload unmasked goes to \<^verbatim>\<open>ws_handle_frame\<close>.\<close>

lemma receive_frame_eq:
  assumes "frame_ok f" "is_server s \<longrightarrow> f_mask f \<noteq> None"
  shows "receive_frame E f s = (case ws_handle_frame E (f_payload f) (header_of f s) of
      (WS_OK, s) \<Rightarrow> Go_on (Some at_header) s
    | (WS_CLOSED, s) \<Rightarrow> Closed s
    | (WS_ERROR, s) \<Rightarrow> Closed (handle_error E WS_CLOSE_INTERNAL_ERROR s))"
proof -
  have "wire_payload f = [] \<longleftrightarrow> f_payload f = []" by (simp add: wire_payload_def split: option.split)
  moreover have "word_of_nat (length (f_payload f)) = (0 :: 64 word) \<longleftrightarrow> f_payload f = []"
    using assms(1) length_word [of "length (f_payload f)"] unat_eq_zero [of "word_of_nat (length (f_payload f)) :: 64 word"]
    by (simp add: frame_ok_def)
  ultimately have "\<not> (wire_payload f = [] \<and> ws_length (header_of f s) \<noteq> 0)" "\<not> (is_server (header_of f s) \<and> \<not> masked (header_of f s))"
    using assms(2) by simp_all
  then show ?thesis
    unfolding receive_frame_def ws_get_payload_def Let_def header_of_simps(4,16) unmask_wire_payload
    by (simp only: if_False)
qed

lemma receive_text:
  assumes "frame_ok f" "is_server s \<longrightarrow> f_mask f \<noteq> None"
    and "f_fin f" "f_rsv f = 0" "f_opcode f = WS_TEXT_FRAME" "\<not> is_fragmented s"
    and "text_message_received E = Some cb" "cb (f_payload f) (app s) = (WS_OK, a)"
  shows "receive_frame E f s = Go_on (Some at_header) ((header_of f s)\<lparr>app := a\<rparr>)"
proof -
  have "check_flags (header_of f s) = Some (False, header_of f s)"
    using assms(3-6) by (simp add: check_flags_def WS_TEXT_FRAME_def WS_CLOSE_FRAME_def)
  then have "ws_handle_frame E (f_payload f) (header_of f s) = (WS_OK, (header_of f s)\<lparr>app := a\<rparr>)"
    using assms(5,7,8)
    by (simp add: ws_handle_frame_def received_comp_def call_back_def WS_TEXT_FRAME_def WS_CONTINUATION_FRAME_def WS_BINARY_FRAME_def)
  with receive_frame_eq [OF assms(1,2), of E] show ?thesis by simp
qed

lemma texts_received:
  assumes "\<not> accepted s1" "is_server s1 \<noteq> is_server s2" "\<forall>n. length (random_mask E1 n) = 4"
    and "writev_fn E1 = (\<lambda>iov out. (0, out @ concat iov))" "\<forall>m\<in>set msgs. length m < 2 ^ 63"
    and "text_message_received E2 = Some cb" "\<forall>m a. fst (cb m a) = WS_OK" "\<not> is_fragmented s2"
  shows "\<exists>fs s2'. app (send_texts E1 msgs s1) = app s1 @ concat (map encode_frame fs) \<and>
    (\<forall>f\<in>set fs. frame_ok f \<and> f_payload f \<in> set msgs) \<and>
    receive_frames E2 fs s2 = (True, s2') \<and> app s2' = fold (\<lambda>m a. snd (cb m a)) msgs (app s2)"
  using assms(1,2,5,8)
proof (induction msgs arbitrary: s1 s2)
  case Nil
  show ?case by (intro exI [of _ "[]"]) simp
next
  case (Cons m ms)
  let ?f = "sent_frame E1 m WS_TEXT_FRAME s1"
  have m: "length m < 2 ^ 63" using Cons.prems(3) by simp
  obtain iov where iov: "concat iov = encode_frame ?f" "send_frame E1 m WS_TEXT_FRAME s1 = (fst (writev_fn E1 iov (app s1)),
      s1\<lparr>draws := (if is_server s1 then draws s1 else draws s1 + 1), app := snd (writev_fn E1 iov (app s1))\<rparr>)"
    by (rule send_frame_writes [OF Cons.prems(1) m])
  let ?s1 = "snd (websocket_send_text_frame E1 m s1)"
  have s1: "\<not> accepted ?s1" "is_server ?s1 = is_server s1" "app ?s1 = app s1 @ encode_frame ?f"
    using iov Cons.prems(1) assms(4) by (simp_all add: websocket_send_text_frame_def)
  have ok: "frame_ok ?f" using m assms(3) by (simp add: frame_ok_def sent_frame_def WS_TEXT_FRAME_def)
  obtain a where a: "cb m (app s2) = (WS_OK, a)" using assms(7) by (metis prod.collapse)
  have r: "receive_frame E2 ?f s2 = Go_on (Some at_header) ((header_of ?f s2)\<lparr>app := a\<rparr>)"
    by (rule receive_text [OF ok _ _ _ _ Cons.prems(4) assms(6)]) (use Cons.prems(2) a in \<open>simp_all add: sent_frame_def\<close>)
  let ?s2 = "(header_of ?f s2)\<lparr>app := a\<rparr>"
  have "is_server ?s1 \<noteq> is_server ?s2" "\<not> is_fragmented ?s2" "\<forall>m\<in>set ms. length m < 2 ^ 63"
    using Cons.prems s1(2) by simp_all
  from Cons.IH [OF s1(1) this(1,3,2)] obtain fs s2' where
    ih: "app (send_texts E1 ms ?s1) = app ?s1 @ concat (map encode_frame fs)"
      "\<forall>f\<in>set fs. frame_ok f \<and> f_payload f \<in> set ms" "receive_frames E2 fs ?s2 = (True, s2')"
      "app s2' = fold (\<lambda>m a. snd (cb m a)) ms (app ?s2)" by blast
  show ?case
    by (intro exI [of _ "?f # fs"] exI [of _ s2']) (use ih s1(3) ok r a in \<open>simp add: sent_frame_def\<close>)
qed


subsection \<open>The connection is closed once\<close>

lemma send_frame_closes [simp]: "closes (snd (send_frame E payload type s)) = closes s"
  by (auto simp: send_frame_def Let_def ws_fault_def split: prod.splits if_splits)

lemma websocket_close_closes [simp]: "closes (websocket_close E code s) = closes s + 1"
  by (simp add: websocket_close_def websocket_send_close_frame_def Let_def)

lemma handle_error_closes [simp]: "closes (handle_error E code s) = closes s + 1"
  by (simp add: handle_error_def Let_def)

lemma call_back_closes: "call_back f s = (ret, s') \<Longrightarrow> closes s' = closes s \<and> frag_opcode s' = frag_opcode s"
  by (auto simp: call_back_def ws_fault_def split: option.splits prod.splits)

lemma received_comp_closes: "received_comp E c msg f s = (ret, s') \<Longrightarrow> closes s' = closes s"
  by (auto simp: received_comp_def dest: call_back_closes split: if_splits option.splits prod.splits)

lemma frame_received_comp_closes:
  "frame_received_comp E c msg fin_bit f s = (ret, s') \<Longrightarrow> closes s' = closes s \<and> frag_opcode s' = frag_opcode s"
  by (auto simp: frame_received_comp_def ws_fault_def dest!: call_back_closes split: if_splits option.splits prod.splits sum.splits bool.splits)

text \<open>
  A callback that answers \<^verbatim>\<open>WS_CLOSED\<close> has to close the socket itself, except for the text callbacks, after
  which the code closes it.  \<open>polite\<close> callbacks never do.
\<close>

definition polite :: "('z, 'a) ws_env \<Rightarrow> bool" where
  "polite E \<longleftrightarrow>
    (\<forall>f m a. binary_message_received E = Some f \<longrightarrow> fst (f m a) \<noteq> WS_CLOSED) \<and>
    (\<forall>f m l a. binary_frame_received E = Some f \<longrightarrow> fst (f m l a) \<noteq> WS_CLOSED) \<and>
    (\<forall>f m a. ping_received E = Some f \<longrightarrow> fst (f m a) \<noteq> WS_CLOSED) \<and>
    (\<forall>f m a. pong_received E = Some f \<longrightarrow> fst (f m a) \<noteq> WS_CLOSED)"

lemma call_back_polite:
  "call_back f s = (WS_CLOSED, s') \<Longrightarrow> \<exists>g. f = Some g \<and> fst (g (app s)) = WS_CLOSED"
  by (auto simp: call_back_def split: option.splits prod.splits)

lemma received_comp_polite:
  "received_comp E c msg f s = (WS_CLOSED, s') \<Longrightarrow> \<exists>g m a. f = Some g \<and> fst (g m a) = WS_CLOSED"
  by (auto simp: received_comp_def dest!: call_back_polite split: if_splits option.splits prod.splits)

lemma frame_received_comp_polite:
  "frame_received_comp E c msg fin_bit f s = (WS_CLOSED, s') \<Longrightarrow> \<exists>g m l a. f = Some g \<and> fst (g m l a) = WS_CLOSED"
  by (auto simp: frame_received_comp_def dest!: call_back_polite split: if_splits option.splits prod.splits sum.splits bool.splits)

lemma check_flags_closes: "check_flags s = Some (c, s') \<Longrightarrow> closes s' = closes s"
  by (auto simp: check_flags_def Let_def split: if_splits)

lemma handle_close_frame_closes: "handle_close_frame E frame s = (ret, s') \<Longrightarrow> ret = WS_CLOSED \<and> closes s' = closes s + 1"
  by (auto simp: handle_close_frame_def Let_def split: if_splits option.splits)

lemma ws_handle_frame_closes:
  assumes "polite E" "ws_handle_frame E frame s = (ret, s')"
  shows "closes s' = closes s + (if ret = WS_CLOSED then 1 else 0)"
proof (cases "check_flags s")
  case None
  with assms(2) show ?thesis by (auto simp: ws_handle_frame_def)
next
  case (Some cs)
  obtain c s1 where cs: "cs = (c, s1)" by (cases cs)
  have s1: "closes s1 = closes s" using check_flags_closes Some cs by blast
  note run = assms(2) [unfolded ws_handle_frame_def Some cs option.case prod.case]
  consider "opcode s1 = WS_CONTINUATION_FRAME" | "opcode s1 = WS_BINARY_FRAME" | "opcode s1 = WS_TEXT_FRAME"
    | "opcode s1 = WS_PING_FRAME" | "opcode s1 = WS_PONG_FRAME" | "opcode s1 = WS_CLOSE_FRAME"
    | "opcode s1 \<notin> {WS_CONTINUATION_FRAME, WS_BINARY_FRAME, WS_TEXT_FRAME, WS_PING_FRAME, WS_PONG_FRAME, WS_CLOSE_FRAME}" by blast
  then show ?thesis
  proof cases
    case 1
    have "fst (g m l a) \<noteq> WS_CLOSED" if "binary_frame_received E = Some g" for g m l a
      using assms(1) that by (simp add: polite_def)
    with 1 run s1 show ?thesis
      by (auto simp: Let_def split: if_splits prod.splits
          dest: frame_received_comp_closes frame_received_comp_polite)
  next
    case 2
    have "fst (g m a) \<noteq> WS_CLOSED" if "binary_message_received E = Some g" for g m a
      using assms(1) that by (simp add: polite_def)
    with 2 run s1 show ?thesis
      by (auto simp: WS_BINARY_FRAME_def WS_CONTINUATION_FRAME_def split: option.splits
          dest: received_comp_closes received_comp_polite)
  next
    case 3
    with run s1 show ?thesis
      by (auto simp: WS_BINARY_FRAME_def WS_CONTINUATION_FRAME_def WS_TEXT_FRAME_def split: option.splits prod.splits
          dest: received_comp_closes)
  next
    case 4
    have "fst (g m a) \<noteq> WS_CLOSED" if "ping_received E = Some g" for g m a
      using assms(1) that by (simp add: polite_def)
    moreover have "closes s2 = closes s1" if "websocket_send_pong_frame E frame s1 = (r, s2)" for r s2
      using that send_frame_closes [of E frame WS_PONG_FRAME s1] by (simp add: websocket_send_pong_frame_def)
    ultimately show ?thesis
      using 4 run s1
      by (auto simp: WS_BINARY_FRAME_def WS_CONTINUATION_FRAME_def WS_TEXT_FRAME_def WS_PING_FRAME_def
          split: option.splits prod.splits if_splits dest: call_back_closes call_back_polite)
  next
    case 5
    have "fst (g m a) \<noteq> WS_CLOSED" if "pong_received E = Some g" for g m a
      using assms(1) that by (simp add: polite_def)
    with 5 run s1 show ?thesis
      by (auto simp: WS_BINARY_FRAME_def WS_CONTINUATION_FRAME_def WS_TEXT_FRAME_def WS_PING_FRAME_def WS_PONG_FRAME_def
          split: option.splits if_splits dest: call_back_closes call_back_polite)
  next
    case 6
    with run have "handle_close_frame E frame s1 = (ret, s')"
      by (simp add: WS_BINARY_FRAME_def WS_CONTINUATION_FRAME_def WS_TEXT_FRAME_def WS_PING_FRAME_def WS_PONG_FRAME_def
          WS_CLOSE_FRAME_def)
    with handle_close_frame_closes s1 show ?thesis by fastforce
  next
    case 7
    with run s1 show ?thesis by auto
  qed
qed

text \<open>The reaction of a read callback when \<open>n\<close> connections had been freed before.\<close>

definition once :: "nat \<Rightarrow> ('z, 'a) ws_reaction \<Rightarrow> bool" where
  "once n reaction \<longleftrightarrow> (case reaction of Closed s \<Rightarrow> closes s = n + 1 | Go_on next s \<Rightarrow> closes s = n)"

lemma once_simps [simp]: "once n (Closed s) \<longleftrightarrow> closes s = n + 1" "once n (Go_on next s) \<longleftrightarrow> closes s = n"
  by (simp_all add: once_def)

lemma once_payload:
  assumes "polite E" "closes s = n"
  shows "once n (ws_get_payload E buf s)"
  using ws_handle_frame_closes [OF assms(1)] assms(2)
  by (auto simp: ws_get_payload_def Let_def split: prod.split websocket_callback_return.split)

lemma once_mask_or_payload: "polite E \<Longrightarrow> closes s = n \<Longrightarrow> once n (read_mask_or_payload E s)"
  by (simp add: read_mask_or_payload_def once_payload)

text \<open>C30: The connection is closed exactly once.  Whatever bytes a read callback gets, in whatever state: if it
  reports to the buffered socket that the connection is closed, then it has freed the connection exactly
  once, and if it goes on reading, then not at all; there is no double free and no use after free.\<close>
theorem closed_exactly_once:
  assumes "polite E"
  shows "case ws_client E cb buf s of
    Closed s' \<Rightarrow> closes s' = closes s + 1 | Go_on next s' \<Rightarrow> closes s' = closes s"
proof -
  have "once (closes s) (ws_client E cb buf s)"
    by (cases cb)
      (simp_all add: ws_get_header_def ws_get_first_length_def ws_get_length16_def ws_get_length64_def ws_get_mask_def
        Let_def once_payload once_mask_or_payload assms)
  then show ?thesis by (simp add: once_def)
qed

subsection \<open>An example\<close>

definition plain_zlib :: "unit zlib" where
  "plain_zlib = \<lparr>inflate_all = (\<lambda>_ strm m. Some (take (length m - 4) m, 0, strm)),
     deflate_all = (\<lambda>_ strm m. Some (m @ [0, 0, 0xFF, 0xFF], strm))\<rparr>"

definition sender_env :: "(unit, 8 word list) ws_env" where
  "sender_env = \<lparr>writev_fn = (\<lambda>iov out. (0, out @ concat iov)), zlib_of = plain_zlib, random_mask = (\<lambda>n. [1, 2, 3, 4]),
     buffer_address = 1, memory_left = True, on_error = (\<lambda>a. a), text_message_received = None,
     text_frame_received = None, binary_message_received = None, binary_frame_received = None,
     ping_received = None, pong_received = None, close_received = None\<rparr>"

definition receiver_env :: "(unit, 8 word list list) ws_env" where
  "receiver_env = \<lparr>writev_fn = (\<lambda>iov got. (0, got)), zlib_of = plain_zlib, random_mask = (\<lambda>n. [1, 2, 3, 4]),
     buffer_address = 1, memory_left = True, on_error = (\<lambda>got. got),
     text_message_received = Some (\<lambda>m got. (WS_OK, got @ [m])),
     text_frame_received = Some (\<lambda>m is_last got. (WS_OK, got @ [m])), binary_message_received = None,
     binary_frame_received = None, ping_received = None, pong_received = None, close_received = None\<rparr>"

definition ws_start :: "bool \<Rightarrow> 'a \<Rightarrow> (unit, 'a) ws_state" where
  "ws_start server a = \<lparr>is_server = server, upgrade_complete = True, fin = False, rsv = 0, opcode = 0, masked = False,
     frag_opcode = WS_CONTINUATION_FRAME, is_fragmented = False, is_frag_compressed = False, ws_length = 0,
     mask_key = [0, 0, 0, 0], compression_level = 0, client_max_window_bits = 15, client_no_context_takeover = False,
     server_max_window_bits = 15, server_no_context_takeover = False, ext_response = None, accepted = False,
     deflate_stream = (), inflate_stream = (), fragments = empty_decomp, draws = 0, app = a, closes = 0, ws_faults = []\<rparr>"

definition ws_socket :: "ws_callback buffered_socket" where
  "ws_socket = \<lparr>read_buffer = replicate 8 0, read_ptr = 0, write_ptr = 0, bs_reader = Some (Get_read_ptr 1),
     read_callback = Ws_get_header, to_write = 0, write_buffer = replicate 8 0\<rparr>"

lemma ws_socket_idle: "ws_idle ws_socket demo_kernel"
  by (simp add: ws_idle_def ws_socket_def demo_kernel_def bs_ok_def unread_def unread_bytes_def)

theorem frames_reach_the_handler_witness:
  "case wakes (ws_client receiver_env) [[[0x81, 0x82, 1]], [[2, 3, 4, 0x69, 0x6B, 0x88], [0x80, 5, 6, 7, 8]]]
      ws_socket demo_kernel (ws_start True []) of
     (r, bs, k, s) \<Rightarrow> r = 0 \<and> app s = [[0x68, 0x69]] \<and> closes s = 1"
proof -
  let ?css = "[[[0x81, 0x82, 1]], [[2, 3, 4, 0x69, 0x6B, 0x88], [0x80, 5, 6, 7, 8]]] :: 8 word list list list"
  let ?fs = "[\<lparr>f_fin = True, f_rsv = 0, f_opcode = 1, f_mask = Some [1, 2, 3, 4], f_payload = [0x68, 0x69]\<rparr>,
    \<lparr>f_fin = True, f_rsv = 0, f_opcode = 8, f_mask = Some [5, 6, 7, 8], f_payload = []\<rparr>]"
  obtain r bs k s where run: "wakes (ws_client receiver_env) ?css ws_socket demo_kernel (ws_start True []) = (r, bs, k, s)"
    by (metis surj_pair)
  have enc: "concat (concat ?css) = concat (map encode_frame ?fs)" by code_simp
  have ok: "\<forall>f\<in>set ?fs. frame_ok f \<and> length (f_payload f) \<le> length (read_buffer ws_socket)"
    by (simp add: frame_ok_def ws_socket_def)
  have "fst (receive_frames receiver_env ?fs (ws_start True [])) = False \<and>
      app (snd (receive_frames receiver_env ?fs (ws_start True []))) = [[0x68, 0x69]] \<and>
      closes (snd (receive_frames receiver_env ?fs (ws_start True []))) = 1" by code_simp
  with frames_reach_the_handler [OF ws_socket_idle _ _ enc ok run] show ?thesis unfolding run by auto
qed


theorem closed_exactly_once_witness:
  "\<exists>s. ws_client receiver_env Ws_get_first_length [] (ws_start True []) = Closed s \<and> closes s = 1"
proof -
  have "polite receiver_env" by (simp add: polite_def receiver_env_def)
  from closed_exactly_once [OF this, where cb = Ws_get_first_length and buf = "[]" and s = "ws_start True []"] show ?thesis
    by (simp add: ws_get_first_length_def ws_start_def)
qed

end
