(* ===== verification/Websocket_Rules.thy ===== *)
theory Websocket_Rules
  imports Websocket
begin

text \<open>
  The frame rules of RFC 6455 and what \<^verbatim>\<open>ws_handle_frame\<close> makes of them.

  \<open>malformed\<close> is the specification: the frames an endpoint without extensions has to refuse, given its
  role and whether a fragmented message is in progress.  The theorems show that these frames close the
  connection before any callback sees them, and that the fragments of a message reach the frame callback
  in order, with the last one marked.
\<close>

subsection \<open>Malformed frames\<close>

definition valid_close_code :: "int \<Rightarrow> bool" where
  "valid_close_code n \<longleftrightarrow> 1000 \<le> n \<and> n \<le> 1003 \<or> 1007 \<le> n \<and> n \<le> 1011 \<or> 3000 \<le> n \<and> n \<le> 4999"

definition malformed :: "bool \<Rightarrow> bool \<Rightarrow> ws_frame \<Rightarrow> bool" where
  "malformed server fragmented f \<longleftrightarrow>
    server \<and> f_mask f = None \<or>
    f_rsv f \<noteq> 0 \<or>
    f_opcode f \<notin> {0, 1, 2, 8, 9, 10} \<or>
    8 \<le> f_opcode f \<and> (\<not> f_fin f \<or> 125 < length (f_payload f)) \<or>
    f_opcode f = 0 \<and> \<not> fragmented \<or>
    f_opcode f \<in> {1, 2} \<and> fragmented \<or>
    f_opcode f = 8 \<and> (length (f_payload f) = 1 \<or>
      2 \<le> length (f_payload f) \<and> \<not> valid_close_code (be_value (take 2 (f_payload f))))"

lemma status_code_invalid:
  assumes "2 \<le> length p"
  shows "is_status_code_invalid (jet_be16toh (word_of_int (le_value (take 2 p)))) \<longleftrightarrow> \<not> valid_close_code (be_value (take 2 p))"
proof -
  have "uint (jet_be16toh (word_of_int (le_value (take 2 p)))) = be_value (take 2 p)"
    by (rule be16toh_bytes) (use assms in simp)
  then show ?thesis
    by (simp add: is_status_code_invalid_def Let_def valid_close_code_def word_le_def WS_CLOSE_NORMAL_def
        WS_CLOSE_UNSUPPORTED_def WS_CLOSE_UNSUPPORTED_DATA_def WS_CLOSE_INTERNAL_ERROR_def
        WS_CLOSE_RESERVED_LOWER_BOUND_def WS_CLOSE_RESERVED_UPPER_BOUND_def)
qed

text \<open>The error path: the close frame with a code, the connection freed, the user's error callback.\<close>

definition fails_with :: "('z, 'a) ws_env \<Rightarrow> 16 word set \<Rightarrow> ('z, 'a) ws_state \<Rightarrow> ('z, 'a) ws_reaction \<Rightarrow> bool" where
  "fails_with E codes s reaction \<longleftrightarrow>
    (\<exists>code\<in>codes. \<exists>s'. reaction = Closed (handle_error E code s') \<and> app s' = app s \<and> closes s' = closes s)"

lemma fails_withI:
  "code \<in> codes \<Longrightarrow> reaction = Closed (handle_error E code s') \<Longrightarrow> app s' = app s \<Longrightarrow> closes s' = closes s \<Longrightarrow>
   fails_with E codes s reaction"
  by (auto simp: fails_with_def)

text \<open>Which fragmented message is in progress, between frames.\<close>

definition frag_ok :: "('z, 'a) ws_state \<Rightarrow> bool" where
  "frag_ok s \<longleftrightarrow> (if is_fragmented s then frag_opcode s = WS_TEXT_FRAME \<or> frag_opcode s = WS_BINARY_FRAME
    else frag_opcode s = WS_CONTINUATION_FRAME)"

lemmas opcodes = WS_CONTINUATION_FRAME_def WS_TEXT_FRAME_def WS_BINARY_FRAME_def WS_CLOSE_FRAME_def WS_PING_FRAME_def
  WS_PONG_FRAME_def

lemma check_flags_plain:
  assumes "\<not> accepted s" "rsv s = 0"
  shows "check_flags s =
    (if \<not> fin s \<and> 8 \<le> opcode s then None
     else if opcode s = 0 then if \<not> fin s \<and> \<not> is_fragmented s then None else Some (False, s)
     else if opcode s < 8 \<and> is_fragmented s then None
     else if fin s then Some (False, s)
     else Some (False, s\<lparr>is_fragmented := True, frag_opcode := opcode s, opcode := 0\<rparr>))"
  using assms by (auto simp: check_flags_def Let_def opcodes word_neq_0_conv not_le)

lemma handle_close_frame_fails:
  assumes "length p = 1 \<or> 125 < length p \<or> 2 \<le> length p \<and> \<not> valid_close_code (be_value (take 2 p))"
  shows "\<exists>code\<in>{WS_CLOSE_PROTOCOL_ERROR, WS_CLOSE_UNSUPPORTED_DATA}. handle_close_frame E p s = (WS_CLOSED, handle_error E code s)"
  using assms status_code_invalid [of p]
  by (auto simp: handle_close_frame_def Let_def WS_SMALL_FRAME_SIZE_def)

lemma malformed_frame_fails:
  assumes "\<not> accepted s" "frag_ok s" "frame_ok f" "malformed (is_server s) (is_fragmented s) f"
  shows "fails_with E {WS_CLOSE_PROTOCOL_ERROR, WS_CLOSE_UNSUPPORTED_DATA} s (receive_frame E f s)"
proof (cases "is_server s \<and> f_mask f = None")
  case True
  then have "wire_payload f = f_payload f" by (simp add: wire_payload_def)
  moreover have "word_of_nat (length (f_payload f)) = (0 :: 64 word) \<longleftrightarrow> f_payload f = []"
    using assms(3) length_word [of "length (f_payload f)"] unat_eq_zero [of "word_of_nat (length (f_payload f)) :: 64 word"]
    by (simp add: frame_ok_def)
  ultimately show ?thesis
    using True by (intro fails_withI [of WS_CLOSE_PROTOCOL_ERROR _ _ _ "header_of f s"]) (simp_all add: receive_frame_def ws_get_payload_def)
next
  case False
  let ?s = "header_of f s"
  let ?codes = "{WS_CLOSE_PROTOCOL_ERROR, WS_CLOSE_UNSUPPORTED_DATA}"
  have fails: "fails_with E ?codes s (receive_frame E f s)"
    if "ws_handle_frame E (f_payload f) ?s = (WS_CLOSED, handle_error E code s')" "code \<in> ?codes"
      "app s' = app s" "closes s' = closes s" for code s'
    using receive_frame_eq [OF assms(3), of s E] False that by (intro fails_withI [of code _ _ _ s']) auto
  show ?thesis
  proof (cases "f_rsv f = 0")
    case False
    then have "check_flags ?s = None" using assms(1) by (simp add: check_flags_def)
    then show ?thesis by (intro fails [of WS_CLOSE_PROTOCOL_ERROR ?s]) (simp_all add: ws_handle_frame_def)
  next
    case True
    have cf: "check_flags ?s =
      (if \<not> f_fin f \<and> 8 \<le> f_opcode f then None
       else if f_opcode f = 0 then if \<not> f_fin f \<and> \<not> is_fragmented s then None else Some (False, ?s)
       else if f_opcode f < 8 \<and> is_fragmented s then None
       else if f_fin f then Some (False, ?s)
       else Some (False, ?s\<lparr>is_fragmented := True, frag_opcode := f_opcode f, opcode := 0\<rparr>))"
      using check_flags_plain [of ?s] assms(1) True by simp
    show ?thesis
    proof (cases "check_flags ?s")
      case None
      then show ?thesis by (intro fails [of WS_CLOSE_PROTOCOL_ERROR ?s]) (simp_all add: ws_handle_frame_def)
    next
      case (Some cs)
      then obtain c s1 where cs: "check_flags ?s = Some (c, s1)" by (cases cs) simp
      have s1: "app s1 = app s" "closes s1 = closes s" using cs cf by (auto split: if_splits)
      consider (reserved) "f_opcode f \<notin> {0, 1, 2, 8, 9, 10}" | (control) "f_opcode f \<in> {9, 10}" "125 < length (f_payload f)"
        | (cont) "f_opcode f = 0" "\<not> is_fragmented s"
        | (close) "f_opcode f = 8" "length (f_payload f) = 1 \<or> 125 < length (f_payload f) \<or>
            2 \<le> length (f_payload f) \<and> \<not> valid_close_code (be_value (take 2 (f_payload f)))"
      proof -
        have "8 \<le> f_opcode f \<Longrightarrow> f_opcode f \<noteq> 0 \<and> f_opcode f \<noteq> 1 \<and> f_opcode f \<noteq> 2"
          "f_opcode f = 1 \<or> f_opcode f = 2 \<Longrightarrow> f_opcode f < 8" "f_opcode f = 8 \<Longrightarrow> 8 \<le> f_opcode f"
          by (auto simp: word_le_def)
        with that show thesis
          using assms(4) False True cs cf by (simp add: malformed_def split: if_splits, blast+)
      qed
      then show ?thesis
      proof cases
        case reserved
        have "ws_handle_frame E (f_payload f) ?s = (WS_CLOSED, handle_error E WS_CLOSE_PROTOCOL_ERROR s1)"
          unfolding ws_handle_frame_def cs option.case prod.case
          using reserved cs cf by (auto simp: opcodes split: if_splits)
        with s1 show ?thesis by (intro fails [of WS_CLOSE_PROTOCOL_ERROR s1]) simp_all
      next
        case control
        have "ws_handle_frame E (f_payload f) ?s = (WS_CLOSED, handle_error E WS_CLOSE_PROTOCOL_ERROR s1)"
          unfolding ws_handle_frame_def cs option.case prod.case
          using control cs cf by (auto simp: opcodes WS_SMALL_FRAME_SIZE_def split: if_splits)
        with s1 show ?thesis by (intro fails [of WS_CLOSE_PROTOCOL_ERROR s1]) simp_all
      next
        case cont
        have "ws_handle_frame E (f_payload f) ?s = (WS_CLOSED, handle_error E WS_CLOSE_PROTOCOL_ERROR s1)"
          unfolding ws_handle_frame_def cs option.case prod.case
          using cont cs cf assms(2) by (auto simp: opcodes frag_ok_def split: if_splits)
        with s1 show ?thesis by (intro fails [of WS_CLOSE_PROTOCOL_ERROR s1]) simp_all
      next
        case close
        have "opcode s1 = 8" using close(1) cs cf by (auto split: if_splits)
        then have "ws_handle_frame E (f_payload f) ?s = handle_close_frame E (f_payload f) s1"
          unfolding ws_handle_frame_def cs option.case prod.case by (simp add: opcodes)
        with handle_close_frame_fails [OF close(2), of E s1] s1 fails show ?thesis by auto
      qed
    qed
  qed
qed


subsection \<open>Fragmented messages\<close>

definition data_frame :: "bool \<Rightarrow> 8 word \<Rightarrow> 8 word list option \<Rightarrow> 8 word list \<Rightarrow> ws_frame" where
  "data_frame fin_bit op key p = \<lparr>f_fin = fin_bit, f_rsv = 0, f_opcode = op, f_mask = key, f_payload = p\<rparr>"

text \<open>A message in fragments: the first carries the opcode, the last the final bit.\<close>

definition fragment_frames :: "8 word list option \<Rightarrow> 8 word list \<Rightarrow> 8 word list list \<Rightarrow> 8 word list \<Rightarrow> ws_frame list" where
  "fragment_frames key first middle final =
    data_frame False WS_TEXT_FRAME key first # map (data_frame False 0 key) middle @ [data_frame True 0 key final]"

lemma receive_first_fragment:
  assumes "frame_ok (data_frame False WS_TEXT_FRAME key p)" "is_server s \<longrightarrow> key \<noteq> None" "\<not> accepted s" "\<not> is_fragmented s"
    and "\<not> is_frag_compressed s"
  shows "receive_frame E (data_frame False WS_TEXT_FRAME key p) s =
    (case text_frame_received E of
       None \<Rightarrow> Closed (handle_error E WS_CLOSE_INTERNAL_ERROR (ws_fault Null_callback
         ((header_of (data_frame False WS_TEXT_FRAME key p) s)\<lparr>is_fragmented := True, frag_opcode := WS_TEXT_FRAME, opcode := 0\<rparr>)))
     | Some cb \<Rightarrow> (case cb p False (app s) of (r, a) \<Rightarrow>
        let s' = (header_of (data_frame False WS_TEXT_FRAME key p) s)\<lparr>is_fragmented := True, frag_opcode := WS_TEXT_FRAME, opcode := 0, app := a\<rparr>
        in (case r of
            WS_OK \<Rightarrow> Go_on (Some at_header) s'
          | WS_CLOSED \<Rightarrow> Closed (handle_error E WS_CLOSE_UNSUPPORTED_DATA s')
          | WS_ERROR \<Rightarrow> Closed (handle_error E WS_CLOSE_INTERNAL_ERROR s'))))"
proof -
  let ?f = "data_frame False WS_TEXT_FRAME key p"
  have cf: "check_flags (header_of ?f s) =
      Some (False, (header_of ?f s)\<lparr>is_fragmented := True, frag_opcode := WS_TEXT_FRAME, opcode := 0\<rparr>)"
    using check_flags_plain [of "header_of ?f s"] assms(3,4) by (simp add: data_frame_def opcodes word_le_def)
  have "receive_frame E ?f s = (case ws_handle_frame E p (header_of ?f s) of
      (WS_OK, s) \<Rightarrow> Go_on (Some at_header) s
    | (WS_CLOSED, s) \<Rightarrow> Closed s
    | (WS_ERROR, s) \<Rightarrow> Closed (handle_error E WS_CLOSE_INTERNAL_ERROR s))"
    using receive_frame_eq [OF assms(1), of s E] assms(2) by (simp add: data_frame_def)
  then show ?thesis
    unfolding ws_handle_frame_def cf option.case prod.case
    using assms(5)
    by (cases "text_frame_received E")
      (simp_all add: opcodes frame_received_comp_def call_back_def data_frame_def Let_def ws_fault_def
        split: prod.split websocket_callback_return.split)
qed

lemma receive_next_fragment:
  assumes "frame_ok (data_frame last_one 0 key p)" "is_server s \<longrightarrow> key \<noteq> None" "\<not> accepted s" "is_fragmented s"
    and "frag_opcode s = WS_TEXT_FRAME" "\<not> is_frag_compressed s"
    and "text_frame_received E = Some cb" "cb p last_one (app s) = (WS_OK, a)"
  shows "receive_frame E (data_frame last_one 0 key p) s =
    Go_on (Some at_header) (if last_one
      then (header_of (data_frame last_one 0 key p) s)\<lparr>app := a, is_fragmented := False, is_frag_compressed := False, frag_opcode := 0\<rparr>
      else (header_of (data_frame last_one 0 key p) s)\<lparr>app := a\<rparr>)"
proof -
  let ?f = "data_frame last_one 0 key p"
  have cf: "check_flags (header_of ?f s) = Some (False, header_of ?f s)"
    using check_flags_plain [of "header_of ?f s"] assms(3,4) by (simp add: data_frame_def)
  have "receive_frame E ?f s = (case ws_handle_frame E p (header_of ?f s) of
      (WS_OK, s) \<Rightarrow> Go_on (Some at_header) s
    | (WS_CLOSED, s) \<Rightarrow> Closed s
    | (WS_ERROR, s) \<Rightarrow> Closed (handle_error E WS_CLOSE_INTERNAL_ERROR s))"
    using receive_frame_eq [OF assms(1), of s E] assms(2) by (simp add: data_frame_def)
  then show ?thesis
    unfolding ws_handle_frame_def cf option.case prod.case
    using assms(5-8) by (simp add: opcodes frame_received_comp_def call_back_def data_frame_def)
qed

lemma receive_middle_fragments:
  assumes "text_frame_received E = Some cb" "\<forall>m l a. fst (cb m l a) = WS_OK"
    and "\<forall>p\<in>set ps. frame_ok (data_frame False 0 key p)" "is_server s \<longrightarrow> key \<noteq> None" "\<not> accepted s" "is_fragmented s"
    and "frag_opcode s = WS_TEXT_FRAME" "\<not> is_frag_compressed s"
  shows "\<exists>s'. receive_frames E (map (data_frame False 0 key) ps) s = (True, s') \<and>
    app s' = fold (\<lambda>p a. snd (cb p False a)) ps (app s) \<and> is_server s' = is_server s \<and> \<not> accepted s' \<and> is_fragmented s' \<and>
    frag_opcode s' = WS_TEXT_FRAME \<and> \<not> is_frag_compressed s'"
  using assms(3-8)
proof (induction ps arbitrary: s)
  case (Cons p ps)
  obtain a where a: "cb p False (app s) = (WS_OK, a)" using assms(2) by (metis prod.collapse)
  have ok: "frame_ok (data_frame False 0 key p)" using Cons.prems(1) by simp
  note step = receive_next_fragment [OF ok Cons.prems(2-6) assms(1) a]
  let ?s = "(header_of (data_frame False 0 key p) s)\<lparr>app := a\<rparr>"
  from Cons.IH [of ?s] Cons.prems obtain s' where
    "receive_frames E (map (data_frame False 0 key) ps) ?s = (True, s')" "app s' = fold (\<lambda>p a. snd (cb p False a)) ps a"
    "is_server s' = is_server s" "\<not> accepted s'" "is_fragmented s'" "frag_opcode s' = WS_TEXT_FRAME" "\<not> is_frag_compressed s'" by auto
  with step a show ?case by (intro exI [of _ s']) simp
qed simp


text \<open>An endpoint without a frame callback calls the NULL pointer.\<close>

lemma fragmented_text_calls_null:
  assumes "text_frame_received E = None"
    and "frame_ok (data_frame False WS_TEXT_FRAME key p)" "is_server s \<longrightarrow> key \<noteq> None" "\<not> accepted s" "\<not> is_fragmented s"
    and "\<not> is_frag_compressed s"
  shows "\<exists>s'. receive_frame E (data_frame False WS_TEXT_FRAME key p) s =
      Closed (handle_error E WS_CLOSE_INTERNAL_ERROR s') \<and> Null_callback \<in> set (ws_faults s')"
  using receive_first_fragment [OF assms(2-6), of E] assms(1) by (auto simp: ws_fault_def)



end
