(* ===== verification/Sha1.thy ===== *)
theory Sha1
  imports Prelude
begin

unbundle bit_operations_syntax

text \<open>
  SHA-1: \<^verbatim>\<open>src/src/sha1/sha1.c\<close>, used for the accept key of the websocket handshake.

  \<open>SHA1Context\<close> is the state of an incremental hash.  The code is modelled as it is, with its block
  buffer and index, its length counter in two 32-bit halves and its flags; \<open>sha1\<close> is the function of
  FIPS 180-1 on a whole message (padding, message schedule, one loop of 80 steps).  The lemmas show
  that the incremental code computes it, in whatever pieces the message is given.
\<close>

subsection \<open>The code\<close>

record SHA1Context =
  Intermediate_Hash :: "32 word list"
  Length_Low :: "32 word"
  Length_High :: "32 word"
  Message_Block_Index :: nat
  Message_Block :: "8 word list"
  Computed :: bool
  Corrupted :: int

definition shaSuccess :: int where "shaSuccess = 0"
definition shaStateError :: int where "shaStateError = 3"
definition SHA1HashSize :: nat where "SHA1HashSize = 20"

definition SHA1CircularShift :: "nat \<Rightarrow> 32 word \<Rightarrow> 32 word" where
  "SHA1CircularShift bits w = push_bit bits w OR drop_bit (32 - bits) w"

definition SHA1Reset :: "SHA1Context \<Rightarrow> SHA1Context" where
  "SHA1Reset c = c\<lparr>Length_Low := 0, Length_High := 0, Message_Block_Index := 0,
     Intermediate_Hash := [0x67452301, 0xEFCDAB89, 0x98BADCFE, 0x10325476, 0xC3D2E1F0],
     Computed := False, Corrupted := 0\<rparr>"

text \<open>The array \<open>W\<close>: the first loop, then the second one, which appends word after word.\<close>

definition block_word :: "8 word list \<Rightarrow> nat \<Rightarrow> 32 word" where
  "block_word block t = push_bit 24 (ucast (block ! (t * 4))) OR push_bit 16 (ucast (block ! (t * 4 + 1)))
     OR push_bit 8 (ucast (block ! (t * 4 + 2))) OR ucast (block ! (t * 4 + 3))"

fun extend_words :: "nat \<Rightarrow> 32 word list \<Rightarrow> 32 word list" where
  "extend_words 0 W = W"
| "extend_words (Suc n) W =
    (let t = length W
     in extend_words n (W @ [SHA1CircularShift 1 (W ! (t - 3) XOR W ! (t - 8) XOR W ! (t - 14) XOR W ! (t - 16))]))"

definition message_words :: "8 word list \<Rightarrow> 32 word list" where
  "message_words block = extend_words 64 (map (block_word block) [0..<16])"

type_synonym buffers = "32 word \<times> 32 word \<times> 32 word \<times> 32 word \<times> 32 word"

text \<open>The body of the four loops; they differ in the function of \<open>B\<close>, \<open>C\<close> and \<open>D\<close> and in the constant.\<close>

definition sha1_step :: "(32 word \<Rightarrow> 32 word \<Rightarrow> 32 word \<Rightarrow> 32 word) \<Rightarrow> 32 word \<Rightarrow> 32 word \<Rightarrow> buffers \<Rightarrow> buffers" where
  "sha1_step f k w abcde = (case abcde of (A, B, C, D, E) \<Rightarrow>
     let temp = SHA1CircularShift 5 A + f B C D + E + w + k
     in (temp, A, SHA1CircularShift 30 B, C, D))"

definition sha1_loops :: "32 word list \<Rightarrow> buffers \<Rightarrow> buffers" where
  "sha1_loops W s0 =
    (let s1 = foldl (\<lambda>s t. sha1_step (\<lambda>B C D. (B AND C) OR (NOT B AND D)) 0x5A827999 (W ! t) s) s0 [0..<20];
         s2 = foldl (\<lambda>s t. sha1_step (\<lambda>B C D. B XOR C XOR D) 0x6ED9EBA1 (W ! t) s) s1 [20..<40];
         s3 = foldl (\<lambda>s t. sha1_step (\<lambda>B C D. (B AND C) OR (B AND D) OR (C AND D)) 0x8F1BBCDC (W ! t) s) s2 [40..<60]
     in foldl (\<lambda>s t. sha1_step (\<lambda>B C D. B XOR C XOR D) 0xCA62C1D6 (W ! t) s) s3 [60..<80])"

definition SHA1ProcessMessageBlock :: "SHA1Context \<Rightarrow> SHA1Context" where
  "SHA1ProcessMessageBlock c =
    (let W = message_words (Message_Block c);
         h = Intermediate_Hash c;
         (A, B, C, D, E) = sha1_loops W (h ! 0, h ! 1, h ! 2, h ! 3, h ! 4)
     in c\<lparr>Intermediate_Hash := [h ! 0 + A, h ! 1 + B, h ! 2 + C, h ! 3 + D, h ! 4 + E],
          Message_Block_Index := 0\<rparr>)"

text \<open>\<open>Message_Block[Message_Block_Index++] = b\<close>\<close>

definition put_byte :: "8 word \<Rightarrow> SHA1Context \<Rightarrow> SHA1Context" where
  "put_byte b c = c\<lparr>Message_Block := (Message_Block c)[Message_Block_Index c := b],
     Message_Block_Index := Message_Block_Index c + 1\<rparr>"

fun input_loop :: "SHA1Context \<Rightarrow> 8 word list \<Rightarrow> SHA1Context" where
  "input_loop c [] = c"
| "input_loop c (b # bs) =
    (if Corrupted c \<noteq> 0 then c
     else
       let c = put_byte b c;
           c = c\<lparr>Length_Low := Length_Low c + 8\<rparr>;
           c = (if Length_Low c = 0 then c\<lparr>Length_High := Length_High c + 1\<rparr> else c);
           c = (if Length_Low c = 0 \<and> Length_High c = 0 then c\<lparr>Corrupted := 1\<rparr> else c);
           c = (if Message_Block_Index c = 64 then SHA1ProcessMessageBlock c else c)
       in input_loop c bs)"

definition SHA1Input :: "SHA1Context \<Rightarrow> 8 word list \<Rightarrow> int \<times> SHA1Context" where
  "SHA1Input c message =
    (if message = [] then (shaSuccess, c)
     else if Computed c then (shaStateError, c\<lparr>Corrupted := shaStateError\<rparr>)
     else if Corrupted c \<noteq> 0 then (Corrupted c, c)
     else (shaSuccess, input_loop c message))"

function fill_zeros :: "nat \<Rightarrow> SHA1Context \<Rightarrow> SHA1Context" where
  "fill_zeros limit c = (if Message_Block_Index c < limit then fill_zeros limit (put_byte 0 c) else c)"
  by auto
termination by (relation "measure (\<lambda>(limit, c). limit - Message_Block_Index c)") (auto simp: put_byte_def)

declare fill_zeros.simps [simp del]

definition SHA1PadMessage :: "SHA1Context \<Rightarrow> SHA1Context" where
  "SHA1PadMessage c =
    (let c = (if 55 < Message_Block_Index c
              then fill_zeros 56 (SHA1ProcessMessageBlock (fill_zeros 64 (put_byte 0x80 c)))
              else fill_zeros 56 (put_byte 0x80 c));
         hi = Length_High c; lo = Length_Low c;
         block = take 56 (Message_Block c) @ map ucast
           [drop_bit 24 hi, drop_bit 16 hi, drop_bit 8 hi, hi, drop_bit 24 lo, drop_bit 16 lo, drop_bit 8 lo, lo]
     in SHA1ProcessMessageBlock (c\<lparr>Message_Block := block\<rparr>))"

definition SHA1Result :: "SHA1Context \<Rightarrow> int \<times> SHA1Context \<times> 8 word list option" where
  "SHA1Result c =
    (if Corrupted c \<noteq> 0 then (Corrupted c, c, None)
     else
       let c = (if \<not> Computed c
                then (SHA1PadMessage c)\<lparr>Message_Block := replicate 64 0, Length_Low := 0, Length_High := 0, Computed := True\<rparr>
                else c);
           digest = map (\<lambda>i. ucast (drop_bit (8 * (3 - i mod 4)) (Intermediate_Hash c ! (i div 4)))) [0..<SHA1HashSize]
       in (shaSuccess, c, Some digest))"

subsection \<open>FIPS 180-1\<close>

definition fips_f :: "nat \<Rightarrow> 32 word \<Rightarrow> 32 word \<Rightarrow> 32 word \<Rightarrow> 32 word" where
  "fips_f t B C D =
    (if t < 20 then (B AND C) OR (NOT B AND D)
     else if t < 40 then B XOR C XOR D
     else if t < 60 then (B AND C) OR (B AND D) OR (C AND D)
     else B XOR C XOR D)"

definition fips_K :: "nat \<Rightarrow> 32 word" where
  "fips_K t = (if t < 20 then 0x5A827999 else if t < 40 then 0x6ED9EBA1 else if t < 60 then 0x8F1BBCDC else 0xCA62C1D6)"

function fips_W :: "8 word list \<Rightarrow> nat \<Rightarrow> 32 word" where
  "fips_W M t = (if t < 16 then block_word M t
    else SHA1CircularShift 1 (fips_W M (t - 3) XOR fips_W M (t - 8) XOR fips_W M (t - 14) XOR fips_W M (t - 16)))"
  by auto
termination by (relation "measure snd") auto

declare fips_W.simps [simp del]

text \<open>One block: the step of section 7, 80 times, added to the chaining value.\<close>

definition fips_step :: "8 word list \<Rightarrow> nat \<Rightarrow> buffers \<Rightarrow> buffers" where
  "fips_step M t abcde = (case abcde of (A, B, C, D, E) \<Rightarrow>
     (SHA1CircularShift 5 A + fips_f t B C D + E + fips_W M t + fips_K t, A, SHA1CircularShift 30 B, C, D))"

definition fips_block :: "32 word list \<Rightarrow> 8 word list \<Rightarrow> 32 word list" where
  "fips_block h M = (case foldl (\<lambda>s t. fips_step M t s) (h ! 0, h ! 1, h ! 2, h ! 3, h ! 4) [0..<80] of
     (A, B, C, D, E) \<Rightarrow> [h ! 0 + A, h ! 1 + B, h ! 2 + C, h ! 3 + D, h ! 4 + E])"

function fips_blocks :: "32 word list \<Rightarrow> 8 word list \<Rightarrow> 32 word list" where
  "fips_blocks h bs = (if length bs < 64 then h else fips_blocks (fips_block h (take 64 bs)) (drop 64 bs))"
  by auto
termination by (relation "measure (length \<circ> snd)") auto

declare fips_blocks.simps [simp del]

text \<open>The length in bits as eight bytes, most significant first.\<close>

definition length_bytes :: "nat \<Rightarrow> 8 word list" where
  "length_bytes n = map (\<lambda>i. of_nat (8 * n div 256 ^ i)) [7, 6, 5, 4, 3, 2, 1, 0]"

definition sha1_pad :: "8 word list \<Rightarrow> 8 word list" where
  "sha1_pad m = m @ [0x80] @ replicate ((119 - length m mod 64) mod 64) 0 @ length_bytes (length m)"

definition fips_H0 :: "32 word list" where
  "fips_H0 = [0x67452301, 0xEFCDAB89, 0x98BADCFE, 0x10325476, 0xC3D2E1F0]"

definition sha1 :: "8 word list \<Rightarrow> 8 word list" where
  "sha1 m = concat (map (\<lambda>h. [ucast (drop_bit 24 h), ucast (drop_bit 16 h), ucast (drop_bit 8 h), ucast h])
     (fips_blocks fips_H0 (sha1_pad m)))"

subsection \<open>One block\<close>

lemma length_extend [simp]: "length (extend_words n W) = length W + n"
  by (induction n W rule: extend_words.induct) (auto simp: Let_def)

lemma extend_words_nth:
  assumes "16 \<le> length W" "\<And>t. t < length W \<Longrightarrow> W ! t = fips_W M t" "t < length W + n"
  shows "extend_words n W ! t = fips_W M t"
  using assms
proof (induction n W rule: extend_words.induct)
  case (1 W)
  then show ?case by simp
next
  case (2 n W)
  let ?t = "length W"
  let ?w = "SHA1CircularShift 1 (W ! (?t - 3) XOR W ! (?t - 8) XOR W ! (?t - 14) XOR W ! (?t - 16))"
  have "?w = fips_W M ?t"
    using 2(2,3) by (simp add: fips_W.simps [of M ?t])
  then have "\<And>t. t < length (W @ [?w]) \<Longrightarrow> (W @ [?w]) ! t = fips_W M t"
    using 2(3) by (auto simp: nth_append less_Suc_eq)
  from 2(1) [OF refl _ this] 2(2,4) show ?case by (simp add: Let_def)
qed

lemma message_words_nth: "t < 80 \<Longrightarrow> message_words M ! t = fips_W M t"
  unfolding message_words_def by (rule extend_words_nth) (auto simp: fips_W.simps [of M t] fips_W.simps)

lemma foldl_upt_cong:
  "s = s' \<Longrightarrow> (\<And>t s. i \<le> t \<Longrightarrow> t < j \<Longrightarrow> f s t = g s t) \<Longrightarrow> foldl f s [i..<j] = foldl g s' [i..<j]"
  by (auto intro: foldl_cong)

lemma sha1_loops_fips:
  "sha1_loops (message_words M) s = foldl (\<lambda>s t. fips_step M t s) s [0..<80]"
proof -
  have split: "[0..<80] = [0..<20] @ [20..<40] @ [40..<60] @ [60..<80::nat]"
  proof -
    have n: "(80 :: nat) = 20 + 60" "(80 :: nat) = 40 + 40" "(80 :: nat) = 60 + 20" by simp_all
    have "[0..<80] = [0..<20] @ [20..<80::nat]" unfolding n(1) by (rule upt_add_eq_append) simp
    also have "[20..<80::nat] = [20..<40] @ [40..<80]" unfolding n(2) by (rule upt_add_eq_append) simp
    also have "[40..<80::nat] = [40..<60] @ [60..<80]" unfolding n(3) by (rule upt_add_eq_append) simp
    finally show ?thesis .
  qed
  note unf = sha1_step_def fips_step_def fips_f_def fips_K_def message_words_nth Let_def
  show ?thesis
    unfolding split foldl_append sha1_loops_def Let_def
    by (intro foldl_upt_cong) (auto simp: unf split: prod.splits)
qed

lemma process_block:
  "SHA1ProcessMessageBlock c =
     c\<lparr>Intermediate_Hash := fips_block (Intermediate_Hash c) (Message_Block c), Message_Block_Index := 0\<rparr>"
  by (simp add: SHA1ProcessMessageBlock_def sha1_loops_fips fips_block_def Let_def split: prod.splits)

lemma fips_blocks_append:
  "64 dvd length a \<Longrightarrow> fips_blocks h (a @ b) = fips_blocks (fips_blocks h a) b"
proof (induction h a rule: fips_blocks.induct)
  case (1 h a)
  show ?case
  proof (cases "length a < 64")
    case True
    with 1(2) have "a = []" by (cases a) (auto dest: dvd_imp_le)
    then show ?thesis by (simp add: fips_blocks.simps [of h "[]"])
  next
    case False
    then have "64 dvd length (drop 64 a)" using 1(2) by (simp add: dvd_diff_nat)
    with 1(1) [OF False this] False show ?thesis
      by (simp add: fips_blocks.simps [of h a] fips_blocks.simps [of h "a @ b"])
  qed
qed

lemma fips_blocks_one: "length b = 64 \<Longrightarrow> fips_blocks h b = fips_block h b"
  by (simp add: fips_blocks.simps [of h b] fips_blocks.simps [of _ "[]"])

subsection \<open>The incremental hash\<close>

text \<open>\<open>absorbed c m\<close>: the context has taken in the message \<open>m\<close>.\<close>

definition bit_count :: "SHA1Context \<Rightarrow> nat" where
  "bit_count c = unat (Length_High c) * 2 ^ 32 + unat (Length_Low c)"

definition absorbed :: "SHA1Context \<Rightarrow> 8 word list \<Rightarrow> bool" where
  "absorbed c m \<longleftrightarrow> \<not> Computed c \<and> Corrupted c = 0 \<and> length (Message_Block c) = 64 \<and> bit_count c = 8 * length m \<and>
    (\<exists>a r. m = a @ r \<and> 64 dvd length a \<and> length r < 64 \<and> Message_Block_Index c = length r \<and>
       take (length r) (Message_Block c) = r \<and> Intermediate_Hash c = fips_blocks fips_H0 a)"

lemma absorbedI:
  assumes "\<not> Computed c" "Corrupted c = 0" "length (Message_Block c) = 64"
    and "unat (Length_High c) * 2 ^ 32 + unat (Length_Low c) = 8 * length m"
    and "m = a @ r" "64 dvd length a" "length r < 64" "Message_Block_Index c = length r"
    and "take (length r) (Message_Block c) = r" "Intermediate_Hash c = fips_blocks fips_H0 a"
  shows "absorbed c m"
  using assms unfolding absorbed_def bit_count_def by blast

lemma count_byte:
  assumes "bit_count c = 8 * n" "8 * (n + 1) < 2 ^ 64"
  defines "lo \<equiv> Length_Low c + 8"
  defines "hi \<equiv> if lo = 0 then Length_High c + 1 else Length_High c"
  shows "unat hi * 2 ^ 32 + unat lo = 8 * (n + 1)" and "\<not> (lo = 0 \<and> hi = 0)"
proof -
  let ?l = "unat (Length_Low c)" and ?h = "unat (Length_High c)"
  have l: "?l < 2 ^ 32" and h: "?h < 2 ^ 32"
    using unsigned_less [of "Length_Low c", where ?'a = nat] unsigned_less [of "Length_High c", where ?'a = nat] by simp_all
  have sum: "?h * 2 ^ 32 + ?l = 8 * n" using assms(1) by (simp add: bit_count_def)
  have "8 dvd ?l"
  proof -
    have "?l = 8 * n - 8 * (?h * 2 ^ 29)" using sum by simp
    then show ?thesis by (metis dvd_diff_nat dvd_triv_left)
  qed
  then obtain k where k: "?l = 8 * k" by (elim dvdE)
  have "unat hi * 2 ^ 32 + unat lo = 8 * (n + 1) \<and> \<not> (lo = 0 \<and> hi = 0)"
  proof (cases "?l + 8 < 2 ^ 32")
    case True
    then have lo: "unat lo = ?l + 8" by (simp add: lo_def unat_word_ariths)
    then have "lo \<noteq> 0" by auto
    with lo sum show ?thesis by (simp add: hi_def)
  next
    case False
    with l k have full: "?l + 8 = 2 ^ 32" by auto
    then have lo: "lo = 0" by (simp add: lo_def word_unat_eq_iff unat_word_ariths)
    have "?h + 1 < 2 ^ 32" using assms(2) sum full by auto
    then have "unat hi = ?h + 1" by (simp add: hi_def lo unat_word_ariths)
    then show ?thesis using sum full lo by auto
  qed
  then show "unat hi * 2 ^ 32 + unat lo = 8 * (n + 1)" and "\<not> (lo = 0 \<and> hi = 0)" by auto
qed

lemma absorbed_reset: "length (Message_Block c) = 64 \<Longrightarrow> absorbed (SHA1Reset c) []"
  unfolding absorbed_def
  by (intro conjI exI [of _ "[]"]) (auto simp: SHA1Reset_def bit_count_def fips_H0_def fips_blocks.simps [of _ "[]"])

lemma take_update: "i < length xs \<Longrightarrow> take (Suc i) (xs[i := y]) = take i xs @ [y]"
  by (simp add: take_Suc_conv_app_nth)

lemma absorbed_byte:
  assumes "absorbed c m" "8 * (length m + 1) < 2 ^ 64"
  shows "absorbed (input_loop c [b]) (m @ [b])"
proof -
  from assms(1) obtain a r where c: "\<not> Computed c" "Corrupted c = 0" "length (Message_Block c) = 64"
    and count: "bit_count c = 8 * length m" and m: "m = a @ r" "64 dvd length a" "length r < 64"
    and idx: "Message_Block_Index c = length r" "take (length r) (Message_Block c) = r"
    and h: "Intermediate_Hash c = fips_blocks fips_H0 a"
    unfolding absorbed_def by blast
  note len = count_byte [OF count assms(2)]
  have full: "take (length r + 1) ((Message_Block c)[length r := b]) = r @ [b]"
    using m(3) c(3) idx(2) by (simp add: take_update)
  define lo hi where d: "lo = Length_Low c + 8" "hi = (if lo = 0 then Length_High c + 1 else Length_High c)"
  let ?c = "c\<lparr>Message_Block := (Message_Block c)[length r := b], Message_Block_Index := length r + 1,
    Length_Low := lo, Length_High := hi\<rparr>"
  have loop: "input_loop c [b] = (if length r + 1 = 64 then SHA1ProcessMessageBlock ?c else ?c)"
    using c idx len(2) unfolding d by (auto simp: put_byte_def Let_def)
  show ?thesis
  proof (cases "length r + 1 = 64")
    case True
    have "(Message_Block c)[length r := b] = r @ [b]" using full True c(3) by simp
    then have "input_loop c [b] = c\<lparr>Message_Block := r @ [b], Message_Block_Index := 0,
        Length_Low := lo, Length_High := hi, Intermediate_Hash := fips_block (fips_blocks fips_H0 a) (r @ [b])\<rparr>"
      using loop True h by (simp add: process_block)
    moreover have "fips_blocks fips_H0 (a @ r @ [b]) = fips_block (fips_blocks fips_H0 a) (r @ [b])"
      using True by (simp add: fips_blocks_append [OF m(2)] fips_blocks_one)
    moreover have "64 dvd length (m @ [b])" using True m(1,2) by simp
    ultimately show ?thesis
      using c len(1) True m(1) by (intro absorbedI [where a = "m @ [b]" and r = "[]"]) (simp_all add: d)
  next
    case False
    with loop have "input_loop c [b] = ?c" by simp
    then show ?thesis
      using c len(1) False m full h by (intro absorbedI [where a = a and r = "r @ [b]"]) (simp_all add: d)
  qed
qed

lemma input_loop_stuck: "Corrupted c \<noteq> 0 \<Longrightarrow> input_loop c bs = c"
  by (cases bs) simp_all

lemma input_loop_Cons: "input_loop c (b # bs) = input_loop (input_loop c [b]) bs"
  by (cases "Corrupted c = 0") (simp_all add: input_loop_stuck Let_def)

lemma absorbed_input:
  assumes "absorbed c m" "8 * length (m @ bs) < 2 ^ 64"
  shows "absorbed (input_loop c bs) (m @ bs)"
  using assms
proof (induction bs arbitrary: c m)
  case (Cons b bs)
  have one: "absorbed (input_loop c [b]) (m @ [b])" using Cons.prems by (intro absorbed_byte) auto
  from Cons.IH [OF one] Cons.prems(2) show ?case by (simp add: input_loop_Cons [of c b bs] del: input_loop.simps)
qed simp

lemma absorbed_SHA1Input:
  assumes "absorbed c m" "8 * length (m @ bs) < 2 ^ 64"
  shows "fst (SHA1Input c bs) = shaSuccess" and "absorbed (snd (SHA1Input c bs)) (m @ bs)"
  using assms absorbed_input [OF assms] by (auto simp: SHA1Input_def absorbed_def)

lemma absorbed_pieces:
  assumes "absorbed c m" "8 * length (m @ concat pieces) < 2 ^ 64"
  shows "absorbed (foldl (\<lambda>c bs. snd (SHA1Input c bs)) c pieces) (m @ concat pieces)"
  using assms
proof (induction pieces arbitrary: c m)
  case (Cons bs pieces)
  have "absorbed (snd (SHA1Input c bs)) (m @ bs)"
    by (rule absorbed_SHA1Input) (use Cons.prems in auto)
  from Cons.IH [OF this] Cons.prems(2) show ?case by simp
qed simp

subsection \<open>Padding and result\<close>

lemma fill_zeros_spec:
  "Message_Block_Index c \<le> limit \<Longrightarrow> limit \<le> length (Message_Block c) \<Longrightarrow>
   fill_zeros limit c = c\<lparr>Message_Block := take (Message_Block_Index c) (Message_Block c) @
       replicate (limit - Message_Block_Index c) 0 @ drop limit (Message_Block c), Message_Block_Index := limit\<rparr>"
proof (induction limit c rule: fill_zeros.induct)
  case (1 limit c)
  show ?case
  proof (cases "Message_Block_Index c < limit")
    case True
    let ?i = "Message_Block_Index c"
    have r: "replicate (limit - ?i) 0 = (0 :: 8 word) # replicate (limit - Suc ?i) 0"
      using True by (metis Suc_diff_Suc replicate_Suc)
    have "?i < length (Message_Block c)" using True 1(3) by simp
    then have "take (Suc ?i) ((Message_Block c)[?i := 0]) = take ?i (Message_Block c) @ [0]" by (rule take_update)
    moreover have "drop limit ((Message_Block c)[?i := 0]) = drop limit (Message_Block c)"
      using True by simp
    ultimately show ?thesis
      using 1 True by (simp add: fill_zeros.simps [of limit c] put_byte_def r)
  next
    case False
    with 1(2) have "Message_Block_Index c = limit" by simp
    then show ?thesis by (simp add: fill_zeros.simps [of limit c])
  qed
qed

lemma length_field:
  assumes "bit_count c = 8 * n"
  defines "hi \<equiv> Length_High c" and "lo \<equiv> Length_Low c"
  shows "map ucast [drop_bit 24 hi, drop_bit 16 hi, drop_bit 8 hi, hi, drop_bit 24 lo, drop_bit 16 lo, drop_bit 8 lo, lo]
    = length_bytes n"
proof -
  have sum: "8 * n = unat hi * 2 ^ 32 + unat lo" using assms by (simp add: bit_count_def)
  have lo: "unat lo < 2 ^ 32" using unsigned_less [of lo, where ?'a = nat] by simp
  have byte: "ucast (drop_bit k w) = (of_nat (unat w div 2 ^ k) :: 8 word)" for k and w :: "32 word"
  proof -
    have "unat (drop_bit k w) = unat w div 2 ^ k"
      using unsigned_less [of w, where ?'a = nat]
      by (simp only: unsigned_drop_bit_eq) (simp add: take_bit_nat_eq_self drop_bit_eq_div)
    then show ?thesis by (metis of_nat_unat)
  qed
  have high: "8 * n div (2 ^ 32 * k) = unat hi div k" for k
    using lo by (simp add: sum div_mult2_eq)
  have low: "(of_nat (8 * n div 2 ^ k) :: 8 word) = of_nat (unat lo div 2 ^ k)" if k: "k \<le> 24" for k
  proof -
    have p: "(2 :: nat) ^ 32 = 2 ^ (24 - k) * 2 ^ 8 * 2 ^ k" using k by (simp add: power_add [symmetric])
    have "8 * n = unat lo + unat hi * 2 ^ (24 - k) * 2 ^ 8 * 2 ^ k" by (simp only: sum p mult.assoc add.commute)
    then have "8 * n div 2 ^ k = unat hi * 2 ^ (24 - k) * 2 ^ 8 + unat lo div 2 ^ k"
      by (simp only: div_mult_self1 power_not_zero zero_neq_numeral not_False_eq_True)
    then have "(of_nat (8 * n div 2 ^ k) :: 8 word) =
        of_nat (unat hi * 2 ^ (24 - k)) * of_nat (2 ^ 8) + of_nat (unat lo div 2 ^ k)"
      by (simp only: of_nat_add of_nat_mult)
    moreover have "of_nat (2 ^ 8) = (0 :: 8 word)" by code_simp
    ultimately show ?thesis by (simp only: mult_zero_right add_0)
  qed
  have byte0: "ucast w = (of_nat (unat w) :: 8 word)" for w :: "32 word" by (metis of_nat_unat)
  have p: "(256 :: nat) ^ 7 = 2 ^ 32 * 2 ^ 24" "(256 :: nat) ^ 6 = 2 ^ 32 * 2 ^ 16" "(256 :: nat) ^ 5 = 2 ^ 32 * 2 ^ 8"
    "(256 :: nat) ^ 4 = 2 ^ 32 * 1" "(256 :: nat) ^ 3 = 2 ^ 24" "(256 :: nat) ^ 2 = 2 ^ 16" "(256 :: nat) ^ 1 = 2 ^ 8"
    "(256 :: nat) ^ 0 = 2 ^ 0" by simp_all
  have bounds: "24 \<le> (24 :: nat)" "16 \<le> (24 :: nat)" "8 \<le> (24 :: nat)" "0 \<le> (24 :: nat)" by simp_all
  show ?thesis
    unfolding length_bytes_def list.map byte p high low [OF bounds(1)] low [OF bounds(2)] low [OF bounds(3)]
      low [OF bounds(4)] unfolding byte0 div_by_1 power_0 by (rule refl)
qed

lemma fips_blocks_end:
  "64 dvd length a \<Longrightarrow> length b = 64 \<Longrightarrow> fips_block (fips_blocks h a) b = fips_blocks h (a @ b)"
  by (simp add: fips_blocks_append fips_blocks_one)

lemma pad_short:
  assumes "64 dvd length a" "length r \<le> 55"
  shows "sha1_pad (a @ r) = a @ r @ [0x80] @ replicate (55 - length r) 0 @ length_bytes (length (a @ r))"
proof -
  have "length (a @ r) mod 64 = length r" using assms by (simp add: mod_add_eq [symmetric] mod_eq_0_iff_dvd)
  moreover have "(119 - length r) mod 64 = 55 - length r"
  proof -
    have "119 - length r = (55 - length r) + 64" using assms(2) by simp
    then show ?thesis by (simp only: mod_add_self2) simp
  qed
  ultimately show ?thesis by (simp add: sha1_pad_def)
qed

lemma pad_long:
  assumes "64 dvd length a" "55 < length r" "length r < 64"
  shows "sha1_pad (a @ r) = a @ (r @ [0x80] @ replicate (63 - length r) 0) @ replicate 56 0 @ length_bytes (length (a @ r))"
proof -
  have "length (a @ r) mod 64 = length r" using assms by (simp add: mod_add_eq [symmetric] mod_eq_0_iff_dvd)
  moreover have "(119 - length r) mod 64 = (63 - length r) + 56" using assms by simp
  ultimately have "sha1_pad (a @ r) = (a @ r) @ [0x80] @ replicate ((63 - length r) + 56) 0 @ length_bytes (length (a @ r))"
    by (simp only: sha1_pad_def)
  then show ?thesis by (simp only: replicate_add append_assoc)
qed

lemma length_length_bytes [simp]: "length (length_bytes n) = 8"
  by (simp add: length_bytes_def)

lemma pad_hash:
  assumes "absorbed c m"
  shows "Intermediate_Hash (SHA1PadMessage c) = fips_blocks fips_H0 (sha1_pad m)"
proof -
  from assms obtain a r where c: "length (Message_Block c) = 64"
    and count: "bit_count c = 8 * length m" and m: "m = a @ r" "64 dvd length a" "length r < 64"
    and idx: "Message_Block_Index c = length r" "take (length r) (Message_Block c) = r"
    and h: "Intermediate_Hash c = fips_blocks fips_H0 a"
    unfolding absorbed_def by blast
  let ?len = "length_bytes (length m)"
  have put: "put_byte 0x80 c = c\<lparr>Message_Block := (Message_Block c)[length r := 0x80], Message_Block_Index := length r + 1\<rparr>"
    by (simp add: put_byte_def idx)
  have start: "take (length r + 1) ((Message_Block c)[length r := 0x80]) = r @ [0x80]"
    using take_update [of "length r" "Message_Block c" "0x80"] m(3) c idx(2) by simp
  note field = length_field [OF count]
  have front: "take (56 - length r) (0x80 # replicate (55 - length r) 0 @ zs) = 0x80 # replicate (55 - length r) 0"
    if "\<not> 55 < length r" for zs :: "8 word list"
  proof -
    have "56 - length r = Suc (55 - length r)" using that by simp
    then show ?thesis by simp
  qed
  show ?thesis
  proof (cases "55 < length r")
    case False
    then have "fill_zeros 56 (put_byte 0x80 c) = c\<lparr>Message_Block := (r @ [0x80]) @ replicate (55 - length r) 0 @
        drop 56 ((Message_Block c)[length r := 0x80]), Message_Block_Index := 56\<rparr>"
      using fill_zeros_spec [of "put_byte 0x80 c" 56] c start by (simp add: put)
    then have "Intermediate_Hash (SHA1PadMessage c) = fips_block (fips_blocks fips_H0 a) (r @ [0x80] @ replicate (55 - length r) 0 @ ?len)"
      using False idx h field [symmetric] by (simp add: SHA1PadMessage_def process_block Let_def front)
    also have "\<dots> = fips_blocks fips_H0 (a @ r @ [0x80] @ replicate (55 - length r) 0 @ ?len)"
      by (rule fips_blocks_end [OF m(2)]) (use False in simp)
    also have "a @ r @ [0x80] @ replicate (55 - length r) 0 @ ?len = sha1_pad m"
      using pad_short [OF m(2)] False m(1) by simp
    finally show ?thesis .
  next
    case True
    let ?b = "r @ [0x80] @ replicate (63 - length r) 0"
    have "fill_zeros 64 (put_byte 0x80 c) = c\<lparr>Message_Block := ?b, Message_Block_Index := 64\<rparr>"
      using fill_zeros_spec [of "put_byte 0x80 c" 64] c start m(3) by (simp add: put)
    moreover have b: "length ?b = 64" using True m(3) by simp
    ultimately have "fill_zeros 56 (SHA1ProcessMessageBlock (fill_zeros 64 (put_byte 0x80 c))) =
        c\<lparr>Message_Block := replicate 56 0 @ drop 56 ?b, Message_Block_Index := 56,
          Intermediate_Hash := fips_block (fips_blocks fips_H0 a) ?b\<rparr>"
      using h by (simp add: process_block fill_zeros_spec)
    then have "Intermediate_Hash (SHA1PadMessage c) = fips_block (fips_block (fips_blocks fips_H0 a) ?b) (replicate 56 0 @ ?len)"
      using True idx field [symmetric] by (simp add: SHA1PadMessage_def process_block Let_def)
    also have "\<dots> = fips_block (fips_blocks fips_H0 (a @ ?b)) (replicate 56 0 @ ?len)"
      by (simp only: fips_blocks_end [OF m(2) b])
    also have "\<dots> = fips_blocks fips_H0 ((a @ ?b) @ replicate 56 0 @ ?len)"
      by (rule fips_blocks_end) (use m(2) b in simp_all)
    also have "(a @ ?b) @ replicate 56 0 @ ?len = sha1_pad m"
      using pad_long [OF m(2) True m(3)] m(1) by simp
    finally show ?thesis .
  qed
qed

lemma length_fips_block [simp]: "length (fips_block h b) = 5"
  by (simp add: fips_block_def split: prod.split)

lemma length_fips_blocks: "length h = 5 \<Longrightarrow> length (fips_blocks h bs) = 5"
proof (induction h bs rule: fips_blocks.induct)
  case (1 h bs)
  then show ?case by (simp add: fips_blocks.simps [of h bs])
qed

lemma digest_bytes:
  assumes "length (h :: 32 word list) = 5"
  shows "map (\<lambda>i. ucast (drop_bit (8 * (3 - i mod 4)) (h ! (i div 4)))) [0..<SHA1HashSize] =
    concat (map (\<lambda>h. [ucast (drop_bit 24 h), ucast (drop_bit 16 h), ucast (drop_bit 8 h), ucast h :: 8 word]) h)"
proof -
  obtain a b c d e where h: "h = [a, b, c, d, e]" using assms by (auto simp: numeral_eq_Suc length_Suc_conv)
  show ?thesis by (simp add: h SHA1HashSize_def upt_conv_Cons)
qed

lemma absorbed_result:
  assumes "absorbed c m"
  shows "\<exists>c'. SHA1Result c = (shaSuccess, c', Some (sha1 m))"
proof -
  have "length (Intermediate_Hash (SHA1PadMessage c)) = 5"
    by (simp add: pad_hash [OF assms] length_fips_blocks fips_H0_def)
  with assms show ?thesis
    by (simp add: SHA1Result_def absorbed_def digest_bytes pad_hash [OF assms] sha1_def)
qed

text \<open>C17: The incremental hash is SHA-1.  Reset, any number of calls of the input function and the result
  give the FIPS 180-1 digest of the concatenated pieces, whatever was in the context's memory before, for
  every message whose length in bits fits 64 bits; the code reports success.\<close>
theorem sha1_incremental:
  assumes "length (Message_Block c) = 64" and "8 * length (concat pieces) < 2 ^ 64"
  shows "\<exists>c'. SHA1Result (foldl (\<lambda>c bs. snd (SHA1Input c bs)) (SHA1Reset c) pieces) =
    (shaSuccess, c', Some (sha1 (concat pieces)))"
  using absorbed_result [OF absorbed_pieces [OF absorbed_reset [OF assms(1)], of pieces]] assms(2) by simp

definition empty_context :: SHA1Context where
  "empty_context = \<lparr>Intermediate_Hash = [], Length_Low = 7, Length_High = 7, Message_Block_Index = 3,
     Message_Block = replicate 64 1, Computed = True, Corrupted = 5\<rparr>"

theorem sha1_incremental_witness:
  "\<exists>c'. SHA1Result (foldl (\<lambda>c bs. snd (SHA1Input c bs)) (SHA1Reset empty_context) [[0x61], [0x62, 0x63]]) =
    (shaSuccess, c', Some (sha1 [0x61, 0x62, 0x63]))"
  using sha1_incremental [of empty_context "[[0x61], [0x62, 0x63]]"] by (simp add: empty_context_def)

end
