(* ===== verification/Base64.thy ===== *)
theory Base64
  imports Prelude
begin

unbundle bit_operations_syntax

text \<open>
  Base64: \<^verbatim>\<open>src/src/base64.c\<close>, used for the accept key of the websocket handshake.

  The encoder works on \<^verbatim>\<open>unsigned int\<close>s taken three bytes at a time, missing bytes counting as 0.  A
  decoder, written for the specification only, shows that nothing is lost.
\<close>

definition encode_table :: string where
  "encode_table = ''ABCDEFGHIJKLMNOPQRSTUVWXYZabcdefghijklmnopqrstuvwxyz0123456789+/''"

text \<open>The inner loop: byte \<open>i\<close> of the group, if there is one.\<close>

definition triple :: "8 word list \<Rightarrow> nat \<Rightarrow> 32 word" where
  "triple bs i = (if i < length bs then ucast (bs ! i) else 0)"

definition encode_group :: "8 word list \<Rightarrow> string" where
  "encode_group bs =
    (let len = min 3 (length bs)
     in [encode_table ! unat (drop_bit 2 (triple bs 0)),
         encode_table ! unat (push_bit 4 (triple bs 0 AND 0x03) OR drop_bit 4 (triple bs 1 AND 0xf0)),
         (if 1 < len then encode_table ! unat (push_bit 2 (triple bs 1 AND 0x0f) OR drop_bit 6 (triple bs 2 AND 0xc0))
          else CHR ''=''),
         (if 2 < len then encode_table ! unat (triple bs 2 AND 0x3f) else CHR ''='')])"

function b64_encode_buffer :: "8 word list \<Rightarrow> string" where
  "b64_encode_buffer bs = (if bs = [] then [] else encode_group bs @ b64_encode_buffer (drop 3 bs))"
  by auto
termination by (relation "measure length") auto

declare b64_encode_buffer.simps [simp del]

definition b64_encoded_buffer_length :: "nat \<Rightarrow> nat" where
  "b64_encoded_buffer_length input_length = 4 * ((input_length + 2) div 3)"

subsection \<open>Length and round trip\<close>

lemma length_encode: "length (b64_encode_buffer bs) = b64_encoded_buffer_length (length bs)"
proof (induction bs rule: b64_encode_buffer.induct)
  case (1 bs)
  show ?case
  proof (cases "bs = []")
    case True
    then show ?thesis by (simp add: b64_encode_buffer.simps b64_encoded_buffer_length_def)
  next
    case False
    have "(length bs + 2) div 3 = Suc ((length bs - 3 + 2) div 3)"
    proof (cases "length bs < 3")
      case True
      with False have "length bs = 1 \<or> length bs = 2" by (cases "length bs") auto
      then show ?thesis by (elim disjE) simp_all
    next
      case False
      then have "length bs + 2 = (length bs - 3 + 2) + 3" by simp
      then show ?thesis using div_add_self2 [of 3 "length bs - 3 + 2"] by simp
    qed
    with False 1 show ?thesis
      by (simp add: b64_encode_buffer.simps [of bs] encode_group_def Let_def b64_encoded_buffer_length_def)
  qed
qed

definition b64_value :: "char \<Rightarrow> 32 word option" where
  "b64_value c = map_option of_nat (find_index (\<lambda>d. d = c) encode_table)"

fun b64_decode :: "string \<Rightarrow> 8 word list option" where
  "b64_decode [] = Some []"
| "b64_decode (c0 # c1 # c2 # c3 # cs) =
    (case (b64_value c0, b64_value c1, b64_decode cs) of
       (Some i0, Some i1, Some rest) \<Rightarrow>
         let a = ucast (push_bit 2 i0 OR drop_bit 4 i1)
         in if c2 = CHR ''='' then Some (a # rest)
            else (case b64_value c2 of
                None \<Rightarrow> None
              | Some i2 \<Rightarrow>
                  let b = ucast (push_bit 4 i1 OR drop_bit 2 i2)
                  in if c3 = CHR ''='' then Some (a # b # rest)
                     else (case b64_value c3 of
                         None \<Rightarrow> None
                       | Some i3 \<Rightarrow> Some (a # b # ucast (push_bit 6 i2 OR i3) # rest)))
     | _ \<Rightarrow> None)"
| "b64_decode _ = None"

lemma table_values: "\<forall>i\<in>set [0..<64]. b64_value (encode_table ! i) = Some (of_nat i) \<and> encode_table ! i \<noteq> CHR ''=''"
  by code_simp

lemma b64_value_table:
  assumes "w < 64"
  shows "b64_value (encode_table ! unat (w :: 32 word)) = Some w" and "encode_table ! unat w \<noteq> CHR ''=''"
proof -
  have "unat w < 64" using assms by (simp add: word_less_nat_alt)
  then have "unat w \<in> set [0..<64]" by simp
  with table_values show "b64_value (encode_table ! unat w) = Some w" "encode_table ! unat w \<noteq> CHR ''=''"
    by fastforce+
qed

lemma byte_eqI:
  assumes "bit v 0 = bit w 0" "bit v 1 = bit w 1" "bit v 2 = bit w 2" "bit v 3 = bit w 3"
    "bit v 4 = bit w 4" "bit v 5 = bit w 5" "bit v 6 = bit w 6" "bit v 7 = bit w 7"
  shows "v = (w :: 8 word)"
proof (rule bit_word_eqI)
  fix n
  assume "n < LENGTH(8)"
  then have "n \<in> {0, 1, 2, 3, 4, 5, 6, 7}" by auto
  then show "bit v n = bit w n" using assms by auto
qed

lemma small_word:
  assumes "\<And>n. bit w n \<Longrightarrow> n < 6"
  shows "w < (64 :: 32 word)"
proof -
  have "w = take_bit 6 w" by (rule bit_word_eqI) (use assms in \<open>auto simp: bit_take_bit_iff\<close>)
  moreover have "take_bit 6 w < 64" by (simp add: take_bit_eq_mod word_mod_less_divisor)
  ultimately show ?thesis by simp
qed

lemma small_index:
  fixes a b c :: "8 word"
  shows "drop_bit 2 (ucast a) < (64 :: 32 word)"
    "push_bit 4 (ucast a AND 3) OR drop_bit 4 (ucast b AND 0xf0) < (64 :: 32 word)"
    "push_bit 2 (ucast b AND 0xf) OR drop_bit 6 (ucast c AND 0xc0) < (64 :: 32 word)"
    "ucast c AND 0x3f < (64 :: 32 word)"
proof -
  have byte: "bit (b :: 8 word) n \<Longrightarrow> n < 8" for b n using bit_imp_le_length [of b n] by simp
  have masks: "(3 :: 32 word) = mask 2" "(0xf :: 32 word) = mask 4" "(0x3f :: 32 word) = mask 6"
    by (simp_all add: mask_eq_exp_minus_1)
  show "drop_bit 2 (ucast a) < (64 :: 32 word)"
    by (rule small_word) (auto simp: bit_simps dest!: byte)
  show "push_bit 4 (ucast a AND 3) OR drop_bit 4 (ucast b AND 0xf0) < (64 :: 32 word)"
    unfolding masks by (rule small_word) (auto simp: bit_simps dest!: byte)
  show "push_bit 2 (ucast b AND 0xf) OR drop_bit 6 (ucast c AND 0xc0) < (64 :: 32 word)"
    unfolding masks by (rule small_word) (auto simp: bit_simps dest!: byte)
  show "ucast c AND 0x3f < (64 :: 32 word)"
    unfolding masks by (rule small_word) (auto simp: bit_simps)
qed

lemma regroup:
  fixes a b c :: "8 word"
  defines "i0 \<equiv> drop_bit 2 (ucast a) :: 32 word"
    and "i1 \<equiv> push_bit 4 (ucast a AND 3) OR drop_bit 4 (ucast b AND 0xf0) :: 32 word"
    and "i2 \<equiv> push_bit 2 (ucast b AND 0xf) OR drop_bit 6 (ucast c AND 0xc0) :: 32 word"
    and "i3 \<equiv> ucast c AND 0x3f :: 32 word"
  shows "ucast (push_bit 2 i0 OR drop_bit 4 i1) = a"
    "ucast (push_bit 4 i1 OR drop_bit 2 i2) = b"
    "ucast (push_bit 6 i2 OR i3) = c"
  unfolding i0_def i1_def i2_def i3_def
  by (rule byte_eqI; simp add: bit_simps)+

lemma decode_group:
  assumes "b64_decode cs = Some rest"
  shows "b64_decode (encode_group [a, b, c] @ cs) = Some (a # b # c # rest)"
    and "b64_decode (encode_group [a, b] @ cs) = Some (a # b # rest)"
    and "b64_decode (encode_group [a] @ cs) = Some (a # rest)"
proof -
  have i: "push_bit 4 (ucast a AND 3) OR 0 < (64 :: 32 word)" "push_bit 2 (ucast b AND 0xf) OR 0 < (64 :: 32 word)"
    using small_index(2) [of a 0] small_index(3) [of b 0] by simp_all
  have r: "ucast (push_bit 2 (drop_bit 2 (ucast a)) OR drop_bit 4 (push_bit 4 (ucast a AND 3) OR 0 :: 32 word)) = a"
    "ucast (push_bit 4 (push_bit 4 (ucast a AND 3) OR drop_bit 4 (ucast b AND 0xf0)) OR
      drop_bit 2 (push_bit 2 (ucast b AND 0xf) OR 0 :: 32 word)) = b"
    using regroup(1) [where a = a and b = 0] regroup(2) [where a = a and b = b and c = 0] by simp_all
  note unfold = encode_group_def triple_def Let_def
  show "b64_decode (encode_group [a, b, c] @ cs) = Some (a # b # c # rest)"
    using assms regroup(1) [where a = a and b = b] regroup(2) [where a = a and b = b and c = c]
      regroup(3) [where b = b and c = c]
    by (simp add: unfold b64_value_table small_index small_index [simplified])
  show "b64_decode (encode_group [a, b] @ cs) = Some (a # b # rest)"
    using assms regroup(1) [where a = a and b = b] r(2) i
    by (simp add: unfold b64_value_table small_index small_index [simplified])
  show "b64_decode (encode_group [a] @ cs) = Some (a # rest)"
    using assms r(1) i
    by (simp add: unfold b64_value_table small_index small_index [simplified])
qed

lemma decode_encode: "b64_decode (b64_encode_buffer bs) = Some bs"
proof (induction bs rule: b64_encode_buffer.induct)
  case (1 bs)
  consider "bs = []" | a where "bs = [a]" | a b where "bs = [a, b]" | a b c r where "bs = a # b # c # r"
    by (metis list.exhaust)
  then show ?case
  proof cases
    case 4
    have "encode_group (a # b # c # r) = encode_group [a, b, c]" by (simp add: encode_group_def triple_def Let_def)
    with 1 4 show ?thesis by (simp add: b64_encode_buffer.simps [of "a # b # c # r"] decode_group)
  qed (use decode_group [of "[]" "[]"] in \<open>simp_all add: b64_encode_buffer.simps\<close>)
qed

text \<open>C18: Base64 loses nothing.  The encoder fills exactly the buffer the length function asks for, and a
  decoder gets the bytes back, whatever their number.\<close>
theorem base64_roundtrip:
  "length (b64_encode_buffer bs) = b64_encoded_buffer_length (length bs) \<and>
   b64_decode (b64_encode_buffer bs) = Some bs"
  by (simp add: length_encode decode_encode)

end
