(* ===== verification/Websocket_Upgrade.thy ===== *)
theory Websocket_Upgrade
  imports Websocket Json Sha1 Base64
begin

text \<open>
  The upgrade of an HTTP connection to a websocket: the first half of \<^verbatim>\<open>src/src/websocket.c\<close>, with
  \<^verbatim>\<open>websocket_init\<close>.

  The HTTP parser calls back with each header field and value and when the headers are complete; these
  callbacks are modelled, the parser is not.  A header value is a pointer into the read buffer and a
  length: the code sometimes reads behind the value, so the model's argument is the text of the value
  followed by what comes after it in memory, and the length.  Characters are those of the \<open>C\<close> locale.

  The lemmas show what a client gets that asks properly (the accept key of RFC 6455), that the response
  of the extension negotiation fits its buffer and the windows agreed on are those zlib takes, and that
  the code also upgrades a client which sent no key str all.
\<close>

datatype header_field = HEADER_UNKNOWN | HEADER_SEC_WEBSOCKET_KEY | HEADER_SEC_WEBSOCKET_VERSION
  | HEADER_SEC_WEBSOCKET_PROTOCOL | HEADER_SEC_WEBSOCKET_EXTENSIONS

record ('z, 'a) ws_upgrade = "('z, 'a) ws_state" +
  sec_web_socket_key :: "8 word list"
  current_header_field :: header_field
  protocol_requested :: bool
  sub_protocol_name :: "string option"
  sub_protocol_found :: bool
  ext_name :: string

definition SEC_WEB_SOCKET_KEY_LENGTH :: nat where "SEC_WEB_SOCKET_KEY_LENGTH = 24"
definition SEC_WEB_SOCKET_GUID_LENGTH :: nat where "SEC_WEB_SOCKET_GUID_LENGTH = 36"

definition isspace :: "char \<Rightarrow> bool" where
  "isspace c \<longleftrightarrow> (of_char c :: nat) \<in> {9, 10, 11, 12, 13, 32}"

definition bytes_of :: "string \<Rightarrow> 8 word list" where
  "bytes_of s = map of_char s"

definition CRLF :: string where
  "CRLF = [char_of (13 :: nat), char_of (10 :: nat)]"

subsection \<open>Start\<close>

text \<open>\<open>s0\<close> gives the streams of zlib and the application; all else is set to zero first.\<close>

definition websocket_init ::
    "nat option \<Rightarrow> bool \<Rightarrow> string option \<Rightarrow> ('z, 'a) ws_upgrade \<Rightarrow> ('z, 'a) ws_upgrade option" where
  "websocket_init connection_level server sub_protocol s0 =
    (let level = (case connection_level of None \<Rightarrow> 0 | Some l \<Rightarrow> l);
         windows = (if level = 1 then Some (True, 8, True, 9)
                    else if level = 2 then Some (False, 12, False, 12)
                    else if level = 0 \<or> level = 3 then Some (False, 15, False, 15)
                    else None)
     in map_option (\<lambda>(client_no_takeover, client_bits, server_no_takeover, server_bits).
       s0\<lparr>is_server := server, upgrade_complete := False, fin := False, rsv := 0, opcode := 0, masked := False,
          frag_opcode := WS_CONTINUATION_FRAME, is_fragmented := False, is_frag_compressed := False,
          ws_length := 0, mask_key := [0, 0, 0, 0], compression_level := level,
          client_max_window_bits := client_bits, client_no_context_takeover := client_no_takeover,
          server_max_window_bits := server_bits, server_no_context_takeover := server_no_takeover,
          ext_response := None, accepted := False, fragments := empty_decomp, closes := 0, ws_faults := [],
          sec_web_socket_key := replicate (SEC_WEB_SOCKET_KEY_LENGTH + SEC_WEB_SOCKET_GUID_LENGTH) 0,
          current_header_field := HEADER_UNKNOWN, protocol_requested := False, sub_protocol_name := sub_protocol,
          sub_protocol_found := False, ext_name := ''permessage-deflate''\<rparr>) windows)"

subsection \<open>Header fields\<close>

definition is_header :: "string \<Rightarrow> string \<Rightarrow> bool" where
  "is_header name str \<longleftrightarrow> length str = length name \<and> strcasecmp_eq str name"

definition websocket_upgrade_on_header_field :: "string \<Rightarrow> ('z, 'a) ws_upgrade \<Rightarrow> int \<times> ('z, 'a) ws_upgrade" where
  "websocket_upgrade_on_header_field str s =
    (if is_header ''Sec-WebSocket-Key'' str then (0, s\<lparr>current_header_field := HEADER_SEC_WEBSOCKET_KEY\<rparr>)
     else if is_header ''Sec-WebSocket-Version'' str then (0, s\<lparr>current_header_field := HEADER_SEC_WEBSOCKET_VERSION\<rparr>)
     else if is_header ''Sec-WebSocket-Protocol'' str then (0, s\<lparr>current_header_field := HEADER_SEC_WEBSOCKET_PROTOCOL\<rparr>)
     else if is_header ''Sec-WebSocket-Extensions'' str then (0, s\<lparr>current_header_field := HEADER_SEC_WEBSOCKET_EXTENSIONS\<rparr>)
     else (0, s))"

subsection \<open>Key, version and protocol\<close>

definition ws_guid :: string where
  "ws_guid = ''258EAFA5-E914-47DA-95CA-C5AB0DC85B11''"

definition save_websocket_key :: "string \<Rightarrow> 8 word list \<Rightarrow> int \<times> 8 word list" where
  "save_websocket_key str dest =
    (if length str = SEC_WEB_SOCKET_KEY_LENGTH then (0, bytes_of str @ bytes_of ws_guid) else (-1, dest))"

definition check_websocket_version :: "string \<Rightarrow> int" where
  "check_websocket_version str = (if length str = 2 \<and> str = ''13'' then 0 else -1)"

definition fill_requested_sub_protocol :: "string \<Rightarrow> ('z, 'a) ws_upgrade \<Rightarrow> ('z, 'a) ws_upgrade" where
  "fill_requested_sub_protocol name s =
    (case sub_protocol_name s of
       None \<Rightarrow> s\<lparr>ws_faults := ws_faults s @ [Null_dereference]\<rparr>
     | Some own \<Rightarrow> if length own = length name \<and> own = name then s\<lparr>sub_protocol_found := True\<rparr> else s)"

text \<open>The loop over a comma-separated list, with what it does for each item.\<close>

function for_each_item :: "(string \<Rightarrow> 's \<Rightarrow> 's) \<Rightarrow> string \<Rightarrow> 's \<Rightarrow> 's" where
  "for_each_item act [] s = s"
| "for_each_item act (c # cs) s =
    (if \<not> isspace c \<and> c \<noteq> CHR '',''
     then for_each_item act (dropWhile (\<lambda>d. d \<noteq> CHR '','') (c # cs)) (act (c # cs) s)
     else for_each_item act cs s)"
  by pat_completeness auto
termination
  by (relation "measure (\<lambda>(act, str, s). length str)") (auto simp: le_imp_less_Suc length_dropWhile_le)

definition item_of :: "string \<Rightarrow> string" where
  "item_of str = takeWhile (\<lambda>d. d \<noteq> CHR '','') str"

definition check_websocket_protocol :: "string \<Rightarrow> ('z, 'a) ws_upgrade \<Rightarrow> ('z, 'a) ws_upgrade" where
  "check_websocket_protocol = for_each_item (\<lambda>str. fill_requested_sub_protocol (item_of str))"

subsection \<open>Extensions\<close>

definition write_to_response :: "string \<Rightarrow> nat \<Rightarrow> string \<Rightarrow> string" where
  "write_to_response param_name value response =
    response @ ''; '' @ param_name @
    (if 0 < value
     then CHR ''='' # (let no = char_of (value mod 10 + 48) in if value < 10 then [no] else [CHR ''1'', no])
     else [])"

definition char_at :: "string \<Rightarrow> nat \<Rightarrow> char" where
  "char_at mem i = (if i < length mem then mem ! i else char_of (0 :: nat))"

definition memcmp_eq :: "string \<Rightarrow> string \<Rightarrow> nat \<Rightarrow> bool" where
  "memcmp_eq mem name i \<longleftrightarrow> map (\<lambda>j. char_at mem (i + j)) [0..<length name] = name"

function skip_space :: "string \<Rightarrow> nat \<Rightarrow> nat" where
  "skip_space mem i = (if isspace (char_at mem i) then skip_space mem (i + 1) else i)"
  by auto
termination
  by (relation "measure (\<lambda>(mem, i). length mem - i)") (auto simp: char_at_def isspace_def split: if_splits)

declare skip_space.simps [simp del]

lemma skip_space_ge: "i \<le> skip_space mem i"
proof (induction mem i rule: skip_space.induct)
  case (1 mem i)
  then show ?case by (subst skip_space.simps) force
qed

text \<open>
  The first loop: where each parameter starts and how many characters other than blanks it has.  A
  parameter's first character is not looked at, it is counted in advance.  \<open>None\<close> is the \<^verbatim>\<open>return\<close> at the
  sixth parameter.
\<close>

function scan_parameters :: "string \<Rightarrow> nat \<Rightarrow> nat \<Rightarrow> (nat \<times> nat) list \<Rightarrow> (nat \<times> nat) list option" where
  "scan_parameters mem len i params =
    (if len \<le> i then Some params
     else
       let c = char_at mem i;
           params = (if \<not> isspace c \<and> c \<noteq> CHR '';'' then butlast params @ [(fst (last params), snd (last params) + 1)] else params)
       in if c = CHR '';''
          then if length params = 5 then None
               else let j = skip_space mem (i + 1) in scan_parameters mem len (j + 1) (params @ [(j, 1)])
          else scan_parameters mem len (i + 1) params)"
  by auto
termination
proof (relation "measure (\<lambda>(mem, len, i, params). len - i)", goal_cases)
  case (2 mem len i params c params' j)
  have "i + 1 \<le> j" using 2(6) skip_space_ge [of "i + 1" mem] by simp
  with 2(1) show ?case by simp
qed auto

declare scan_parameters.simps [simp del]

text \<open>The value of \<^verbatim>\<open>client_max_window_bits=N\<close> and \<^verbatim>\<open>server_max_window_bits=N\<close>; \<open>low\<close> is the smallest digit taken.\<close>

definition digit_of :: "char \<Rightarrow> 32 word" where
  "digit_of c = scast (of_char c :: 8 word) - 48"

definition window_value :: "string \<Rightarrow> nat \<Rightarrow> nat \<Rightarrow> nat \<Rightarrow> nat \<Rightarrow> nat option" where
  "window_value mem start name_length parameter_length low =
    (let p = start + name_length
     in if char_at mem p \<noteq> CHR ''='' then None
        else if parameter_length = name_length + 2
        then let tmp = unat (digit_of (char_at mem (p + 1))) in if tmp < low \<or> 9 < tmp then None else Some tmp
        else if char_at mem (p + 1) \<noteq> CHR ''1'' then None
        else let tmp = unat (digit_of (char_at mem (p + 2))) in if 5 < tmp then None else Some (10 + tmp))"

text \<open>The names of the parameters.\<close>

definition C_MAX :: string where "C_MAX = ''client_max_window_bits''"
definition S_MAX :: string where "S_MAX = ''server_max_window_bits''"
definition C_NO :: string where "C_NO = ''client_no_context_takeover''"
definition S_NO :: string where "S_NO = ''server_no_context_takeover''"

lemma name_lengths: "length C_MAX = 22" "length S_MAX = 22" "length C_NO = 26" "length S_NO = 26"
  by (simp_all add: C_MAX_def S_MAX_def C_NO_def S_NO_def)

record offers =
  offered_c_max_window :: bool
  offered_s_max_window :: bool
  offered_c_no_takeover :: bool
  offered_s_no_takeover :: bool

text \<open>
  The second loop, a parameter a round.  The flag says whether the loop goes on; a \<^verbatim>\<open>return\<close> leaves the
  changes made so far.
\<close>

type_synonym ('z, 'a) negotiation = "string \<times> offers \<times> ('z, 'a) ws_upgrade"

definition take_client_window :: "string \<Rightarrow> nat \<Rightarrow> nat \<Rightarrow> ('z, 'a) negotiation \<Rightarrow> bool \<times> ('z, 'a) negotiation" where
  "take_client_window mem start len acc = (case acc of (response, o1, s) \<Rightarrow>
    if offered_c_max_window o1 \<or> length C_MAX + 3 < len then (False, acc)
    else if len = length C_MAX then
      (True, write_to_response C_MAX (client_max_window_bits s) response, o1\<lparr>offered_c_max_window := True\<rparr>, s)
    else (case window_value mem start (length C_MAX) len 8 of
        None \<Rightarrow> (False, acc)
      | Some v \<Rightarrow>
          let s = s\<lparr>client_max_window_bits := (if v < client_max_window_bits s then v else client_max_window_bits s)\<rparr>
          in (True, write_to_response C_MAX (client_max_window_bits s) response, o1\<lparr>offered_c_max_window := True\<rparr>, s)))"

definition take_server_window :: "string \<Rightarrow> nat \<Rightarrow> nat \<Rightarrow> ('z, 'a) negotiation \<Rightarrow> bool \<times> ('z, 'a) negotiation" where
  "take_server_window mem start len acc = (case acc of (response, o1, s) \<Rightarrow>
    if offered_s_max_window o1 \<or> length S_MAX + 3 < len then (False, acc)
    else (case window_value mem start (length S_MAX) len 9 of
        None \<Rightarrow> (False, acc)
      | Some v \<Rightarrow>
          let s = s\<lparr>server_max_window_bits := (if v < server_max_window_bits s then v else server_max_window_bits s)\<rparr>
          in (True, write_to_response S_MAX (server_max_window_bits s) response, o1\<lparr>offered_s_max_window := True\<rparr>, s)))"

definition take_parameter :: "string \<Rightarrow> nat \<times> nat \<Rightarrow> ('z, 'a) negotiation \<Rightarrow> bool \<times> ('z, 'a) negotiation" where
  "take_parameter mem param acc = (case acc of (response, o1, s) \<Rightarrow> case param of (start, len) \<Rightarrow>
    if len < length C_MAX then (False, acc)
    else if memcmp_eq mem C_MAX start then take_client_window mem start len acc
    else if memcmp_eq mem S_MAX start then take_server_window mem start len acc
    else if len < length C_NO then (False, acc)
    else if memcmp_eq mem C_NO start then
      if offered_c_no_takeover o1 then (False, acc)
      else (True, write_to_response C_NO 0 response, o1\<lparr>offered_c_no_takeover := True\<rparr>, s\<lparr>client_no_context_takeover := True\<rparr>)
    else if memcmp_eq mem S_NO start then
      if offered_s_no_takeover o1 then (False, acc)
      else (True, write_to_response S_NO 0 response, o1\<lparr>offered_s_no_takeover := True\<rparr>, s\<lparr>server_no_context_takeover := True\<rparr>)
    else (False, acc))"

fun take_parameters ::
    "string \<Rightarrow> (nat \<times> nat) list \<Rightarrow> ('z, 'a) negotiation \<Rightarrow> bool \<times> ('z, 'a) negotiation" where
  "take_parameters mem [] acc = (True, acc)"
| "take_parameters mem (p # ps) acc =
    (case take_parameter mem p acc of (go_on, acc) \<Rightarrow> if go_on then take_parameters mem ps acc else (False, acc))"

definition no_offers :: offers where
  "no_offers = \<lparr>offered_c_max_window = False, offered_s_max_window = False, offered_c_no_takeover = False,
     offered_s_no_takeover = False\<rparr>"

text \<open>After the loop: what the client did not offer but the configuration demands is added.\<close>

definition finish_response ::
    "('z, 'a) negotiation \<Rightarrow> string \<times> ('z, 'a) ws_upgrade" where
  "finish_response acc = (case acc of (response, o1, s) \<Rightarrow>
    let s = (if \<not> offered_c_max_window o1 then s\<lparr>client_max_window_bits := 15\<rparr> else s);
        response = (if \<not> offered_s_max_window o1 \<and> server_max_window_bits s < 15
                    then write_to_response S_MAX (server_max_window_bits s) response else response);
        response = (if \<not> offered_c_no_takeover o1 \<and> client_no_context_takeover s
                    then write_to_response C_NO 0 response else response);
        response = (if \<not> offered_s_no_takeover o1 \<and> server_no_context_takeover s
                    then write_to_response S_NO 0 response else response)
    in (response, s))"

text \<open>\<^verbatim>\<open>alloc_compression\<close> also raises a server window of 8, which zlib does not support, to 9.\<close>

definition alloc_compression :: "('z, 'a) ws_upgrade \<Rightarrow> ('z, 'a) ws_upgrade" where
  "alloc_compression s =
    (if compression_level s = 0 then s
     else if server_max_window_bits s = 8 then s\<lparr>server_max_window_bits := 9\<rparr> else s)"

definition fill_requested_extension :: "string \<Rightarrow> nat \<Rightarrow> ('z, 'a) ws_upgrade \<Rightarrow> ('z, 'a) ws_upgrade" where
  "fill_requested_extension mem len s =
    (if accepted s \<or> compression_level s = 0 then s
     else (case scan_parameters mem len 0 [(0, 0)] of
         None \<Rightarrow> s
       | Some params \<Rightarrow>
           if snd (hd params) = length (ext_name s) \<and> memcmp_eq mem (ext_name s) 0
           then (case take_parameters mem (tl params) (ext_name s, no_offers, s) of
               (False, response, o1, s) \<Rightarrow> s\<lparr>ext_response := Some response\<rparr>
             | (True, acc) \<Rightarrow> (case finish_response acc of (response, s) \<Rightarrow>
                 alloc_compression (s\<lparr>ext_response := Some response, accepted := True\<rparr>)))
           else s))"

definition check_websocket_extensions :: "string \<Rightarrow> string \<Rightarrow> ('z, 'a) ws_upgrade \<Rightarrow> ('z, 'a) ws_upgrade" where
  "check_websocket_extensions str behind =
    for_each_item (\<lambda>str. fill_requested_extension (str @ behind) (length (item_of str))) str"

definition websocket_upgrade_on_header_value ::
    "string \<Rightarrow> string \<Rightarrow> ('z, 'a) ws_upgrade \<Rightarrow> int \<times> ('z, 'a) ws_upgrade" where
  "websocket_upgrade_on_header_value str behind s =
    (case (case current_header_field s of
         HEADER_SEC_WEBSOCKET_KEY \<Rightarrow>
           (case save_websocket_key str (sec_web_socket_key s) of (r, key) \<Rightarrow> (r, s\<lparr>sec_web_socket_key := key\<rparr>))
       | HEADER_SEC_WEBSOCKET_VERSION \<Rightarrow> (check_websocket_version str, s)
       | HEADER_SEC_WEBSOCKET_PROTOCOL \<Rightarrow> (0, check_websocket_protocol str (s\<lparr>protocol_requested := True\<rparr>))
       | HEADER_SEC_WEBSOCKET_EXTENSIONS \<Rightarrow> (0, check_websocket_extensions str behind s)
       | HEADER_UNKNOWN \<Rightarrow> (0, s)) of
      (r, s) \<Rightarrow> (r, s\<lparr>current_header_field := HEADER_UNKNOWN\<rparr>))"

subsection \<open>The answer\<close>

definition check_http_version :: "nat \<Rightarrow> nat \<Rightarrow> int" where
  "check_http_version major minor = (if 1 < major then 0 else if major = 1 \<and> 1 \<le> minor then 0 else -1)"

definition accept_value :: "8 word list \<Rightarrow> string" where
  "accept_value key =
    (let context = SHA1Reset \<lparr>Intermediate_Hash = [], Length_Low = 0, Length_High = 0, Message_Block_Index = 0,
           Message_Block = replicate 64 0, Computed = False, Corrupted = 0\<rparr>;
         (_, context) = SHA1Input context key;
         (_, _, digest) = SHA1Result context
     in (case digest of None \<Rightarrow> [] | Some sha1_buffer \<Rightarrow> b64_encode_buffer sha1_buffer))"

definition upgrade_response :: "('z, 'a) ws_upgrade \<Rightarrow> 8 word list list" where
  "upgrade_response s = map bytes_of (
    [''HTTP/1.1 101 Switching Protocols'' @ CRLF @ ''Upgrade: websocket'' @ CRLF @ ''Connection: Upgrade'' @ CRLF
       @ ''Sec-WebSocket-Accept: '', accept_value (sec_web_socket_key s)]
    @ (case sub_protocol_name s of None \<Rightarrow> [] | Some name \<Rightarrow> [CRLF @ ''Sec-WebSocket-Protocol: '', name])
    @ (if accepted s then [CRLF @ ''Sec-WebSocket-Extensions: '', case ext_response s of None \<Rightarrow> [] | Some r \<Rightarrow> r] else [])
    @ [CRLF @ CRLF])"

definition send_upgrade_response :: "('z, 'a) ws_env \<Rightarrow> ('z, 'a) ws_upgrade \<Rightarrow> int \<times> ('z, 'a) ws_upgrade" where
  "send_upgrade_response E s =
    (if protocol_requested s \<and> \<not> sub_protocol_found s then (-1, s)
     else (case writev_fn E (upgrade_response s) (app s) of (r, a) \<Rightarrow> (r, s\<lparr>app := a\<rparr>)))"

text \<open>The fields of the parser that are used: the version, whether the method is GET, and the upgrade flag.\<close>

definition websocket_upgrade_on_headers_complete ::
    "('z, 'a) ws_env \<Rightarrow> nat \<Rightarrow> nat \<Rightarrow> bool \<Rightarrow> bool \<Rightarrow> ('z, 'a) ws_upgrade \<Rightarrow> int \<times> ('z, 'a) ws_upgrade" where
  "websocket_upgrade_on_headers_complete E major minor is_get upgrade s =
    (if check_http_version major minor < 0 then (-1, s)
     else if \<not> is_get then (-1, s)
     else if \<not> upgrade then (-1, s)
     else (case send_upgrade_response E s of (r, s) \<Rightarrow> (if r < 0 then -1 else 1, s)))"

subsection \<open>Runs of headers\<close>

text \<open>The calls the parser makes for the header lines, each with what lies behind the value; it stops at an error.\<close>

fun on_headers :: "(string \<times> string \<times> string) list \<Rightarrow> ('z, 'a) ws_upgrade \<Rightarrow> ('z, 'a) ws_upgrade option" where
  "on_headers [] s = Some s"
| "on_headers ((name, val, behind) # hs) s =
    (case websocket_upgrade_on_header_field name s of (r, s) \<Rightarrow>
       if r \<noteq> 0 then None
       else (case websocket_upgrade_on_header_value val behind s of (r, s) \<Rightarrow>
         if r \<noteq> 0 then None else on_headers hs s))"

fun request_key :: "(string \<times> string \<times> string) list \<Rightarrow> string option" where
  "request_key [] = None"
| "request_key ((name, val, behind) # hs) =
    (case request_key hs of Some k \<Rightarrow> Some k | None \<Rightarrow> if is_header ''Sec-WebSocket-Key'' name then Some val else None)"

lemma is_header_unique: "is_header a str \<Longrightarrow> is_header b str \<Longrightarrow> map tolower a = map tolower b"
  by (simp add: is_header_def strcasecmp_eq_iff)

lemma for_each_item_preserves:
  assumes "\<And>t s. P s \<Longrightarrow> P (act t s)" "P s"
  shows "P (for_each_item act v s)"
  using assms by (induction act v s rule: for_each_item.induct) auto

lemma fill_requested_sub_protocol_keeps:
  "sec_web_socket_key (fill_requested_sub_protocol name s) = sec_web_socket_key s"
  "sub_protocol_name (fill_requested_sub_protocol name s) = sub_protocol_name s"
  "protocol_requested (fill_requested_sub_protocol name s) = protocol_requested s"
  "app (fill_requested_sub_protocol name s) = app s"
  by (simp_all add: fill_requested_sub_protocol_def split: option.split)

definition same_request :: "('z, 'a) ws_upgrade \<Rightarrow> ('z, 'a) ws_upgrade \<Rightarrow> bool" where
  "same_request s t \<longleftrightarrow> sec_web_socket_key t = sec_web_socket_key s \<and> protocol_requested t = protocol_requested s \<and>
    sub_protocol_name t = sub_protocol_name s \<and> sub_protocol_found t = sub_protocol_found s \<and> app t = app s \<and>
    ext_name t = ext_name s \<and> compression_level t = compression_level s"

lemma take_window_request:
  "take_client_window mem start len (r, o1, s) = (go_on, r', o2, t) \<Longrightarrow> same_request s t"
  "take_server_window mem start len (r, o1, s) = (go_on, r', o2, t) \<Longrightarrow> same_request s t"
  by (auto simp: take_client_window_def take_server_window_def same_request_def Let_def split: if_splits option.splits)

lemma take_parameter_request:
  "take_parameter mem p (r, o1, s) = (go_on, r', o2, t) \<Longrightarrow> same_request s t"
  using take_window_request(1) [of mem "fst p" "snd p" r o1 s go_on r' o2 t]
    take_window_request(2) [of mem "fst p" "snd p" r o1 s go_on r' o2 t]
  by (auto simp: take_parameter_def same_request_def split: if_splits prod.splits)

lemma take_parameters_request:
  "take_parameters mem ps (r, o1, s) = (go_on, r', o2, t) \<Longrightarrow> same_request s t"
proof (induction ps arbitrary: r o1 s)
  case Nil
  then show ?case by (simp add: same_request_def)
next
  case (Cons p ps)
  obtain g r1 o3 s1 where p: "take_parameter mem p (r, o1, s) = (g, r1, o3, s1)" by (metis surj_pair)
  have "same_request s s1" by (rule take_parameter_request [OF p])
  with Cons.IH [of r1 o3 s1] Cons.prems p show ?case by (auto simp: same_request_def split: if_splits)
qed

lemma finish_response_request: "finish_response (r, o1, s) = (r', t) \<Longrightarrow> same_request s t"
  by (cases "offered_c_max_window o1") (simp only: finish_response_def same_request_def Let_def prod.case prod.inject if_False if_True not_True_eq_False not_False_eq_True; elim conjE; hypsubst; simp)+

lemma fill_requested_extension_cases:
  obtains (same) "fill_requested_extension mem len s = s"
  | (refused) ps r o1 t where "take_parameters mem ps (ext_name s, no_offers, s) = (False, r, o1, t)"
      "fill_requested_extension mem len s = t\<lparr>ext_response := Some r\<rparr>"
  | (taken) ps r o1 t r' u where "take_parameters mem ps (ext_name s, no_offers, s) = (True, r, o1, t)"
      "finish_response (r, o1, t) = (r', u)" "compression_level s \<noteq> 0" "\<not> accepted s"
      "fill_requested_extension mem len s = alloc_compression (u\<lparr>ext_response := Some r', accepted := True\<rparr>)"
proof (cases "accepted s \<or> compression_level s = 0")
  case False
  note open_offer = False
  show thesis
  proof (cases "scan_parameters mem len 0 [(0, 0)]")
    case (Some params)
    show thesis
    proof (cases "snd (hd params) = length (ext_name s) \<and> memcmp_eq mem (ext_name s) 0")
      case True
      obtain g r o1 t where p: "take_parameters mem (tl params) (ext_name s, no_offers, s) = (g, r, o1, t)" by (metis surj_pair)
      obtain r' u where f: "finish_response (r, o1, t) = (r', u)" by (cases "finish_response (r, o1, t)")
      show thesis
      proof (cases g)
        case True
        with p f Some open_offer \<open>snd (hd params) = _ \<and> _\<close> show thesis
          by (intro taken [of "tl params" r o1 t r' u]) (simp_all add: fill_requested_extension_def)
      next
        case False
        with p Some open_offer \<open>snd (hd params) = _ \<and> _\<close> show thesis
          by (intro refused [of "tl params" r o1 t]) (simp_all add: fill_requested_extension_def)
      qed
    next
      case False
      show thesis by (rule same) (use Some open_offer False in \<open>auto simp: fill_requested_extension_def\<close>)
    qed
  qed (use False same in \<open>simp add: fill_requested_extension_def\<close>)
qed (use same in \<open>simp add: fill_requested_extension_def\<close>)

lemma fill_requested_extension_request: "same_request s (fill_requested_extension mem len s)"
proof (cases mem len s rule: fill_requested_extension_cases)
  case (refused ps r o1 t)
  with take_parameters_request [OF refused(1)] show ?thesis by (simp add: same_request_def)
next
  case (taken ps r o1 t r' u)
  with take_parameters_request [OF taken(1)] finish_response_request [OF taken(2)] show ?thesis
    by (simp add: same_request_def alloc_compression_def)
qed (simp add: same_request_def)

lemma check_websocket_extensions_request: "same_request s (check_websocket_extensions v behind s)"
  unfolding check_websocket_extensions_def
proof (rule for_each_item_preserves)
  fix t s' assume "same_request s s'"
  then show "same_request s (fill_requested_extension (t @ behind) (length (item_of t)) s')"
    using fill_requested_extension_request [of s' "t @ behind" "length (item_of t)"] by (simp add: same_request_def)
qed (simp add: same_request_def)

lemma check_websocket_protocol_keeps:
  "sec_web_socket_key (check_websocket_protocol v s) = sec_web_socket_key s \<and>
   sub_protocol_name (check_websocket_protocol v s) = sub_protocol_name s \<and>
   protocol_requested (check_websocket_protocol v s) = protocol_requested s \<and> app (check_websocket_protocol v s) = app s"
  unfolding check_websocket_protocol_def
  by (rule for_each_item_preserves) (simp_all add: fill_requested_sub_protocol_keeps)

lemma header_value_request:
  assumes "websocket_upgrade_on_header_value v behind s = (0, s')"
  shows "current_header_field s' = HEADER_UNKNOWN \<and> app s' = app s \<and> sub_protocol_name s' = sub_protocol_name s \<and>
    sec_web_socket_key s' = (if current_header_field s = HEADER_SEC_WEBSOCKET_KEY then bytes_of v @ bytes_of ws_guid
      else sec_web_socket_key s) \<and>
    (current_header_field s \<noteq> HEADER_SEC_WEBSOCKET_PROTOCOL \<longrightarrow>
       protocol_requested s' = protocol_requested s \<and> sub_protocol_found s' = sub_protocol_found s)"
proof (cases "current_header_field s")
  case HEADER_SEC_WEBSOCKET_KEY
  with assms show ?thesis
    by (auto simp: websocket_upgrade_on_header_value_def save_websocket_key_def split: if_splits)
next
  case HEADER_SEC_WEBSOCKET_PROTOCOL
  with assms check_websocket_protocol_keeps [of v "s\<lparr>protocol_requested := True\<rparr>"] show ?thesis
    by (auto simp: websocket_upgrade_on_header_value_def)
next
  case HEADER_SEC_WEBSOCKET_EXTENSIONS
  with assms check_websocket_extensions_request [of s v behind] show ?thesis
    by (auto simp: websocket_upgrade_on_header_value_def same_request_def)
qed (use assms in \<open>auto simp: websocket_upgrade_on_header_value_def\<close>)

lemma header_names_differ:
  "is_header ''Sec-WebSocket-Key'' str \<Longrightarrow> \<not> is_header ''Sec-WebSocket-Protocol'' str"
  "is_header ''Sec-WebSocket-Version'' str \<Longrightarrow> \<not> is_header ''Sec-WebSocket-Protocol'' str"
  by (auto simp: is_header_def)

lemma header_field_request:
  "websocket_upgrade_on_header_field name s = (r, s') \<Longrightarrow> current_header_field s = HEADER_UNKNOWN \<Longrightarrow>
   r = 0 \<and> s' = s\<lparr>current_header_field := current_header_field s'\<rparr> \<and>
   (current_header_field s' = HEADER_SEC_WEBSOCKET_KEY \<longleftrightarrow> is_header ''Sec-WebSocket-Key'' name) \<and>
   (current_header_field s' = HEADER_SEC_WEBSOCKET_PROTOCOL \<longleftrightarrow> is_header ''Sec-WebSocket-Protocol'' name)"
  by (auto simp: websocket_upgrade_on_header_field_def header_names_differ split: if_splits)

lemma on_headers_key:
  assumes "on_headers hs s = Some s'" "current_header_field s = HEADER_UNKNOWN"
  shows "app s' = app s \<and> sub_protocol_name s' = sub_protocol_name s \<and>
    sec_web_socket_key s' = (case request_key hs of None \<Rightarrow> sec_web_socket_key s | Some key \<Rightarrow> bytes_of key @ bytes_of ws_guid) \<and>
    (\<forall>key. request_key hs = Some key \<longrightarrow> length key = SEC_WEB_SOCKET_KEY_LENGTH)"
  using assms
proof (induction hs s rule: on_headers.induct)
  case (2 name v behind hs s)
  obtain s1 where f: "websocket_upgrade_on_header_field name s = (0, s1)" "s1 = s\<lparr>current_header_field := current_header_field s1\<rparr>"
    "current_header_field s1 = HEADER_SEC_WEBSOCKET_KEY \<longleftrightarrow> is_header ''Sec-WebSocket-Key'' name"
    using header_field_request [of name s] 2(3) by (metis surj_pair)
  obtain s2 where val: "websocket_upgrade_on_header_value v behind s1 = (0, s2)" and rest: "on_headers hs s2 = Some s'"
    using 2(2) f(1) by (auto split: prod.splits if_splits)
  have key: "is_header ''Sec-WebSocket-Key'' name \<Longrightarrow> length v = SEC_WEB_SOCKET_KEY_LENGTH"
    using val f(3) by (auto simp: websocket_upgrade_on_header_value_def save_websocket_key_def split: if_splits)
  have eqs: "app s1 = app s" "sub_protocol_name s1 = sub_protocol_name s" "sec_web_socket_key s1 = sec_web_socket_key s"
    by (subst f(2), simp)+
  have "\<not> (0 :: int) \<noteq> 0" by simp
  from 2(1) [OF f(1) [symmetric] this val [symmetric] this rest] header_value_request [OF val] f(3) key eqs
  show ?case by (auto split: option.split)
qed simp

subsection \<open>The accept key\<close>

lemma accept_value_spec:
  assumes "8 * length key < 2 ^ 64"
  shows "accept_value key = b64_encode_buffer (sha1 key)"
proof -
  let ?c = "SHA1Reset \<lparr>Intermediate_Hash = [], Length_Low = 0, Length_High = 0, Message_Block_Index = 0,
    Message_Block = replicate 64 0, Computed = False, Corrupted = 0\<rparr>"
  have "absorbed ?c []" by (rule absorbed_reset) simp
  from absorbed_SHA1Input(2) [OF this, of key] assms have "absorbed (snd (SHA1Input ?c key)) key" by simp
  from absorbed_result [OF this] show ?thesis
    by (auto simp: accept_value_def Let_def split: prod.split)
qed

lemma websocket_init_fields:
  assumes "websocket_init level server proto s0 = Some s"
  shows "current_header_field s = HEADER_UNKNOWN" "app s = app s0" "sub_protocol_name s = proto"
    "sec_web_socket_key s = replicate 60 0" "\<not> protocol_requested s" "\<not> accepted s" "ext_response s = None"
    "ext_name s = ''permessage-deflate''" "ws_faults s = []"
  using assms by (auto simp: websocket_init_def Let_def SEC_WEB_SOCKET_KEY_LENGTH_def SEC_WEB_SOCKET_GUID_LENGTH_def split: if_splits)

definition proper_answer :: "string \<Rightarrow> 8 word list list \<Rightarrow> bool" where
  "proper_answer key iov \<longleftrightarrow> (\<exists>rest.
    iov = bytes_of (''HTTP/1.1 101 Switching Protocols'' @ CRLF @ ''Upgrade: websocket'' @ CRLF @ ''Connection: Upgrade''
        @ CRLF @ ''Sec-WebSocket-Accept: '')
      # bytes_of (b64_encode_buffer (sha1 (bytes_of (key @ ws_guid)))) # rest)"

text \<open>C31: The upgrade is answered with the accept key of RFC 6455.  Whatever other headers a request has, in
  whatever case and order: if it names a key and the upgrade succeeds, then the key has 24 characters and
  the response, written in one call, starts with status 101 and carries the base64 encoding of the SHA-1
  hash of the key followed by the protocol's GUID.\<close>
theorem upgrade_answers_the_key:
  assumes "websocket_init level server proto s0 = Some s" "on_headers hs s = Some s1" "request_key hs = Some key"
    and "websocket_upgrade_on_headers_complete E major minor is_get upgrade s1 = (1, s2)"
  shows "length key = 24 \<and> (\<exists>iov. app s2 = snd (writev_fn E iov (app s0)) \<and> 0 \<le> fst (writev_fn E iov (app s0)) \<and> proper_answer key iov)"
proof -
  note init = websocket_init_fields [OF assms(1)]
  note run = on_headers_key [OF assms(2) init(1)]
  have len: "length key = 24" and k: "sec_web_socket_key s1 = bytes_of (key @ ws_guid)" and a: "app s1 = app s0"
    using run assms(3) init(2) by (simp_all add: SEC_WEB_SOCKET_KEY_LENGTH_def bytes_of_def)
  have "length (bytes_of (key @ ws_guid)) = 60" using len by (simp add: bytes_of_def ws_guid_def)
  then have accept: "accept_value (sec_web_socket_key s1) = b64_encode_buffer (sha1 (bytes_of (key @ ws_guid)))"
    unfolding k by (intro accept_value_spec) simp
  from assms(4) have "0 \<le> fst (writev_fn E (upgrade_response s1) (app s1))" "app s2 = snd (writev_fn E (upgrade_response s1) (app s1))"
    by (auto simp: websocket_upgrade_on_headers_complete_def send_upgrade_response_def split: if_splits prod.splits)
  moreover have "proper_answer key (upgrade_response s1)"
    unfolding proper_answer_def upgrade_response_def accept by simp
  ultimately show ?thesis using len a by auto
qed

text \<open>A request without a key is upgraded as well.  RFC 6455 demands a key and a version; the code checks
  the headers it sees, but not that they were there: with none of them it answers 101 with the hash of 60
  zero bytes, and the connection becomes a websocket.\<close>
theorem upgrade_without_key:
  assumes "websocket_init level server proto s0 = Some s" "writev_fn E = (\<lambda>iov out. (0, out @ concat iov))" "app s0 = []"
  shows "case websocket_upgrade_on_headers_complete E 1 1 True True s of
    (r, s') \<Rightarrow> r = 1 \<and> (\<exists>rest. app s' = bytes_of (''HTTP/1.1 101 Switching Protocols'' @ CRLF @ ''Upgrade: websocket'' @ CRLF
      @ ''Connection: Upgrade'' @ CRLF @ ''Sec-WebSocket-Accept: '' @ b64_encode_buffer (sha1 (replicate 60 0))) @ rest)"
proof -
  note init = websocket_init_fields [OF assms(1)]
  have accept: "accept_value (sec_web_socket_key s) = b64_encode_buffer (sha1 (replicate 60 0))"
    unfolding init(4) by (intro accept_value_spec) simp
  have "websocket_upgrade_on_headers_complete E 1 1 True True s = (1, s\<lparr>app := concat (upgrade_response s)\<rparr>)"
    using init(2,5) assms(2,3)
    by (simp add: websocket_upgrade_on_headers_complete_def check_http_version_def send_upgrade_response_def)
  then show ?thesis
    by (simp add: upgrade_response_def accept bytes_of_def)
qed

subsection \<open>The sub-protocol\<close>

fun split_commas :: "string \<Rightarrow> string list" where
  "split_commas [] = [[]]"
| "split_commas (c # cs) =
    (if c = CHR '','' then [] # split_commas cs else (c # hd (split_commas cs)) # tl (split_commas cs))"

text \<open>The items of a list, without the blanks before each; those behind it belong to the item.\<close>

definition items :: "string \<Rightarrow> string list" where
  "items v = filter (\<lambda>i. i \<noteq> []) (map (dropWhile isspace) (split_commas v))"

lemma split_commas_item:
  "split_commas v = item_of v # (case dropWhile (\<lambda>d. d \<noteq> CHR '','') v of [] \<Rightarrow> [] | c # w \<Rightarrow> split_commas w)"
  by (induction v) (auto simp: item_of_def)

lemma for_each_item_fold: "for_each_item (\<lambda>t. g (item_of t)) v s = fold g (items v) s"
proof (induction "\<lambda>t :: string. g (item_of t)" v s rule: for_each_item.induct)
  case (1 s)
  show ?case by (simp add: items_def)
next
  case (2 c cs s)
  show ?case
  proof (cases "\<not> isspace c \<and> c \<noteq> CHR '',''")
    case True
    have head: "dropWhile isspace (item_of (c # cs)) = item_of (c # cs)" "item_of (c # cs) \<noteq> []"
      using True by (simp_all add: item_of_def)
    have tail: "items (dropWhile (\<lambda>d. d \<noteq> CHR '','') (c # cs)) =
        (case dropWhile (\<lambda>d. d \<noteq> CHR '','') (c # cs) of [] \<Rightarrow> [] | d # w \<Rightarrow> items w)"
    proof (cases "dropWhile (\<lambda>d. d \<noteq> CHR '','') (c # cs)")
      case (Cons d w)
      then have "d = CHR '',''" using hd_dropWhile [of "\<lambda>d. d \<noteq> CHR '',''" "c # cs"] by (metis list.distinct(1) list.sel(1))
      with Cons show ?thesis by (simp add: items_def)
    qed (simp add: items_def)
    have "items (c # cs) = item_of (c # cs) # items (dropWhile (\<lambda>d. d \<noteq> CHR '','') (c # cs))"
      unfolding tail items_def [of "c # cs"] split_commas_item [of "c # cs"]
      using head by (simp add: items_def split: list.split del: dropWhile.simps dropWhile_eq_Nil_conv)
    with 2(1) [OF True] True show ?thesis by simp
  next
    case False
    then have "items (c # cs) = items cs"
      by (cases "split_commas cs") (auto simp: items_def split_commas_item [of cs])
    with 2(2) [OF False] False show ?thesis by auto
  qed
qed

lemma fold_sub_protocol:
  assumes "sub_protocol_name s = Some own"
  shows "sub_protocol_found (fold fill_requested_sub_protocol names s) \<longleftrightarrow> sub_protocol_found s \<or> own \<in> set names"
    and "ws_faults (fold fill_requested_sub_protocol names s) = ws_faults s"
proof -
  have "(sub_protocol_found (fold fill_requested_sub_protocol names s) \<longleftrightarrow> sub_protocol_found s \<or> own \<in> set names) \<and>
      ws_faults (fold fill_requested_sub_protocol names s) = ws_faults s"
    using assms
  proof (induction names arbitrary: s)
    case (Cons name names)
    have "fill_requested_sub_protocol name s = (if own = name then s\<lparr>sub_protocol_found := True\<rparr> else s)"
      using Cons.prems by (simp add: fill_requested_sub_protocol_def)
    with Cons.IH [of s] Cons.IH [of "s\<lparr>sub_protocol_found := True\<rparr>"] Cons.prems show ?case by auto
  qed simp
  then show "sub_protocol_found (fold fill_requested_sub_protocol names s) \<longleftrightarrow> sub_protocol_found s \<or> own \<in> set names"
    and "ws_faults (fold fill_requested_sub_protocol names s) = ws_faults s" by blast+
qed

text \<open>A client gets the sub-protocol it asked for, or no upgrade.  A header with a list of protocols makes
  the upgrade succeed exactly if the endpoint's own protocol is an item of the list, compared without the
  blanks before the item; if it is, the upgrade response is written.\<close>
theorem sub_protocol_negotiation:
  assumes "websocket_init level server (Some own) s0 = Some s"
    and "is_header ''Sec-WebSocket-Protocol'' name" "on_headers [(name, v, behind)] s = Some s1"
  shows "websocket_upgrade_on_headers_complete E 1 1 True True s1 =
    (if own \<in> set (items v)
     then (case writev_fn E (upgrade_response s1) (app s0) of (r, a) \<Rightarrow> (if r < 0 then -1 else 1, s1\<lparr>app := a\<rparr>))
     else (-1, s1))"
proof -
  note init = websocket_init_fields [OF assms(1)]
  let ?s = "s\<lparr>current_header_field := HEADER_SEC_WEBSOCKET_PROTOCOL, protocol_requested := True\<rparr>"
  have "\<not> is_header ''Sec-WebSocket-Key'' name" "\<not> is_header ''Sec-WebSocket-Version'' name"
    using assms(2) header_names_differ by blast+
  then have s1: "s1 = (fold fill_requested_sub_protocol (items v) ?s)\<lparr>current_header_field := HEADER_UNKNOWN\<rparr>"
    using assms(2,3) by (simp add: websocket_upgrade_on_header_field_def websocket_upgrade_on_header_value_def
        check_websocket_protocol_def for_each_item_fold)
  have keep: "protocol_requested s1 \<and> app s1 = app s0"
    using check_websocket_protocol_keeps [of v ?s] init(2)
    by (simp add: s1 check_websocket_protocol_def for_each_item_fold)
  have no_server: "sub_protocol_found s = False" using assms(1) by (auto simp: websocket_init_def Let_def split: if_splits)
  have "sub_protocol_found s1 \<longleftrightarrow> own \<in> set (items v)"
    using fold_sub_protocol(1) [of ?s own "items v"] init(3) no_server by (simp add: s1)
  with keep show ?thesis
    by (auto simp: websocket_upgrade_on_headers_complete_def check_http_version_def send_upgrade_response_def split: prod.split)
qed

text \<open>An endpoint without a sub-protocol crashes when a client asks for one.  websocket_init accepts a
  missing name, and the response leaves the header out then, but the search for the name takes its length
  without a test.\<close>
theorem sub_protocol_null:
  assumes "websocket_init level server None s0 = Some s" "items v \<noteq> []"
    and "is_header ''Sec-WebSocket-Protocol'' name" "on_headers [(name, v, behind)] s = Some s1"
  shows "Null_dereference \<in> set (ws_faults s1)"
proof -
  note init = websocket_init_fields [OF assms(1)]
  let ?s = "s\<lparr>current_header_field := HEADER_SEC_WEBSOCKET_PROTOCOL, protocol_requested := True\<rparr>"
  have "\<not> is_header ''Sec-WebSocket-Key'' name" "\<not> is_header ''Sec-WebSocket-Version'' name"
    using assms(3) header_names_differ by blast+
  then have s1: "s1 = (fold fill_requested_sub_protocol (items v) ?s)\<lparr>current_header_field := HEADER_UNKNOWN\<rparr>"
    using assms(3,4) by (simp add: websocket_upgrade_on_header_field_def websocket_upgrade_on_header_value_def
        check_websocket_protocol_def for_each_item_fold)
  have "names \<noteq> [] \<Longrightarrow> sub_protocol_name t = None \<Longrightarrow> Null_dereference \<in> set (ws_faults (fold fill_requested_sub_protocol names t))"
    for names and t :: "('a, 'b) ws_upgrade"
  proof (induction names arbitrary: t)
    case (Cons n names)
    then have t: "fill_requested_sub_protocol n t = t\<lparr>ws_faults := ws_faults t @ [Null_dereference]\<rparr>"
      by (simp add: fill_requested_sub_protocol_def)
    show ?case
    proof (cases "names = []")
      case False
      with Cons.IH [of "fill_requested_sub_protocol n t"] Cons.prems t show ?thesis by simp
    qed (use t in simp)
  qed simp
  from this [OF assms(2), of ?s] init(3) show ?thesis by (simp add: s1)
qed

subsection \<open>The extension\<close>

definition windows_ok :: "('z, 'a) ws_upgrade \<Rightarrow> bool" where
  "windows_ok s \<longleftrightarrow> 8 \<le> client_max_window_bits s \<and> client_max_window_bits s \<le> 15 \<and>
    9 \<le> server_max_window_bits s \<and> server_max_window_bits s \<le> 15"

text \<open>How long the response can be, given the parameters already in it.\<close>

definition room :: "offers \<Rightarrow> nat" where
  "room o1 = 18 + (if offered_c_max_window o1 then 27 else 0) + (if offered_s_max_window o1 then 27 else 0) +
    (if offered_c_no_takeover o1 then 28 else 0) + (if offered_s_no_takeover o1 then 28 else 0)"

lemma length_write_to_response:
  "length (write_to_response name value r) = length r + 2 + length name + (if value = 0 then 0 else if value < 10 then 2 else 3)"
  by (simp add: write_to_response_def Let_def)

lemma window_value_bounds: "window_value mem start n len low = Some v \<Longrightarrow> low \<le> 10 \<Longrightarrow> low \<le> v \<and> v \<le> 15"
  by (auto simp: window_value_def Let_def split: if_splits)

definition bounded :: "string \<Rightarrow> offers \<Rightarrow> ('z, 'a) ws_upgrade \<Rightarrow> bool" where
  "bounded r o1 s \<longleftrightarrow> length r \<le> room o1 \<and> windows_ok s"

lemma bounded_window:
  "bounded r o1 s \<Longrightarrow> 8 \<le> v \<Longrightarrow> v \<le> 15 \<Longrightarrow> bounded r o1 (s\<lparr>client_max_window_bits := v\<rparr>)"
  "bounded r o1 s \<Longrightarrow> 9 \<le> v \<Longrightarrow> v \<le> 15 \<Longrightarrow> bounded r o1 (s\<lparr>server_max_window_bits := v\<rparr>)"
  "bounded r o1 s \<Longrightarrow> bounded r o1 (s\<lparr>client_no_context_takeover := True\<rparr>)"
  "bounded r o1 s \<Longrightarrow> bounded r o1 (s\<lparr>server_no_context_takeover := True\<rparr>)"
  by (simp_all add: bounded_def windows_ok_def)

lemma bounded_write:
  "bounded r o1 s \<Longrightarrow> \<not> offered_c_max_window o1 \<Longrightarrow> bounded (write_to_response C_MAX n r) (o1\<lparr>offered_c_max_window := True\<rparr>) s"
  "bounded r o1 s \<Longrightarrow> \<not> offered_s_max_window o1 \<Longrightarrow> bounded (write_to_response S_MAX n r) (o1\<lparr>offered_s_max_window := True\<rparr>) s"
  "bounded r o1 s \<Longrightarrow> \<not> offered_c_no_takeover o1 \<Longrightarrow> bounded (write_to_response C_NO 0 r) (o1\<lparr>offered_c_no_takeover := True\<rparr>) s"
  "bounded r o1 s \<Longrightarrow> \<not> offered_s_no_takeover o1 \<Longrightarrow> bounded (write_to_response S_NO 0 r) (o1\<lparr>offered_s_no_takeover := True\<rparr>) s"
  by (simp_all add: bounded_def room_def length_write_to_response name_lengths)

lemma take_window_bounds:
  assumes "bounded r o1 s"
  shows "case take_client_window mem start len (r, o1, s) of (go_on, r', o2, t) \<Rightarrow> bounded r' o2 t"
    and "case take_server_window mem start len (r, o1, s) of (go_on, r', o2, t) \<Rightarrow> bounded r' o2 t"
proof -
  have w: "windows_ok s" using assms by (simp add: bounded_def)
  show "case take_client_window mem start len (r, o1, s) of (go_on, r', o2, t) \<Rightarrow> bounded r' o2 t"
  proof (cases "window_value mem start (length C_MAX) len 8")
    case None
    then show ?thesis by (simp add: take_client_window_def assms bounded_write)
  next
    case (Some v)
    have "bounded r o1 (s\<lparr>client_max_window_bits := (if v < client_max_window_bits s then v else client_max_window_bits s)\<rparr>)"
      using window_value_bounds [OF Some] w by (intro bounded_window assms) (auto simp: windows_ok_def)
    with Some show ?thesis by (simp add: take_client_window_def Let_def assms bounded_write)
  qed
  show "case take_server_window mem start len (r, o1, s) of (go_on, r', o2, t) \<Rightarrow> bounded r' o2 t"
  proof (cases "window_value mem start (length S_MAX) len 9")
    case None
    then show ?thesis by (simp add: take_server_window_def assms)
  next
    case (Some v)
    have "bounded r o1 (s\<lparr>server_max_window_bits := (if v < server_max_window_bits s then v else server_max_window_bits s)\<rparr>)"
      using window_value_bounds [OF Some] w by (intro bounded_window assms) (auto simp: windows_ok_def)
    with Some show ?thesis by (simp add: take_server_window_def Let_def assms bounded_write)
  qed
qed

lemma take_parameter_bounds:
  assumes "bounded r o1 s"
  shows "case take_parameter mem p (r, o1, s) of (go_on, r', o2, t) \<Rightarrow> bounded r' o2 t"
proof -
  obtain start len where p: "p = (start, len)" by (cases p)
  show ?thesis
    unfolding take_parameter_def p prod.case
    using take_window_bounds [OF assms] by (simp add: assms bounded_write bounded_window)
qed

lemma take_parameters_bounds:
  "bounded r o1 s \<Longrightarrow> case take_parameters mem ps (r, o1, s) of (go_on, r', o2, t) \<Rightarrow> bounded r' o2 t"
proof (induction ps arbitrary: r o1 s)
  case (Cons p ps)
  obtain g r1 o2 s1 where p: "take_parameter mem p (r, o1, s) = (g, r1, o2, s1)" by (metis surj_pair)
  with take_parameter_bounds [OF Cons.prems, of mem p] have "bounded r1 o2 s1" by simp
  with Cons.IH p show ?case by simp
qed simp

lemma finish_response_bounds:
  assumes "bounded r o1 s" "finish_response (r, o1, s) = (r', t)"
  shows "length r' \<le> 128 \<and> windows_ok t"
proof -
  define s' where "s' = (if \<not> offered_c_max_window o1 then s\<lparr>client_max_window_bits := 15\<rparr> else s)"
  define r1 where "r1 = (if \<not> offered_s_max_window o1 \<and> server_max_window_bits s' < 15
    then write_to_response S_MAX (server_max_window_bits s') r else r)"
  define r2 where "r2 = (if \<not> offered_c_no_takeover o1 \<and> client_no_context_takeover s' then write_to_response C_NO 0 r1 else r1)"
  define r3 where "r3 = (if \<not> offered_s_no_takeover o1 \<and> server_no_context_takeover s' then write_to_response S_NO 0 r2 else r2)"
  have "finish_response (r, o1, s) = (r3, s')"
    unfolding finish_response_def prod.case Let_def s'_def r1_def r2_def r3_def by (rule refl)
  then have res: "r' = r3" "t = s'" using assms(2) by simp_all
  have "length r1 \<le> length r + (if offered_s_max_window o1 then 0 else 27)"
    "length r2 \<le> length r1 + (if offered_c_no_takeover o1 then 0 else 28)"
    "length r3 \<le> length r2 + (if offered_s_no_takeover o1 then 0 else 28)"
    unfolding r1_def r2_def r3_def by (simp_all add: length_write_to_response name_lengths)
  moreover have "length r \<le> room o1" using assms(1) by (simp add: bounded_def)
  moreover have "room o1 \<le> 18 + 27 + (if offered_s_max_window o1 then 27 else 0) + (if offered_c_no_takeover o1 then 28 else 0)
      + (if offered_s_no_takeover o1 then 28 else 0)" by (simp add: room_def)
  ultimately have "length r3 \<le> 128" by (simp split: if_split_asm)
  moreover have "windows_ok s'" using assms(1) by (simp add: s'_def bounded_def windows_ok_def)
  ultimately show ?thesis using res by simp
qed

definition upgrade_ok :: "('z, 'a) ws_upgrade \<Rightarrow> bool" where
  "upgrade_ok s \<longleftrightarrow> windows_ok s \<and> ext_name s = ''permessage-deflate'' \<and> (\<forall>r. ext_response s = Some r \<longrightarrow> length r \<le> 128)"

lemma upgrade_ok_init: "websocket_init level server proto s0 = Some s \<Longrightarrow> upgrade_ok s"
  by (auto simp: upgrade_ok_def windows_ok_def websocket_init_def Let_def split: if_splits)

lemma upgrade_ok_offer:
  assumes "upgrade_ok s"
  shows "upgrade_ok (fill_requested_extension mem len s)"
proof -
  have start: "bounded (ext_name s) no_offers s"
    using assms by (simp add: upgrade_ok_def bounded_def room_def no_offers_def)
  have name: "ext_name (fill_requested_extension mem len s) = ''permessage-deflate''"
    using fill_requested_extension_request [of s mem len] assms by (simp add: same_request_def upgrade_ok_def)
  show ?thesis
  proof (cases mem len s rule: fill_requested_extension_cases)
    case (refused ps r o1 t)
    have "bounded r o1 t" using take_parameters_bounds [OF start, of mem ps] refused(1) by simp
    moreover have "room o1 \<le> 128" by (simp add: room_def)
    ultimately show ?thesis using name refused(2) by (simp add: upgrade_ok_def bounded_def windows_ok_def)
  next
    case (taken ps r o1 t r' u)
    have "bounded r o1 t" using take_parameters_bounds [OF start, of mem ps] taken(1) by simp
    from finish_response_bounds [OF this taken(2)] name taken(5) show ?thesis
      by (auto simp: upgrade_ok_def windows_ok_def alloc_compression_def)
  qed (use assms in simp)
qed

text \<open>The states a connection goes through while its headers are read, offer by offer.\<close>

inductive negotiating :: "nat option \<Rightarrow> ('z, 'a) ws_upgrade \<Rightarrow> bool" for level where
  init: "websocket_init level server proto s0 = Some s \<Longrightarrow> negotiating level s"
| field: "negotiating level s \<Longrightarrow> negotiating level (snd (websocket_upgrade_on_header_field name s))"
| val: "negotiating level s \<Longrightarrow> negotiating level (snd (websocket_upgrade_on_header_value v behind s))"
| offer: "negotiating level s \<Longrightarrow> negotiating level (fill_requested_extension mem len s)"

lemma header_field_other:
  "\<exists>f. snd (websocket_upgrade_on_header_field name s) = s\<lparr>current_header_field := f\<rparr>"
  by (cases s) (auto simp: websocket_upgrade_on_header_field_def)

lemma header_value_upgrade_ok:
  assumes "upgrade_ok s"
  shows "upgrade_ok (snd (websocket_upgrade_on_header_value v behind s))"
proof -
  have field: "upgrade_ok (t\<lparr>current_header_field := f\<rparr>) = upgrade_ok t" for t :: "('a, 'b) ws_upgrade" and f
    by (simp add: upgrade_ok_def windows_ok_def)
  have "upgrade_ok (check_websocket_protocol v (s\<lparr>protocol_requested := True\<rparr>))"
    unfolding check_websocket_protocol_def
    by (rule for_each_item_preserves)
      (use assms in \<open>auto simp: upgrade_ok_def windows_ok_def fill_requested_sub_protocol_def split: option.split\<close>)
  moreover have "upgrade_ok (check_websocket_extensions v behind s)"
    unfolding check_websocket_extensions_def by (rule for_each_item_preserves) (simp_all add: assms upgrade_ok_offer)
  moreover have "upgrade_ok (s\<lparr>sec_web_socket_key := k\<rparr>)" for k
    using assms by (simp add: upgrade_ok_def windows_ok_def)
  ultimately show ?thesis
    using assms by (simp add: websocket_upgrade_on_header_value_def field split: header_field.split prod.split)
qed

lemma negotiating_upgrade_ok: "negotiating level s \<Longrightarrow> upgrade_ok s"
proof (induction rule: negotiating.induct)
  case (field s name)
  then show ?case using header_field_other [of name s] by (auto simp: upgrade_ok_def windows_ok_def)
qed (simp_all add: upgrade_ok_init header_value_upgrade_ok upgrade_ok_offer)

text \<open>C32: The extension response fits its buffer and the windows agreed on are ones zlib takes.  Whatever
  extensions a client offers, in whatever order, with whatever behind the header's value in memory: at every
  point of the negotiation the response and its terminating zero take at most the 129 bytes that were
  allocated, the client's window stays between 8 and 15 bits and the server's between 9 and 15.\<close>
theorem extension_response_fits:
  assumes "negotiating level s"
  shows "(case ext_response s of None \<Rightarrow> True | Some r \<Rightarrow> length r + 1 \<le> 129) \<and>
    client_max_window_bits s \<in> {8..15} \<and> server_max_window_bits s \<in> {9..15}"
  using negotiating_upgrade_ok [OF assms] by (simp add: upgrade_ok_def windows_ok_def split: option.split)

subsection \<open>Examples\<close>

definition upgrade_memory :: "(unit, 8 word list) ws_upgrade" where
  "upgrade_memory = ws_state.extend (ws_start False []) (ws_upgrade.fields [] HEADER_UNKNOWN True None True [])"

definition upgrade_start :: "nat \<Rightarrow> string option \<Rightarrow> (unit, 8 word list) ws_upgrade" where
  "upgrade_start level proto = the (websocket_init (Some level) True proto upgrade_memory)"

lemma upgrade_start: "level \<le> 3 \<Longrightarrow> websocket_init (Some level) True proto upgrade_memory = Some (upgrade_start level proto)"
proof -
  assume "level \<le> 3"
  then have "websocket_init (Some level) True proto upgrade_memory \<noteq> None"
    unfolding websocket_init_def Let_def option.map_disc_iff option.case by auto
  then show ?thesis by (auto simp: upgrade_start_def)
qed

lemma app_upgrade_memory [simp]: "app upgrade_memory = []"
  by (simp add: upgrade_memory_def ws_start_def ws_state.defs ws_upgrade.defs)

definition sample_headers :: "(string \<times> string \<times> string) list" where
  "sample_headers = [(''Host'', ''x'', []), (''SEC-WebSocket-Key'', ''dGhlIHNhbXBsZSBub25jZQ=='', CRLF),
     (''Sec-WebSocket-Version'', ''13'', CRLF), (''Sec-WebSocket-Protocol'', ''chat, jet'', CRLF)]"

lemma sample_headers_run:
  "\<exists>s. on_headers sample_headers (upgrade_start 0 (Some ''jet'')) = Some s \<and>
     (\<exists>t. websocket_upgrade_on_headers_complete sender_env 1 1 True True s = (1, t))"
proof -
  have "case on_headers sample_headers (upgrade_start 0 (Some ''jet'')) of None \<Rightarrow> False
      | Some s \<Rightarrow> protocol_requested s \<and> sub_protocol_found s" by code_simp
  then obtain s where s: "on_headers sample_headers (upgrade_start 0 (Some ''jet'')) = Some s" "sub_protocol_found s"
    by (auto split: option.splits)
  then show ?thesis
    by (simp add: websocket_upgrade_on_headers_complete_def check_http_version_def send_upgrade_response_def sender_env_def)
qed

theorem upgrade_answers_the_key_witness:
  "\<exists>s t iov. on_headers sample_headers (upgrade_start 0 (Some ''jet'')) = Some s \<and>
     websocket_upgrade_on_headers_complete sender_env 1 1 True True s = (1, t) \<and>
     app t = snd (writev_fn sender_env iov []) \<and> proper_answer ''dGhlIHNhbXBsZSBub25jZQ=='' iov"
proof -
  obtain s t where s: "on_headers sample_headers (upgrade_start 0 (Some ''jet'')) = Some s"
    and t: "websocket_upgrade_on_headers_complete sender_env 1 1 True True s = (1, t)"
    using sample_headers_run by blast
  have "request_key sample_headers = Some ''dGhlIHNhbXBsZSBub25jZQ==''" by code_simp
  from upgrade_answers_the_key [OF upgrade_start s this t] s t show ?thesis by auto
qed

theorem upgrade_without_key_witness:
  "case websocket_upgrade_on_headers_complete sender_env 1 1 True True (upgrade_start 0 (Some ''jet'')) of
    (r, s') \<Rightarrow> r = 1 \<and> (\<exists>rest. app s' = bytes_of (''HTTP/1.1 101 Switching Protocols'' @ CRLF @ ''Upgrade: websocket'' @ CRLF
      @ ''Connection: Upgrade'' @ CRLF @ ''Sec-WebSocket-Accept: '' @ b64_encode_buffer (sha1 (replicate 60 0))) @ rest)"
  by (rule upgrade_without_key [OF upgrade_start]) (simp_all add: sender_env_def)

theorem sub_protocol_negotiation_witness:
  "\<exists>s. on_headers [(''sec-websocket-protocol'', ''chat , jet'', [])] (upgrade_start 0 (Some ''chat'')) = Some s \<and>
     websocket_upgrade_on_headers_complete sender_env 1 1 True True s = (-1, s)"
proof -
  let ?run = "on_headers [(''sec-websocket-protocol'', ''chat , jet'', [])] (upgrade_start 0 (Some ''chat''))"
  have fact: "?run \<noteq> None" "''chat'' \<notin> set (items ''chat , jet'')" "is_header ''Sec-WebSocket-Protocol'' ''sec-websocket-protocol''"
    by code_simp+
  then obtain s where s: "?run = Some s" by blast
  with sub_protocol_negotiation [OF upgrade_start fact(3) s, of sender_env] fact(2) show ?thesis by simp
qed

theorem sub_protocol_null_witness:
  "\<exists>s. on_headers [(''Sec-WebSocket-Protocol'', ''jet'', [])] (upgrade_start 0 None) = Some s \<and> Null_dereference \<in> set (ws_faults s)"
proof -
  let ?run = "on_headers [(''Sec-WebSocket-Protocol'', ''jet'', [])] (upgrade_start 0 None)"
  have "?run \<noteq> None" "items ''jet'' \<noteq> []" "is_header ''Sec-WebSocket-Protocol'' ''Sec-WebSocket-Protocol''"
    by code_simp+
  moreover from this(1) obtain s where "?run = Some s" by blast
  ultimately show ?thesis
    using sub_protocol_null [OF upgrade_start, of 0 "''jet''" "''Sec-WebSocket-Protocol''" "[]" s] by auto
qed

text \<open>The longest response there is: 128 characters.\<close>

definition long_offer :: string where
  "long_offer = ''permessage-deflate; client_max_window_bits=15; server_max_window_bits=15'' @
     ''; client_no_context_takeover; server_no_context_takeover''"

theorem extension_response_fits_witness:
  "let s = fill_requested_extension long_offer (length long_offer) (upgrade_start 2 None)
   in map_option length (ext_response s) = Some 128 \<and> accepted s \<and>
      client_max_window_bits s \<in> {8..15} \<and> server_max_window_bits s \<in> {9..15}"
proof -
  let ?s = "fill_requested_extension long_offer (length long_offer) (upgrade_start 2 None)"
  have "negotiating (Some 2) ?s"
    by (intro negotiating.offer negotiating.init [OF upgrade_start]) simp
  from extension_response_fits [OF this] have "client_max_window_bits ?s \<in> {8..15} \<and> server_max_window_bits ?s \<in> {9..15}" by simp
  moreover have "map_option length (ext_response ?s) = Some 128 \<and> accepted ?s" by code_simp
  ultimately show ?thesis by (simp add: Let_def)
qed

end
