(* ===== verification/Websocket_Peer.thy ===== *)
theory Websocket_Peer
  imports Scenario Socket_Peer Websocket_Rules Websocket_Upgrade
begin

text \<open>
  Peers on websockets: \<^verbatim>\<open>src/src/websocket_peer.c\<close>.

  The callbacks the broker installs at a websocket: a text message is handed to \<^verbatim>\<open>parse_message\<close>, the end
  of the connection frees the peer.  The application behind the websocket is the broker's state together
  with \<open>'out\<close>, what \<^verbatim>\<open>writev\<close> of the connection changes.  What the broker sends to the peer is in the
  broker's log, as for the other transport.

  The lemmas show that text frames reach the broker as they were sent, that the end of a connection
  frees its peer once, and that a fragmented message calls a NULL pointer.
\<close>

subsection \<open>Callbacks\<close>

definition text_message_callback ::
    "externals \<Rightarrow> (8 word list \<Rightarrow> (json \<times> nat) option) \<Rightarrow> peer_ref \<Rightarrow> 8 word list \<Rightarrow> world \<times> 'out \<Rightarrow>
     websocket_callback_return \<times> world \<times> 'out" where
  "text_message_callback ex parser p msg a =
    (case run_state (parse_message ex (parser msg) (length msg) p) (fst a) of
       (ok, w) \<Rightarrow> (if \<not> ok then WS_ERROR else WS_OK, w, snd a))"

definition free_websocket_peer :: "peer_ref \<Rightarrow> world \<times> 'out \<Rightarrow> world \<times> 'out" where
  "free_websocket_peer p a = (snd (run_state (free_peer p) (fst a)), snd a)"

text \<open>What \<^verbatim>\<open>pong_received\<close> logs of the payload: a buffer of 50 bytes, always with a terminating zero.\<close>

definition pong_buffer :: "8 word list \<Rightarrow> 8 word list" where
  "pong_buffer msg =
    (let len = min 50 (length msg); buffer = take len msg
     in if len < 50 then buffer @ [0] else buffer[49 := 0])"

definition close_callback :: "peer_ref \<Rightarrow> 16 word \<Rightarrow> world \<times> 'out \<Rightarrow> world \<times> 'out" where
  "close_callback p status_code = free_websocket_peer p"

definition websocket_peer_env ::
    "externals \<Rightarrow> (8 word list \<Rightarrow> (json \<times> nat) option) \<Rightarrow> peer_ref \<Rightarrow>
     (8 word list list \<Rightarrow> 'out \<Rightarrow> int \<times> 'out) \<Rightarrow> 'z zlib \<Rightarrow> (nat \<Rightarrow> 8 word list) \<Rightarrow> nat \<Rightarrow> bool \<Rightarrow> ('z, world \<times> 'out) ws_env" where
  "websocket_peer_env ex parser p writev zlib random address memory =
    \<lparr>writev_fn = (\<lambda>iov a. case writev iov (snd a) of (r, out) \<Rightarrow> (r, fst a, out)),
     zlib_of = zlib, random_mask = random, buffer_address = address, memory_left = memory,
     on_error = free_websocket_peer p,
     text_message_received = Some (text_message_callback ex parser p),
     text_frame_received = None,
     binary_message_received = None,
     binary_frame_received = None,
     ping_received = None,
     pong_received = Some (\<lambda>msg a. (WS_OK, a)),
     close_received = Some (close_callback p)\<rparr>"

text \<open>\<^verbatim>\<open>ws_send_message\<close>, and the two ways the broker itself ends the connection.\<close>

definition ws_send_message where
  "ws_send_message E rendered s = websocket_send_text_frame E rendered s"

definition close_websocket_peer ::
    "peer_ref \<Rightarrow> ('z, world \<times> 'out) ws_env \<Rightarrow> ('z, world \<times> 'out) ws_state \<Rightarrow> ('z, world \<times> 'out) ws_state" where
  "close_websocket_peer p E s =
    (let s = websocket_close E WS_CLOSE_GOING_AWAY s in s\<lparr>app := free_websocket_peer p (app s)\<rparr>)"

text \<open>\<^verbatim>\<open>init_websocket_peer\<close> ignores the result of \<^verbatim>\<open>init_peer\<close>.\<close>

definition init_websocket_peer ::
    "peer \<Rightarrow> bool \<Rightarrow> nat option \<Rightarrow> ('z, 'a) ws_upgrade \<Rightarrow> (peer_ref option \<times> ('z, 'a) ws_upgrade option) cm" where
  "init_websocket_peer memory is_local level s0 = do {
     p \<leftarrow> init_peer memory is_local;
     ret (p, websocket_init level True (Some ''jet'') s0) }"

subsection \<open>Messages\<close>

text \<open>What the broker does with the text messages of a connection: all of them, up to the first it refuses.\<close>

fun handle_texts ::
    "externals \<Rightarrow> (8 word list \<Rightarrow> (json \<times> nat) option) \<Rightarrow> peer_ref \<Rightarrow> 8 word list list \<Rightarrow> world \<Rightarrow> bool \<times> world" where
  "handle_texts ex parser p [] w = (True, w)"
| "handle_texts ex parser p (m # ms) w =
    (case run_state (parse_message ex (parser m) (length m) p) w of
       (ok, w) \<Rightarrow> if ok then handle_texts ex parser p ms w else (False, snd (run_state (free_peer p) w)))"

definition text_frame :: "8 word list \<Rightarrow> 8 word list \<Rightarrow> ws_frame" where
  "text_frame mkey msg = data_frame True WS_TEXT_FRAME (Some mkey) msg"

lemma peer_env_simps [simp]:
  "text_message_received (websocket_peer_env ex parser p wv z rnd ad mem) = Some (text_message_callback ex parser p)"
  "text_frame_received (websocket_peer_env ex parser p wv z rnd ad mem) = None"
  "binary_message_received (websocket_peer_env ex parser p wv z rnd ad mem) = None"
  "binary_frame_received (websocket_peer_env ex parser p wv z rnd ad mem) = None"
  "ping_received (websocket_peer_env ex parser p wv z rnd ad mem) = None"
  "pong_received (websocket_peer_env ex parser p wv z rnd ad mem) = Some (\<lambda>msg a. (WS_OK, a))"
  "close_received (websocket_peer_env ex parser p wv z rnd ad mem) = Some (close_callback p)"
  "on_error (websocket_peer_env ex parser p wv z rnd ad mem) = free_websocket_peer p"
  by (simp_all add: websocket_peer_env_def)

lemma fst_writev [simp]: "fst (snd (writev_fn (websocket_peer_env ex parser p wv z rnd ad mem) iov a)) = fst a"
  by (simp add: websocket_peer_env_def split: prod.split)

lemma send_frame_world [simp]:
  "fst (app (snd (send_frame (websocket_peer_env ex parser p wv z rnd ad mem) payload type s))) = fst (app s)"
proof -
  have *: "fst (snd r) = fst a" if "writev_fn (websocket_peer_env ex parser p wv z rnd ad mem) iov a = r" for iov a r
    using that by (metis fst_writev)
  show ?thesis
    by (auto simp: send_frame_def Let_def ws_fault_def dest: * split: prod.splits if_splits)
qed

lemma websocket_close_world [simp]:
  "fst (app (websocket_close (websocket_peer_env ex parser p wv z rnd ad mem) code s)) = fst (app s)"
  by (simp add: websocket_close_def websocket_send_close_frame_def Let_def)

lemma free_websocket_peer_world [simp]: "fst (free_websocket_peer p a) = broker_free p (fst a)"
  by (simp add: free_websocket_peer_def broker_free_def)

lemma handle_error_world [simp]:
  "fst (app (handle_error (websocket_peer_env ex parser p wv z rnd ad mem) code s)) = broker_free p (fst (app s))"
  by (simp add: handle_error_def Let_def)

lemma receive_text_frame:
  assumes "length mkey = 4" "length msg < 2 ^ 63" "\<not> is_fragmented s"
  shows "receive_frame (websocket_peer_env ex parser p wv z rnd ad mem) (text_frame mkey msg) s =
    (case run_state (parse_message ex (parser msg) (length msg) p) (fst (app s)) of (ok, w) \<Rightarrow>
      let s' = (header_of (text_frame mkey msg) s)\<lparr>app := (w, snd (app s))\<rparr>
      in if ok then Go_on (Some at_header) s'
         else Closed (handle_error (websocket_peer_env ex parser p wv z rnd ad mem) WS_CLOSE_INTERNAL_ERROR s'))"
proof -
  let ?E = "websocket_peer_env ex parser p wv z rnd ad mem" and ?f = "text_frame mkey msg"
  have fok: "frame_ok ?f" using assms(1,2) by (simp add: text_frame_def data_frame_def frame_ok_def WS_TEXT_FRAME_def)
  have cf: "check_flags (header_of ?f s) = Some (False, header_of ?f s)"
    using assms(3) by (simp add: check_flags_def text_frame_def data_frame_def opcodes)
  have "ws_handle_frame ?E msg (header_of ?f s) =
      (case run_state (parse_message ex (parser msg) (length msg) p) (fst (app s)) of (ok, w) \<Rightarrow>
        (if ok then WS_OK else WS_ERROR, (header_of ?f s)\<lparr>app := (w, snd (app s))\<rparr>))"
    unfolding ws_handle_frame_def cf option.case prod.case
    by (simp add: opcodes text_frame_def data_frame_def received_comp_def call_back_def text_message_callback_def
        split: prod.split)
  then show ?thesis
    using receive_frame_eq [OF fok, of s ?E] by (simp add: text_frame_def data_frame_def Let_def split: prod.split)
qed

lemma receive_text_frames:
  assumes "\<forall>m\<in>set msgs. length m < 2 ^ 63" "length mkey = 4" "\<not> is_fragmented s"
    and E_def: "E = websocket_peer_env ex parser p wv z rnd ad mem"
  shows "\<exists>s'. receive_frames E (map (text_frame mkey) msgs) s = (fst (handle_texts ex parser p msgs (fst (app s))), s') \<and>
    fst (app s') = snd (handle_texts ex parser p msgs (fst (app s)))"
  using assms(1,3)
proof (induction msgs arbitrary: s)
  case (Cons m ms)
  obtain ok w where h: "run_state (parse_message ex (parser m) (length m) p) (fst (app s)) = (ok, w)" by fastforce
  have m: "length m < 2 ^ 63" using Cons.prems(1) by simp
  note r = receive_text_frame [OF assms(2) m Cons.prems(2), of ex parser p wv z rnd ad mem, unfolded h prod.case Let_def, folded E_def]
  let ?s = "(header_of (text_frame mkey m) s)\<lparr>app := (w, snd (app s))\<rparr>"
  show ?case
  proof (cases ok)
    case True
    from Cons.IH [of ?s] Cons.prems obtain s' where
      "receive_frames E (map (text_frame mkey) ms) ?s = (fst (handle_texts ex parser p ms w), s')"
      "fst (app s') = snd (handle_texts ex parser p ms w)" by auto
    with True r h show ?thesis by (intro exI [of _ s']) simp
  next
    case False
    with r h show ?thesis by (simp add: E_def broker_free_def)
  qed
qed simp


subsection \<open>The end of a connection\<close>

definition broker_handled ::
    "externals \<Rightarrow> (8 word list \<Rightarrow> (json \<times> nat) option) \<Rightarrow> peer_ref \<Rightarrow> world \<Rightarrow> world \<Rightarrow> bool" where
  "broker_handled ex parser p w w' \<longleftrightarrow> w' = w \<or> (\<exists>msg. w' = snd (broker_handle ex parser p msg w))"

lemma broker_handled_refl [simp]: "broker_handled ex parser p w w"
  by (simp add: broker_handled_def)

lemma no_frame_callback:
  "frame_received_comp E c msg fin_bit None s = (r, s') \<Longrightarrow> r \<noteq> WS_CLOSED \<and> app s' = app s"
  by (auto simp: frame_received_comp_def call_back_def ws_fault_def split: if_splits option.splits prod.splits sum.splits bool.splits)

lemma text_received_world:
  assumes "received_comp E c msg (Some (text_message_callback ex parser p)) s = (r, s')"
  shows "r \<noteq> WS_CLOSED \<and> broker_handled ex parser p (fst (app s)) (fst (app s'))"
proof -
  have "call_back (Some (text_message_callback ex parser p m)) t = (r, s') \<Longrightarrow>
      r \<noteq> WS_CLOSED \<and> (\<exists>msg. fst (app s') = snd (broker_handle ex parser p msg (fst (app t))))" for m t
    by (auto simp: call_back_def text_message_callback_def broker_handle_def split: prod.splits if_splits intro: exI [of _ m])
  with assms show ?thesis
    by (fastforce simp: received_comp_def broker_handled_def split: if_splits option.splits prod.splits)
qed

lemma check_flags_world: "check_flags s = Some (c, s') \<Longrightarrow> app s' = app s"
  by (auto simp: check_flags_def Let_def split: if_splits)

lemma close_frame_world:
  assumes "handle_close_frame (websocket_peer_env ex parser p wv z rnd ad mem) frame s = (r, s')"
  shows "r = WS_CLOSED \<and> fst (app s') = broker_free p (fst (app s))"
  using assms by (auto simp: handle_close_frame_def Let_def close_callback_def split: if_splits)

lemma ws_handle_frame_world:
  assumes "ws_handle_frame (websocket_peer_env ex parser p wv z rnd ad mem) frame s = (r, s')"
  shows "\<exists>w. broker_handled ex parser p (fst (app s)) w \<and> fst (app s') = (if r = WS_CLOSED then broker_free p w else w)"
proof (cases "check_flags s")
  case None
  with assms show ?thesis by (auto simp: ws_handle_frame_def intro: exI [of _ "fst (app s)"])
next
  case (Some cs)
  obtain c s1 where cs: "cs = (c, s1)" by (cases cs)
  have s1: "app s1 = app s" using check_flags_world Some cs by blast
  note run = assms [unfolded ws_handle_frame_def Some cs option.case prod.case]
  consider "opcode s1 = WS_CONTINUATION_FRAME" | "opcode s1 = WS_BINARY_FRAME" | "opcode s1 = WS_TEXT_FRAME"
    | "opcode s1 = WS_PING_FRAME" | "opcode s1 = WS_PONG_FRAME" | "opcode s1 = WS_CLOSE_FRAME"
    | "opcode s1 \<notin> {WS_CONTINUATION_FRAME, WS_BINARY_FRAME, WS_TEXT_FRAME, WS_PING_FRAME, WS_PONG_FRAME, WS_CLOSE_FRAME}" by blast
  then show ?thesis
  proof cases
    case 1
    then have "fst (app s') = (if r = WS_CLOSED then broker_free p (fst (app s)) else fst (app s))"
      using run s1 by (auto simp: Let_def dest: no_frame_callback split: if_splits prod.splits)
    then show ?thesis by (intro exI [of _ "fst (app s)"]) simp
  next
    case 2
    then have "r = WS_CLOSED \<and> fst (app s') = broker_free p (fst (app s))"
      using run s1 by (auto simp: opcodes)
    then show ?thesis by (intro exI [of _ "fst (app s)"]) simp
  next
    case 3
    obtain r2 s2 where t: "received_comp (websocket_peer_env ex parser p wv z rnd ad mem) c frame
        (Some (text_message_callback ex parser p)) s1 = (r2, s2)" by fastforce
    from text_received_world [OF t] 3 run t s1 show ?thesis
      by (intro exI [of _ "fst (app s2)"]) (auto simp: opcodes)
  next
    case 4
    have "fst (app s2) = fst (app s)" if "websocket_send_pong_frame (websocket_peer_env ex parser p wv z rnd ad mem) frame s1 = (x, s2)" for x s2
      using that s1 unfolding websocket_send_pong_frame_def by (metis send_frame_world snd_conv)
    then have "fst (app s') = (if r = WS_CLOSED then broker_free p (fst (app s)) else fst (app s))"
      using 4 run s1 by (auto simp: opcodes split: if_splits prod.splits)
    then show ?thesis by (intro exI [of _ "fst (app s)"]) simp
  next
    case 5
    then have "fst (app s') = (if r = WS_CLOSED then broker_free p (fst (app s)) else fst (app s))"
      using run s1 by (auto simp: opcodes call_back_def split: if_splits)
    then show ?thesis by (intro exI [of _ "fst (app s)"]) simp
  next
    case 6
    with run have "handle_close_frame (websocket_peer_env ex parser p wv z rnd ad mem) frame s1 = (r, s')" by (simp add: opcodes)
    from close_frame_world [OF this] s1 show ?thesis by (intro exI [of _ "fst (app s)"]) simp
  next
    case 7
    with run s1 have "r = WS_CLOSED \<and> fst (app s') = broker_free p (fst (app s))" by auto
    then show ?thesis by (intro exI [of _ "fst (app s)"]) simp
  qed
qed

text \<open>The broker after a read callback that started in \<open>w0\<close>.\<close>

definition released ::
    "externals \<Rightarrow> (8 word list \<Rightarrow> (json \<times> nat) option) \<Rightarrow> peer_ref \<Rightarrow> world \<Rightarrow> ('z, world \<times> 'out) ws_reaction \<Rightarrow> bool" where
  "released ex parser p w0 reaction \<longleftrightarrow> (\<exists>w. broker_handled ex parser p w0 w \<and> (case reaction of
     Closed s \<Rightarrow> fst (app s) = broker_free p w | Go_on next s \<Rightarrow> fst (app s) = w))"

lemma released_simps:
  "fst (app s) = broker_free p w0 \<Longrightarrow> released ex parser p w0 (Closed s)"
  "fst (app s) = w0 \<Longrightarrow> released ex parser p w0 (Go_on next s)"
  by (auto simp: released_def intro: exI [of _ w0])

lemma released_payload:
  assumes "fst (app s) = w0"
  shows "released ex parser p w0 (ws_get_payload (websocket_peer_env ex parser p wv z rnd ad mem) buf s)"
proof -
  let ?E = "websocket_peer_env ex parser p wv z rnd ad mem"
  have "released ex parser p w0 (case ws_handle_frame ?E frame s of
      (WS_OK, s) \<Rightarrow> Go_on (Some at_header) s | (WS_CLOSED, s) \<Rightarrow> Closed s
    | (WS_ERROR, s) \<Rightarrow> Closed (handle_error ?E WS_CLOSE_INTERNAL_ERROR s))" for frame
  proof -
    obtain r s' where h: "ws_handle_frame ?E frame s = (r, s')" by fastforce
    from ws_handle_frame_world [OF h] assms show ?thesis
      by (cases r) (auto simp: h released_def)
  qed
  then show ?thesis using assms by (simp add: ws_get_payload_def Let_def released_simps)
qed

text \<open>C29: The end of a websocket connection frees its peer exactly once.  Whatever bytes a read callback gets, in
  whatever state of the connection: when it reports the connection closed, the broker's state is what
  freeing the peer makes of the state after at most one message of that peer was handled; when it goes on
  reading the peer was not freed.\<close>
theorem websocket_peer_freed_once:
  shows "\<exists>w. (w = fst (app s) \<or> (\<exists>msg. w = snd (broker_handle ex parser p msg (fst (app s))))) \<and>
    (case ws_client (websocket_peer_env ex parser p wv z rnd ad mem) cb buf s of
       Closed s' \<Rightarrow> fst (app s') = broker_free p w | Go_on next s' \<Rightarrow> fst (app s') = w)"
proof -
  have "released ex parser p (fst (app s)) (ws_client (websocket_peer_env ex parser p wv z rnd ad mem) cb buf s)"
    by (cases cb)
      (simp_all add: ws_get_header_def ws_get_first_length_def ws_get_length16_def ws_get_length64_def ws_get_mask_def
        read_mask_or_payload_def Let_def released_payload released_simps)
  then show ?thesis by (simp add: released_def broker_handled_def)
qed

text \<open>C40: A fragmented text message crashes the broker.  Its websocket peers install no callback for the frames
  of fragmented messages; the first fragment of a text message, which anyone who completed the upgrade can
  send, calls the NULL pointer.\<close>
theorem fragmented_text_crashes_broker:
  assumes "length mkey = 4" "length msg < 2 ^ 63" "\<not> accepted s" "\<not> is_fragmented s" "\<not> is_frag_compressed s"
  shows "\<exists>s'. receive_frame (websocket_peer_env ex parser p wv z rnd ad mem) (data_frame False WS_TEXT_FRAME (Some mkey) msg) s =
      Closed (handle_error (websocket_peer_env ex parser p wv z rnd ad mem) WS_CLOSE_INTERNAL_ERROR s') \<and>
    Null_callback \<in> set (ws_faults s')"
  by (rule fragmented_text_calls_null) (use assms in \<open>simp_all add: data_frame_def frame_ok_def WS_TEXT_FRAME_def\<close>)

subsection \<open>Examples\<close>

definition demo_ws_env :: "(unit, world \<times> 8 word list) ws_env" where
  "demo_ws_env = websocket_peer_env demo_externals demo_parser 1 (\<lambda>iov out. (0, out @ concat iov)) plain_zlib (\<lambda>n. []) 0 True"


theorem fragmented_text_crashes_broker_witness:
  "\<exists>s. receive_frame demo_ws_env (data_frame False WS_TEXT_FRAME (Some [1, 2, 3, 4]) [5]) (ws_start True (demo_world, [])) =
      Closed (handle_error demo_ws_env WS_CLOSE_INTERNAL_ERROR s) \<and> Null_callback \<in> set (ws_faults s)"
  unfolding demo_ws_env_def by (rule fragmented_text_crashes_broker) (simp_all add: ws_start_def)

end
