(* ===== verification/Http_Connection.thy ===== *)
theory Http_Connection
  imports Websocket_Upgrade
begin

text \<open>
  HTTP connections: \<^verbatim>\<open>src/src/http_connection.c\<close> and \<^verbatim>\<open>src/src/http_server.c\<close>, and the header lines that
  \<^verbatim>\<open>websocket.c\<close> feeds to the parser.

  The vendored parser is an argument: \<open>execute\<close> is \<^verbatim>\<open>http_parser_execute\<close> with the callbacks it runs, \<open>parse_url\<close>
  gives \<open>None\<close> for an error and otherwise the path of a URL, if it has one.  \<open>http_app\<close> is what the rest of the
  program keeps, with the connection's output.

  The lemmas say how a request that fails is answered and that its connection is freed once; what the
  handler of the URL created before is not.
\<close>

record 'a http_connection =
  status_code :: nat
  is_local_connection_flag :: bool
  http_compression_level :: nat
  http_closes :: nat
  http_app :: 'a

definition HTTP_BAD_REQUEST :: nat where "HTTP_BAD_REQUEST = 400"
definition HTTP_NOT_FOUND :: nat where "HTTP_NOT_FOUND = 404"
definition HTTP_INTERNAL_SERVER_ERROR :: nat where "HTTP_INTERNAL_SERVER_ERROR = 500"

definition init_http_connection2 :: "bool \<Rightarrow> nat \<Rightarrow> 'a http_connection \<Rightarrow> 'a http_connection" where
  "init_http_connection2 is_local level c =
    c\<lparr>status_code := 0, is_local_connection_flag := is_local, http_compression_level := level\<rparr>"

definition init_http_connection :: "bool \<Rightarrow> 'a http_connection \<Rightarrow> 'a http_connection" where
  "init_http_connection is_local = init_http_connection2 is_local 0"

text \<open>The handlers of a server are given by their request targets.\<close>

fun find_url_handler :: "string list \<Rightarrow> string \<Rightarrow> nat option" where
  "find_url_handler [] url = None"
| "find_url_handler (target # targets) url =
    (if length target \<le> length url \<and> take (length target) url = target then Some 0
     else map_option Suc (find_url_handler targets url))"

text \<open>The result of \<open>create\<close>, which may fail, is not looked at.\<close>

definition on_url ::
    "(bool \<Rightarrow> string \<Rightarrow> string option option) \<Rightarrow> (string \<times> ('a http_connection \<Rightarrow> int \<times> 'a http_connection) option) list \<Rightarrow>
     bool \<Rightarrow> string \<Rightarrow> 'a http_connection \<Rightarrow> int \<times> 'a http_connection" where
  "on_url parse_url handlers is_connect url c =
    (case parse_url is_connect url of
       None \<Rightarrow> (-1, c\<lparr>status_code := HTTP_BAD_REQUEST\<rparr>)
     | Some None \<Rightarrow> (-1, c\<lparr>status_code := HTTP_BAD_REQUEST\<rparr>)
     | Some (Some path) \<Rightarrow>
        (case find_url_handler (map fst handlers) path of
           None \<Rightarrow> (-1, c\<lparr>status_code := HTTP_NOT_FOUND\<rparr>)
         | Some i \<Rightarrow> (0, case snd (handlers ! i) of None \<Rightarrow> c | Some create \<Rightarrow> snd (create c))))"

definition get_response :: "nat \<Rightarrow> string" where
  "get_response code =
    (if code = HTTP_BAD_REQUEST then ''HTTP/1.0 400 Bad Request'' @ CRLF @ CRLF
     else if code = HTTP_NOT_FOUND then ''HTTP/1.0 404 Not Found'' @ CRLF @ CRLF
     else ''HTTP/1.0 500 Internal Server Error'' @ CRLF @ CRLF)"

definition free_connection :: "'a http_connection \<Rightarrow> 'a http_connection" where
  "free_connection c = c\<lparr>http_closes := http_closes c + 1\<rparr>"

definition send_http_error_response ::
    "(8 word list list \<Rightarrow> 'a \<Rightarrow> int \<times> 'a) \<Rightarrow> 'a http_connection \<Rightarrow> int \<times> 'a http_connection" where
  "send_http_error_response wv c =
    (case wv [bytes_of (get_response (status_code c))] (http_app c) of (r, a) \<Rightarrow> (r, c\<lparr>http_app := a\<rparr>))"

text \<open>The flag says whether the connection is still open.\<close>

definition read_start_line ::
    "(8 word list list \<Rightarrow> 'a \<Rightarrow> int \<times> 'a) \<Rightarrow> (8 word list \<Rightarrow> 'a http_connection \<Rightarrow> nat \<times> 'a http_connection) \<Rightarrow>
     8 word list \<Rightarrow> 'a http_connection \<Rightarrow> bool \<times> 'a http_connection" where
  "read_start_line wv execute buf c =
    (if buf = [] then (False, free_connection c)
     else (case execute buf c of (nparsed, c) \<Rightarrow>
       if nparsed \<noteq> length buf then
         let c = (if status_code c = 0 then c\<lparr>status_code := HTTP_BAD_REQUEST\<rparr> else c)
         in (False, free_connection (snd (send_http_error_response wv c)))
       else (True, c)))"

subsection \<open>Header lines of a websocket\<close>

definition on_ws_state :: "(('z, 'a) ws_state \<Rightarrow> ('z, 'a) ws_state) \<Rightarrow> ('z, 'a) ws_upgrade \<Rightarrow> ('z, 'a) ws_upgrade" where
  "on_ws_state f s = ws_state.extend (f (ws_state.truncate s))
     (ws_upgrade.fields (sec_web_socket_key s) (current_header_field s) (protocol_requested s) (sub_protocol_name s)
        (sub_protocol_found s) (ext_name s))"

datatype header_line_result = Header_closed | Read_frames | Read_header_line

text \<open>The parser's \<open>upgrade\<close> flag is the second result of \<open>execute\<close>.\<close>

definition websocket_read_header_line ::
    "('z, 'a) ws_env \<Rightarrow> (8 word list \<Rightarrow> ('z, 'a) ws_upgrade \<Rightarrow> nat \<times> bool \<times> ('z, 'a) ws_upgrade) \<Rightarrow> 8 word list \<Rightarrow>
     ('z, 'a) ws_upgrade \<Rightarrow> header_line_result \<times> ('z, 'a) ws_upgrade" where
  "websocket_read_header_line E execute buf s =
    (if buf = [] then (Header_closed, on_ws_state (handle_error E WS_CLOSE_GOING_AWAY) s)
     else (case execute buf s of (nparsed, upgrade, s) \<Rightarrow>
       if nparsed \<noteq> length buf then
         let a = snd (writev_fn E [bytes_of (get_response HTTP_BAD_REQUEST)] (app s))
         in (Header_closed, on_ws_state (handle_error E WS_CLOSE_GOING_AWAY) (s\<lparr>app := a\<rparr>))
       else if upgrade then (Read_frames, s\<lparr>upgrade_complete := True\<rparr>)
       else (Read_header_line, s)))"

subsection \<open>What a client gets\<close>

lemma find_url_handler_prefix:
  "find_url_handler targets url = Some i \<longleftrightarrow>
    i < length targets \<and> (\<exists>rest. url = targets ! i @ rest) \<and> (\<forall>j<i. \<nexists>rest. url = targets ! j @ rest)"
proof (induction targets arbitrary: i)
  case (Cons t ts)
  have "length t \<le> length url \<and> take (length t) url = t \<longleftrightarrow> (\<exists>rest. url = t @ rest)"
    by (metis append_eq_conv_conj append_take_drop_id length_append le_add1)
  with Cons.IH show ?case by (cases i) (auto simp: less_Suc_eq_0_disj)
qed simp


definition demo_http :: "8 word list http_connection" where
  "demo_http = \<lparr>status_code = 0, is_local_connection_flag = False, http_compression_level = 0, http_closes = 0, http_app = []\<rparr>"


text \<open>A start line that cannot be served is answered once and its connection freed once.  The answer is the
  status set while parsing, or 400; what the URL's handler created by then stays, because only the
  connection is freed.\<close>
theorem bad_start_line_is_answered:
  assumes "buf \<noteq> []" "execute buf c = (n, c1)" "n \<noteq> length buf"
  shows "\<exists>c'. read_start_line wv execute buf c = (False, c') \<and> http_closes c' = http_closes c1 + 1 \<and>
    http_app c' = snd (wv [bytes_of (get_response (if status_code c1 = 0 then HTTP_BAD_REQUEST else status_code c1))] (http_app c1))"
  using assms by (auto simp: read_start_line_def Let_def free_connection_def send_http_error_response_def split: prod.split)

theorem bad_start_line_is_answered_witness:
  "\<exists>c'. read_start_line (\<lambda>iov out. (0, out @ concat iov)) (\<lambda>buf c. (0, c)) [71] demo_http = (False, c') \<and>
    http_closes c' = 1 \<and> http_app c' = bytes_of (get_response HTTP_BAD_REQUEST)"
  using bad_start_line_is_answered [of "[71]" "\<lambda>buf c. (0, c)"
      demo_http 0 _ "\<lambda>iov out. (0, out @ concat iov)"]
  by (simp add: demo_http_def)

end
