(* ===== verification/Eventloop.thy ===== *)
theory Eventloop
  imports Buffered_Socket
begin

text \<open>
  The event loop: \<^verbatim>\<open>src/src/linux/eventloop_epoll.c\<close>.

  \<^verbatim>\<open>epoll_wait\<close> delivers a batch of events; \<open>handle_events\<close> calls the functions of each.  An event names the
  \<^verbatim>\<open>struct io_event\<close> it was registered with, which the kernel hands back as a bare pointer.  The structure is
  known by a number here; \<open>registered\<close> is the set epoll knows, \<open>served\<close> the log of the calls, with what was
  not registered when it was called in \<open>stale\<close>.  The functions of the events are arguments: they run in
  the loop's state, may remove events, and return what the loop reacts to.

  The lemmas show in which order functions are called and that functions which remove at most their own
  event, and say so, are never called after their removal; a function that removes another event of the
  batch leaves a stale pointer that is called.
\<close>

datatype direction = In_call | Out_call | Error_call

record 's eventloop =
  current_ev :: "nat option"
  registered :: "nat set"
  served :: "(nat \<times> direction) list"
  stale :: "nat list"
  loop_app :: 's

record epoll_event =
  ev_of :: nat
  epoll_in :: bool
  epoll_out :: bool
  epoll_other :: bool

type_synonym 's ev_function = "'s eventloop \<Rightarrow> eventloop_return \<times> 's eventloop"

record 's io_events =
  read_function_of :: "nat \<Rightarrow> 's ev_function option"
  write_function_of :: "nat \<Rightarrow> 's ev_function option"
  error_function_of :: "nat \<Rightarrow> 's ev_function"

definition eventloop_epoll_add :: "bool \<Rightarrow> nat \<Rightarrow> 's eventloop \<Rightarrow> eventloop_return \<times> 's eventloop" where
  "eventloop_epoll_add kernel_ok ev lp =
    (if \<not> kernel_ok then (EL_ABORT_LOOP, lp) else (EL_CONTINUE_LOOP, lp\<lparr>registered := insert ev (registered lp)\<rparr>))"

definition eventloop_epoll_remove :: "nat \<Rightarrow> 's eventloop \<Rightarrow> 's eventloop" where
  "eventloop_epoll_remove ev lp =
    (let lp = lp\<lparr>registered := registered lp - {ev}\<rparr>
     in if current_ev lp = Some ev then lp\<lparr>current_ev := None\<rparr> else lp)"

text \<open>A call through the event's structure.\<close>

definition call_ev :: "nat \<Rightarrow> direction \<Rightarrow> 's ev_function \<Rightarrow> 's eventloop \<Rightarrow> eventloop_return \<times> 's eventloop" where
  "call_ev ev d f lp =
    f (lp\<lparr>served := served lp @ [(ev, d)], stale := stale lp @ (if ev \<in> registered lp then [] else [ev])\<rparr>)"

definition serve :: "'s io_events \<Rightarrow> epoll_event \<Rightarrow> 's eventloop \<Rightarrow> bool \<times> 's eventloop" where
  "serve fs event lp =
    (let ev = ev_of event; lp = lp\<lparr>current_ev := Some ev\<rparr>
     in if epoll_other event
        then (case call_ev ev Error_call (error_function_of fs ev) lp of (r, lp) \<Rightarrow> (r \<noteq> EL_ABORT_LOOP, lp))
        else
          let (r, lp) = (if epoll_in event
                then (case read_function_of fs ev of None \<Rightarrow> (EL_CONTINUE_LOOP, lp) | Some f \<Rightarrow> call_ev ev In_call f lp)
                else (EL_CONTINUE_LOOP, lp))
          in if r = EL_ABORT_LOOP then (False, lp)
             else if r = EL_EVENT_REMOVED then (True, lp)
             else if current_ev lp \<noteq> None \<and> epoll_out event
             then (case write_function_of fs ev of
                 None \<Rightarrow> (True, lp)
               | Some f \<Rightarrow> (case call_ev ev Out_call f lp of (r, lp) \<Rightarrow> (r \<noteq> EL_ABORT_LOOP, lp)))
             else (True, lp))"

fun handle_batch :: "'s io_events \<Rightarrow> epoll_event list \<Rightarrow> 's eventloop \<Rightarrow> bool \<times> 's eventloop" where
  "handle_batch fs [] lp = (True, lp)"
| "handle_batch fs (event # events) lp =
    (case serve fs event lp of (go_on, lp) \<Rightarrow> if go_on then handle_batch fs events lp else (False, lp))"

datatype epoll_result = Interrupted | Epoll_failed | Events "epoll_event list"

definition handle_events :: "'s io_events \<Rightarrow> epoll_result \<Rightarrow> 's eventloop \<Rightarrow> bool \<times> 's eventloop" where
  "handle_events fs result lp =
    (case result of Interrupted \<Rightarrow> (True, lp) | Epoll_failed \<Rightarrow> (False, lp) | Events events \<Rightarrow> handle_batch fs events lp)"

text \<open>
  \<^verbatim>\<open>eventloop_epoll_run\<close>: the results of \<^verbatim>\<open>epoll_wait\<close> are the list, \<open>go_ahead\<close> is the flag a signal handler
  clears, read from the state; the loop stops with the list when the process is not woken any more.
\<close>

fun eventloop_epoll_run :: "('s \<Rightarrow> bool) \<Rightarrow> ('s \<Rightarrow> 's io_events) \<Rightarrow> epoll_result list \<Rightarrow> 's eventloop \<Rightarrow> int option \<times> 's eventloop" where
  "eventloop_epoll_run go_ahead fs [] lp = (if go_ahead (loop_app lp) then (None, lp) else (Some 0, lp))"
| "eventloop_epoll_run go_ahead fs (result # results) lp =
    (if \<not> go_ahead (loop_app lp) then (Some 0, lp)
     else (case handle_events (fs (loop_app lp)) result lp of
        (go_on, lp) \<Rightarrow> if go_on then eventloop_epoll_run go_ahead fs results lp else (Some (-1), lp)))"

subsection \<open>No call after a removal\<close>

text \<open>
  A function minds its own event: it registers what it likes, removes no other event, and when it removes its own it
  says so by its result, which is what a read callback of the buffered socket does, or by an abort.
\<close>

definition minds_own :: "nat \<Rightarrow> 's ev_function \<Rightarrow> bool" where
  "minds_own ev f \<longleftrightarrow> (\<forall>lp r lp'. f lp = (r, lp') \<longrightarrow>
    registered lp - {ev} \<subseteq> registered lp' \<and> stale lp' = stale lp \<and>
    (ev \<in> registered lp \<and> ev \<notin> registered lp' \<longrightarrow> r \<noteq> EL_CONTINUE_LOOP \<or> current_ev lp' = None))"

definition all_mind_own :: "'s io_events \<Rightarrow> bool" where
  "all_mind_own fs \<longleftrightarrow> (\<forall>ev. (\<forall>f. read_function_of fs ev = Some f \<longrightarrow> minds_own ev f) \<and>
    (\<forall>f. write_function_of fs ev = Some f \<longrightarrow> minds_own ev f) \<and> minds_own ev (error_function_of fs ev))"

lemma call_ev_own:
  assumes "minds_own ev f" "ev \<in> registered lp" "call_ev ev d f lp = (r, lp')"
  shows "registered lp - {ev} \<subseteq> registered lp' \<and> stale lp' = stale lp \<and>
    (ev \<notin> registered lp' \<longrightarrow> r \<noteq> EL_CONTINUE_LOOP \<or> current_ev lp' = None)"
  using assms unfolding minds_own_def call_ev_def by fastforce

lemma serve_own:
  assumes fs: "all_mind_own fs" and ev: "ev_of event \<in> registered lp" and run: "serve fs event lp = (go_on, lp')"
  shows "registered lp - {ev_of event} \<subseteq> registered lp' \<and> stale lp' = stale lp"
proof -
  let ?ev = "ev_of event" and ?lp = "lp\<lparr>current_ev := Some (ev_of event)\<rparr>"
  have own: "minds_own ?ev (error_function_of fs ?ev)" "read_function_of fs ?ev = Some f \<Longrightarrow> minds_own ?ev f"
    "write_function_of fs ?ev = Some f \<Longrightarrow> minds_own ?ev f" for f
    using fs by (simp_all add: all_mind_own_def)
  show ?thesis
  proof (cases "epoll_other event")
    case True
    with run call_ev_own [OF own(1), of ?lp Error_call] ev show ?thesis
      by (auto simp: serve_def Let_def split: prod.splits)
  next
    case False
    obtain r lp1 where first: "(if epoll_in event
        then (case read_function_of fs ?ev of None \<Rightarrow> (EL_CONTINUE_LOOP, ?lp) | Some f \<Rightarrow> call_ev ?ev In_call f ?lp)
        else (EL_CONTINUE_LOOP, ?lp)) = (r, lp1)" by fastforce
    have lp1: "registered lp - {?ev} \<subseteq> registered lp1 \<and> stale lp1 = stale lp \<and>
        (?ev \<notin> registered lp1 \<longrightarrow> r \<noteq> EL_CONTINUE_LOOP \<or> current_ev lp1 = None)"
    proof (cases "epoll_in event \<and> read_function_of fs ?ev \<noteq> None")
      case True
      then obtain f where f: "read_function_of fs ?ev = Some f" by blast
      with first True call_ev_own [OF own(2) [OF f], of ?lp In_call r lp1] ev show ?thesis by simp
    next
      case False
      with first ev show ?thesis by (auto split: if_splits)
    qed
    show ?thesis
    proof (cases "r = EL_CONTINUE_LOOP \<and> current_ev lp1 \<noteq> None \<and> epoll_out event \<and> write_function_of fs ?ev \<noteq> None")
      case True
      then obtain f where f: "write_function_of fs ?ev = Some f" by blast
      obtain r2 lp2 where w: "call_ev ?ev Out_call f lp1 = (r2, lp2)" by fastforce
      have "?ev \<in> registered lp1" using lp1 True by blast
      from call_ev_own [OF own(3) [OF f] this w] have "registered lp1 - {?ev} \<subseteq> registered lp2" "stale lp2 = stale lp1" by auto
      moreover have "lp' = lp2" using run True False first f w by (simp add: serve_def Let_def)
      ultimately have "registered lp - {?ev} \<subseteq> registered lp'" "stale lp' = stale lp" using lp1 by auto
      then show ?thesis ..
    next
      case other: False
      have "lp' = lp1"
        using run False first other by (cases r) (auto simp: serve_def Let_def split: if_splits option.splits)
      with lp1 show ?thesis by simp
    qed
  qed
qed

text \<open>C36: No event function is called after its event was removed.  If no function removes another event than
  its own, and one that removes its own says so, then in a batch of distinct registered events every
  call goes to a registered event.\<close>
theorem no_call_after_removal:
  assumes "all_mind_own fs" "distinct (map ev_of events)" "ev_of ` set events \<subseteq> registered lp"
    and "handle_events fs (Events events) lp = (go_on, lp')"
  shows "stale lp' = stale lp"
proof -
  have "handle_batch fs events lp = (go_on, lp') \<Longrightarrow> stale lp' = stale lp"
    using assms(2,3)
  proof (induction events arbitrary: lp)
    case (Cons event events)
    obtain g lp1 where s: "serve fs event lp = (g, lp1)" by fastforce
    have ev: "ev_of event \<in> registered lp" using Cons.prems(3) by simp
    note own = serve_own [OF assms(1) ev s]
    have "ev_of ` set events \<subseteq> registered lp - {ev_of event}" using Cons.prems(2,3) by (auto simp: image_iff)
    with own have "ev_of ` set events \<subseteq> registered lp1" by (meson order_trans)
    with Cons.IH [of lp1] Cons.prems s own show ?case by (cases g) simp_all
  qed simp
  with assms(4) show ?thesis by (simp add: handle_events_def)
qed

text \<open>A function that removes another event of the same batch leaves a dangling pointer behind.  When the
  event is still to come in the batch its function is called although it was removed and its memory
  released; so does the answer to a routed request whose timer expires at the same time.\<close>
theorem removed_event_is_called:
  assumes "read_function_of fs a = Some (\<lambda>lp. (EL_CONTINUE_LOOP, eventloop_epoll_remove b lp))" "a \<noteq> b"
    and "read_function_of fs b = Some g" "\<And>lp. stale (snd (g lp)) = stale lp"
    and "a \<in> registered lp" "stale lp = []"
  shows "stale (snd (handle_events fs (Events
      [\<lparr>ev_of = a, epoll_in = True, epoll_out = False, epoll_other = False\<rparr>,
       \<lparr>ev_of = b, epoll_in = True, epoll_out = False, epoll_other = False\<rparr>]) lp)) = [b]"
proof -
  have "stale (snd (serve fs \<lparr>ev_of = b, epoll_in = True, epoll_out = False, epoll_other = False\<rparr> lp1)) = [b]"
    if "stale lp1 = []" "b \<notin> registered lp1" for lp1
  proof -
    let ?lp = "lp1\<lparr>current_ev := Some b, served := served lp1 @ [(b, In_call)], stale := [b]\<rparr>"
    obtain r lp2 where g: "g ?lp = (r, lp2)" by fastforce
    with assms(4) [of ?lp] have "stale lp2 = [b]" by simp
    with g that assms(3) show ?thesis by (cases r) (simp_all add: serve_def call_ev_def Let_def)
  qed
  note second = this
  let ?lp = "eventloop_epoll_remove b (lp\<lparr>current_ev := Some a, served := served lp @ [(a, In_call)], stale := []\<rparr>)"
  have "stale ?lp = []" "b \<notin> registered ?lp" by (simp_all add: eventloop_epoll_remove_def Let_def)
  note stale = second [OF this]
  have first: "serve fs \<lparr>ev_of = a, epoll_in = True, epoll_out = False, epoll_other = False\<rparr> lp = (True, ?lp)"
    using assms(1,5,6) by (simp add: serve_def call_ev_def Let_def)
  obtain g2 lp2 where last: "serve fs \<lparr>ev_of = b, epoll_in = True, epoll_out = False, epoll_other = False\<rparr> ?lp = (g2, lp2)"
    by fastforce
  with stale have "stale lp2 = [b]" by simp
  with first last show ?thesis by (cases g2) (simp_all add: handle_events_def)
qed

definition demo_fs :: "unit io_events" where
  "demo_fs = \<lparr>read_function_of = (\<lambda>ev. if ev = 1 then Some (\<lambda>lp. (EL_CONTINUE_LOOP, eventloop_epoll_remove 2 lp))
        else Some (\<lambda>lp. (EL_EVENT_REMOVED, eventloop_epoll_remove ev lp))),
     write_function_of = (\<lambda>ev. None), error_function_of = (\<lambda>ev lp. (EL_CONTINUE_LOOP, lp))\<rparr>"

definition demo_loop :: "unit eventloop" where
  "demo_loop = \<lparr>current_ev = None, registered = {1, 2, 3}, served = [], stale = [], loop_app = ()\<rparr>"

theorem no_call_after_removal_witness:
  "stale (snd (handle_events (demo_fs\<lparr>read_function_of := (\<lambda>ev. Some (\<lambda>lp. (EL_EVENT_REMOVED, eventloop_epoll_remove ev lp)))\<rparr>)
     (Events [\<lparr>ev_of = 3, epoll_in = True, epoll_out = True, epoll_other = False\<rparr>,
       \<lparr>ev_of = 2, epoll_in = False, epoll_out = False, epoll_other = True\<rparr>]) demo_loop)) = []"
proof -
  let ?fs = "demo_fs\<lparr>read_function_of := (\<lambda>ev. Some (\<lambda>lp. (EL_EVENT_REMOVED, eventloop_epoll_remove ev lp)))\<rparr>"
  have "all_mind_own ?fs"
    by (auto simp: all_mind_own_def minds_own_def demo_fs_def eventloop_epoll_remove_def Let_def)
  from no_call_after_removal [OF this, of "[\<lparr>ev_of = 3, epoll_in = True, epoll_out = True, epoll_other = False\<rparr>,
       \<lparr>ev_of = 2, epoll_in = False, epoll_out = False, epoll_other = True\<rparr>]" demo_loop] show ?thesis
    by (cases "handle_events ?fs (Events [\<lparr>ev_of = 3, epoll_in = True, epoll_out = True, epoll_other = False\<rparr>,
       \<lparr>ev_of = 2, epoll_in = False, epoll_out = False, epoll_other = True\<rparr>]) demo_loop") (simp add: demo_loop_def)
qed

theorem removed_event_is_called_witness:
  "stale (snd (handle_events demo_fs (Events
      [\<lparr>ev_of = 1, epoll_in = True, epoll_out = False, epoll_other = False\<rparr>,
       \<lparr>ev_of = 2, epoll_in = True, epoll_out = False, epoll_other = False\<rparr>]) demo_loop)) = [2]"
  by (rule removed_event_is_called [where g = "\<lambda>lp. (EL_EVENT_REMOVED, eventloop_epoll_remove 2 lp)"])
    (simp_all add: demo_fs_def demo_loop_def eventloop_epoll_remove_def Let_def)

end
