(* ===== verification/Allocator.thy ===== *)
theory Allocator
  imports Main "HOL-Library.Word"
begin

text \<open>
  Memory with a limit: \<^verbatim>\<open>src/src/alloc.c\<close>.

  Each block starts with its own size; \<open>allocated_memory\<close> is the sum the code keeps.  Sizes are 64 bit words,
  so the additions and the product of \<open>cjet_calloc\<close> wrap as \<^verbatim>\<open>size_t\<close> does.  Whether the C library has the
  memory is an argument, with the documented fact that no object is larger than \<open>2 ^ 63 - 1\<close> bytes
  (\<open>library_ok\<close>).  \<open>max_heap\<close> is \<^verbatim>\<open>CONFIG_MAX_HEAPSIZE_IN_KBYTE * 1024\<close>.

  The lemmas show that the sum is right and never above the limit, that a block is as large as was asked
  for, and when it is not.
\<close>

record heap =
  allocated_memory :: "64 word"
  memblock :: "nat \<Rightarrow> 64 word option"
  fresh_block :: nat

definition empty_heap :: heap where
  "empty_heap = \<lparr>allocated_memory = 0, memblock = (\<lambda>_. None), fresh_block = 1\<rparr>"

definition allocate :: "64 word \<Rightarrow> bool \<Rightarrow> 64 word \<Rightarrow> heap \<Rightarrow> nat option \<times> heap" where
  "allocate max_heap library_gives alloc_size h =
    (if max_heap < allocated_memory h + alloc_size then (None, h)
     else if \<not> library_gives then (None, h)
     else (Some (fresh_block h),
       \<lparr>allocated_memory = allocated_memory h + alloc_size,
        memblock = (memblock h)(fresh_block h \<mapsto> alloc_size), fresh_block = fresh_block h + 1\<rparr>))"

definition cjet_malloc :: "64 word \<Rightarrow> bool \<Rightarrow> 64 word \<Rightarrow> heap \<Rightarrow> nat option \<times> heap" where
  "cjet_malloc max_heap library_gives n = allocate max_heap library_gives (n + 8)"

definition cjet_calloc :: "64 word \<Rightarrow> bool \<Rightarrow> 64 word \<Rightarrow> 64 word \<Rightarrow> heap \<Rightarrow> nat option \<times> heap" where
  "cjet_calloc max_heap library_gives nmemb n = allocate max_heap library_gives (nmemb * n + 8)"

text \<open>\<open>None\<close>: the pointer is not one of a live block, which C leaves undefined.\<close>

definition cjet_free :: "nat \<Rightarrow> heap \<Rightarrow> heap option" where
  "cjet_free p h = (case memblock h p of
     None \<Rightarrow> None
   | Some n \<Rightarrow> Some (h\<lparr>allocated_memory := allocated_memory h - n, memblock := (memblock h)(p := None)\<rparr>))"

definition cjet_get_alloc_size :: "heap \<Rightarrow> 64 word" where
  "cjet_get_alloc_size h = allocated_memory h"

text \<open>The bytes of a block behind its size.\<close>

definition usable :: "heap \<Rightarrow> nat \<Rightarrow> nat" where
  "usable h p = (case memblock h p of None \<Rightarrow> 0 | Some n \<Rightarrow> unat n - 8)"

subsection \<open>The accounting\<close>

definition live_size :: "heap \<Rightarrow> nat" where
  "live_size h = (\<Sum>p\<in>dom (memblock h). unat (the (memblock h p)))"

definition heap_ok :: "64 word \<Rightarrow> heap \<Rightarrow> bool" where
  "heap_ok max_heap h \<longleftrightarrow> finite (dom (memblock h)) \<and> (\<forall>p. memblock h p \<noteq> None \<longrightarrow> p < fresh_block h) \<and>
    unat (allocated_memory h) = live_size h \<and> allocated_memory h \<le> max_heap"

definition library_ok :: "bool \<Rightarrow> 64 word \<Rightarrow> bool" where
  "library_ok library_gives alloc_size \<longleftrightarrow> (library_gives \<longrightarrow> unat alloc_size < 2 ^ 63)"

lemma heap_ok_empty: "heap_ok max_heap empty_heap"
  by (simp add: heap_ok_def empty_heap_def live_size_def)

lemma live_size_new: "heap_ok max_heap h \<Longrightarrow>
    live_size (h\<lparr>memblock := (memblock h)(fresh_block h \<mapsto> n)\<rparr>) = live_size h + unat n"
proof -
  assume ok: "heap_ok max_heap h"
  then have new: "fresh_block h \<notin> dom (memblock h)" by (auto simp: heap_ok_def)
  have "live_size (h\<lparr>memblock := (memblock h)(fresh_block h \<mapsto> n)\<rparr>) =
      unat n + (\<Sum>p\<in>dom (memblock h). unat (the (((memblock h)(fresh_block h \<mapsto> n)) p)))"
    using ok new by (simp add: live_size_def heap_ok_def)
  also have "(\<Sum>p\<in>dom (memblock h). unat (the (((memblock h)(fresh_block h \<mapsto> n)) p))) = live_size h"
    unfolding live_size_def by (rule sum.cong) (use new in auto)
  finally show ?thesis by (simp only: add.commute)
qed

lemma allocate_ok:
  assumes "heap_ok max_heap h" "unat max_heap < 2 ^ 63" "library_ok gives n" "allocate max_heap gives n h = (r, h')"
  shows "heap_ok max_heap h'"
proof (cases r)
  case None
  with assms(1,4) show ?thesis by (auto simp: allocate_def split: if_splits)
next
  case (Some p)
  then have fits: "allocated_memory h + n \<le> max_heap" and "gives"
    and h': "h' = \<lparr>allocated_memory = allocated_memory h + n, memblock = (memblock h)(fresh_block h \<mapsto> n), fresh_block = fresh_block h + 1\<rparr>"
    using assms(4) by (auto simp: allocate_def split: if_splits)
  have "unat (allocated_memory h) < 2 ^ 63" using assms(1,2) by (auto simp: heap_ok_def word_le_nat_alt)
  moreover have "unat n < 2 ^ 63" using assms(3) \<open>gives\<close> by (simp add: library_ok_def)
  ultimately have "unat (allocated_memory h + n) = unat (allocated_memory h) + unat n"
    by (simp add: unat_word_ariths)
  with assms(1) fits live_size_new [OF assms(1), of n] show ?thesis
    by (auto simp: h' heap_ok_def live_size_def less_Suc_eq)
qed

lemma live_size_free:
  assumes "heap_ok max_heap h" "memblock h p = Some n"
  shows "live_size h = live_size (h\<lparr>memblock := (memblock h)(p := None)\<rparr>) + unat n"
proof -
  have "live_size h = unat n + (\<Sum>q\<in>dom (memblock h) - {p}. unat (the (memblock h q)))"
    using assms by (subst live_size_def, subst sum.remove [of _ p]) (auto simp: heap_ok_def)
  also have "(\<Sum>q\<in>dom (memblock h) - {p}. unat (the (memblock h q))) = live_size (h\<lparr>memblock := (memblock h)(p := None)\<rparr>)"
    unfolding live_size_def by (rule sum.cong) (auto split: if_splits)
  finally show ?thesis by simp
qed

lemma free_ok:
  assumes "heap_ok max_heap h" "cjet_free p h = Some h'"
  shows "heap_ok max_heap h'"
proof -
  obtain n where n: "memblock h p = Some n"
    and h': "h' = h\<lparr>allocated_memory := allocated_memory h - n, memblock := (memblock h)(p := None)\<rparr>"
    using assms(2) by (auto simp: cjet_free_def split: option.splits)
  note split = live_size_free [OF assms(1) n]
  have "n \<le> allocated_memory h" using split assms(1) by (simp add: heap_ok_def word_le_nat_alt)
  then have "unat (allocated_memory h - n) = unat (allocated_memory h) - unat n" by (rule unat_sub)
  moreover from this have "allocated_memory h - n \<le> max_heap"
    using assms(1) unfolding heap_ok_def word_le_nat_alt by linarith
  ultimately show ?thesis using assms(1) split by (auto simp: h' heap_ok_def live_size_def split: if_splits)
qed

datatype heap_op = Malloc bool "64 word" | Calloc bool "64 word" "64 word" | Free nat

text \<open>Runs of the program: \<open>None\<close> after a free of something that is not allocated.\<close>

fun run_heap :: "64 word \<Rightarrow> heap_op list \<Rightarrow> heap \<Rightarrow> heap option" where
  "run_heap max_heap [] h = Some h"
| "run_heap max_heap (Malloc gives n # ops) h = run_heap max_heap ops (snd (cjet_malloc max_heap gives n h))"
| "run_heap max_heap (Calloc gives nmemb n # ops) h = run_heap max_heap ops (snd (cjet_calloc max_heap gives nmemb n h))"
| "run_heap max_heap (Free p # ops) h = (case cjet_free p h of None \<Rightarrow> None | Some h \<Rightarrow> run_heap max_heap ops h)"

definition library_op :: "heap_op \<Rightarrow> bool" where
  "library_op op = (case op of Malloc gives n \<Rightarrow> library_ok gives (n + 8) | Calloc gives nmemb n \<Rightarrow> library_ok gives (nmemb * n + 8)
    | Free p \<Rightarrow> True)"

text \<open>C35: The heap limit holds.  After any sequence of allocations and releases the counter is the sum of the
  sizes of the live blocks, and it is at most the configured limit.\<close>
theorem heap_limit_holds:
  assumes "unat max_heap < 2 ^ 63" "\<forall>op\<in>set ops. library_op op" "run_heap max_heap ops empty_heap = Some h"
  shows "unat (cjet_get_alloc_size h) = live_size h \<and> live_size h \<le> unat max_heap"
proof -
  have "heap_ok max_heap h0 \<Longrightarrow> \<forall>op\<in>set ops. library_op op \<Longrightarrow> run_heap max_heap ops h0 = Some h \<Longrightarrow> heap_ok max_heap h" for h0
  proof (induction ops arbitrary: h0)
    case (Cons op ops)
    show ?case
    proof (cases op)
      case (Malloc gives n)
      have "heap_ok max_heap (snd (cjet_malloc max_heap gives n h0))"
        using allocate_ok [OF Cons.prems(1) assms(1), of gives "n + 8"] Cons.prems(2) Malloc
        by (auto simp: cjet_malloc_def library_op_def) (metis prod.collapse)
      with Cons.IH Cons.prems Malloc show ?thesis by simp
    next
      case (Calloc gives nmemb n)
      have "heap_ok max_heap (snd (cjet_calloc max_heap gives nmemb n h0))"
        using allocate_ok [OF Cons.prems(1) assms(1), of gives "nmemb * n + 8"] Cons.prems(2) Calloc
        by (auto simp: cjet_calloc_def library_op_def) (metis prod.collapse)
      with Cons.IH Cons.prems Calloc show ?thesis by simp
    next
      case (Free p)
      with Cons.IH Cons.prems free_ok [OF Cons.prems(1)] show ?thesis by (auto split: option.splits)
    qed
  qed simp
  from this [OF heap_ok_empty assms(2,3)] show ?thesis
    by (simp add: heap_ok_def cjet_get_alloc_size_def word_le_nat_alt)
qed

theorem heap_limit_holds_witness:
  "\<exists>h. run_heap 4096 [Malloc True 100, Calloc True 2 50, Malloc True 4000, Free 1] empty_heap = Some h \<and>
    unat (cjet_get_alloc_size h) = live_size h \<and> live_size h \<le> 4096"
proof -
  let ?ops = "[Malloc True 100, Calloc True 2 50, Malloc True 4000, Free 1]"
  have "run_heap 4096 ?ops empty_heap \<noteq> None"
    by (simp add: cjet_malloc_def cjet_calloc_def allocate_def cjet_free_def empty_heap_def)
  then obtain h where h: "run_heap 4096 ?ops empty_heap = Some h" by blast
  with heap_limit_holds [of 4096 ?ops h] show ?thesis by (auto simp: library_op_def library_ok_def)
qed

text \<open>A block is as large as was asked for, unless the size wraps.  An allocation that succeeds gives the
  bytes it was asked for when their number with the header fits 64 bits; the product of calloc is not
  checked, so that an array can be far shorter than its elements need.\<close>
theorem allocated_size:
  assumes "cjet_calloc max_heap gives nmemb n h = (Some p, h')"
  shows "(unat nmemb * unat n + 8 < 2 ^ 64 \<longrightarrow> usable h' p = unat nmemb * unat n) \<and>
    (nmemb = 2 ^ 61 \<and> n = 8 \<longrightarrow> usable h' p = 0)"
proof -
  have "memblock h' p = Some (nmemb * n + 8)"
    using assms by (auto simp: cjet_calloc_def allocate_def split: if_splits)
  then have u: "usable h' p = unat (nmemb * n + 8) - 8" by (simp add: usable_def)
  have "unat (nmemb * n + 8) = unat nmemb * unat n + 8" if "unat nmemb * unat n + 8 < 2 ^ 64"
    using that by (simp add: unat_word_ariths)
  then show ?thesis unfolding u by auto
qed

theorem allocated_size_witness:
  "usable (snd (cjet_calloc 4096 True (2 ^ 61) 8 empty_heap)) 1 = 0"
  using allocated_size [of 4096 True "2 ^ 61" 8 empty_heap 1 "snd (cjet_calloc 4096 True (2 ^ 61) 8 empty_heap)"]
  by (simp add: cjet_calloc_def allocate_def empty_heap_def)

end
