(* ===== verification/Intrusive_List.thy ===== *)
theory Intrusive_List
  imports Main
begin

text \<open>
  Intrusive doubly linked lists: \<^verbatim>\<open>src/src/list.h\<close>.

  A store maps the address of every \<^verbatim>\<open>struct list_head\<close> to its two pointers.  \<open>linked_list\<close> is the abstraction: the
  head and the entries of a list, in the order of the next pointers, form a ring.  The lemmas are a
  refinement: each operation does to the ring what the other theories take for granted when they keep peers,
  elements and fetches in lists.  \<open>list_for_each_safe\<close> may run forever on a broken ring, so it is a
  partial function; on a ring whose body removes at most the entry it is called with it visits every entry
  once, and it can leave the ring when the body removes the next one.
\<close>

record list_head =
  next_ptr :: nat
  prev_ptr :: nat

type_synonym store = "nat \<Rightarrow> list_head"

definition set_next :: "nat \<Rightarrow> nat \<Rightarrow> store \<Rightarrow> store" where
  "set_next a x h = h(a := (h a)\<lparr>next_ptr := x\<rparr>)"

definition set_prev :: "nat \<Rightarrow> nat \<Rightarrow> store \<Rightarrow> store" where
  "set_prev a x h = h(a := (h a)\<lparr>prev_ptr := x\<rparr>)"

definition INIT_LIST_HEAD :: "nat \<Rightarrow> store \<Rightarrow> store" where
  "INIT_LIST_HEAD l h = set_prev l l (set_next l l h)"

definition list_add_between :: "nat \<Rightarrow> nat \<Rightarrow> nat \<Rightarrow> store \<Rightarrow> store" where
  "list_add_between new_entry prv nxt h =
    set_next prv new_entry (set_prev new_entry prv (set_next new_entry nxt (set_prev nxt new_entry h)))"

definition list_add_tail :: "nat \<Rightarrow> nat \<Rightarrow> store \<Rightarrow> store" where
  "list_add_tail new_entry head h = list_add_between new_entry (prev_ptr (h head)) head h"

definition list_empty :: "nat \<Rightarrow> store \<Rightarrow> bool" where
  "list_empty head h \<longleftrightarrow> next_ptr (h head) = head"

definition list_del_between :: "nat \<Rightarrow> nat \<Rightarrow> store \<Rightarrow> store" where
  "list_del_between prv nxt h = set_next prv nxt (set_prev nxt prv h)"

definition list_del :: "nat \<Rightarrow> store \<Rightarrow> store" where
  "list_del entry h = list_del_between (prev_ptr (h entry)) (next_ptr (h entry)) h"

text \<open>The loop with its body, which works on the store and on \<open>'s\<close>.\<close>

partial_function (option) for_each_from ::
    "(nat \<Rightarrow> store \<times> 's \<Rightarrow> store \<times> 's) \<Rightarrow> nat \<Rightarrow> nat \<Rightarrow> nat \<Rightarrow> store \<times> 's \<Rightarrow> (store \<times> 's) option" where
  "for_each_from body head pos n hs =
    (if pos = head then Some hs
     else let hs = body pos hs in for_each_from body head n (next_ptr (fst hs n)) hs)"

definition list_for_each_safe ::
    "(nat \<Rightarrow> store \<times> 's \<Rightarrow> store \<times> 's) \<Rightarrow> nat \<Rightarrow> store \<times> 's \<Rightarrow> (store \<times> 's) option" where
  "list_for_each_safe body head hs =
    (let pos = next_ptr (fst hs head) in for_each_from body head pos (next_ptr (fst hs pos)) hs)"

subsection \<open>Rings\<close>

fun chain :: "store \<Rightarrow> nat \<Rightarrow> nat list \<Rightarrow> nat \<Rightarrow> bool" where
  "chain h a [] b \<longleftrightarrow> next_ptr (h a) = b \<and> prev_ptr (h b) = a"
| "chain h a (x # xs) b \<longleftrightarrow> next_ptr (h a) = x \<and> prev_ptr (h x) = a \<and> chain h x xs b"

definition linked_list :: "nat \<Rightarrow> store \<Rightarrow> nat list \<Rightarrow> bool" where
  "linked_list head h xs \<longleftrightarrow> distinct (head # xs) \<and> chain h head xs head"

lemma chain_append: "chain h a (xs @ x # ys) b \<longleftrightarrow> chain h a xs x \<and> chain h x ys b"
  by (induction xs arbitrary: a) auto

text \<open>What a chain depends on: the next pointers of its first cells and the previous pointers of its last ones.\<close>

lemma chain_cong:
  "(\<And>x. x \<in> set (a # xs) \<Longrightarrow> next_ptr (h' x) = next_ptr (h x)) \<Longrightarrow>
   (\<And>x. x \<in> set (xs @ [b]) \<Longrightarrow> prev_ptr (h' x) = prev_ptr (h x)) \<Longrightarrow> chain h' a xs b = chain h a xs b"
  by (induction xs arbitrary: a) auto

lemma chain_ends:
  "chain h a xs b \<Longrightarrow> next_ptr (h a) = (case xs of [] \<Rightarrow> b | x # _ \<Rightarrow> x)"
  "chain h a xs b \<Longrightarrow> prev_ptr (h b) = (if xs = [] then a else last xs)"
  by (cases xs, auto) (induction xs arbitrary: a, auto)

lemma pointers [simp]:
  "next_ptr (set_next a x h b) = (if b = a then x else next_ptr (h b))" "prev_ptr (set_next a x h b) = prev_ptr (h b)"
  "prev_ptr (set_prev a x h b) = (if b = a then x else prev_ptr (h b))" "next_ptr (set_prev a x h b) = next_ptr (h b)"
  by (simp_all add: set_next_def set_prev_def)

lemma init_linked: "linked_list head (INIT_LIST_HEAD head h) []"
  by (simp add: linked_list_def INIT_LIST_HEAD_def)

lemma empty_linked: "linked_list head h xs \<Longrightarrow> list_empty head h = (xs = [])"
  using chain_ends(1) [of h head xs head] by (cases xs) (auto simp: linked_list_def list_empty_def)

lemma add_tail_linked:
  assumes "linked_list head h xs" "x \<notin> set (head # xs)"
  shows "linked_list head (list_add_tail x head h) (xs @ [x])"
proof -
  let ?h = "list_add_tail x head h"
  define prv where "prv = (if xs = [] then head else last xs)"
  have prv: "prev_ptr (h head) = prv" using chain_ends(2) assms(1) by (simp add: linked_list_def prv_def)
  then have h': "?h = list_add_between x prv head h" by (simp add: list_add_tail_def)
  have neq: "x \<noteq> head" "x \<noteq> prv" "x \<notin> set xs" using assms(2) by (auto simp: prv_def)
  have "chain ?h head xs x"
  proof (cases xs rule: rev_cases)
    case Nil
    then show ?thesis using neq by (auto simp: h' list_add_between_def prv_def)
  next
    case (snoc ys y)
    have c: "chain h head ys y" and d: "head \<notin> set ys" "y \<notin> set ys" "y \<noteq> head"
      using assms(1) snoc by (auto simp: linked_list_def chain_append)
    have "prv = y" using snoc by (simp add: prv_def)
    have "chain ?h head ys y"
      using c by (subst chain_cong) (use d neq snoc \<open>prv = y\<close> in \<open>auto simp: h' list_add_between_def\<close>)
    moreover have "next_ptr (?h y) = x" "prev_ptr (?h x) = y"
      using neq \<open>prv = y\<close> by (auto simp: h' list_add_between_def)
    ultimately show ?thesis by (simp add: snoc chain_append)
  qed
  moreover have "next_ptr (?h x) = head" "prev_ptr (?h head) = x"
    using neq by (auto simp: h' list_add_between_def)
  ultimately show ?thesis using assms by (auto simp: linked_list_def chain_append)
qed

lemma del_linked:
  assumes "linked_list head h (xs @ x # ys)"
  shows "linked_list head (list_del x h) (xs @ ys)" and "next_ptr (list_del x h x) = next_ptr (h x)"
proof -
  define prv where "prv = (if xs = [] then head else last xs)"
  define nxt where "nxt = (case ys of [] \<Rightarrow> head | y # _ \<Rightarrow> y)"
  have c: "chain h head xs x" "chain h x ys head" and d: "distinct (head # xs @ x # ys)"
    using assms by (simp_all add: linked_list_def chain_append)
  have "prev_ptr (h x) = prv" "next_ptr (h x) = nxt"
    using chain_ends(2) [OF c(1)] chain_ends(1) [OF c(2)] by (simp_all add: prv_def nxt_def)
  then have h': "list_del x h = list_del_between prv nxt h" by (simp add: list_del_def)
  have px: "prv \<noteq> x" "nxt \<noteq> x" using d by (auto simp: prv_def nxt_def split: list.splits)
  then show "next_ptr (list_del x h x) = next_ptr (h x)" by (auto simp: h' list_del_between_def)
  have left: "\<exists>us. chain h head us prv" if "xs \<noteq> []"
    using that c(1) by (cases xs rule: rev_cases) (auto simp: chain_append prv_def)
  have step: "next_ptr (list_del x h prv) = nxt" "prev_ptr (list_del x h nxt) = prv"
    by (auto simp: h' list_del_between_def)
  have front: "chain (list_del x h) head us prv" if "xs = us @ [prv]" for us
    using c(1) d that by (subst chain_cong [where h = h])
      (auto simp: h' list_del_between_def chain_append nxt_def split: list.splits)
  have "prv = head \<or> prv \<in> set xs" by (simp add: prv_def)
  then have rear: "chain (list_del x h) nxt vs head" if "ys = nxt # vs" for vs
    using c(2) d that by (subst chain_cong [where h = h]) (auto simp: h' list_del_between_def)
  have "chain (list_del x h) head (xs @ ys) head"
  proof (cases xs rule: rev_cases)
    case Nil
    then show ?thesis
      using step rear by (cases ys) (auto simp: prv_def nxt_def)
  next
    case (snoc us u)
    then have u: "u = prv" by (simp add: prv_def)
    have f: "chain (list_del x h) head us prv" using front snoc u by simp
    show ?thesis
    proof (cases ys)
      case Nil
      then show ?thesis using f step snoc u by (simp add: chain_append nxt_def)
    next
      case (Cons v vs)
      then have "nxt = v" by (simp add: nxt_def)
      then show ?thesis using f step rear [of vs] snoc u Cons by (simp add: chain_append)
    qed
  qed
  with d show "linked_list head (list_del x h) (xs @ ys)" by (auto simp: linked_list_def)
qed

subsection \<open>The loop\<close>

text \<open>
  A body that leaves the ring as it is or takes the entry it is called with out of it, and does with
  \<open>'s\<close> what \<open>act\<close> does.
\<close>

definition body_ok :: "nat \<Rightarrow> (nat \<Rightarrow> bool) \<Rightarrow> (nat \<Rightarrow> 's \<Rightarrow> 's) \<Rightarrow> (nat \<Rightarrow> store \<times> 's \<Rightarrow> store \<times> 's) \<Rightarrow> bool" where
  "body_ok head drops act body \<longleftrightarrow> (\<forall>x h s xs ys. linked_list head h (xs @ x # ys) \<longrightarrow>
     linked_list head (fst (body x (h, s))) (xs @ (if drops x then [] else [x]) @ ys) \<and> snd (body x (h, s)) = act x s)"

lemma for_each_from_ring:
  assumes "body_ok head drops act body" "linked_list head h (xs @ ys)"
    and "pos = hd (ys @ [head])" "nxt = (case ys of [] \<Rightarrow> nxt | y # _ \<Rightarrow> next_ptr (h y))"
  shows "\<exists>h'. for_each_from body head pos nxt (h, s) = Some (h', fold act ys s) \<and>
    linked_list head h' (xs @ filter (\<lambda>x. \<not> drops x) ys)"
  using assms(2-4)
proof (induction ys arbitrary: h xs pos nxt s)
  case Nil
  then show ?case by (simp add: for_each_from.simps)
next
  case (Cons y ys)
  obtain h1 s1 where b: "body y (h, s) = (h1, s1)" by fastforce
  have "linked_list head (fst (body y (h, s))) (xs @ (if drops y then [] else [y]) @ ys) \<and> snd (body y (h, s)) = act y s"
    using assms(1) Cons.prems(1) unfolding body_ok_def by blast
  with b have h1: "linked_list head h1 ((xs @ (if drops y then [] else [y])) @ ys)" and s1: "s1 = act y s" by simp_all
  have pos: "pos = y" "y \<noteq> head" using Cons.prems(1,2) by (auto simp: linked_list_def)
  have "chain h y ys head" using Cons.prems(1) by (simp add: linked_list_def chain_append)
  then have nxt: "nxt = hd (ys @ [head])" using chain_ends(1) [of h y ys head] Cons.prems(3) by (cases ys) simp_all
  have "next_ptr (h1 nxt) = (case ys of [] \<Rightarrow> next_ptr (h1 nxt) | y # _ \<Rightarrow> next_ptr (h1 y))"
    using nxt by (cases ys) simp_all
  from Cons.IH [OF h1 nxt this, of s1] obtain h' where
    "for_each_from body head nxt (next_ptr (h1 nxt)) (h1, s1) = Some (h', fold act ys s1)"
    "linked_list head h' ((xs @ (if drops y then [] else [y])) @ filter (\<lambda>x. \<not> drops x) ys)" by blast
  then show ?case
    using b pos s1 by (subst for_each_from.simps) (auto simp: Let_def)
qed

text \<open>C33: The list operations do to the ring of entries what lists do.  Adding at the tail appends, deleting
  removes the entry, and the emptiness test tells the empty ring.\<close>
theorem list_operations_refine:
  "linked_list head (INIT_LIST_HEAD head h) [] \<and>
   (linked_list head h xs \<longrightarrow> list_empty head h = (xs = []) \<and>
     (x \<notin> set (head # xs) \<longrightarrow> linked_list head (list_add_tail x head h) (xs @ [x]))) \<and>
   (linked_list head h (xs @ x # ys) \<longrightarrow> linked_list head (list_del x h) (xs @ ys))"
  using init_linked [of head h] empty_linked [of head h xs] add_tail_linked [of head h xs x] del_linked(1) [of head h xs x ys]
  by blast

theorem list_operations_refine_witness:
  "linked_list 0 (list_del 5 (list_add_tail 7 0 (list_add_tail 5 0 (INIT_LIST_HEAD 0 (\<lambda>_. \<lparr>next_ptr = 9, prev_ptr = 9\<rparr>))))) [7]"
proof -
  let ?h = "INIT_LIST_HEAD 0 (\<lambda>_. \<lparr>next_ptr = 9, prev_ptr = 9\<rparr>)"
  have "linked_list 0 ?h []" using list_operations_refine by blast
  then have "linked_list 0 (list_add_tail 5 0 ?h) [5]" using list_operations_refine [of 0 ?h "[]" 5 "[]"] by simp
  then have "linked_list 0 (list_add_tail 7 0 (list_add_tail 5 0 ?h)) [5, 7]"
    using list_operations_refine [of 0 "list_add_tail 5 0 ?h" "[5]" 7 "[]"] by simp
  then show ?thesis using list_operations_refine [of 0 "list_add_tail 7 0 (list_add_tail 5 0 ?h)" "[]" 5 "[7]"] by simp
qed

text \<open>C34: The safe loop visits every entry once and may delete it.  When the body leaves the ring alone or deletes
  the entry it is called with, the loop ends, the body has run for every entry in order, and what is left
  are the entries it did not delete.\<close>
theorem list_for_each_safe_visits_all:
  assumes "body_ok head drops act body" "linked_list head h xs"
  shows "\<exists>h'. list_for_each_safe body head (h, s) = Some (h', fold act xs s) \<and>
    linked_list head h' (filter (\<lambda>x. \<not> drops x) xs)"
proof -
  have "next_ptr (h head) = hd (xs @ [head])"
    using chain_ends(1) [of h head xs head] assms(2) by (cases xs) (simp_all add: linked_list_def)
  moreover have "next_ptr (h (hd (xs @ [head]))) = (case xs of [] \<Rightarrow> next_ptr (h (hd (xs @ [head]))) | y # _ \<Rightarrow> next_ptr (h y))"
    by (cases xs) simp_all
  ultimately show ?thesis
    using for_each_from_ring [OF assms(1), of h "[]" xs] assms(2) by (simp add: list_for_each_safe_def Let_def)
qed

definition demo_body :: "nat \<Rightarrow> store \<times> nat list \<Rightarrow> store \<times> nat list" where
  "demo_body x hs = (if x = 5 then list_del x (fst hs) else fst hs, snd hs @ [x])"

theorem list_for_each_safe_visits_all_witness:
  "\<exists>h. list_for_each_safe demo_body 0
      (list_add_tail 7 0 (list_add_tail 5 0 (INIT_LIST_HEAD 0 (\<lambda>_. \<lparr>next_ptr = 9, prev_ptr = 9\<rparr>))), []) = Some (h, [5, 7]) \<and>
    linked_list 0 h [7]"
proof -
  let ?h = "INIT_LIST_HEAD 0 (\<lambda>_. \<lparr>next_ptr = 9, prev_ptr = 9\<rparr>)"
  have "body_ok 0 (\<lambda>x. x = 5) (\<lambda>x s. s @ [x]) demo_body"
    by (auto simp: body_ok_def demo_body_def intro: del_linked(1))
  moreover have "linked_list 0 (list_add_tail 5 0 ?h) ([] @ [5])"
    by (rule add_tail_linked [OF init_linked]) simp
  then have "linked_list 0 (list_add_tail 7 0 (list_add_tail 5 0 ?h)) ([5] @ [7])"
    by (intro add_tail_linked) simp_all
  ultimately show ?thesis
    using list_for_each_safe_visits_all [of 0 "\<lambda>x. x = 5" "\<lambda>x s. s @ [x]" demo_body _ "[5, 7]" "[]"] by simp
qed

end
