(* ===== verification/Peer_Log.thy ===== *)
theory Peer_Log
  imports Scenario
begin

text \<open>
  Log lines: \<^verbatim>\<open>log_peer_err\<close> and \<^verbatim>\<open>log_peer_info\<close> of \<^verbatim>\<open>src/src/peer.c\<close>, and \<^verbatim>\<open>src/src/posix/log.c\<close>.

  The functions format into arrays of fixed size.  \<open>snprintf\<close> is the C library's: with a size of \<open>n\<close> it
  writes at most \<open>n - 1\<close> characters and a terminating zero, and returns the length of the whole text.  The
  formatted arguments are given as the text they make.  Writing behind an array is the fault
  \<open>Stack_overflow\<close>; the syslog calls are left out.

  The lemmas say exactly which peer names are safe; a client chooses its name by the request config.
\<close>

datatype log_fault = Stack_overflow

definition snprintf :: "nat \<Rightarrow> string \<Rightarrow> string \<times> int" where
  "snprintf n str = (take (n - 1) str, int (length str))"

definition LOG_BUFFER_SIZE :: int where
  "LOG_BUFFER_SIZE = 100"

text \<open>\<^verbatim>\<open>log_err\<close>, \<^verbatim>\<open>log_warn\<close> and \<^verbatim>\<open>log_info\<close>: what syslog gets.\<close>

definition log_line :: "string \<Rightarrow> string" where
  "log_line str = fst (snprintf 200 str)"

text \<open>
  The size of the rest of the buffer is computed in \<^verbatim>\<open>int\<close> and passed as \<^verbatim>\<open>size_t\<close>: it is huge when it
  is negative, and the pointer to the rest is then behind the buffer.
\<close>

definition log_peer :: "string \<Rightarrow> string \<Rightarrow> log_fault + string" where
  "log_peer name str =
    (let (buffer, written) = snprintf (nat LOG_BUFFER_SIZE) (name @ '': '');
         space = LOG_BUFFER_SIZE - written
     in if space < 0 then Inl Stack_overflow
        else if space = 0 then Inr (log_line buffer)
        else Inr (log_line (take (nat written) buffer @ fst (snprintf (nat space) str))))"

lemma log_peer_long: "99 \<le> length name \<Longrightarrow> log_peer name str = Inl Stack_overflow"
  by (simp add: log_peer_def snprintf_def LOG_BUFFER_SIZE_def)

lemma log_peer_short:
  assumes "length name \<le> 98"
  shows "log_peer name str = Inr (take 99 (name @ '': '' @ str))"
proof (cases "length name = 98")
  case True
  then show ?thesis by (simp add: log_peer_def snprintf_def LOG_BUFFER_SIZE_def log_line_def)
next
  case False
  with assms have n: "length name \<le> 97" by simp
  then have "nat (100 - (2 + int (length name))) = 98 - length name" by simp
  moreover have "99 - length name = Suc (Suc (97 - length name))" "199 - length name = Suc (Suc (197 - length name))"
    "min (197 - length name) (97 - length name) = 97 - length name" using n by auto
  ultimately show ?thesis
    using n by (simp add: log_peer_def snprintf_def LOG_BUFFER_SIZE_def log_line_def)
qed

text \<open>Which peer names the log can take.  A log line for a peer is its name, a colon and the text, cut to 99
  characters, exactly if the name has at most 98 characters; with a longer name the text is written
  behind the buffer on the stack.\<close>
theorem peer_log_bounds:
  shows "log_peer name str =
    (if length name \<le> 98 then Inr (take 99 (name @ '': '' @ str)) else Inl Stack_overflow)"
  using log_peer_short [of name str] log_peer_long [of name str] by simp

text \<open>A client can make the log overflow the stack.  After the request config with a name of at least 99
  characters, the next log line for that peer, such as the one for a message that does not parse, is
  written behind the buffer.\<close>
theorem long_name_overflows_log:
  assumes "env w = []" "peers w p = Some pr"
    and "cJSON_GetObjectItem request ''params'' = Some params"
    and "cJSON_GetObjectItem params ''name'' = Some (JString name)" "99 \<le> length name"
    and "run_state (config_peer p request) w = (r, w')"
  shows "\<exists>pr'. peers w' p = Some pr' \<and> log_peer (get_peer_name pr') str = Inl Stack_overflow"
proof -
  have "w' = w\<lparr>peers := (peers w)(p \<mapsto> pr\<lparr>p_name := Some name\<rparr>)\<rparr>"
    using assms(1-4,6) by (simp add: config_peer_def run_or_return set_peer_name_def valuestring_def pure_run)
  with log_peer_long [OF assms(5)] show ?thesis by (simp add: get_peer_name_def)
qed

definition demo_long_name :: json where
  "demo_long_name = request_of ''config'' [(''name'', JString (replicate 99 CHR ''x''))]"

theorem long_name_overflows_log_witness:
  "\<exists>pr. peers (snd (run_state (config_peer 2 demo_long_name) demo_world)) 2 = Some pr \<and>
    log_peer (get_peer_name pr) ''Could not parse JSON!'' = Inl Stack_overflow"
proof -
  have e: "env demo_world = []" by (rule demo_facts(11))
  obtain pr where pr: "peers demo_world 2 = Some pr" using demo_peer by blast
  obtain r w where run: "run_state (config_peer 2 demo_long_name) demo_world = (r, w)" by fastforce
  have "cJSON_GetObjectItem demo_long_name ''params'' = Some (JObject [(''name'', JString (replicate 99 CHR ''x''))])"
    "cJSON_GetObjectItem (JObject [(''name'', JString (replicate 99 CHR ''x''))]) ''name'' = Some (JString (replicate 99 CHR ''x''))"
    by code_simp+
  from long_name_overflows_log [OF e pr this _ run] run show ?thesis by simp
qed

end
