(* ===== verification/Linux_Io.thy ===== *)
theory Linux_Io
  imports Eventloop "HOL-Library.Multiset"
begin

text \<open>
  Sockets and the life of the process: \<^verbatim>\<open>src/src/linux/linux_io.c\<close>.

  A descriptor is a number that is given out once, so that a second \<^verbatim>\<open>close\<close> of the same descriptor shows:
  it is recorded in \<open>io_faults\<close>.  \<open>call_results\<close> are the outcomes of the calls that may fail, as in the broker;
  \<open>backlogs\<close> what the calls of \<^verbatim>\<open>accept\<close> find.  \<open>endpoints\<close> are the connections that a socket peer or an
  HTTP connection owns, with the two blocks each of them has on the heap: the owner and its buffered
  socket.  What the owner does while it reads is modelled in the other components; here it leaves the
  connection open or closes it, which takes it out of the loop, closes the descriptor and frees both blocks.

  The lemmas say who owns a descriptor: after an accept function it is closed or an endpoint, after
  \<^verbatim>\<open>run_io\<close> no listening socket is open.
\<close>

subsection \<open>State\<close>

datatype family = AF_INET | AF_INET6 | AF_UNIX

text \<open>The bytes of an address that follow its family.\<close>

record sockaddr_storage =
  ss_family :: family
  ss_data :: "8 word list"

datatype accept_result = Accepted sockaddr_storage family | Would_block | Accept_failed

datatype watcher = Jet_server | Http_server | Connection

record endpoint =
  is_http :: bool
  is_local :: bool
  owner_block :: nat
  bs_block :: nat

datatype io_fault = Bad_close nat | Bad_free nat

datatype disposition = SIG_DFL | SIG_IGN | Sighandler

record io =
  call_results :: "bool list"
  backlogs :: "accept_result list list"
  next_fd :: nat
  open_fds :: "nat list"
  sock_family :: "nat \<Rightarrow> family"
  watched :: "(nat \<times> watcher) list"
  next_block :: nat
  blocks :: "nat list"
  endpoints :: "(nat \<times> endpoint) list"
  io_faults :: "io_fault list"
  go_ahead :: bool
  on_term :: disposition
  on_int :: disposition
  on_pipe :: disposition

type_synonym 'a io_m = "(io, 'a) state"

abbreviation io_ret :: "'a \<Rightarrow> 'a io_m" where
  "io_ret \<equiv> State_Monad.return"

definition io_modify :: "(io \<Rightarrow> io) \<Rightarrow> unit io_m" where
  "io_modify f = do { s \<leftarrow> State_Monad.get; State_Monad.set (f s) }"

definition io_gets :: "(io \<Rightarrow> 'a) \<Rightarrow> 'a io_m" where
  "io_gets f = do { s \<leftarrow> State_Monad.get; State_Monad.return (f s) }"

lemma run_io_modify [simp]: "run_state (io_modify f) s = ((), f s)"
  by (simp add: io_modify_def)

lemma run_io_gets [simp]: "run_state (io_gets f) s = (f s, s)"
  by (simp add: io_gets_def)

text \<open>The outcome of the next call that may fail.\<close>

definition call_ok :: "bool io_m" where
  "call_ok = do {
     a \<leftarrow> io_gets call_results;
     case a of [] \<Rightarrow> io_ret True | ok # rest \<Rightarrow> do { io_modify (\<lambda>s. s\<lparr>call_results := rest\<rparr>); io_ret ok } }"

definition open_fd :: "family \<Rightarrow> nat io_m" where
  "open_fd f = do {
     fd \<leftarrow> io_gets next_fd;
     io_modify (\<lambda>s. s\<lparr>next_fd := fd + 1, open_fds := open_fds s @ [fd], sock_family := (sock_family s)(fd := f)\<rparr>);
     io_ret fd }"

text \<open>The kernel forgets a closed descriptor's registration.\<close>

definition close_fd :: "nat \<Rightarrow> unit io_m" where
  "close_fd fd = io_modify (\<lambda>s.
     if fd \<in> set (open_fds s)
     then s\<lparr>open_fds := remove1 fd (open_fds s), watched := filter (\<lambda>(x, _). x \<noteq> fd) (watched s)\<rparr>
     else s\<lparr>io_faults := io_faults s @ [Bad_close fd]\<rparr>)"

definition malloc_block :: "nat option io_m" where
  "malloc_block = do {
     ok \<leftarrow> call_ok;
     if \<not> ok then io_ret None
     else do {
       b \<leftarrow> io_gets next_block;
       io_modify (\<lambda>s. s\<lparr>next_block := b + 1, blocks := blocks s @ [b]\<rparr>);
       io_ret (Some b) } }"

definition free_block :: "nat \<Rightarrow> unit io_m" where
  "free_block b = io_modify (\<lambda>s.
     if b \<in> set (blocks s) then s\<lparr>blocks := remove1 b (blocks s)\<rparr> else s\<lparr>io_faults := io_faults s @ [Bad_free b]\<rparr>)"

definition loop_add :: "nat \<Rightarrow> watcher \<Rightarrow> bool io_m" where
  "loop_add fd k = do {
     ok \<leftarrow> call_ok;
     if ok then do { io_modify (\<lambda>s. s\<lparr>watched := watched s @ [(fd, k)]\<rparr>); io_ret True } else io_ret False }"

definition loop_remove :: "nat \<Rightarrow> unit io_m" where
  "loop_remove fd = io_modify (\<lambda>s. s\<lparr>watched := filter (\<lambda>(x, _). x \<noteq> fd) (watched s)\<rparr>)"

subsection \<open>Connections\<close>

definition set_fd_non_blocking :: "nat \<Rightarrow> bool io_m" where
  "set_fd_non_blocking fd = do {
     got \<leftarrow> call_ok;
     if \<not> got then io_ret False else call_ok }"

definition configure_keepalive :: "nat \<Rightarrow> bool io_m" where
  "configure_keepalive fd = do {
     idle \<leftarrow> call_ok;
     if \<not> idle then io_ret False
     else do {
       intvl \<leftarrow> call_ok;
       if \<not> intvl then io_ret False else call_ok } }"

text \<open>Two of the error exits close the descriptor, the others leave that to the caller.\<close>

definition prepare_peer_socket :: "nat \<Rightarrow> bool io_m" where
  "prepare_peer_socket fd = do {
     nonblocking \<leftarrow> set_fd_non_blocking fd;
     if \<not> nonblocking then do { close_fd fd; io_ret False }
     else do {
       named \<leftarrow> call_ok;
       if \<not> named then io_ret False
       else do {
         families \<leftarrow> io_gets sock_family;
         prepared \<leftarrow> (if families fd = AF_INET \<or> families fd = AF_INET6 then do {
             nodelay \<leftarrow> call_ok;
             if \<not> nodelay then io_ret False
             else do {
               keepalive \<leftarrow> configure_keepalive fd;
               if \<not> keepalive then do { close_fd fd; io_ret False } else io_ret True } }
           else io_ret True);
         if \<not> prepared then io_ret False else call_ok } } }"

text \<open>
  The buffered socket's close: \<^verbatim>\<open>buffered_socket_close\<close> and the release of the owner, which
  \<^verbatim>\<open>free_jet_peer\<close> and \<^verbatim>\<open>free_connection\<close> do after it.
\<close>

definition free_endpoint :: "nat \<Rightarrow> unit io_m" where
  "free_endpoint fd = do {
     es \<leftarrow> io_gets endpoints;
     case map_of es fd of
       None \<Rightarrow> io_ret ()
     | Some e \<Rightarrow> do {
         loop_remove fd;
         close_fd fd;
         free_block (bs_block e);
         free_block (owner_block e);
         io_modify (\<lambda>s. s\<lparr>endpoints := filter (\<lambda>(x, _). x \<noteq> fd) (endpoints s)\<rparr>) } }"

text \<open>
  The first \<^verbatim>\<open>read_exactly\<close> or \<^verbatim>\<open>read_until\<close> of a buffered socket puts it into the loop and reads what
  is there; the reading may end with the connection closed, which is the second answer.
\<close>

definition first_read :: "nat \<Rightarrow> bool io_m" where
  "first_read fd = do {
     added \<leftarrow> loop_add fd Connection;
     if \<not> added then io_ret False
     else do {
       stays \<leftarrow> call_ok;
       if stays then io_ret True else do { free_endpoint fd; io_ret True } } }"

definition new_endpoint :: "nat \<Rightarrow> endpoint \<Rightarrow> unit io_m" where
  "new_endpoint fd e = io_modify (\<lambda>s. s\<lparr>endpoints := endpoints s @ [(fd, e)]\<rparr>)"

text \<open>The result of the first read is not looked at.\<close>

definition start_socket_peer :: "nat \<Rightarrow> nat \<Rightarrow> nat \<Rightarrow> bool \<Rightarrow> unit io_m" where
  "start_socket_peer fd peer bs loc = do {
     new_endpoint fd \<lparr>is_http = False, is_local = loc, owner_block = peer, bs_block = bs\<rparr>;
     first_read fd;
     io_ret () }"

definition start_http_connection :: "nat \<Rightarrow> nat \<Rightarrow> nat \<Rightarrow> bool \<Rightarrow> bool io_m" where
  "start_http_connection fd connection bs loc = do {
     new_endpoint fd \<lparr>is_http = True, is_local = loc, owner_block = connection, bs_block = bs\<rparr>;
     first_read fd }"

definition handle_new_jet_connection :: "nat \<Rightarrow> bool \<Rightarrow> unit io_m" where
  "handle_new_jet_connection fd is_local_connection = do {
     prepared \<leftarrow> prepare_peer_socket fd;
     if \<not> prepared then close_fd fd
     else do {
       peer \<leftarrow> malloc_block;
       case peer of
         None \<Rightarrow> close_fd fd
       | Some peer \<Rightarrow> do {
           bs \<leftarrow> malloc_block;
           case bs of
             None \<Rightarrow> do { free_block peer; close_fd fd }
           | Some bs \<Rightarrow> start_socket_peer fd peer bs is_local_connection } } }"

text \<open>When the connection cannot be started its blocks are freed one by one, and it is no endpoint any more.\<close>

definition handle_http :: "nat \<Rightarrow> bool \<Rightarrow> unit io_m" where
  "handle_http fd is_local_connection = do {
     prepared \<leftarrow> prepare_peer_socket fd;
     if \<not> prepared then close_fd fd
     else do {
       connection \<leftarrow> malloc_block;
       case connection of
         None \<Rightarrow> close_fd fd
       | Some connection \<Rightarrow> do {
           bs \<leftarrow> malloc_block;
           case bs of
             None \<Rightarrow> do { free_block connection; close_fd fd }
           | Some bs \<Rightarrow> do {
               started \<leftarrow> start_http_connection fd connection bs is_local_connection;
               if \<not> started then do {
                 io_modify (\<lambda>s. s\<lparr>endpoints := filter (\<lambda>(x, _). x \<noteq> fd) (endpoints s)\<rparr>);
                 free_block bs;
                 free_block connection;
                 close_fd fd }
               else io_ret () } } } }"

subsection \<open>Accepting\<close>

text \<open>\<^verbatim>\<open>memcmp\<close> of the address bytes; every family but \<^verbatim>\<open>AF_INET\<close> is read as an IPv6 address.\<close>

definition is_localhost :: "sockaddr_storage \<Rightarrow> bool" where
  "is_localhost addr =
    (if ss_family addr = AF_INET then take 4 (drop 2 (ss_data addr)) = [127, 0, 0, 1]
     else (let sin6_addr = take 16 (drop 6 (ss_data addr))
           in sin6_addr = replicate 10 0 @ [255, 255, 127, 0, 0, 1] \<or> sin6_addr = replicate 15 0 @ [1]))"

text \<open>The loop ends when \<^verbatim>\<open>accept\<close> finds nothing more, or with any other error.\<close>

fun accept_common :: "(nat \<Rightarrow> bool \<Rightarrow> unit io_m) option \<Rightarrow> accept_result list \<Rightarrow> eventloop_return io_m" where
  "accept_common peer_function [] = io_ret EL_CONTINUE_LOOP"
| "accept_common peer_function (r # rs) =
    (case r of
       Would_block \<Rightarrow> io_ret EL_CONTINUE_LOOP
     | Accept_failed \<Rightarrow> io_ret EL_ABORT_LOOP
     | Accepted addr f \<Rightarrow> do {
         peer_fd \<leftarrow> open_fd f;
         (case peer_function of
            Some handler \<Rightarrow> handler peer_fd (is_localhost addr)
          | None \<Rightarrow> close_fd peer_fd);
         accept_common peer_function rs })"

definition next_backlog :: "accept_result list io_m" where
  "next_backlog = do {
     bs \<leftarrow> io_gets backlogs;
     case bs of [] \<Rightarrow> io_ret [] | b # rest \<Rightarrow> do { io_modify (\<lambda>s. s\<lparr>backlogs := rest\<rparr>); io_ret b } }"

definition accept_jet :: "eventloop_return io_m" where
  "accept_jet = do { rs \<leftarrow> next_backlog; accept_common (Some handle_new_jet_connection) rs }"

definition accept_http :: "eventloop_return io_m" where
  "accept_http = do { rs \<leftarrow> next_backlog; accept_common (Some handle_http) rs }"

definition accept_jet_error :: eventloop_return where "accept_jet_error = EL_ABORT_LOOP"

definition accept_http_error :: eventloop_return where "accept_http_error = EL_ABORT_LOOP"

text \<open>A server's read function, by its kind.\<close>

definition read_server :: "watcher \<Rightarrow> eventloop_return io_m" where
  "read_server k = (if k = Http_server then accept_http else accept_jet)"

definition start_server :: "nat \<Rightarrow> watcher \<Rightarrow> bool io_m" where
  "start_server fd k = do {
     added \<leftarrow> loop_add fd k;
     if \<not> added then io_ret False
     else do {
       r \<leftarrow> read_server k;
       if r = EL_CONTINUE_LOOP then io_ret True
       else do { loop_remove fd; io_ret False } } }"

definition stop_server :: "nat \<Rightarrow> unit io_m" where
  "stop_server fd = do { loop_remove fd; close_fd fd }"

text \<open>\<^verbatim>\<open>unlink\<close> does nothing: the socket has an abstract address and no file.\<close>

definition stop_uds_server :: "nat \<Rightarrow> unit io_m" where
  "stop_uds_server fd = do { loop_remove fd; close_fd fd }"


subsection \<open>Listening sockets\<close>

text \<open>The calls up to \<^verbatim>\<open>listen\<close>; any failure closes the descriptor.\<close>

definition create_server_socket_all_interfaces :: "nat option io_m" where
  "create_server_socket_all_interfaces = do {
     ok \<leftarrow> call_ok;
     if \<not> ok then io_ret None
     else do {
       listen_fd \<leftarrow> open_fd AF_INET6;
       reuse \<leftarrow> call_ok;
       if \<not> reuse then do { close_fd listen_fd; io_ret None }
       else do {
         nonblocking \<leftarrow> set_fd_non_blocking listen_fd;
         if \<not> nonblocking then do { close_fd listen_fd; io_ret None }
         else do {
           bound \<leftarrow> call_ok;
           if \<not> bound then do { close_fd listen_fd; io_ret None }
           else do {
             listening \<leftarrow> call_ok;
             if \<not> listening then do { close_fd listen_fd; io_ret None } else io_ret (Some listen_fd) } } } } }"

definition create_server_unix_domain_socket :: "nat option io_m" where
  "create_server_unix_domain_socket = do {
     ok \<leftarrow> call_ok;
     if \<not> ok then io_ret None
     else do {
       listen_fd \<leftarrow> open_fd AF_UNIX;
       reuse \<leftarrow> call_ok;
       if \<not> reuse then do { close_fd listen_fd; io_ret None }
       else do {
         nonblocking \<leftarrow> set_fd_non_blocking listen_fd;
         if \<not> nonblocking then do { close_fd listen_fd; io_ret None }
         else do {
           bound \<leftarrow> call_ok;
           if \<not> bound then do { close_fd listen_fd; io_ret None }
           else do {
             listening \<leftarrow> call_ok;
             if \<not> listening then do { close_fd listen_fd; io_ret None } else io_ret (Some listen_fd) } } } } }"

definition start_uds_server :: "nat option io_m" where
  "start_uds_server = do {
     uds_fd \<leftarrow> create_server_unix_domain_socket;
     case uds_fd of
       None \<Rightarrow> io_ret None
     | Some fd \<Rightarrow> do {
         started \<leftarrow> start_server fd Jet_server;
         if \<not> started then do { close_fd fd; io_ret None } else io_ret (Some fd) } }"

text \<open>The loop over the results of \<^verbatim>\<open>getaddrinfo\<close>, up to the first address that can be bound.\<close>

fun bind_first :: "family list \<Rightarrow> nat option io_m" where
  "bind_first [] = io_ret None"
| "bind_first (ai_family # rest) = do {
     ok \<leftarrow> call_ok;
     if \<not> ok then bind_first rest
     else do {
       listen_fd \<leftarrow> open_fd ai_family;
       reuse \<leftarrow> call_ok;
       if \<not> reuse then do { close_fd listen_fd; bind_first rest }
       else do {
         v6_only \<leftarrow> (if ai_family = AF_INET6 then call_ok else io_ret True);
         if \<not> v6_only then do { close_fd listen_fd; bind_first rest }
         else do {
           nonblocking \<leftarrow> set_fd_non_blocking listen_fd;
           if \<not> nonblocking then do { close_fd listen_fd; bind_first rest }
           else do {
             bound \<leftarrow> call_ok;
             if bound then io_ret (Some listen_fd) else do { close_fd listen_fd; bind_first rest } } } } } }"

text \<open>What the resolver knows about an address; \<open>None\<close> for an error.\<close>

type_synonym resolver = "string \<Rightarrow> family list option"

definition create_server_socket_bound :: "resolver \<Rightarrow> string \<Rightarrow> nat option io_m" where
  "create_server_socket_bound getaddrinfo bind_addr =
    (case getaddrinfo bind_addr of
       None \<Rightarrow> io_ret None
     | Some servinfo \<Rightarrow> do {
         listen_fd \<leftarrow> bind_first servinfo;
         case listen_fd of
           None \<Rightarrow> io_ret None
         | Some fd \<Rightarrow> do {
             listening \<leftarrow> call_ok;
             if \<not> listening then do { close_fd fd; io_ret None } else io_ret (Some fd) } })"

subsection \<open>Running\<close>

definition register_signal_handler :: "bool io_m" where
  "register_signal_handler = do {
     ok \<leftarrow> call_ok;
     if \<not> ok then io_ret False
     else do {
       io_modify (\<lambda>s. s\<lparr>on_term := Sighandler\<rparr>);
       ok \<leftarrow> call_ok;
       if \<not> ok then do { io_modify (\<lambda>s. s\<lparr>on_term := SIG_DFL\<rparr>); io_ret False }
       else do {
         io_modify (\<lambda>s. s\<lparr>on_int := Sighandler\<rparr>);
         ok \<leftarrow> call_ok;
         if \<not> ok then io_ret False
         else do { io_modify (\<lambda>s. s\<lparr>on_pipe := SIG_IGN\<rparr>); io_ret True } } } }"

definition unregister_signal_handler :: "unit io_m" where
  "unregister_signal_handler = io_modify (\<lambda>s. s\<lparr>on_int := SIG_DFL, on_term := SIG_DFL\<rparr>)"

definition drop_privileges :: "string \<Rightarrow> bool io_m" where
  "drop_privileges user_name = do {
     known \<leftarrow> call_ok;
     if \<not> known then io_ret False
     else do {
       gid \<leftarrow> call_ok;
       if \<not> gid then io_ret False else call_ok } }"

text \<open>
  What the event loop delivers while it runs: a descriptor of the loop is ready, a signal arrives, the
  kernel's wait fails.  The signal handler clears \<open>go_ahead\<close>.  The process runs until it is told to stop: after
  the last event comes a signal.
\<close>

datatype loop_event = Ready nat | Signal | Wait_fails

definition sighandler :: "unit io_m" where
  "sighandler = io_modify (\<lambda>s. s\<lparr>go_ahead := False\<rparr>)"

text \<open>The callbacks of a connection leave it open or close it.\<close>

definition read_connection :: "nat \<Rightarrow> eventloop_return io_m" where
  "read_connection fd = do {
     stays \<leftarrow> call_ok;
     if stays then io_ret EL_CONTINUE_LOOP else do { free_endpoint fd; io_ret EL_EVENT_REMOVED } }"

definition serve_ready :: "nat \<Rightarrow> eventloop_return io_m" where
  "serve_ready fd = do {
     ws \<leftarrow> io_gets watched;
     case map_of ws fd of
       None \<Rightarrow> io_ret EL_CONTINUE_LOOP
     | Some Connection \<Rightarrow> read_connection fd
     | Some k \<Rightarrow> read_server k }"

fun loop_run :: "loop_event list \<Rightarrow> bool io_m" where
  "loop_run [] = do { sighandler; io_ret True }"
| "loop_run (e # es) = do {
     going \<leftarrow> io_gets go_ahead;
     if \<not> going then io_ret True
     else (case e of
        Wait_fails \<Rightarrow> io_ret False
      | Signal \<Rightarrow> do { sighandler; loop_run es }
      | Ready fd \<Rightarrow> do {
          r \<leftarrow> serve_ready fd;
          if r = EL_ABORT_LOOP then io_ret False else loop_run es }) }"

text \<open>\<^verbatim>\<open>destroy_all_peers\<close> closes every peer; plain HTTP connections are no peers.\<close>

definition close_all_peers :: "unit io_m" where
  "close_all_peers = do {
     es \<leftarrow> io_gets endpoints;
     for_each free_endpoint (map fst (filter (\<lambda>(_, e). \<not> is_http e) es)) }"

record cmdline_config =
  run_foreground :: bool
  bind_local_only :: bool
  user_name :: "string option"
  passwd_file :: "string option"
  request_target :: string
  compression_level :: nat

definition run_jet :: "cmdline_config \<Rightarrow> loop_event list \<Rightarrow> bool io_m" where
  "run_jet config events = do {
     dropped \<leftarrow> (case user_name config of None \<Rightarrow> io_ret True | Some u \<Rightarrow> drop_privileges u);
     if \<not> dropped then io_ret False
     else do {
       daemonized \<leftarrow> (if run_foreground config then io_ret True else call_ok);
       if \<not> daemonized then io_ret False
       else do {
         r \<leftarrow> loop_run events;
         close_all_peers;
         io_ret r } } }"

text \<open>
  The servers are started one after the other, and stopped in the opposite order, whatever comes
  between; a server that cannot be started ends the start of the others.
\<close>

definition run_io_only_local :: "resolver \<Rightarrow> cmdline_config \<Rightarrow> loop_event list \<Rightarrow> bool io_m" where
  "run_io_only_local getaddrinfo config events = do {
     ipv6_jet_fd \<leftarrow> create_server_socket_bound getaddrinfo ''::1'';
     case ipv6_jet_fd of None \<Rightarrow> io_ret False | Some ipv6_jet_fd \<Rightarrow> do {
     started \<leftarrow> start_server ipv6_jet_fd Jet_server;
     if \<not> started then do { close_fd ipv6_jet_fd; io_ret False }
     else do {
       ret \<leftarrow> do {
         ipv4_jet_fd \<leftarrow> create_server_socket_bound getaddrinfo ''127.0.0.1'';
         case ipv4_jet_fd of None \<Rightarrow> io_ret False | Some ipv4_jet_fd \<Rightarrow> do {
         started \<leftarrow> start_server ipv4_jet_fd Jet_server;
         if \<not> started then do { close_fd ipv4_jet_fd; io_ret False }
         else do {
           ret \<leftarrow> do {
             ipv6_http_fd \<leftarrow> create_server_socket_bound getaddrinfo ''::1'';
             case ipv6_http_fd of None \<Rightarrow> io_ret False | Some ipv6_http_fd \<Rightarrow> do {
             started \<leftarrow> start_server ipv6_http_fd Http_server;
             if \<not> started then do { close_fd ipv6_http_fd; io_ret False }
             else do {
               ret \<leftarrow> do {
                 ipv4_http_fd \<leftarrow> create_server_socket_bound getaddrinfo ''127.0.0.1'';
                 case ipv4_http_fd of None \<Rightarrow> io_ret False | Some ipv4_http_fd \<Rightarrow> do {
                 started \<leftarrow> start_server ipv4_http_fd Http_server;
                 if \<not> started then do { close_fd ipv4_http_fd; io_ret False }
                 else do {
                   ret \<leftarrow> do {
                     uds_fd \<leftarrow> start_uds_server;
                     case uds_fd of None \<Rightarrow> io_ret False | Some uds_fd \<Rightarrow> do {
                       ret \<leftarrow> run_jet config events;
                       stop_uds_server uds_fd;
                       io_ret ret } };
                   stop_server ipv4_http_fd;
                   io_ret ret } } };
               stop_server ipv6_http_fd;
               io_ret ret } } };
           stop_server ipv4_jet_fd;
           io_ret ret } } };
       stop_server ipv6_jet_fd;
       io_ret ret } } }"

definition run_io_all_interfaces :: "cmdline_config \<Rightarrow> loop_event list \<Rightarrow> bool io_m" where
  "run_io_all_interfaces config events = do {
     jet_fd \<leftarrow> create_server_socket_all_interfaces;
     case jet_fd of None \<Rightarrow> io_ret False | Some jet_fd \<Rightarrow> do {
     started \<leftarrow> start_server jet_fd Jet_server;
     if \<not> started then do { close_fd jet_fd; io_ret False }
     else do {
       ret \<leftarrow> do {
         http_fd \<leftarrow> create_server_socket_all_interfaces;
         case http_fd of None \<Rightarrow> io_ret False | Some http_fd \<Rightarrow> do {
         started \<leftarrow> start_server http_fd Http_server;
         if \<not> started then do { close_fd http_fd; io_ret False }
         else do {
           ret \<leftarrow> do {
             uds_fd \<leftarrow> start_uds_server;
             case uds_fd of None \<Rightarrow> io_ret False | Some uds_fd \<Rightarrow> do {
               ret \<leftarrow> run_jet config events;
               stop_uds_server uds_fd;
               io_ret ret } };
           stop_server http_fd;
           io_ret ret } } };
       stop_server jet_fd;
       io_ret ret } } }"

text \<open>
  The loop's own descriptor, the epoll instance, is opened and closed by \<^verbatim>\<open>init\<close> and \<^verbatim>\<open>destroy\<close>; nothing looks
  at its family.
\<close>

definition run_io :: "resolver \<Rightarrow> cmdline_config \<Rightarrow> loop_event list \<Rightarrow> bool io_m" where
  "run_io getaddrinfo config events = do {
     registered \<leftarrow> register_signal_handler;
     if \<not> registered then io_ret False
     else do {
       initialised \<leftarrow> call_ok;
       if \<not> initialised then do {
         io_modify (\<lambda>s. s\<lparr>go_ahead := False\<rparr>);
         unregister_signal_handler;
         io_ret False }
       else do {
         epoll_fd \<leftarrow> open_fd AF_UNIX;
         ret \<leftarrow> (if bind_local_only config then run_io_only_local getaddrinfo config events
                else run_io_all_interfaces config events);
         close_fd epoll_fd;
         unregister_signal_handler;
         io_ret ret } } }"


subsection \<open>Who owns a descriptor\<close>

text \<open>
  \<open>accounted s L B\<close>: the open descriptors are those of the endpoints and those in \<open>L\<close>, which the running
  function holds; likewise for the blocks and \<open>B\<close>.  With \<open>s\<close> no call fails and nothing was closed twice.
\<close>

definition held_blocks :: "(nat \<times> endpoint) list \<Rightarrow> nat list" where
  "held_blocks es = concat (map (\<lambda>(_, e). [owner_block e, bs_block e]) es)"

definition accounted :: "bool \<Rightarrow> nat list \<Rightarrow> nat list \<Rightarrow> io \<Rightarrow> bool" where
  "accounted s L B io \<longleftrightarrow>
     distinct (open_fds io) \<and> mset (open_fds io) = mset (L @ map fst (endpoints io)) \<and>
     distinct (blocks io) \<and> mset (blocks io) = mset (B @ held_blocks (endpoints io)) \<and>
     (\<forall>fd\<in>set (open_fds io). fd < next_fd io) \<and> (\<forall>b\<in>set (blocks io). b < next_block io) \<and>
     (\<forall>(fd, k)\<in>set (watched io). fd \<in> set (open_fds io)) \<and>
     (s \<longrightarrow> call_results io = [] \<and> io_faults io = []) \<and> (\<forall>f\<in>set (io_faults io). \<exists>fd. f = Bad_close fd)"

lemma held_blocks_simps [simp]:
  "held_blocks [] = []" "held_blocks (x # es) = [owner_block (snd x), bs_block (snd x)] @ held_blocks es"
  "held_blocks (es @ fs) = held_blocks es @ held_blocks fs"
  by (cases x; simp add: held_blocks_def)+

lemma accounted_open: "accounted s L B io \<Longrightarrow> set (open_fds io) = set L \<union> fst ` set (endpoints io)"
  unfolding accounted_def by (metis image_set mset_eq_setD set_append)

lemma accounted_distinct: "accounted s L B io \<Longrightarrow> distinct (L @ map fst (endpoints io))"
  unfolding accounted_def by (metis mset_eq_imp_distinct_iff)

lemma accounted_blocks:
  "accounted s L B io \<Longrightarrow> set (blocks io) = set B \<union> set (held_blocks (endpoints io)) \<and> distinct (B @ held_blocks (endpoints io))"
  unfolding accounted_def by (metis mset_eq_imp_distinct_iff mset_eq_setD set_append)

named_theorems io_rules "what the calls do to the account"

lemma call_ok_valid [io_rules]: "valid (accounted s L B) call_ok (\<lambda>r io. accounted s L B io \<and> (s \<longrightarrow> r))"
  by (rule validI) (auto simp: call_ok_def accounted_def split: list.splits)

lemma open_fd_valid: "valid (accounted s L B) (open_fd f) (\<lambda>fd. accounted s (fd # L) B)"
proof (rule validI)
  fix io fd io'
  assume a: "accounted s L B io" and "run_state (open_fd f) io = (fd, io')"
  then have "fd = next_fd io" "io' = io\<lparr>next_fd := fd + 1, open_fds := open_fds io @ [fd], sock_family := (sock_family io)(fd := f)\<rparr>"
    by (auto simp: open_fd_def)
  with a show "accounted s (fd # L) B io'" by (auto simp: accounted_def)
qed

lemma close_fd_valid: "valid (accounted s (fd # L) B) (close_fd fd) (\<lambda>_. accounted s L B)"
proof (rule validI)
  fix io u io'
  assume a: "accounted s (fd # L) B io" and r: "run_state (close_fd fd) io = (u, io')"
  have fd: "fd \<in> set (open_fds io)" using accounted_open [OF a] by simp
  with r have "io' = io\<lparr>open_fds := remove1 fd (open_fds io), watched := filter (\<lambda>(x, _). x \<noteq> fd) (watched io)\<rparr>"
    by (auto simp: close_fd_def)
  with a fd show "accounted s L B io'" by (auto simp: accounted_def)
qed

lemma close_twice_valid: "valid (\<lambda>io. accounted s L B io \<and> \<not> s \<and> fd \<notin> set (open_fds io)) (close_fd fd) (\<lambda>_. accounted s L B)"
  by (rule validI) (auto simp: close_fd_def accounted_def)

lemma malloc_block_valid:
  "valid (accounted s L B) malloc_block (\<lambda>r io. case r of None \<Rightarrow> accounted s L B io \<and> \<not> s | Some b \<Rightarrow> accounted s L (b # B) io)"
proof (rule validI)
  fix io r io'
  assume a: "accounted s L B io" and run: "run_state malloc_block io = (r, io')"
  obtain ok io1 where c: "run_state call_ok io = (ok, io1)" by fastforce
  note v = validD [OF call_ok_valid a c]
  show "case r of None \<Rightarrow> accounted s L B io' \<and> \<not> s | Some b \<Rightarrow> accounted s L (b # B) io'"
  proof (cases ok)
    case False
    with run c v show ?thesis by (auto simp: malloc_block_def)
  next
    case True
    with run c have "r = Some (next_block io1)" "io' = io1\<lparr>next_block := next_block io1 + 1, blocks := blocks io1 @ [next_block io1]\<rparr>"
      by (auto simp: malloc_block_def)
    with v show ?thesis by (auto simp: accounted_def)
  qed
qed

lemma free_block_valid: "valid (accounted s L (b # B)) (free_block b) (\<lambda>_. accounted s L B)"
proof (rule validI)
  fix io u io'
  assume a: "accounted s L (b # B) io" and r: "run_state (free_block b) io = (u, io')"
  have b: "b \<in> set (blocks io)" using accounted_blocks [OF a] by simp
  with r have "io' = io\<lparr>blocks := remove1 b (blocks io)\<rparr>" by (auto simp: free_block_def)
  with a b show "accounted s L B io'" by (auto simp: accounted_def)
qed

lemma loop_add_valid: "fd \<in> set L \<Longrightarrow> keeps (accounted s L B) (loop_add fd k)"
proof (rule keepsI)
  fix io r io'
  assume fd: "fd \<in> set L" and a: "accounted s L B io" and run: "run_state (loop_add fd k) io = (r, io')"
  obtain ok io1 where c: "run_state call_ok io = (ok, io1)" by fastforce
  note v = validD [OF call_ok_valid a c]
  have "fd \<in> set (open_fds io1)" using accounted_open [of s L B io1] v fd by simp
  with run c v show "accounted s L B io'" by (cases ok) (auto simp: loop_add_def accounted_def)
qed

lemma loop_remove_keeps: "keeps (accounted s L B) (loop_remove fd)"
  by (rule keepsI) (auto simp: loop_remove_def accounted_def)

text \<open>An endpoint taken out of the list is held again.\<close>

lemma endpoint_held:
  assumes a: "accounted s L B io" and e: "map_of (endpoints io) fd = Some e"
  shows "accounted s (fd # L) (owner_block e # bs_block e # B) (io\<lparr>endpoints := filter (\<lambda>(x, _). x \<noteq> fd) (endpoints io)\<rparr>)"
proof -
  have d: "distinct (map fst (endpoints io))" using accounted_distinct [OF a] by simp
  have "mset (map fst es) = mset (fd # map fst (filter (\<lambda>(x, _). x \<noteq> fd) es)) \<and>
      mset (held_blocks es) = mset ([owner_block e, bs_block e] @ held_blocks (filter (\<lambda>(x, _). x \<noteq> fd) es))"
    if "distinct (map fst es)" "map_of es fd = Some e" for es :: "(nat \<times> endpoint) list"
    using that
  proof (induction es)
    case (Cons x es)
    obtain y f where x: "x = (y, f)" by fastforce
    show ?case
    proof (cases "y = fd")
      case True
      with Cons.prems(1) x have "filter (\<lambda>(x, _). x \<noteq> fd) es = es" by (intro filter_True) force
      with True Cons.prems x show ?thesis by auto
    next
      case False
      with Cons x show ?thesis by auto
    qed
  qed simp
  from this [OF d e] a show ?thesis by (simp add: accounted_def)
qed

lemma new_endpoint_valid:
  "owner_block e = b \<Longrightarrow> bs_block e = c \<Longrightarrow>
   valid (accounted s (fd # L) (c # b # B)) (new_endpoint fd e) (\<lambda>_. accounted s L B)"
  by (rule validI) (auto simp: new_endpoint_def accounted_def)

lemma free_endpoint_keeps: "keeps (accounted s L B) (free_endpoint fd)"
proof (rule keepsI)
  fix io r io'
  assume a: "accounted s L B io" and run: "run_state (free_endpoint fd) io = (r, io')"
  show "accounted s L B io'"
  proof (cases "map_of (endpoints io) fd")
    case None
    with run a show ?thesis by (simp add: free_endpoint_def)
  next
    case (Some e)
    let ?drop = "\<lambda>s. s\<lparr>endpoints := filter (\<lambda>(x, _). x \<noteq> fd) (endpoints s)\<rparr>"
    let ?m = "do { loop_remove fd; close_fd fd; free_block (bs_block e); free_block (owner_block e) }"
    have commute: "run_state ?m (?drop io) = ((), ?drop (snd (run_state ?m io)))"
      by (simp add: loop_remove_def close_fd_def free_block_def)
    have v: "valid (accounted s (fd # L) (owner_block e # bs_block e # B)) ?m (\<lambda>_. accounted s L B)"
    proof (rule valid_keeps_bind [OF loop_remove_keeps], rule valid_bind [OF close_fd_valid])
      have "valid (accounted s L (bs_block e # owner_block e # B))
          (do { free_block (bs_block e); free_block (owner_block e) }) (\<lambda>_. accounted s L B)"
        by (rule valid_bind [OF free_block_valid free_block_valid])
      then show "valid (accounted s L (owner_block e # bs_block e # B))
          (do { free_block (bs_block e); free_block (owner_block e) }) (\<lambda>_. accounted s L B)"
        by (rule valid_pre) (auto simp: accounted_def add_mset_commute)
    qed
    have "io' = ?drop (snd (run_state ?m io))"
      using run Some by (simp add: free_endpoint_def loop_remove_def close_fd_def free_block_def)
    with validD [OF v endpoint_held [OF a Some] commute] show ?thesis by simp
  qed
qed


subsection \<open>Connections keep the account\<close>

lemma call_ok_keeps: "keeps (accounted s L B) call_ok"
  unfolding keeps_valid by (rule valid_post [OF call_ok_valid]) simp

lemma call_ok_bind:
  "(\<And>r. (s \<Longrightarrow> r) \<Longrightarrow> valid (accounted s L B) (f r) Q) \<Longrightarrow> valid (accounted s L B) (State_Monad.bind call_ok f) Q"
proof (rule valid_bind [OF call_ok_valid])
  fix r
  assume "\<And>r. (s \<Longrightarrow> r) \<Longrightarrow> valid (accounted s L B) (f r) Q"
  then show "valid (\<lambda>io. accounted s L B io \<and> (s \<longrightarrow> r)) (f r) Q" by (cases "s \<longrightarrow> r") (auto simp: valid_def)
qed

text \<open>Preparing a socket: when it fails, some call has failed, and the socket may be closed already.\<close>

definition prepared_or_not :: "bool \<Rightarrow> nat \<Rightarrow> nat list \<Rightarrow> nat list \<Rightarrow> bool \<Rightarrow> io \<Rightarrow> bool" where
  "prepared_or_not s fd L B r io \<longleftrightarrow> accounted s (fd # L) B io \<or>
     \<not> r \<and> accounted s L B io \<and> \<not> s \<and> fd \<notin> set (open_fds io)"

lemma close_fd_gone:
  "\<not> s \<Longrightarrow> valid (accounted s (fd # L) B) (close_fd fd) (\<lambda>_ io. accounted s L B io \<and> \<not> s \<and> fd \<notin> set (open_fds io))"
proof (rule validI)
  fix io u io'
  assume s: "\<not> s" and a: "accounted s (fd # L) B io" and r: "run_state (close_fd fd) io = (u, io')"
  have "fd \<in> set (open_fds io)" "distinct (open_fds io)" using accounted_open [OF a] a by (auto simp: accounted_def)
  then have "fd \<notin> set (open_fds io')" using r by (auto simp: close_fd_def)
  with validD [OF close_fd_valid a r] s show "accounted s L B io' \<and> \<not> s \<and> fd \<notin> set (open_fds io')" by simp
qed

lemma closed_and_failed:
  "\<not> s \<Longrightarrow> valid (accounted s (fd # L) B) (do { close_fd fd; io_ret False }) (prepared_or_not s fd L B)"
  by (rule valid_bind [OF close_fd_gone]) (auto simp: prepared_or_not_def valid_def)

lemma just_returned: "valid (accounted s (fd # L) B) (io_ret r) (prepared_or_not s fd L B)"
  by (simp add: valid_def prepared_or_not_def)

lemma two_calls:
  "valid (accounted s L B) (set_fd_non_blocking fd) (\<lambda>r io. accounted s L B io \<and> (s \<longrightarrow> r))"
  "valid (accounted s L B) (configure_keepalive fd) (\<lambda>r io. accounted s L B io \<and> (s \<longrightarrow> r))"
  unfolding set_fd_non_blocking_def configure_keepalive_def
  by (intro call_ok_bind valid_if call_ok_valid valid_return; auto)+

lemma ok_bind:
  assumes "valid (accounted s L B) m (\<lambda>r io. accounted s L B io \<and> (s \<longrightarrow> r))"
    and "\<And>r. (s \<Longrightarrow> r) \<Longrightarrow> valid (accounted s L B) (f r) Q"
  shows "valid (accounted s L B) (State_Monad.bind m f) Q"
proof (rule valid_bind [OF assms(1)])
  show "valid (\<lambda>io. accounted s L B io \<and> (s \<longrightarrow> r)) (f r) Q" for r
    using assms(2) [of r] by (cases "s \<longrightarrow> r") (auto simp: valid_def)
qed

lemma prepare_peer_socket_valid:
  "valid (accounted s (fd # L) B) (prepare_peer_socket fd) (\<lambda>r io. prepared_or_not s fd L B r io \<and> (s \<longrightarrow> r))"
proof -
  let ?A = "accounted s (fd # L) B" and ?Q = "\<lambda>r io. prepared_or_not s fd L B r io \<and> (s \<longrightarrow> r)"
  have fail: "valid ?A (do { close_fd fd; io_ret False }) ?Q" if "\<not> s"
    by (rule valid_post [OF closed_and_failed [OF that]]) (use that in simp)
  have ret: "valid ?A (io_ret r) ?Q" if "s \<Longrightarrow> r" for r
    by (rule valid_post [OF valid_return [where Q = "\<lambda>x io. x = r \<and> ?A io"]]) (use that in \<open>auto simp: prepared_or_not_def\<close>)
  have tcp: "valid ?A (do {
             nodelay \<leftarrow> call_ok;
             if \<not> nodelay then io_ret False
             else do {
               keepalive \<leftarrow> configure_keepalive fd;
               if \<not> keepalive then do { close_fd fd; io_ret False } else io_ret True } }) ?Q"
    by (intro call_ok_bind ok_bind [OF two_calls(2)] valid_if ret fail; auto)
  have alive: "valid (?Q r) (if \<not> r then io_ret False else call_ok) ?Q" for r
  proof (cases r)
    case True
    then have "valid ?A call_ok ?Q"
      by (intro valid_post [OF call_ok_valid]) (auto simp: prepared_or_not_def)
    with True show ?thesis by (auto simp: valid_def prepared_or_not_def)
  next
    case False
    then show ?thesis by (auto simp: valid_def)
  qed
  have fams: "keeps ?A (io_gets sock_family)" by (simp add: keeps_def)
  have opt: "valid ?A (if b then do {
             nodelay \<leftarrow> call_ok;
             if \<not> nodelay then io_ret False
             else do {
               keepalive \<leftarrow> configure_keepalive fd;
               if \<not> keepalive then do { close_fd fd; io_ret False } else io_ret True } } else io_ret True) ?Q" for b
    using tcp ret [of True] by simp
  show ?thesis
    unfolding prepare_peer_socket_def
    by (intro ok_bind [OF two_calls(1)] call_ok_bind valid_if valid_keeps_bind [OF fams] valid_bind [OF opt alive] fail ret; auto)
qed

lemma failed_prepare_closes: "valid (\<lambda>io. prepared_or_not s fd L B False io \<and> (s \<longrightarrow> False)) (close_fd fd) (\<lambda>_. accounted s L B)"
  using close_fd_valid [of s fd L B] close_twice_valid [of s L B fd]
  unfolding valid_def prepared_or_not_def by blast

lemma loop_add_open:
  "valid (\<lambda>io. accounted s L B io \<and> fd \<in> set (open_fds io)) (loop_add fd k) (\<lambda>r. accounted s L B)"
proof (rule validI)
  fix io r io'
  assume a: "accounted s L B io \<and> fd \<in> set (open_fds io)" and run: "run_state (loop_add fd k) io = (r, io')"
  obtain ok io1 where c: "run_state call_ok io = (ok, io1)" by fastforce
  then have "open_fds io1 = open_fds io" by (auto simp: call_ok_def split: list.splits)
  with run c validD [OF call_ok_valid conjunct1 [OF a] c] a show "accounted s L B io'"
    by (cases ok) (auto simp: loop_add_def accounted_def)
qed

lemma loop_add_fails: "run_state (loop_add fd k) io = (False, io') \<Longrightarrow> endpoints io' = endpoints io"
  by (auto simp: loop_add_def call_ok_def split: list.splits if_splits prod.splits)

lemma new_endpoint_there:
  assumes "owner_block e = b" "bs_block e = c"
  shows "valid (accounted s (fd # L) (c # b # B)) (new_endpoint fd e)
    (\<lambda>_ io. accounted s L B io \<and> map_of (endpoints io) fd = Some e)"
proof (rule validI)
  fix io u io'
  assume a: "accounted s (fd # L) (c # b # B) io" and run: "run_state (new_endpoint fd e) io = (u, io')"
  have "map_of (endpoints io) fd = None" using accounted_distinct [OF a] by (simp add: map_of_eq_None_iff)
  then have "map_of (endpoints io') fd = Some e" using run by (auto simp: new_endpoint_def map_add_def)
  with validD [OF new_endpoint_valid [OF assms] a run] show "accounted s L B io' \<and> map_of (endpoints io') fd = Some e" by simp
qed

lemma first_read_valid:
  "valid (\<lambda>io. accounted s L B io \<and> map_of (endpoints io) fd = Some e) (first_read fd)
    (\<lambda>r io. accounted s L B io \<and> (r \<or> map_of (endpoints io) fd = Some e))"
proof (rule validI)
  fix io r io'
  assume a: "accounted s L B io \<and> map_of (endpoints io) fd = Some e" and run: "run_state (first_read fd) io = (r, io')"
  then have "fd \<in> set (open_fds io)" using accounted_open [of s L B io] map_of_SomeD by force
  obtain added io1 where l: "run_state (loop_add fd Connection) io = (added, io1)" by fastforce
  with a \<open>fd \<in> _\<close> have a1: "accounted s L B io1" using validD [OF loop_add_open _ l] by blast
  show "accounted s L B io' \<and> (r \<or> map_of (endpoints io') fd = Some e)"
  proof (cases added)
    case False
    with run l a1 a loop_add_fails [of fd Connection io io1] show ?thesis by (auto simp: first_read_def)
  next
    case True
    let ?rest = "do { stays \<leftarrow> call_ok; if stays then io_ret True else do { free_endpoint fd; io_ret True } }"
    have "keeps (accounted s L B) ?rest" by (intro keeps_rules call_ok_keeps free_endpoint_keeps)
    moreover have rest: "run_state ?rest io1 = (r, io')" using run l True by (simp add: first_read_def)
    moreover have "r" using rest by (auto split: prod.splits if_splits)
    ultimately show ?thesis using a1 by (auto dest: keepsD)
  qed
qed

lemma start_socket_peer_valid:
  "valid (accounted s (fd # L) (bs # peer # B)) (start_socket_peer fd peer bs loc) (\<lambda>_. accounted s L B)"
  unfolding start_socket_peer_def
  by (rule valid_bind [OF new_endpoint_there], simp, simp, rule valid_bind [OF first_read_valid]) (auto simp: valid_def)

lemma malloc_case:
  assumes "valid (accounted s L B) n Q" "\<And>b. valid (accounted s L (b # B)) (f b) Q"
  shows "valid (accounted s L B) (State_Monad.bind malloc_block (\<lambda>r. case r of None \<Rightarrow> n | Some b \<Rightarrow> f b)) Q"
proof (rule valid_bind [OF malloc_block_valid])
  fix r
  show "valid (\<lambda>io. case r of None \<Rightarrow> accounted s L B io \<and> \<not> s | Some b \<Rightarrow> accounted s L (b # B) io)
    (case r of None \<Rightarrow> n | Some b \<Rightarrow> f b) Q"
    using assms by (cases r) (auto simp: valid_def)
qed

text \<open>What the two handlers of new connections have in common.\<close>

lemma owned_connection:
  assumes "\<And>p b. valid (accounted s (fd # L) (b # p # B)) (start p b) (\<lambda>_. accounted s L B)"
  shows "valid (accounted s (fd # L) B) (do {
     prepared \<leftarrow> prepare_peer_socket fd;
     if \<not> prepared then close_fd fd
     else do {
       owner \<leftarrow> malloc_block;
       case owner of
         None \<Rightarrow> close_fd fd
       | Some owner \<Rightarrow> do {
           bs \<leftarrow> malloc_block;
           case bs of
             None \<Rightarrow> do { free_block owner; close_fd fd }
           | Some bs \<Rightarrow> start owner bs } } }) (\<lambda>_. accounted s L B)"
proof (rule valid_bind [OF prepare_peer_socket_valid])
  fix prepared
  let ?start = "do { owner \<leftarrow> malloc_block;
       case owner of
         None \<Rightarrow> close_fd fd
       | Some owner \<Rightarrow> do {
           bs \<leftarrow> malloc_block;
           case bs of
             None \<Rightarrow> do { free_block owner; close_fd fd }
           | Some bs \<Rightarrow> start owner bs } }"
  have "valid (accounted s (fd # L) B) ?start (\<lambda>_. accounted s L B)"
    by (intro malloc_case close_fd_valid valid_bind [OF free_block_valid] assms)
  then have start: "valid (\<lambda>io. prepared_or_not s fd L B True io \<and> (s \<longrightarrow> True)) ?start (\<lambda>_. accounted s L B)"
    by (rule valid_pre) (simp add: prepared_or_not_def)
  show "valid (\<lambda>io. prepared_or_not s fd L B prepared io \<and> (s \<longrightarrow> prepared))
      (if \<not> prepared then close_fd fd else ?start) (\<lambda>_. accounted s L B)"
    using start failed_prepare_closes by (cases prepared) simp_all
qed

lemma handle_new_jet_connection_valid:
  "valid (accounted s (fd # L) B) (handle_new_jet_connection fd loc) (\<lambda>_. accounted s L B)"
  unfolding handle_new_jet_connection_def by (rule owned_connection) (rule start_socket_peer_valid)

lemma handle_http_valid:
  "valid (accounted s (fd # L) B) (handle_http fd loc) (\<lambda>_. accounted s L B)"
  unfolding handle_http_def
proof (rule owned_connection)
  fix p b
  let ?e = "\<lparr>is_http = True, is_local = loc, owner_block = p, bs_block = b\<rparr>"
  let ?Q = "\<lambda>r io. accounted s L B io \<and> (r \<or> map_of (endpoints io) fd = Some ?e)"
  have started: "valid (accounted s (fd # L) (b # p # B)) (start_http_connection fd p b loc) ?Q"
    unfolding start_http_connection_def
    by (rule valid_bind [OF new_endpoint_there]) (simp_all add: first_read_valid)
  have undo: "valid (?Q False) (io_modify (\<lambda>s. s\<lparr>endpoints := filter (\<lambda>(x, _). x \<noteq> fd) (endpoints s)\<rparr>))
      (\<lambda>_. accounted s (fd # L) (b # p # B))"
  proof (rule validI)
    fix io u io'
    assume "?Q False io" and r: "run_state (io_modify (\<lambda>s. s\<lparr>endpoints := filter (\<lambda>(x, _). x \<noteq> fd) (endpoints s)\<rparr>)) io = (u, io')"
    with endpoint_held [of s L B io fd ?e] have "accounted s (fd # L) (p # b # B) io'" by auto
    then show "accounted s (fd # L) (b # p # B) io'" by (auto simp: accounted_def add_mset_commute)
  qed
  show "valid (accounted s (fd # L) (b # p # B)) (do {
      started \<leftarrow> start_http_connection fd p b loc;
      if \<not> started then do {
        io_modify (\<lambda>s. s\<lparr>endpoints := filter (\<lambda>(x, _). x \<noteq> fd) (endpoints s)\<rparr>);
        free_block b;
        free_block p;
        close_fd fd }
      else io_ret () }) (\<lambda>_. accounted s L B)"
  proof (rule valid_bind [OF started])
    fix started
    show "valid (?Q started) (if \<not> started then do {
        io_modify (\<lambda>s. s\<lparr>endpoints := filter (\<lambda>(x, _). x \<noteq> fd) (endpoints s)\<rparr>);
        free_block b;
        free_block p;
        close_fd fd }
      else io_ret ()) (\<lambda>_. accounted s L B)"
    proof (cases started)
      case False
      have "valid (?Q False) (do {
        io_modify (\<lambda>s. s\<lparr>endpoints := filter (\<lambda>(x, _). x \<noteq> fd) (endpoints s)\<rparr>);
        free_block b;
        free_block p;
        close_fd fd }) (\<lambda>_. accounted s L B)"
        by (intro valid_bind [OF undo] valid_bind [OF free_block_valid] close_fd_valid)
      with False show ?thesis by simp
    qed (simp add: valid_def)
  qed
qed

subsection \<open>Servers keep the account\<close>

lemma accept_common_keeps:
  assumes "\<And>fd loc h. peer_function = Some h \<Longrightarrow> valid (accounted s (fd # L) B) (h fd loc) (\<lambda>_. accounted s L B)"
  shows "keeps (accounted s L B) (accept_common peer_function rs)"
proof (induction rs)
  case (Cons r rs)
  show ?case
  proof (cases r)
    case (Accepted addr f)
    have "valid (accounted s (fd # L) B) (case peer_function of Some h \<Rightarrow> h fd (is_localhost addr) | None \<Rightarrow> close_fd fd)
        (\<lambda>_. accounted s L B)" for fd
      using assms close_fd_valid by (cases peer_function) auto
    then have "valid (accounted s L B) (do { fd \<leftarrow> open_fd f;
        (case peer_function of Some h \<Rightarrow> h fd (is_localhost addr) | None \<Rightarrow> close_fd fd); accept_common peer_function rs })
        (\<lambda>_. accounted s L B)"
      using Cons.IH by (intro valid_bind [OF open_fd_valid] valid_bind) (auto simp: keeps_valid)
    then show ?thesis using Accepted by (simp add: keeps_valid)
  qed (simp_all add: keeps_def)
qed (simp add: keeps_def)

lemma read_server_keeps: "keeps (accounted s L B) (read_server k)"
proof -
  have b: "keeps (accounted s L B) next_backlog"
    by (rule keepsI) (auto simp: next_backlog_def accounted_def split: list.splits)
  have a: "keeps (accounted s L B) (accept_common (Some handle_new_jet_connection) rs)" for rs
    by (rule accept_common_keeps) (use handle_new_jet_connection_valid in auto)
  have h: "keeps (accounted s L B) (accept_common (Some handle_http) rs)" for rs
    by (rule accept_common_keeps) (use handle_http_valid in auto)
  show ?thesis
    unfolding read_server_def accept_jet_def accept_http_def by (intro keeps_rules a b h)
qed

lemma start_server_keeps: "fd \<in> set L \<Longrightarrow> keeps (accounted s L B) (start_server fd k)"
  unfolding start_server_def by (intro keeps_rules loop_add_valid read_server_keeps loop_remove_keeps)

lemma stop_server_valid:
  "valid (accounted s (fd # L) B) (stop_server fd) (\<lambda>_. accounted s L B)"
  "valid (accounted s (fd # L) B) (stop_uds_server fd) (\<lambda>_. accounted s L B)"
  unfolding stop_server_def stop_uds_server_def
  by (intro valid_keeps_bind [OF loop_remove_keeps] close_fd_valid)+

definition new_socket :: "bool \<Rightarrow> nat list \<Rightarrow> nat list \<Rightarrow> nat option \<Rightarrow> io \<Rightarrow> bool" where
  "new_socket s L B r io \<longleftrightarrow> (case r of None \<Rightarrow> accounted s L B io | Some fd \<Rightarrow> accounted s (fd # L) B io)"

lemma closes_new: "valid (accounted s (fd # L) B) (do { close_fd fd; io_ret None }) (new_socket s L B)"
  by (rule valid_bind [OF close_fd_valid]) (simp add: valid_def new_socket_def)

lemma returns_new:
  "valid (accounted s (fd # L) B) (io_ret (Some fd)) (new_socket s L B)"
  "valid (accounted s L B) (io_ret None) (new_socket s L B)"
  by (simp_all add: valid_def new_socket_def)

lemma create_valid:
  "valid (accounted s L B) create_server_socket_all_interfaces (new_socket s L B)"
  "valid (accounted s L B) create_server_unix_domain_socket (new_socket s L B)"
  unfolding create_server_socket_all_interfaces_def create_server_unix_domain_socket_def
  by (intro call_ok_bind valid_if returns_new closes_new valid_bind [OF open_fd_valid] ok_bind [OF two_calls(1)])+

lemma bind_first_valid: "valid (accounted s L B) (bind_first fs) (new_socket s L B)"
proof (induction fs)
  case (Cons f fs)
  have retry: "valid (accounted s (fd # L) B) (do { close_fd fd; bind_first fs }) (new_socket s L B)" for fd
    by (rule valid_bind [OF close_fd_valid Cons.IH])
  have v6: "valid (accounted s L B) (if f = AF_INET6 then call_ok else io_ret True) (\<lambda>r io. accounted s L B io \<and> (s \<longrightarrow> r))" for L
    using call_ok_valid by (auto simp: valid_def)
  show ?case
    unfolding bind_first.simps
    by (intro call_ok_bind valid_if returns_new retry Cons.IH valid_bind [OF open_fd_valid] ok_bind [OF two_calls(1)] ok_bind [OF v6])
qed (simp add: returns_new)

lemma create_bound_valid: "valid (accounted s L B) (create_server_socket_bound resolve addr) (new_socket s L B)"
proof -
  have "valid (new_socket s L B r) (case r of None \<Rightarrow> io_ret None
      | Some fd \<Rightarrow> do { listening \<leftarrow> call_ok; if \<not> listening then do { close_fd fd; io_ret None } else io_ret (Some fd) })
      (new_socket s L B)" for r
  proof (cases r)
    case (Some fd)
    have "valid (accounted s (fd # L) B) (do { listening \<leftarrow> call_ok;
        if \<not> listening then do { close_fd fd; io_ret None } else io_ret (Some fd) }) (new_socket s L B)"
      by (intro call_ok_bind valid_if returns_new closes_new)
    with Some show ?thesis by (simp add: new_socket_def [of s L B "Some fd", abs_def] new_socket_def)
  qed (simp add: valid_def new_socket_def)
  then show ?thesis
    unfolding create_server_socket_bound_def
    by (cases "resolve addr") (simp_all add: returns_new valid_bind [OF bind_first_valid])
qed


subsection \<open>The process keeps the account\<close>

lemma loop_run_keeps: "keeps (accounted s L B) (loop_run events)"
proof -
  have sig: "keeps (accounted s L B) sighandler"
    by (rule keepsI) (auto simp: sighandler_def accounted_def)
  have conn: "keeps (accounted s L B) (read_connection fd)" for fd
    unfolding read_connection_def by (intro keeps_rules call_ok_keeps free_endpoint_keeps)
  have gets: "keeps (accounted s L B) (io_gets g)" for g :: "io \<Rightarrow> 'b"
    by (simp add: keeps_def)
  have gets': "keeps (accounted s L B) (io_gets go_ahead)"
    by (simp add: keeps_def)
  have case_k: "keeps (accounted s L B) (case k of Connection \<Rightarrow> read_connection fd | _ \<Rightarrow> read_server k)" for k fd
    using conn read_server_keeps by (cases k) auto
  have ready: "keeps (accounted s L B) (serve_ready fd)" for fd
    unfolding serve_ready_def
    by (intro keeps_bind gets keeps_case_option keeps_return) (auto intro: conn read_server_keeps split: watcher.split)
  show ?thesis
  proof (induction events)
    case Nil
    then show ?case unfolding loop_run.simps by (intro keeps_rules sig)
  next
    case (Cons e es)
    have "keeps (accounted s L B) (case e of Wait_fails \<Rightarrow> io_ret False | Signal \<Rightarrow> do { sighandler; loop_run es }
      | Ready fd \<Rightarrow> do { r \<leftarrow> serve_ready fd; if r = EL_ABORT_LOOP then io_ret False else loop_run es })"
      by (cases e; simp) (intro keeps_rules sig ready Cons.IH)+
    then show ?case unfolding loop_run.simps by (intro keeps_rules gets') assumption+
  qed
qed

lemma run_free_endpoint: "endpoints (snd (run_state (free_endpoint fd) io)) = filter (\<lambda>(x, _). x \<noteq> fd) (endpoints io)"
proof (cases "map_of (endpoints io) fd")
  case None
  then have "filter (\<lambda>(x, _). x \<noteq> fd) (endpoints io) = endpoints io"
    by (intro filter_True) (auto simp: map_of_eq_None_iff image_iff)
  with None show ?thesis by (simp add: free_endpoint_def)
qed (simp add: free_endpoint_def loop_remove_def close_fd_def free_block_def)

lemma run_free_endpoints:
  "endpoints (snd (run_state (for_each free_endpoint fds) io)) = filter (\<lambda>(x, _). x \<notin> set fds) (endpoints io)"
proof (induction fds arbitrary: io)
  case (Cons fd fds)
  obtain u io1 where "run_state (free_endpoint fd) io = (u, io1)" by (cases "run_state (free_endpoint fd) io")
  with Cons.IH [of io1] run_free_endpoint [of fd io] show ?case
    by (auto intro!: filter_cong)
qed simp

text \<open>The end of a part of the process: the account holds, and after a successful run no peer is left.\<close>

definition ended :: "bool \<Rightarrow> nat list \<Rightarrow> nat list \<Rightarrow> bool \<Rightarrow> io \<Rightarrow> bool" where
  "ended s L B r io \<longleftrightarrow> accounted s L B io \<and> (r \<longrightarrow> (\<forall>(fd, e)\<in>set (endpoints io). is_http e))"

lemma close_all_peers_ended: "valid (accounted s L B) (do { close_all_peers; io_ret r }) (ended s L B)"
proof (rule validI)
  fix io x io'
  assume a: "accounted s L B io" and run: "run_state (do { close_all_peers; io_ret r }) io = (x, io')"
  let ?fds = "map fst (filter (\<lambda>(_, e). \<not> is_http e) (endpoints io))"
  have io': "io' = snd (run_state (for_each free_endpoint ?fds) io)"
    using run by (auto simp: close_all_peers_def split: prod.splits)
  have "keeps (accounted s L B) (for_each free_endpoint ?fds)" by (intro keeps_for_each free_endpoint_keeps)
  with a have "accounted s L B io'" unfolding io' by (simp add: keeps_def)
  moreover have "\<forall>(fd, e)\<in>set (endpoints io'). is_http e" unfolding io' run_free_endpoints by force
  ultimately show "ended s L B x io'" by (simp add: ended_def)
qed

lemma ended_failed: "valid (accounted s L B) (io_ret False) (ended s L B)"
  by (simp add: valid_def ended_def)

lemma run_jet_valid: "valid (accounted s L B) (run_jet config events) (ended s L B)"
proof -
  have drop: "keeps (accounted s L B) (case user_name config of None \<Rightarrow> io_ret True | Some u \<Rightarrow> drop_privileges u)"
    unfolding drop_privileges_def by (intro keeps_rules call_ok_keeps)
  have daemon: "keeps (accounted s L B) (if run_foreground config then io_ret True else call_ok)"
    by (intro keeps_rules call_ok_keeps)
  show ?thesis
    unfolding run_jet_def
    by (intro valid_keeps_bind [OF drop] valid_keeps_bind [OF daemon] valid_if valid_keeps_bind [OF loop_run_keeps]
        close_all_peers_ended ended_failed)
qed

text \<open>What the servers have in common: created, started, stopped when what runs between has ended.\<close>

lemma stop_endpoints:
  "endpoints (snd (run_state (stop_server fd) io)) = endpoints io"
  "endpoints (snd (run_state (stop_uds_server fd) io)) = endpoints io"
  by (simp_all add: stop_server_def stop_uds_server_def loop_remove_def close_fd_def)

lemma stopped_ended:
  assumes "valid (accounted s (fd # L) B) stop (\<lambda>_. accounted s L B)"
    and "\<And>io. endpoints (snd (run_state stop io)) = endpoints io"
  shows "valid (ended s (fd # L) B r) (do { u \<leftarrow> stop; io_ret r }) (ended s L B)"
proof (rule valid_bind)
  show "valid (ended s (fd # L) B r) stop (\<lambda>_. ended s L B r)"
    using assms unfolding valid_def ended_def by simp
qed (simp add: valid_def)

lemma served:
  assumes "valid (accounted s L B) create (new_socket s L B)"
    and "\<And>fd. valid (accounted s (fd # L) B) (body fd) (ended s (fd # L) B)"
  shows "valid (accounted s L B) (do { fd \<leftarrow> create; case fd of None \<Rightarrow> io_ret False | Some fd \<Rightarrow> do {
      started \<leftarrow> start_server fd k;
      if \<not> started then do { close_fd fd; io_ret False }
      else do { r \<leftarrow> body fd; stop_server fd; io_ret r } } }) (ended s L B)"
proof (rule valid_bind [OF assms(1)])
  fix r
  have fail: "valid (accounted s (fd # L) B) (do { close_fd fd; io_ret False }) (ended s L B)" for fd
    by (rule valid_bind [OF close_fd_valid ended_failed])
  have some: "valid (accounted s (fd # L) B) (do { started \<leftarrow> start_server fd k;
      if \<not> started then do { close_fd fd; io_ret False } else do { r \<leftarrow> body fd; stop_server fd; io_ret r } }) (ended s L B)" for fd
    by (intro valid_keeps_bind start_server_keeps valid_if fail valid_bind [OF assms(2)]
        stopped_ended [OF stop_server_valid(1) stop_endpoints(1)]) simp
  show "valid (new_socket s L B r) (case r of None \<Rightarrow> io_ret False | Some fd \<Rightarrow> do {
      started \<leftarrow> start_server fd k;
      if \<not> started then do { close_fd fd; io_ret False }
      else do { r \<leftarrow> body fd; stop_server fd; io_ret r } }) (ended s L B)"
  proof (cases r)
    case None
    then show ?thesis using ended_failed by (simp add: new_socket_def [abs_def] valid_def)
  next
    case (Some fd)
    then show ?thesis using some by (simp add: new_socket_def [abs_def] valid_def)
  qed
qed

lemma uds_served:
  assumes "\<And>fd. valid (accounted s (fd # L) B) body (ended s (fd # L) B)"
  shows "valid (accounted s L B) (do { uds_fd \<leftarrow> start_uds_server; case uds_fd of None \<Rightarrow> io_ret False | Some fd \<Rightarrow> do {
      r \<leftarrow> body; stop_uds_server fd; io_ret r } }) (ended s L B)"
proof -
  have start: "valid (accounted s L B) start_uds_server (new_socket s L B)"
    unfolding start_uds_server_def
  proof (rule valid_bind [OF create_valid(2)])
    fix r
    have "valid (accounted s (fd # L) B) (do { started \<leftarrow> start_server fd Jet_server;
        if \<not> started then do { close_fd fd; io_ret None } else io_ret (Some fd) }) (new_socket s L B)" for fd
      by (intro valid_keeps_bind start_server_keeps valid_if closes_new returns_new) simp
    then show "valid (new_socket s L B r) (case r of None \<Rightarrow> io_ret None | Some fd \<Rightarrow> do {
        started \<leftarrow> start_server fd Jet_server;
        if \<not> started then do { close_fd fd; io_ret None } else io_ret (Some fd) }) (new_socket s L B)"
      using returns_new(2) by (cases r) (auto simp: new_socket_def [abs_def] valid_def)
  qed
  show ?thesis
  proof (rule valid_bind [OF start])
    fix r
    have "valid (accounted s (fd # L) B) (do { r \<leftarrow> body; stop_uds_server fd; io_ret r }) (ended s L B)" for fd
      by (rule valid_bind [OF assms stopped_ended [OF stop_server_valid(2) stop_endpoints(2)]])
    then show "valid (new_socket s L B r) (case r of None \<Rightarrow> io_ret False | Some fd \<Rightarrow> do {
        r \<leftarrow> body; stop_uds_server fd; io_ret r }) (ended s L B)"
      using ended_failed by (cases r) (auto simp: new_socket_def [abs_def] valid_def)
  qed
qed

lemma run_io_servers_valid:
  "valid (accounted s L B) (run_io_only_local resolve config events) (ended s L B)"
  "valid (accounted s L B) (run_io_all_interfaces config events) (ended s L B)"
  unfolding run_io_only_local_def run_io_all_interfaces_def
  by (intro served create_bound_valid create_valid(1) uds_served run_jet_valid)+


definition process_start :: "bool list \<Rightarrow> accept_result list list \<Rightarrow> io" where
  "process_start as bs = \<lparr>call_results = as, backlogs = bs, next_fd = 3, open_fds = [], sock_family = (\<lambda>_. AF_UNIX),
     watched = [], next_block = 0, blocks = [], endpoints = [], io_faults = [], go_ahead = True,
     on_term = SIG_DFL, on_int = SIG_DFL, on_pipe = SIG_IGN\<rparr>"

lemma accounted_start: "accounted (as = []) [] [] (process_start as bs)"
  by (simp add: accounted_def process_start_def)

lemma register_keeps: "keeps (accounted s L B) register_signal_handler"
proof -
  have "keeps (accounted s L B) (io_modify f)" if "\<And>io. accounted s L B io \<Longrightarrow> accounted s L B (f io)" for f
    using that by (simp add: keeps_def)
  then show ?thesis
    unfolding register_signal_handler_def by (intro keeps_rules call_ok_keeps) (simp_all add: accounted_def)
qed

lemma run_io_valid:
  "valid (accounted s [] []) (run_io resolve config events)
    (\<lambda>ok io. ended s [] [] ok io \<and> (ok \<longrightarrow> on_term io = SIG_DFL \<and> on_int io = SIG_DFL))"
    (is "valid _ _ ?Q")
proof -
  have fail: "valid (accounted s [] []) (io_ret False) ?Q"
    by (simp add: valid_def ended_def)
  have no_loop: "valid (accounted s [] []) (do { io_modify (\<lambda>s. s\<lparr>go_ahead := False\<rparr>); unregister_signal_handler; io_ret False }) ?Q"
    by (auto simp: valid_def unregister_signal_handler_def ended_def accounted_def)
  have finish: "valid (ended s [fd] [] r) (do { close_fd fd; unregister_signal_handler; io_ret r }) ?Q" for fd r
  proof (rule validI)
    fix io x io'
    assume e: "ended s [fd] [] r io" and run: "run_state (do { close_fd fd; unregister_signal_handler; io_ret r }) io = (x, io')"
    obtain u io1 where c: "run_state (close_fd fd) io = (u, io1)" by (cases "run_state (close_fd fd) io")
    have "endpoints io1 = endpoints io" using c by (auto simp: close_fd_def split: if_splits)
    moreover have "accounted s [] [] io1" using validD [OF close_fd_valid _ c] e by (auto simp: ended_def)
    moreover have "x = r" "io' = io1\<lparr>on_int := SIG_DFL, on_term := SIG_DFL\<rparr>"
      using run c by (simp_all add: unregister_signal_handler_def)
    ultimately show "?Q x io'" using e by (auto simp: ended_def accounted_def)
  qed
  have servers: "valid (accounted s [fd] []) (if bind_local_only config then run_io_only_local resolve config events
      else run_io_all_interfaces config events) (ended s [fd] [])" for fd
    by (intro valid_if run_io_servers_valid)
  show ?thesis
    unfolding run_io_def
    by (intro valid_keeps_bind [OF register_keeps] call_ok_bind valid_if fail no_loop
        valid_bind [OF open_fd_valid] valid_bind [OF servers finish])
qed


definition loopback4 :: sockaddr_storage where
  "loopback4 = \<lparr>ss_family = AF_INET, ss_data = [0, 0, 127, 0, 0, 1] @ replicate 8 0\<rparr>"

definition local_config :: cmdline_config where
  "local_config = \<lparr>run_foreground = True, bind_local_only = True, user_name = None, passwd_file = None,
     request_target = ''/api/jet/'', compression_level = 0\<rparr>"

definition demo_resolver :: resolver where
  "demo_resolver = (\<lambda>addr. Some [if addr = ''::1'' then AF_INET6 else AF_INET])"

definition demo_process :: "bool \<times> io" where
  "demo_process = run_state (run_io demo_resolver local_config [Ready 5, Ready 7, Signal])
     (process_start [] [[], [], [], [], [], [Accepted loopback4 AF_INET], [Accepted loopback4 AF_INET, Would_block]])"

text \<open>The socket peer (descriptor 9) is closed at the end, the HTTP connection (10) is not.\<close>

lemma demo_process_ends: "fst demo_process \<and> map fst (endpoints (snd demo_process)) = [10]"
  by code_simp


subsection \<open>Corners\<close>

text \<open>A socket that cannot be made non-blocking is closed by \<open>prepare_peer_socket\<close> and again by its caller.\<close>

lemma failed_fcntl_closes_twice:
  "io_faults (snd (run_state (accept_common (Some handle_new_jet_connection) [Accepted loopback4 AF_INET])
     (process_start [False] []))) = [Bad_close 3]"
  by code_simp

text \<open>An aborted connection, or a process out of descriptors, ends the daemon.\<close>

lemma failed_accept_ends_loop:
  "fst (run_state (accept_common h [Accept_failed]) io) = EL_ABORT_LOOP"
  by simp

text \<open>When the loop does not take the descriptor of a new peer, the peer stays, and nothing will ever read from it.\<close>

lemma peer_outside_the_loop:
  "let io = snd (run_state (accept_common (Some handle_new_jet_connection) [Accepted loopback4 AF_INET])
      (process_start [True, True, True, True, True, True, True, True, True, True, False] []))
   in map fst (endpoints io) = [3] \<and> watched io = []"
  by code_simp

text \<open>Which peers count as local: the two forms of the loopback address, and over a Unix domain socket none that has no name.\<close>

lemma localhost_addresses:
  "length a = 4 \<Longrightarrow> is_localhost \<lparr>ss_family = AF_INET, ss_data = port @ a @ rest\<rparr> \<longleftrightarrow> a = [127, 0, 0, 1]" if "length port = 2"
  for a :: "8 word list" and port rest
  using that by (simp add: is_localhost_def)

lemma localhost_addresses6:
  "length port_flow = 6 \<Longrightarrow> length a = 16 \<Longrightarrow> is_localhost \<lparr>ss_family = AF_INET6, ss_data = port_flow @ a @ rest\<rparr> \<longleftrightarrow>
     a = replicate 10 0 @ [255, 255, 127, 0, 0, 1] \<or> a = replicate 15 0 @ [1]"
  by (simp add: is_localhost_def Let_def)

lemma unix_peer_is_not_local: "\<not> is_localhost \<lparr>ss_family = AF_UNIX, ss_data = replicate 126 0\<rparr>"
  by code_simp

end
