(* ===== verification/Process.thy ===== *)
theory Process
  imports Linux_Io
begin

text \<open>
  The start of the process and its end: \<^verbatim>\<open>src/src/posix/main.c\<close>.

  \<open>main\<close> opens the source of random numbers, loads the password file, creates the element table and runs
  \<open>run_io\<close>; \<open>held_resources\<close> is what it has acquired.  What the three contain is modelled in the other
  components.  \<^verbatim>\<open>getopt\<close> is the list of the options it finds, \<open>CHR ''?''\<close> for one it does not know.
\<close>

datatype resource = Random_source | Passwd_data | Element_table

record process =
  process_io :: io
  held_resources :: "resource list"
  bad_releases :: "resource list"

type_synonym 'a process_m = "(process, 'a) state"

definition on_io :: "'a io_m \<Rightarrow> 'a process_m" where
  "on_io m = do {
     s \<leftarrow> State_Monad.get;
     case run_state m (process_io s) of (r, io) \<Rightarrow> do { State_Monad.set (s\<lparr>process_io := io\<rparr>); State_Monad.return r } }"

definition acquire :: "resource \<Rightarrow> bool process_m" where
  "acquire x = do {
     ok \<leftarrow> on_io call_ok;
     s \<leftarrow> State_Monad.get;
     (if ok then State_Monad.set (s\<lparr>held_resources := held_resources s @ [x]\<rparr>) else State_Monad.return ());
     State_Monad.return ok }"

definition release :: "resource \<Rightarrow> unit process_m" where
  "release x = do {
     s \<leftarrow> State_Monad.get;
     if x \<in> set (held_resources s) then State_Monad.set (s\<lparr>held_resources := remove1 x (held_resources s)\<rparr>)
     else State_Monad.set (s\<lparr>bad_releases := bad_releases s @ [x]\<rparr>) }"

text \<open>The default path comes from the build's configuration.\<close>

definition default_config :: "string \<Rightarrow> cmdline_config" where
  "default_config websocket_path = \<lparr>run_foreground = False, bind_local_only = False, user_name = None, passwd_file = None,
     request_target = websocket_path, compression_level = 0\<rparr>"

text \<open>The loop over the options; a later option overrides an earlier one.\<close>

fun parse_options :: "(char \<times> string) list \<Rightarrow> cmdline_config \<Rightarrow> cmdline_config option" where
  "parse_options [] config = Some config"
| "parse_options ((c, optarg) # rest) config =
    (if c = CHR ''f'' then parse_options rest (config\<lparr>run_foreground := True\<rparr>)
     else if c = CHR ''l'' then parse_options rest (config\<lparr>bind_local_only := True\<rparr>)
     else if c = CHR ''p'' then parse_options rest (config\<lparr>passwd_file := Some optarg\<rparr>)
     else if c = CHR ''r'' then parse_options rest (config\<lparr>request_target := optarg\<rparr>)
     else if c = CHR ''u'' then parse_options rest (config\<lparr>user_name := Some optarg\<rparr>)
     else if c = CHR ''?'' then None
     else parse_options rest config)"

text \<open>The exit status is \<open>True\<close> for \<^verbatim>\<open>EXIT_SUCCESS\<close>.\<close>

definition main :: "string \<Rightarrow> resolver \<Rightarrow> (char \<times> string) list \<Rightarrow> loop_event list \<Rightarrow> bool process_m" where
  "main websocket_path resolve options events = do {
     random \<leftarrow> acquire Random_source;
     if \<not> random then State_Monad.return False
     else do {
       ret \<leftarrow> (case parse_options options (default_config websocket_path) of
            None \<Rightarrow> State_Monad.return False
          | Some config \<Rightarrow> do {
              loaded \<leftarrow> acquire Passwd_data;
              if \<not> loaded then State_Monad.return False
              else do {
                on_io (io_modify (\<lambda>s. s\<lparr>on_pipe := SIG_IGN\<rparr>));
                created \<leftarrow> acquire Element_table;
                ret \<leftarrow> (if \<not> created then State_Monad.return False
                       else do {
                         ret \<leftarrow> on_io (run_io resolve config events);
                         release Element_table;
                         State_Monad.return ret });
                release Passwd_data;
                State_Monad.return ret } });
       release Random_source;
       State_Monad.return ret } }"

subsection \<open>What was acquired is released\<close>

lemma run_on_io: "run_state (on_io m) s = (fst (run_state m (process_io s)), s\<lparr>process_io := snd (run_state m (process_io s))\<rparr>)"
  by (simp add: on_io_def split: prod.split)

lemma run_acquire:
  "run_state (acquire x) s = (let (ok, io) = run_state call_ok (process_io s)
     in (ok, s\<lparr>process_io := io, held_resources := held_resources s @ (if ok then [x] else [])\<rparr>))"
  by (simp add: acquire_def run_on_io Let_def split: prod.split)

text \<open>
  Every exit of \<open>main\<close> has released what it acquired, each once; a regular exit needs options that are all known,
  and a run that ended regularly.
\<close>

lemma main_releases:
  assumes "held_resources s = []" "run_state (main websocket_path resolve options events) s = (ok, s')"
  shows "held_resources s' = [] \<and> bad_releases s' = bad_releases s"
    and "ok \<Longrightarrow> \<exists>config io. parse_options options (default_config websocket_path) = Some config \<and>
      fst (run_state (run_io resolve config events) io) \<and> process_io s' = snd (run_state (run_io resolve config events) io)"
  using assms
  by (auto simp: main_def run_acquire run_on_io release_def Let_def split: prod.splits if_splits option.splits)

lemma options_override: "parse_options (xs @ ys) c = Option.bind (parse_options xs c) (parse_options ys)"
  by (induction xs c rule: parse_options.induct) simp_all

end
