(* ===== verification/Spec2Isabelle.thy ===== *)
theory Spec2Isabelle
  imports Scenario Requests Replies Ownership Socket_Peer Json_Peer Websocket_Peer Http_Connection Utf8_Checker Base64 Sha1 Masking Compression Eventloop Allocator Intrusive_List Peer_Log Process
begin

text \<open>
  A verification library for cjet, a daemon that distributes the states and methods of its peers (the
  jet protocol, JSON-RPC 2.0 over stream sockets and websockets).

  \<^bold>\<open>The program and its parts.\<close>  \<^verbatim>\<open>main\<close> (\<^verbatim>\<open>posix/main.c\<close>) sets the process up and \<^verbatim>\<open>run_io\<close> (\<^verbatim>\<open>linux_io.c\<close>)
  starts its servers in the event loop (\<^verbatim>\<open>eventloop_epoll.c\<close>).  An accepted connection becomes a socket peer
  (\<^verbatim>\<open>socket_peer.c\<close>) or an HTTP connection (\<^verbatim>\<open>http_connection.c\<close>), which may upgrade to a websocket
  (\<^verbatim>\<open>websocket.c\<close>, \<^verbatim>\<open>websocket_peer.c\<close>); both read and write through \<^verbatim>\<open>buffered_socket.c\<close>.  The messages
  they deliver are parsed by \<^verbatim>\<open>cJSON.c\<close>, \<^verbatim>\<open>parse.c\<close> dispatches each request to its
  handler, and the handlers share one state: the peers (\<^verbatim>\<open>peer.c\<close>) with their elements (\<^verbatim>\<open>element.c\<close>)
  and fetches (\<^verbatim>\<open>fetch.c\<close>), the table of element paths (\<^verbatim>\<open>table.c\<close>, \<^verbatim>\<open>hashtable.h\<close>), the routed requests that
  wait for an answer (\<^verbatim>\<open>router.c\<close>, with timers), and the users and groups (\<^verbatim>\<open>authenticate.c\<close>,
  \<^verbatim>\<open>auth_file.c\<close>, \<^verbatim>\<open>groups.c\<close>).

  \<^bold>\<open>Theories and sources.\<close>
  \<^item> \<open>Prelude\<close>: the calculus of state-monad programs (\<open>valid\<close>, \<open>keeps\<close>), the loops and shared lemmas.
  \<^item> \<open>Hashtable\<close>: \<^verbatim>\<open>hashtable.h\<close>, a hopscotch hash table of strings; a locale for string tables with the
    finite map as its specification, interpreted on the code's operations.
  \<^item> \<open>Json\<close>: the accessors and constructors of \<^verbatim>\<open>json/cJSON.c\<close> on values.
  \<^item> \<open>Broker_State\<close>: the state of the daemon and the primitive effects (allocation, sending, timers), each
    of which takes its outcome from the list \<open>env\<close> of the environment's answers.
  \<^item> \<open>Response\<close>, \<open>Timer\<close>, \<open>Access_Groups\<close>, \<open>Table\<close>, \<open>Fetch\<close>, \<open>Router\<close>, \<open>Element\<close>, \<open>Peer\<close>, \<open>Auth\<close>,
    \<open>Parse\<close>: one theory for each of the source files of that name, every function a definition.
  \<^item> \<open>Subscription\<close>, \<open>Broker_Invariant\<close>, \<open>Broker_Proofs\<close>, \<open>Broker_System\<close>: the invariant of the broker
    (\<open>consistent\<close>, and \<open>exact\<close> while nothing fails), its preservation by every handler, and the events of the
    event loop with the states they reach.  \<open>Scenario\<close> is a concrete run, for witnesses.
  \<^item> \<open>Requests\<close>: single requests on top of the invariant: who may route, what becomes of a routed request,
    whom a change reaches.  \<open>Replies\<close>: the forms of JSON-RPC messages, and that every request is answered, with
    locales for the parts that notify, answer and route.  \<open>Ownership\<close>: what the events of a peer cannot
    change of the other peers.
  \<^item> \<open>Buffered_Socket\<close>: \<^verbatim>\<open>buffered_socket.c\<close> with the kernel's side of a socket; the reader refines a client
    of a byte stream, the writer a byte queue (a locale, interpreted on the code).
  \<^item> \<open>Jet_Endian\<close>, \<open>Socket_Peer\<close>: \<^verbatim>\<open>jet_endian.c\<close> and \<^verbatim>\<open>socket_peer.c\<close>, the framing of messages.
  \<^item> \<open>Json_Text\<close>: the printer and the parser of \<^verbatim>\<open>json/cJSON.c\<close> on characters; \<open>Json_Peer\<close> puts them between the
    framing and the broker.
  \<^item> \<open>Websocket\<close>, \<open>Websocket_Rules\<close>, \<open>Websocket_Upgrade\<close>, \<open>Websocket_Peer\<close>: the frames of \<^verbatim>\<open>websocket.c\<close> in both
    directions, the frames that are refused, the upgrade with its negotiation, and \<^verbatim>\<open>websocket_peer.c\<close>.
  \<^item> \<open>Utf8_Checker\<close>, \<open>Base64\<close>, \<open>Sha1\<close>, \<open>Masking\<close>, \<open>Compression\<close>: the byte-level routines of the websocket
    transport, each against its specification.
  \<^item> \<open>Http_Connection\<close>: \<^verbatim>\<open>http_server.c\<close>, \<^verbatim>\<open>http_connection.c\<close> and the header lines of a websocket.
  \<^item> \<open>Eventloop\<close>, \<open>Linux_Io\<close>, \<open>Process\<close>: \<^verbatim>\<open>linux/eventloop_epoll.c\<close>, \<^verbatim>\<open>linux/linux_io.c\<close>, \<^verbatim>\<open>posix/main.c\<close>.
  \<^item> \<open>Allocator\<close>, \<open>Intrusive_List\<close>, \<open>Peer_Log\<close>: \<^verbatim>\<open>alloc.c\<close>, \<^verbatim>\<open>list.h\<close> on a store of pointers, and the log
    lines of \<^verbatim>\<open>peer.c\<close>.

  \<^bold>\<open>State and operations.\<close>  Pointers are references into finite maps and are never reused, so a
  dangling one stays visible; a NULL or dangling dereference, an overflow or another undefined step is
  recorded as a fault.  Inside the broker messages are JSON values; what a peer was sent is a log.  The broker
  leaves logging out.  The HTTP parser, the conversions between numbers and their digits, \<^verbatim>\<open>crypt\<close>, random bytes and
  zlib are parameters, quantified over in every theorem that uses them.

  \<^bold>\<open>Bounds.\<close>  No theorem about the broker bounds the number of peers, elements or events.  Loops over
  hash tables, buffers, streams and kernel events terminate by measures or on lists.  The JSON parser has fuel, one more
  than the length of the text, which is proved to be enough; the loop over a ring of pointers is a partial
  function, and proved to end on every well-formed ring.  Hash tables have
  \<open>2 ^ order\<close> slots for any order below 32 (\<open>config_ok\<close>).

  \<^bold>\<open>What the lemmas show.\<close>  For the broker: no dangling subscription, exact subscriptions, the element
  table as a map, clean-up at a disconnect; every request is answered once, every message sent has a form of
  JSON-RPC, routing needs access, an answer finds its requester, a change reaches its subscribers.  For the
  transports: the meaning of the stream does not depend on
  chunks, nothing is lost, repeated or reordered while calls succeed, send and receive are inverse, malformed frames are
  refused, connections are freed exactly once.  For JSON text: printing and parsing are inverse, the parser ends and
  stays inside its buffer.
  For the byte routines: agreement with UTF-8, base64, FIPS 180-1 and RFC 6455.  For the process: who owns a
  descriptor or a block, that no removed event is called, that the heap limit holds, that list operations are
  what they are meant to be on lists.  Some theorems are about
  defects: they give the input on which the code departs from what it is meant to do.

  \<^bold>\<open>Not modelled.\<close>  The vendored HTTP parser and zlib, the other functions of the cJSON library, which the
  daemon does not call, reading \<^verbatim>\<open>/dev/urandom\<close> (\<^verbatim>\<open>random.c\<close>), syslog,
  the Windows port and the test programs: code that is not the project's own, or another platform's.
\<close>

subsection \<open>Subscriptions\<close>

text \<open>C1: No dangling subscription.  Whatever messages arrive, whatever fails, whoever disconnects: a
  fetch that stands in the fetcher table of an element is alive, is linked at a peer that is still
  connected, accepts the path, belongs to a peer with access to the element, and stands there once.\<close>
theorem no_dangling_subscription:
  assumes "config_ok c" and "reachable ex (start c groups users) w"
    and "elements w e = Some el" and "Some f \<in> set (fetcher_table el)"
  shows "\<exists>ft pr. fetches w f = Some ft \<and> peers w (f_peer ft) = Some pr \<and> f \<in> set (fetch_list pr) \<and>
    path_matches ft (e_path el) \<and>
    access_allowed (all_groups w) (e_fetch_groups el) (p_fetch_groups pr) \<and>
    count_list (fetcher_table el) (Some f) = 1"
proof -
  have c: "consistent w" by (rule reachable_consistent [OF assms(1,2)])
  from subs_live [OF c assms(3,4)] consistent_butD(6) [OF c, of f] assms(3) show ?thesis
    by (fastforce simp: wants_def entitled_def subs_def split: option.splits)
qed

theorem no_dangling_subscription_witness:
  "\<exists>ft pr. fetches demo_world 5 = Some ft \<and> peers demo_world (f_peer ft) = Some pr \<and> 5 \<in> set (fetch_list pr) \<and>
    path_matches ft ''a/b'' \<and> access_allowed (all_groups demo_world) 0 (p_fetch_groups pr) \<and>
    count_list [Some (5::nat)] (Some 5) = 1"
  using no_dangling_subscription [OF demo_config_ok demo_reachable demo_element, of 5] by simp

text \<open>C2: Subscriptions are exact.  As long as no allocation and no send fails, a fetch stands in the
  table of an element exactly when its peer has access to the element and its matchers accept the path:
  no notification is lost and none goes to a peer that may not see it.\<close>
theorem subscriptions_exact:
  assumes "config_ok c" and "reachable_ok ex (start c groups users) w"
    and "elements w e = Some el" and "fetches w f = Some ft"
  shows "Some f \<in> set (fetcher_table el) \<longleftrightarrow>
    (\<exists>pr. peers w (f_peer ft) = Some pr \<and> access_allowed (all_groups w) (e_fetch_groups el) (p_fetch_groups pr)) \<and>
    path_matches ft (e_path el)"
proof -
  have c: "consistent w" and x: "exact w" using reachable_ok_exact [OF assms(1,2)] by auto
  have "Some f \<in> set (fetcher_table el) \<longleftrightarrow> wants w e f"
  proof
    show "Some f \<in> set (fetcher_table el) \<Longrightarrow> wants w e f" by (rule subs_live(1) [OF c assms(3)])
    assume "wants w e f"
    then have "count_list (fetcher_table el) (Some f) = 1"
      using x assms(3) by (simp add: exact_def subs_def split: option.splits)
    then show "Some f \<in> set (fetcher_table el)" using count_list_0_iff [of "fetcher_table el" "Some f"] by simp
  qed
  then show ?thesis using assms(3,4) by (auto simp: wants_def entitled_def split: option.splits)
qed

theorem subscriptions_exact_witness:
  "Some 5 \<in> set [Some (5::nat)] \<longleftrightarrow>
    (\<exists>pr. peers demo_world 2 = Some pr \<and> access_allowed (all_groups demo_world) 0 (p_fetch_groups pr)) \<and>
    path_matches demo_fetch_object ''a/b''"
  using subscriptions_exact [OF demo_config_ok demo_reachable_ok demo_element demo_fetch_live]
  by (simp add: demo_fetch_object_def)

text \<open>C3: The element table is the map of paths.  In every reachable state a path is found in the hash
  table exactly when an element has it, and no two elements share a path.\<close>
theorem element_table_is_path_map:
  assumes "config_ok c" and "reachable ex (start c groups users) w"
  shows "(lookup_element w path = Some e \<longleftrightarrow> (\<exists>el. elements w e = Some el \<and> e_path el = path)) \<and>
    (elements w e1 = Some el1 \<and> elements w e2 = Some el2 \<and> e_path el1 = e_path el2 \<longrightarrow> e1 = e2)"
proof -
  have c: "consistent w" by (rule reachable_consistent [OF assms])
  have l: "lookup_element w path = Some e \<longleftrightarrow> (\<exists>el. elements w e = Some el \<and> e_path el = path)" for path e
    using consistent_butD(7) [OF c, of path e] by simp
  have "e1 = e2" if "elements w e1 = Some el1" "elements w e2 = Some el2" "e_path el1 = e_path el2"
  proof -
    have "lookup_element w (e_path el1) = Some e1" "lookup_element w (e_path el1) = Some e2"
      using that l by auto
    then show ?thesis by simp
  qed
  then show ?thesis by (simp add: l)
qed

theorem element_table_is_path_map_witness: "lookup_element demo_world ''a/b'' = Some 4"
  using element_table_is_path_map [OF demo_config_ok demo_reachable, of "''a/b''" 4] by (simp add: demo_element)



end
